(* ===== verification/OS_Prelude.thy ===== *)
theory OS_Prelude
  imports Main "HOL-Library.Word" "HOL-Library.Multiset"
begin

text \<open>
  Shared ground of the development: the fixed-width integer types of the Rust sources, the
  result type of fallible operations, the vector and queue operations of the standard library
  that the sources use (\<^verbatim>\<open>position\<close>, \<^verbatim>\<open>remove\<close>, \<^verbatim>\<open>insert\<close>, \<^verbatim>\<open>copy_from_slice\<close>, the little-endian
  byte conversions), and the lemmas about them that carry the component proofs.

  Conventions used throughout.
  \<^item> \<^verbatim>\<open>u8\<close>, \<^verbatim>\<open>u32\<close> and \<^verbatim>\<open>u64\<close> values whose wrap-around, bit pattern or sentinel matters are words.
    Arithmetic on them wraps, as it does in the release profile (\<^verbatim>\<open>Cargo.toml\<close> sets no
    \<^verbatim>\<open>overflow-checks\<close>); \<^verbatim>\<open>checked_\<close> and \<^verbatim>\<open>saturating_\<close> operations are written out.
  \<^item> \<^verbatim>\<open>usize\<close> indices, sizes and counters are natural numbers; where the source tests for overflow
    the bound \<open>2 ^ 64\<close> is written out, and where it subtracts, an invariant shows that the
    subtraction does not underflow.
  \<^item> \<^verbatim>\<open>HashMap\<close> is a partial map. Where the code iterates over one, the iteration order is an
    argument of the definition.
  \<^item> \<^verbatim>\<open>Result<T, E>\<close> is \<open>E + T\<close>, \<^verbatim>\<open>Option<T>\<close> is \<open>T option\<close>.
  \<^item> A standard mutex only fails to lock when a thread panicked while holding it; poisoning is not
    modelled. Wall-clock stamps that no code reads are left out.
\<close>

unbundle bit_operations_syntax

named_theorems queue_simps \<open>what a queue or vector operation does to contents and length\<close>
named_theorems inv_intros \<open>an operation keeps its component's invariant\<close>
named_theorems frame_simps \<open>fields an operation leaves alone\<close>

type_synonym u8 = "8 word"
type_synonym u16 = "16 word"
type_synonym u32 = "32 word"
type_synonym u64 = "64 word"
type_synonym ('e, 'a) result = "'e + 'a"

section \<open>Results\<close>

text \<open>The question-mark operator: the first error is returned, a success is passed on.\<close>

primrec rbind :: "('e, 'a) result \<Rightarrow> ('a \<Rightarrow> ('e, 'b) result) \<Rightarrow> ('e, 'b) result" where
  "rbind (Inl e) f = Inl e"
| "rbind (Inr a) f = f a"

primrec map_err :: "('e \<Rightarrow> 'f) \<Rightarrow> ('e, 'a) result \<Rightarrow> ('f, 'a) result" where
  "map_err g (Inl e) = Inl (g e)"
| "map_err g (Inr a) = Inr a"

definition is_ok :: "('e, 'a) result \<Rightarrow> bool" where
  "is_ok r = (case r of Inl _ \<Rightarrow> False | Inr _ \<Rightarrow> True)"

lemma is_ok_simps [simp]: "is_ok (Inr a)" "\<not> is_ok (Inl e)"
  by (simp_all add: is_ok_def)

lemma rbind_eq_Inr: "rbind r f = Inr b \<longleftrightarrow> (\<exists>a. r = Inr a \<and> f a = Inr b)"
  by (cases r) auto

lemma rbind_eq_Inl: "rbind r f = Inl e \<longleftrightarrow> r = Inl e \<or> (\<exists>a. r = Inr a \<and> f a = Inl e)"
  by (cases r) auto

lemma map_err_eq_Inr [simp]: "map_err g r = Inr a \<longleftrightarrow> r = Inr a"
  by (cases r) auto

lemma map_err_eq_Inl: "map_err g r = Inl f \<longleftrightarrow> (\<exists>e. r = Inl e \<and> f = g e)"
  by (cases r) auto

text \<open>
  The same operator for a method that also updates its object: the update made before an error stays.
\<close>

definition sbind :: "('s \<Rightarrow> ('e, 'a) result \<times> 's) \<Rightarrow> ('a \<Rightarrow> 's \<Rightarrow> ('e, 'b) result \<times> 's) \<Rightarrow> 's \<Rightarrow> ('e, 'b) result \<times> 's" where
  "sbind f g s = (case f s of (Inl e, s') \<Rightarrow> (Inl e, s') | (Inr a, s') \<Rightarrow> g a s')"

lemma sbind_Inr: "f s = (Inr a, s') \<Longrightarrow> sbind f g s = g a s'"
  by (simp add: sbind_def)

lemma sbind_Inl: "f s = (Inl e, s') \<Longrightarrow> sbind f g s = (Inl e, s')"
  by (simp add: sbind_def)

lemma sbind_cases:
  assumes "sbind f g s = (r, s')"
  obtains (err) e where "f s = (Inl e, s')" "r = Inl e"
    | (ok) a t where "f s = (Inr a, t)" "g a t = (r, s')"
  using assms unfolding sbind_def by (auto split: prod.splits sum.splits)

section \<open>Vectors and queues\<close>

text \<open>\<^verbatim>\<open>iter().position(p)\<close>: the index of the first element that satisfies the predicate.\<close>

fun position :: "('a \<Rightarrow> bool) \<Rightarrow> 'a list \<Rightarrow> nat option" where
  "position p [] = None"
| "position p (x # xs) = (if p x then Some 0 else map_option Suc (position p xs))"

text \<open>\<^verbatim>\<open>Vec::remove(i)\<close> and \<^verbatim>\<open>Vec::insert(i, x)\<close> at an index that is in range.\<close>

definition remove_at :: "nat \<Rightarrow> 'a list \<Rightarrow> 'a list" where
  "remove_at i xs = take i xs @ drop (Suc i) xs"

definition insert_at :: "nat \<Rightarrow> 'a \<Rightarrow> 'a list \<Rightarrow> 'a list" where
  "insert_at i x xs = take i xs @ x # drop i xs"

text \<open>Reading and overwriting a range of a byte vector.\<close>

definition subvec :: "nat \<Rightarrow> nat \<Rightarrow> 'a list \<Rightarrow> 'a list" where
  "subvec a n xs = take n (drop a xs)"

definition overwrite :: "nat \<Rightarrow> 'a list \<Rightarrow> 'a list \<Rightarrow> 'a list" where
  "overwrite a ys xs = take a xs @ ys @ drop (a + length ys) xs"

lemma position_SomeD:
  "position p xs = Some i \<Longrightarrow> i < length xs \<and> p (xs ! i) \<and> (\<forall>j < i. \<not> p (xs ! j))"
proof (induction xs arbitrary: i)
  case (Cons x xs)
  show ?case
  proof (cases "p x")
    case False
    with Cons.prems obtain k where "position p xs = Some k" "i = Suc k" by auto
    with Cons.IH False show ?thesis by (auto simp: less_Suc_eq_0_disj)
  qed (use Cons.prems in auto)
qed simp

lemma position_None_iff: "position p xs = None \<longleftrightarrow> (\<forall>x \<in> set xs. \<not> p x)"
  by (induction xs) auto

lemma position_Some_mem: "position p xs = Some i \<Longrightarrow> xs ! i \<in> set xs \<and> p (xs ! i)"
  by (auto dest: position_SomeD)

lemma mset_remove_at [queue_simps]:
  "i < length xs \<Longrightarrow> mset (remove_at i xs) = mset xs - {#xs ! i#}"
  by (subst (2) id_take_nth_drop [of i xs]) (simp_all add: remove_at_def)

lemma set_remove_at_subset: "set (remove_at i xs) \<subseteq> set xs"
  by (auto simp: remove_at_def dest: in_set_takeD in_set_dropD)

lemma length_remove_at [queue_simps]: "i < length xs \<Longrightarrow> length (remove_at i xs) = length xs - 1"
  by (simp add: remove_at_def)

lemma distinct_remove_at: "distinct xs \<Longrightarrow> distinct (remove_at i xs)"
  unfolding remove_at_def
  by (auto dest: in_set_takeD in_set_dropD)
     (metis Suc_leD disjoint_iff le_refl set_take_disj_set_drop_if_distinct)

lemma set_remove_at_distinct:
  assumes "distinct xs" and "i < length xs"
  shows "set (remove_at i xs) = set xs - {xs ! i}"
proof -
  have "mset (remove_at i xs) = mset xs - {#xs ! i#}"
    using assms(2) by (rule mset_remove_at)
  moreover have "distinct (remove_at i xs)"
    using assms(1) by (rule distinct_remove_at)
  ultimately show ?thesis
    using assms by (metis distinct_remove1 mset_remove1 set_mset_mset set_remove1_eq)
qed

lemma mset_insert_at [queue_simps]: "mset (insert_at i x xs) = add_mset x (mset xs)"
  by (simp add: insert_at_def flip: union_code) (metis append_take_drop_id mset_append)

lemma length_insert_at [queue_simps]: "length (insert_at i x xs) = Suc (length xs)"
  by (simp add: insert_at_def)

lemma set_insert_at [queue_simps]: "set (insert_at i x xs) = insert x (set xs)"
  by (metis mset_insert_at set_mset_add_mset_insert set_mset_mset)

lemma length_subvec [simp]: "a + n \<le> length xs \<Longrightarrow> length (subvec a n xs) = n"
  by (simp add: subvec_def)

lemma subvec_nth: "a + n \<le> length xs \<Longrightarrow> i < n \<Longrightarrow> subvec a n xs ! i = xs ! (a + i)"
  by (simp add: subvec_def)

lemma length_overwrite [simp]: "a + length ys \<le> length xs \<Longrightarrow> length (overwrite a ys xs) = length xs"
  by (simp add: overwrite_def)

lemma nth_overwrite:
  assumes "a + length ys \<le> length xs" and "i < length xs"
  shows "overwrite a ys xs ! i = (if a \<le> i \<and> i < a + length ys then ys ! (i - a) else xs ! i)"
  using assms by (auto simp: overwrite_def nth_append min_def)

lemma subvec_overwrite_same: "a + length ys \<le> length xs \<Longrightarrow> subvec a (length ys) (overwrite a ys xs) = ys"
  by (simp add: subvec_def overwrite_def)

lemma subvec_overwrite_disjoint:
  assumes "a + length ys \<le> length xs" and "b + n \<le> length xs"
    and "b + n \<le> a \<or> a + length ys \<le> b"
  shows "subvec b n (overwrite a ys xs) = subvec b n xs"
  using assms by (intro nth_equalityI) (auto simp: subvec_nth nth_overwrite)

lemma subvec_all [simp]: "length xs = n \<Longrightarrow> subvec 0 n xs = xs"
  by (simp add: subvec_def)

lemma subvec_append_left: "length ys = n \<Longrightarrow> subvec 0 n (ys @ zs) = ys"
  by (simp add: subvec_def)

section \<open>Little-endian bytes\<close>

text \<open>\<^verbatim>\<open>to_le_bytes\<close> and \<^verbatim>\<open>from_le_bytes\<close>, for a word of any width.\<close>

primrec to_le :: "nat \<Rightarrow> 'a::len word \<Rightarrow> u8 list" where
  "to_le 0 w = []"
| "to_le (Suc n) w = ucast w # to_le n (drop_bit 8 w)"

primrec from_le :: "u8 list \<Rightarrow> 'a::len word" where
  "from_le [] = 0"
| "from_le (b # bs) = ucast b OR push_bit 8 (from_le bs)"

lemma length_to_le [simp]: "length (to_le n w) = n"
  by (induction n arbitrary: w) auto

lemma from_le_to_le: "from_le (to_le n w) = take_bit (8 * n) (w :: 'a::len word)"
proof (induction n arbitrary: w)
  case (Suc n)
  have "(ucast (ucast w :: u8) :: 'a word) OR push_bit 8 (take_bit (8 * n) (drop_bit 8 w))
      = take_bit (8 * Suc n) w"
    by (rule bit_word_eqI) (auto simp: bit_simps)
  with Suc show ?case by simp
qed simp

lemma from_le_to_le_full: "LENGTH('a) \<le> 8 * n \<Longrightarrow> from_le (to_le n w) = (w :: 'a::len word)"
  by (simp add: from_le_to_le take_bit_word_eq_self)

lemma from_le_to_le32 [simp]: "from_le (to_le 4 (w :: u32)) = w"
  by (rule from_le_to_le_full) simp

lemma from_le_to_le64 [simp]: "from_le (to_le 8 (w :: u64)) = w"
  by (rule from_le_to_le_full) simp

lemma from_le_to_le16 [simp]: "from_le (to_le 2 (w :: u16)) = w"
  by (rule from_le_to_le_full) simp

lemma u8_bit_bound: "bit (b :: u8) i \<Longrightarrow> i < 8"
  using bit_imp_le_length [of b i] by simp

lemma from_le_bit_bound: "bit (from_le bs :: 'a::len word) i \<Longrightarrow> i < 8 * length bs"
proof (induction bs arbitrary: i)
  case (Cons c cs)
  show ?case
  proof (cases "i < 8")
    case False
    with Cons.prems have "bit (from_le cs :: 'a word) (i - 8)"
      by (auto simp: bit_simps dest: u8_bit_bound)
    from Cons.IH [OF this] False show ?thesis by simp
  qed simp
qed simp

lemma to_le_from_le:
  "8 * length bs \<le> LENGTH('a) \<Longrightarrow> to_le (length bs) (from_le bs :: 'a::len word) = bs"
proof (induction bs)
  case (Cons b bs)
  then have bound: "8 \<le> LENGTH('a)" and IH: "to_le (length bs) (from_le bs :: 'a word) = bs"
    by auto
  have low: "(ucast (ucast b OR push_bit 8 (from_le bs) :: 'a word) :: u8) = b"
    using bound by (intro bit_word_eqI) (auto simp: bit_simps)
  have high: "drop_bit 8 (ucast b OR push_bit 8 (from_le bs) :: 'a word) = from_le bs"
  proof (rule bit_word_eqI)
    fix i assume "i < LENGTH('a)"
    show "bit (drop_bit 8 (ucast b OR push_bit 8 (from_le bs) :: 'a word)) i = bit (from_le bs :: 'a word) i"
      using Cons.prems from_le_bit_bound [of bs i, where ?'a = 'a]
      by (auto simp: bit_simps dest: u8_bit_bound)
  qed
  show ?case using low high IH by simp
qed simp

end
