(* ===== verification/Messages.thy ===== *)
theory Messages
  imports OS_Prelude
begin

text \<open>
  The message vocabulary of the system (\<^verbatim>\<open>src/messaging/msg.rs\<close>) and the error and response
  values that travel with it (\<^verbatim>\<open>src/error.rs\<close>, \<^verbatim>\<open>src/messaging/response.rs\<close>). Constructors keep
  the source's names; where two enumerations share a variant name, the variant carries a prefix.
\<close>

section \<open>Identifiers and addresses\<close>

type_synonym pid = u64
type_synonym tid = u64
type_synonym virt_addr = u64
type_synonym phys_addr = u64

section \<open>Message payloads\<close>

datatype AccessType = Read | Write | Execute

record MemProt =
  readable :: bool
  writable :: bool
  executable :: bool

definition MemProt_new :: MemProt where
  "MemProt_new = \<lparr>readable = False, writable = False, executable = False\<rparr>"

definition MemProt_read_only :: MemProt where
  "MemProt_read_only = \<lparr>readable = True, writable = False, executable = False\<rparr>"

definition MemProt_read_write :: MemProt where
  "MemProt_read_write = \<lparr>readable = True, writable = True, executable = False\<rparr>"

definition MemProt_execute :: MemProt where
  "MemProt_execute = \<lparr>readable = False, writable = False, executable = True\<rparr>"

datatype Syscall =
    CreateProcess string "string list"
  | ExitProcess u32
  | CreateThread virt_addr
  | SysRead u32 virt_addr nat
  | SysWrite u32 virt_addr nat
  | Mmap nat MemProt
  | Munmap virt_addr nat

datatype Interrupt =
    TimerInterrupt
  | PageFaultInterrupt virt_addr AccessType
  | IoComplete u32
  | SyscallTrap
  | HardwareFailure string

datatype BlockReason =
    WaitingForIo u32
  | WaitingForMemory
  | WaitingForLock virt_addr
  | Sleeping u64
  | WaitingForChild pid

datatype SignalType =
    Terminate | Kill | Stop | Continue | User1 | User2 | Alarm | Child
  | SegmentationFault | IllegalInstruction | FloatingPointException

datatype IPCMessage =
    IpcText string
  | IpcBinary virt_addr nat
  | IpcPassFd u32
  | IpcSharedMemory u64
  | IpcSignal SignalType
  | IpcControl string "string list" "string option"

datatype FileSystemType = FAT32 | EXT4 | SimpleFS | ProcFS | UnknownFS

datatype SeekWhence = SeekSet | SeekCur | SeekEnd

record OpenFlags =
  of_read :: bool
  of_write :: bool
  of_create :: bool
  of_truncate :: bool
  of_append :: bool

datatype DeviceClass =
    BlockClass | CharClass | NetworkClass | TimerClass | GraphicsClass | ClipboardClass | UnknownClass

datatype DeviceConfig =
    SerialConfig u32 u8 u8 char
  | NetworkConfig string string string "u8 list"
  | BlockConfig u32 bool
  | GenericConfig string string

section \<open>Requests per service\<close>

datatype ProcessRequest =
    Schedule pid tid
  | Block pid tid BlockReason
  | Unblock pid tid
  | QueryState pid
  | ContextSwitch pid pid
  | SendMessage pid pid IPCMessage
  | ReceiveMessage pid bool
  | PeekMessage pid
  | CreateSharedMemory pid nat MemProt
  | AttachSharedMemory pid u64
  | DetachSharedMemory pid u64
  | CreateSemaphore pid u32
  | WaitSemaphore pid u64
  | SignalSemaphore pid u64
  | CreateLock pid
  | AcquireLock pid u64
  | ReleaseLock pid u64
  | ForkProcess pid
  | ExecProcess pid string "string list" "string option"
  | WaitChild pid "pid option"
  | Signal pid SignalType
  | GetProcessInfo pid
  | Spawn string "u8 list"
  | ListProcesses
  | ProcessGetStats
  | GetMemoryMap

datatype MemoryRequest =
    AllocFrame nat pid
  | FreeFrame phys_addr
  | MapPage pid virt_addr phys_addr MemProt
  | UnmapPage pid virt_addr
  | PageFaultHandler pid virt_addr AccessType
  | SwapOut pid virt_addr
  | SwapIn pid virt_addr
  | GetFrameMap
  | MemoryGetStats

datatype FileRequest =
    FileOpen string OpenFlags
  | FileClose u32
  | FileRead u32 u64 virt_addr nat
  | FileWrite u32 u64 virt_addr nat
  | WriteData u32 "u8 list"
  | Unlink string
  | Stat string
  | CreateDirectory string
  | RemoveDirectory string
  | OpenDirectory string
  | ReadDirectory u32
  | CloseDirectory u32
  | ListDir string
  | DiskInfo
  | Mount u32 string FileSystemType
  | Unmount string
  | FileSync
  | Chmod string u32
  | Chown string u32 u32
  | Link string string
  | Symlink string string
  | Readlink string
  | FileSeek u32 u64 SeekWhence
  | Tell u32
  | CloneFds pid pid

datatype DeviceRequest =
    DeviceRead u32 virt_addr nat
  | DeviceWrite u32 virt_addr nat
  | DeviceInit u32
  | Shutdown u32
  | DeviceReset u32
  | DeviceStatusQuery u32
  | RegisterDevice DeviceClass string
  | UnregisterDevice u32
  | ListDevices
  | GetDevicesByType DeviceClass
  | Ioctl u32 u32 virt_addr
  | EnableInterrupt u32 u32
  | DisableInterrupt u32 u32
  | SetConfig u32 DeviceConfig
  | GetConfig u32
  | ClipboardSet "u8 list"
  | ClipboardGet nat

datatype KernelMsg =
    SyscallMsg Syscall
  | InterruptMsg Interrupt
  | ProcessMsg ProcessRequest
  | MemoryMsg MemoryRequest
  | FileMsg FileRequest
  | DeviceMsg DeviceRequest

section \<open>Hardware errors\<close>

datatype MemoryError =
    OutOfBounds nat nat nat
  | Misaligned nat nat
  | Locked
  | AllocationFailed nat

datatype DiskError =
    InvalidSector u32 u32
  | IoFailed string u32
  | DiskBusy
  | NotReady
  | OutOfSpace

record ErrorPageFlags =
  epf_present :: bool
  epf_writable :: bool
  epf_user_accessible :: bool

datatype MMUError =
    PageNotPresent pid virt_addr
  | MmuPermissionDenied pid virt_addr AccessType ErrorPageFlags
  | InvalidPhysicalAddress phys_addr
  | PageTableNotFound pid
  | InvalidPageTableEntry pid virt_addr

datatype CPUError =
    InvalidInstruction u64 u8
  | DivideByZero u64
  | CpuPageFault virt_addr AccessType
  | InvalidRegister nat
  | Halted
  | InvalidMode string string
  | StackOverflow u64
  | StackUnderflow u64

section \<open>Service errors and responses\<close>

text \<open>The error a service handler returns to its own loop (\<^verbatim>\<open>error.rs\<close>).\<close>

datatype ServiceError =
    InvalidArguments string string
  | NotFound string string
  | PermissionDenied string string
  | ResourceExhausted string nat nat
  | ServiceIo string string
  | Timeout string u64 u64
  | NotImplemented string
  | OtherError u32 string

datatype TimerError =
    AlreadyRunning
  | NotRunning
  | InvalidInterval u64 u64 u64
  | InitFailed

datatype HardwareError =
    MemoryErr MemoryError
  | DiskErr DiskError
  | MMUErr MMUError
  | CPUErr CPUError
  | TimerErr TimerError
  | DeviceErr u32 string

datatype BusError =
    Disconnected
  | BusFull
  | NoReceiver string
  | SendFailed string

datatype GenshinError =
    HardwareE HardwareError
  | ServiceE ServiceError
  | BusE BusError
  | OtherE u32 string

text \<open>The error a service sends back to the requester (\<^verbatim>\<open>messaging/response.rs\<close>).\<close>

datatype MsgServiceError =
    MsgInvalidArguments string
  | MsgNotFound string string
  | MsgPermissionDenied string
  | MsgResourceExhausted string
  | MsgIo string
  | MsgTimeout string u64
  | MsgNotImplemented string
  | MsgOther u32 string

datatype ResponseData =
    Void
  | RPid u64
  | RTid u64
  | RFd u32
  | BytesProcessed nat
  | PhysicalAddr u64
  | DiskStats u32 nat u64
  | RBytes "u8 list"
  | RInteger u64
  | MemoryStats u64 u64 u64
  | FrameMap "(u64 \<times> u64) list"
  | RString string
  | RBool bool
  | StringList "string list"

datatype Response =
    ResponseSuccess u64 ResponseData
  | ResponseError u64 MsgServiceError

end
