(* ===== verification/Physical_Memory.thy ===== *)
theory Physical_Memory
  imports Messages
begin

text \<open>
  The physical RAM (\<^verbatim>\<open>src/hardware/memory.rs\<close>): a byte vector with bounds- and alignment-checked
  accesses of one, two, four and eight bytes and of whole slices. The locale \<open>byte_store\<close> states
  what the address-translation layer above relies on; the RAM is its interpretation.
\<close>

section \<open>State and operations\<close>

record PhysicalMemory =
  mem_data :: "u8 list"
  mem_size :: nat

text \<open>Creating a memory of size zero panics.\<close>

definition PhysicalMemory_new :: "nat \<Rightarrow> PhysicalMemory option" where
  "PhysicalMemory_new sz = (if sz = 0 then None else Some \<lparr>mem_data = replicate sz 0, mem_size = sz\<rparr>)"

definition checked_add_usize :: "nat \<Rightarrow> nat \<Rightarrow> nat option" where
  "checked_add_usize a b = (if a + b < 2 ^ 64 then Some (a + b) else None)"

definition check_bounds :: "PhysicalMemory \<Rightarrow> nat \<Rightarrow> nat \<Rightarrow> (MemoryError, unit) result" where
  "check_bounds m addr sz =
     (if (case checked_add_usize addr sz of None \<Rightarrow> True | Some e \<Rightarrow> e > mem_size m)
      then Inl (OutOfBounds addr sz (mem_size m)) else Inr ())"

definition check_alignment :: "nat \<Rightarrow> nat \<Rightarrow> (MemoryError, unit) result" where
  "check_alignment addr sz = (if addr mod sz \<noteq> 0 then Inl (Misaligned addr sz) else Inr ())"

definition mem_read_u8 :: "PhysicalMemory \<Rightarrow> nat \<Rightarrow> (MemoryError, u8) result" where
  "mem_read_u8 m addr = rbind (check_bounds m addr 1) (\<lambda>_. Inr (mem_data m ! addr))"

definition mem_read_u16 :: "PhysicalMemory \<Rightarrow> nat \<Rightarrow> (MemoryError, u16) result" where
  "mem_read_u16 m addr =
     rbind (check_alignment addr 2) (\<lambda>_. rbind (check_bounds m addr 2) (\<lambda>_.
       Inr (from_le [mem_data m ! addr, mem_data m ! (addr + 1)])))"

definition mem_read_u32 :: "PhysicalMemory \<Rightarrow> nat \<Rightarrow> (MemoryError, u32) result" where
  "mem_read_u32 m addr =
     rbind (check_alignment addr 4) (\<lambda>_. rbind (check_bounds m addr 4) (\<lambda>_.
       Inr (from_le [mem_data m ! addr, mem_data m ! (addr + 1), mem_data m ! (addr + 2), mem_data m ! (addr + 3)])))"

definition mem_read_u64 :: "PhysicalMemory \<Rightarrow> nat \<Rightarrow> (MemoryError, u64) result" where
  "mem_read_u64 m addr =
     rbind (check_alignment addr 8) (\<lambda>_. rbind (check_bounds m addr 8) (\<lambda>_.
       Inr (from_le (map (\<lambda>i. mem_data m ! (addr + i)) [0..<8]))))"

definition mem_write_u8 :: "PhysicalMemory \<Rightarrow> nat \<Rightarrow> u8 \<Rightarrow> (MemoryError, PhysicalMemory) result" where
  "mem_write_u8 m addr v = rbind (check_bounds m addr 1) (\<lambda>_. Inr (m\<lparr>mem_data := (mem_data m)[addr := v]\<rparr>))"

definition mem_write_u16 :: "PhysicalMemory \<Rightarrow> nat \<Rightarrow> u16 \<Rightarrow> (MemoryError, PhysicalMemory) result" where
  "mem_write_u16 m addr v =
     rbind (check_alignment addr 2) (\<lambda>_. rbind (check_bounds m addr 2) (\<lambda>_.
       Inr (m\<lparr>mem_data := overwrite addr (to_le 2 v) (mem_data m)\<rparr>)))"

definition mem_write_u32 :: "PhysicalMemory \<Rightarrow> nat \<Rightarrow> u32 \<Rightarrow> (MemoryError, PhysicalMemory) result" where
  "mem_write_u32 m addr v =
     rbind (check_alignment addr 4) (\<lambda>_. rbind (check_bounds m addr 4) (\<lambda>_.
       Inr (m\<lparr>mem_data := overwrite addr (to_le 4 v) (mem_data m)\<rparr>)))"

definition mem_write_u64 :: "PhysicalMemory \<Rightarrow> nat \<Rightarrow> u64 \<Rightarrow> (MemoryError, PhysicalMemory) result" where
  "mem_write_u64 m addr v =
     rbind (check_alignment addr 8) (\<lambda>_. rbind (check_bounds m addr 8) (\<lambda>_.
       Inr (m\<lparr>mem_data := overwrite addr (to_le 8 v) (mem_data m)\<rparr>)))"

text \<open>\<^verbatim>\<open>read_slice\<close> fills a buffer of the given length.\<close>

definition mem_read_slice :: "PhysicalMemory \<Rightarrow> nat \<Rightarrow> nat \<Rightarrow> (MemoryError, u8 list) result" where
  "mem_read_slice m addr len = rbind (check_bounds m addr len) (\<lambda>_. Inr (subvec addr len (mem_data m)))"

definition mem_write_slice :: "PhysicalMemory \<Rightarrow> nat \<Rightarrow> u8 list \<Rightarrow> (MemoryError, PhysicalMemory) result" where
  "mem_write_slice m addr buf =
     rbind (check_bounds m addr (length buf)) (\<lambda>_. Inr (m\<lparr>mem_data := overwrite addr buf (mem_data m)\<rparr>))"

definition mem_clear :: "PhysicalMemory \<Rightarrow> PhysicalMemory" where
  "mem_clear m = m\<lparr>mem_data := map (\<lambda>_. 0) (mem_data m)\<rparr>"

text \<open>The 256-byte preview of the memory monitor.\<close>

record MemoryState =
  ms_size :: nat
  preview :: "u8 list"

definition mem_dump_state :: "PhysicalMemory \<Rightarrow> MemoryState" where
  "mem_dump_state m = \<lparr>ms_size = mem_size m, preview = take 256 (mem_data m)\<rparr>"

section \<open>Well-formedness\<close>

text \<open>The size field is the length of the vector, and the vector is addressable.\<close>

definition mem_wf :: "PhysicalMemory \<Rightarrow> bool" where
  "mem_wf m \<longleftrightarrow> length (mem_data m) = mem_size m \<and> mem_size m < 2 ^ 64"

lemma check_bounds_data_update [simp]: "check_bounds (m\<lparr>mem_data := d\<rparr>) = check_bounds m"
  by (intro ext) (simp add: check_bounds_def split: option.split)

lemma check_bounds_Inr:
  "mem_wf m \<Longrightarrow> check_bounds m addr n = Inr u \<longleftrightarrow> addr + n \<le> mem_size m"
  by (auto simp: check_bounds_def checked_add_usize_def mem_wf_def)

lemma check_bounds_Inl:
  "mem_wf m \<Longrightarrow> check_bounds m addr n = Inl e \<longleftrightarrow> mem_size m < addr + n \<and> e = OutOfBounds addr n (mem_size m)"
  by (auto simp: check_bounds_def checked_add_usize_def mem_wf_def)

lemma check_bounds_cases:
  "mem_wf m \<Longrightarrow>
   check_bounds m addr n = (if addr + n \<le> mem_size m then Inr () else Inl (OutOfBounds addr n (mem_size m)))"
  by (auto simp: check_bounds_Inr check_bounds_Inl)

lemma PhysicalMemory_new_wf: "sz < 2 ^ 64 \<Longrightarrow> PhysicalMemory_new sz = Some m \<Longrightarrow> mem_wf m"
  by (auto simp: PhysicalMemory_new_def mem_wf_def split: if_splits)

lemma mem_write_u8_wf [inv_intros]: "mem_wf m \<Longrightarrow> mem_write_u8 m a v = Inr m' \<Longrightarrow> mem_wf m'"
  by (auto simp: mem_write_u8_def rbind_eq_Inr mem_wf_def)

lemma mem_write_slice_wf [inv_intros]: "mem_wf m \<Longrightarrow> mem_write_slice m a bs = Inr m' \<Longrightarrow> mem_wf m'"
  by (auto simp: mem_write_slice_def rbind_eq_Inr check_bounds_Inr mem_wf_def)

lemma mem_write_u32_wf [inv_intros]: "mem_wf m \<Longrightarrow> mem_write_u32 m a v = Inr m' \<Longrightarrow> mem_wf m'"
  by (auto simp: mem_write_u32_def rbind_eq_Inr check_bounds_Inr mem_wf_def)

lemma mem_clear_wf [inv_intros]: "mem_wf m \<Longrightarrow> mem_wf (mem_clear m)"
  by (simp add: mem_clear_def mem_wf_def)

section \<open>The byte-store interface\<close>

text \<open>
  What a client may assume of a byte-addressed store: a read succeeds exactly inside the store,
  a write succeeds exactly there too, changes the addressed byte and no other, and keeps the
  store's extent.
\<close>

locale byte_store =
  fixes rd :: "'s \<Rightarrow> nat \<Rightarrow> ('e, u8) result"
    and wr :: "'s \<Rightarrow> nat \<Rightarrow> u8 \<Rightarrow> ('e, 's) result"
    and extent :: "'s \<Rightarrow> nat"
    and wf :: "'s \<Rightarrow> bool"
  assumes rd_ok: "wf s \<Longrightarrow> is_ok (rd s a) \<longleftrightarrow> a < extent s"
    and wr_ok: "wf s \<Longrightarrow> is_ok (wr s a v) \<longleftrightarrow> a < extent s"
    and rd_wr: "wf s \<Longrightarrow> wr s a v = Inr s' \<Longrightarrow> a' < extent s \<Longrightarrow>
      rd s' a' = (if a' = a then Inr v else rd s a')"
    and wr_extent: "wf s \<Longrightarrow> wr s a v = Inr s' \<Longrightarrow> extent s' = extent s"
    and wr_wf: "wf s \<Longrightarrow> wr s a v = Inr s' \<Longrightarrow> wf s'"
begin

lemma rd_after_wr: "wf s \<Longrightarrow> wr s a v = Inr s' \<Longrightarrow> rd s' a = Inr v"
  using rd_wr [of s a v s' a] wr_ok [of s a v] by (simp add: is_ok_def)

lemma rd_other: "wf s \<Longrightarrow> wr s a v = Inr s' \<Longrightarrow> a' < extent s \<Longrightarrow> a' \<noteq> a \<Longrightarrow> rd s' a' = rd s a'"
  using rd_wr [of s a v s' a'] by simp

lemma wr_commute:
  assumes "wf s" "a \<noteq> b" "wr s a v = Inr s1" "wr s1 b w = Inr s2" "wr s b w = Inr t1" "wr t1 a v = Inr t2"
    and "c < extent s"
  shows "rd s2 c = rd t2 c"
proof -
  have "wf s1" "extent s1 = extent s" using assms(1,3) by (simp_all add: wr_wf wr_extent)
  moreover have "wf t1" "extent t1 = extent s" using assms(1,5) by (simp_all add: wr_wf wr_extent)
  ultimately have "rd s2 c = (if c = b then Inr w else rd s1 c)" "rd t2 c = (if c = a then Inr v else rd t1 c)"
    using assms rd_wr by metis+
  moreover have "rd s1 c = (if c = a then Inr v else rd s c)" "rd t1 c = (if c = b then Inr w else rd s c)"
    using assms rd_wr by metis+
  ultimately show ?thesis using assms(2) by (cases "c = a"; cases "c = b"; simp)
qed

end

interpretation ram: byte_store mem_read_u8 mem_write_u8 mem_size mem_wf
proof (standard, goal_cases)
  case 1 then show ?case by (auto simp: mem_read_u8_def check_bounds_cases)
next
  case 2 then show ?case by (auto simp: mem_write_u8_def check_bounds_cases)
next
  case 3 then show ?case
    by (auto simp: mem_write_u8_def mem_read_u8_def rbind_eq_Inr check_bounds_cases mem_wf_def
        check_bounds_def checked_add_usize_def split: if_splits)
next
  case 4 then show ?case by (auto simp: mem_write_u8_def rbind_eq_Inr)
next
  case 5 then show ?case by (rule mem_write_u8_wf)
qed

section \<open>Wider accesses\<close>

lemma nth_list4: "a + 4 \<le> length xs \<Longrightarrow> [xs ! a, xs ! (a + 1), xs ! (a + 2), xs ! (a + 3)] = subvec a 4 xs"
  by (intro nth_equalityI) (auto simp: subvec_nth less_Suc_eq eval_nat_numeral)

lemma mem_read_u32_eq:
  "mem_wf m \<Longrightarrow> a mod 4 = 0 \<Longrightarrow> a + 4 \<le> mem_size m \<Longrightarrow> mem_read_u32 m a = Inr (from_le (subvec a 4 (mem_data m)))"
  by (simp add: mem_read_u32_def check_alignment_def check_bounds_cases mem_wf_def nth_list4 [symmetric])

lemma mem_read_u32_misaligned: "a mod 4 \<noteq> 0 \<Longrightarrow> mem_read_u32 m a = Inl (Misaligned a 4)"
  by (simp add: mem_read_u32_def check_alignment_def)

lemma mem_write_u32_eq:
  "mem_wf m \<Longrightarrow> a mod 4 = 0 \<Longrightarrow> a + 4 \<le> mem_size m \<Longrightarrow>
   mem_write_u32 m a v = Inr (m\<lparr>mem_data := overwrite a (to_le 4 v) (mem_data m)\<rparr>)"
  by (simp add: mem_write_u32_def check_alignment_def check_bounds_cases)

lemma mem_read_u32_ok_iff:
  "mem_wf m \<Longrightarrow> is_ok (mem_read_u32 m a) \<longleftrightarrow> a mod 4 = 0 \<and> a + 4 \<le> mem_size m"
  by (auto simp: mem_read_u32_def check_alignment_def check_bounds_cases)

lemma mem_write_u32_Inr:
  "mem_wf m \<Longrightarrow> mem_write_u32 m a v = Inr m' \<longleftrightarrow>
     a mod 4 = 0 \<and> a + 4 \<le> mem_size m \<and> m' = m\<lparr>mem_data := overwrite a (to_le 4 v) (mem_data m)\<rparr>"
  by (auto simp: mem_write_u32_def check_alignment_def check_bounds_cases)

lemma mem_read_u32_after_write:
  "mem_wf m \<Longrightarrow> mem_write_u32 m a v = Inr m' \<Longrightarrow> mem_read_u32 m' a = Inr v"
  using mem_write_u32_wf [of m a v m'] subvec_overwrite_same [of a "to_le 4 v" "mem_data m"]
  by (auto simp: mem_write_u32_Inr mem_read_u32_eq mem_wf_def)

lemma mem_read_u8_after_write_u32:
  assumes "mem_wf m" "mem_write_u32 m a v = Inr m'" "b div 4 \<noteq> a div 4"
  shows "mem_read_u8 m' b = mem_read_u8 m b"
proof -
  have "\<not> (a \<le> b \<and> b < a + 4)" using assms by (auto simp: mem_write_u32_Inr)
  with assms show ?thesis
    by (auto simp: mem_write_u32_Inr mem_read_u8_def check_bounds_def mem_wf_def nth_overwrite
        checked_add_usize_def)
qed

lemma mem_read_u32_after_write_u32:
  assumes "mem_wf m" "mem_write_u32 m a v = Inr m'" "b div 4 \<noteq> a div 4"
  shows "mem_read_u32 m' b = mem_read_u32 m b"
proof (cases "b mod 4 = 0 \<and> b + 4 \<le> mem_size m")
  case True
  then have "4 dvd b" "4 dvd a" using assms by (auto simp: mem_write_u32_Inr)
  with assms(3) have "b + 4 \<le> a \<or> a + 4 \<le> b" by (auto elim!: dvdE)
  moreover have "mem_wf m'" using mem_write_u32_wf assms by blast
  ultimately show ?thesis using True assms
    by (auto simp: mem_write_u32_Inr mem_read_u32_eq mem_wf_def subvec_overwrite_disjoint)
next
  case False
  with assms show ?thesis
    by (auto simp: mem_write_u32_Inr mem_read_u32_def check_alignment_def check_bounds_def checked_add_usize_def mem_wf_def)
qed

end
