(* ===== verification/MMU.thy ===== *)
theory MMU
  imports Physical_Memory
begin

text \<open>
  The memory management unit (\<^verbatim>\<open>src/hardware/mmu.rs\<close>): per-process page tables over the physical
  RAM, address translation with permission checks, and byte and word accesses through it. The
  RAM is shared by reference in the source (an \<^verbatim>\<open>Arc\<close>); here the unit carries its contents.
\<close>

section \<open>State\<close>

record PageFlags =
  present :: bool
  page_writable :: bool
  user_accessible :: bool

definition PageFlags_new :: PageFlags where
  "PageFlags_new = \<lparr>present = False, page_writable = False, user_accessible = False\<rparr>"

definition present_writable :: PageFlags where
  "present_writable = \<lparr>present = True, page_writable = True, user_accessible = True\<rparr>"

definition present_readonly :: PageFlags where
  "present_readonly = \<lparr>present = True, page_writable = False, user_accessible = True\<rparr>"

record PageTableEntry =
  frame :: phys_addr
  flags :: PageFlags

definition PageTableEntry_invalid :: PageTableEntry where
  "PageTableEntry_invalid = \<lparr>frame = 0, flags = PageFlags_new\<rparr>"

record MMU =
  page_tables :: "pid \<rightharpoonup> (virt_addr \<rightharpoonup> PageTableEntry)"
  memory :: PhysicalMemory
  page_size :: nat

section \<open>Operations\<close>

definition is_power_of_two :: "nat \<Rightarrow> bool" where
  "is_power_of_two n \<longleftrightarrow> n \<in> set (map (\<lambda>k. 2 ^ k) [0..<64])"

text \<open>The constructor asserts that the page size is a power of two.\<close>

definition MMU_new :: "PhysicalMemory \<Rightarrow> nat \<Rightarrow> MMU option" where
  "MMU_new mem ps =
     (if is_power_of_two ps
      then Some \<lparr>page_tables = (\<lambda>_. None), memory = mem, page_size = ps\<rparr> else None)"

definition align_down :: "MMU \<Rightarrow> u64 \<Rightarrow> u64" where
  "align_down m addr = addr AND NOT (of_nat (page_size m) - 1)"

definition create_page_table :: "MMU \<Rightarrow> pid \<Rightarrow> MMU" where
  "create_page_table m p =
     (case page_tables m p of
        Some _ \<Rightarrow> m
      | None \<Rightarrow> m\<lparr>page_tables := (page_tables m)(p \<mapsto> (\<lambda>_. None))\<rparr>)"

definition remove_page_table :: "MMU \<Rightarrow> pid \<Rightarrow> MMU" where
  "remove_page_table m p = m\<lparr>page_tables := (page_tables m)(p := None)\<rparr>"

text \<open>The set of entries of a process; the source returns them in hash order.\<close>

definition get_page_entries :: "MMU \<Rightarrow> pid \<Rightarrow> (virt_addr \<times> phys_addr \<times> PageFlags) set" where
  "get_page_entries m p =
     (case page_tables m p of
        None \<Rightarrow> {}
      | Some t \<Rightarrow> {(v, frame e, flags e) | v e. t v = Some e})"

definition all_present_pages :: "MMU \<Rightarrow> (pid \<times> virt_addr \<times> phys_addr) set" where
  "all_present_pages m =
     {(p, v, frame e) | p v e t. page_tables m p = Some t \<and> t v = Some e \<and> present (flags e)}"

definition map_page :: "MMU \<Rightarrow> pid \<Rightarrow> virt_addr \<Rightarrow> phys_addr \<Rightarrow> PageFlags \<Rightarrow> (MMUError, MMU) result" where
  "map_page m p vaddr paddr fl =
     (let t = (case page_tables m p of None \<Rightarrow> (\<lambda>_. None) | Some t \<Rightarrow> t) in
      Inr (m\<lparr>page_tables := (page_tables m)(p \<mapsto>
             t(align_down m vaddr \<mapsto> \<lparr>frame = align_down m paddr, flags = fl\<rparr>))\<rparr>))"

definition unmap_page :: "MMU \<Rightarrow> pid \<Rightarrow> virt_addr \<Rightarrow> (MMUError, MMU) result" where
  "unmap_page m p vaddr =
     (case page_tables m p of
        None \<Rightarrow> Inl (PageTableNotFound p)
      | Some t \<Rightarrow> Inr (m\<lparr>page_tables := (page_tables m)(p \<mapsto> t(align_down m vaddr := None))\<rparr>))"

definition required_flags :: "PageTableEntry \<Rightarrow> ErrorPageFlags" where
  "required_flags e = \<lparr>epf_present = True, epf_writable = True,
                       epf_user_accessible = user_accessible (flags e)\<rparr>"

definition translate :: "MMU \<Rightarrow> pid \<Rightarrow> virt_addr \<Rightarrow> AccessType \<Rightarrow> (MMUError, phys_addr) result" where
  "translate m p vaddr access =
     (let page_vaddr = align_down m vaddr; offset = vaddr - page_vaddr in
      case page_tables m p of
        None \<Rightarrow> Inl (PageTableNotFound p)
      | Some t \<Rightarrow>
         (case t page_vaddr of
            None \<Rightarrow> Inl (PageNotPresent p vaddr)
          | Some e \<Rightarrow>
             if \<not> present (flags e) then Inl (PageNotPresent p vaddr)
             else (case access of
                     Read \<Rightarrow> Inr (frame e + offset)
                   | Write \<Rightarrow>
                       if \<not> page_writable (flags e)
                       then Inl (MmuPermissionDenied p vaddr Write (required_flags e))
                       else Inr (frame e + offset)
                   | Execute \<Rightarrow>
                       if \<not> page_writable (flags e)
                       then Inl (MmuPermissionDenied p vaddr Execute (required_flags e))
                       else Inr (frame e + offset))))"

definition mmu_read_u8 :: "MMU \<Rightarrow> pid \<Rightarrow> virt_addr \<Rightarrow> (MMUError, u8) result" where
  "mmu_read_u8 m p vaddr =
     rbind (translate m p vaddr Read) (\<lambda>paddr.
       map_err (\<lambda>_. InvalidPhysicalAddress paddr) (mem_read_u8 (memory m) (unat paddr)))"

definition mmu_read_u32 :: "MMU \<Rightarrow> pid \<Rightarrow> virt_addr \<Rightarrow> (MMUError, u32) result" where
  "mmu_read_u32 m p vaddr =
     rbind (translate m p vaddr Read) (\<lambda>paddr.
       map_err (\<lambda>_. InvalidPhysicalAddress paddr) (mem_read_u32 (memory m) (unat paddr)))"

definition mmu_write_u8 :: "MMU \<Rightarrow> pid \<Rightarrow> virt_addr \<Rightarrow> u8 \<Rightarrow> (MMUError, MMU) result" where
  "mmu_write_u8 m p vaddr v =
     rbind (translate m p vaddr Write) (\<lambda>paddr.
       rbind (map_err (\<lambda>_. InvalidPhysicalAddress paddr) (mem_write_u8 (memory m) (unat paddr) v))
         (\<lambda>mem. Inr (m\<lparr>memory := mem\<rparr>)))"

definition mmu_write_u32 :: "MMU \<Rightarrow> pid \<Rightarrow> virt_addr \<Rightarrow> u32 \<Rightarrow> (MMUError, MMU) result" where
  "mmu_write_u32 m p vaddr v =
     rbind (translate m p vaddr Write) (\<lambda>paddr.
       rbind (map_err (\<lambda>_. InvalidPhysicalAddress paddr) (mem_write_u32 (memory m) (unat paddr) v))
         (\<lambda>mem. Inr (m\<lparr>memory := mem\<rparr>)))"

section \<open>Page arithmetic\<close>

lemma is_power_of_two_iff: "is_power_of_two n \<longleftrightarrow> (\<exists>k < 64. n = 2 ^ k)"
  by (auto simp: is_power_of_two_def)

lemma align_down_mask: "page_size m = 2 ^ k \<Longrightarrow> align_down m a = a AND NOT (mask k)"
  by (simp add: align_down_def mask_eq_decr_exp)

lemma and_mask_split: "(a AND mask k) + (a AND NOT (mask k)) = (a :: 'a::len word)"
proof -
  have "(a AND mask k) AND (a AND NOT (mask k)) = 0"
    by (rule bit_word_eqI) (simp add: bit_simps)
  then have "(a AND mask k) + (a AND NOT (mask k)) = (a AND mask k) OR (a AND NOT (mask k))"
    by (rule disjunctive_add_eq_or)
  also have "\<dots> = a"
    by (rule bit_word_eqI) (auto simp: bit_simps)
  finally show ?thesis .
qed

lemma page_offset_mask: "page_size m = 2 ^ k \<Longrightarrow> a - align_down m a = a AND mask k"
  using and_mask_split [of a k] by (simp add: align_down_mask diff_eq_eq)

lemma masked_disjoint_add:
  assumes "(f :: u64) AND mask k = 0"
  shows "f + (x AND mask k) = f OR (x AND mask k)"
proof (rule disjunctive_add_eq_or)
  have "f AND (x AND mask k) = x AND (f AND mask k)" by (simp only: ac_simps)
  with assms show "f AND (x AND mask k) = 0" by simp
qed

text \<open>A page-aligned frame and an offset below the page size determine each other.\<close>

lemma frame_offset_inj:
  assumes "page_size m = 2 ^ k" "align_down m f = f" "align_down m g = g"
    and "f + (a - align_down m a) = g + (b - align_down m b)"
  shows "f = g \<and> a - align_down m a = b - align_down m b"
proof -
  have al: "f AND NOT (mask k) = f" "g AND NOT (mask k) = g"
    using assms(1-3) by (simp_all add: align_down_mask)
  then have zero: "f AND mask k = 0" "g AND mask k = 0"
    using and_mask_split [of f k] and_mask_split [of g k] by simp_all
  let ?x = "a AND mask k" and ?y = "b AND mask k"
  from assms(4) have eq: "f OR ?x = g OR ?y"
    by (simp add: page_offset_mask [OF assms(1)] masked_disjoint_add zero)
  have strip: "(h OR (c AND mask k)) AND NOT (mask k) = h AND NOT (mask k)" for h c :: u64
    by (rule bit_word_eqI) (auto simp: bit_simps)
  have "f = (f OR ?x) AND NOT (mask k)" "g = (g OR ?y) AND NOT (mask k)"
    by (simp_all add: strip al)
  with eq have "f = g" by metis
  with assms(4) show ?thesis by simp
qed

section \<open>Well-formedness\<close>

text \<open>
  The page size is a power of two, every table key and every frame is page-aligned, and the RAM is
  well-formed. Every operation of the unit keeps this.
\<close>

definition mmu_wf :: "MMU \<Rightarrow> bool" where
  "mmu_wf m \<longleftrightarrow> is_power_of_two (page_size m) \<and> mem_wf (memory m) \<and>
     (\<forall>p t v e. page_tables m p = Some t \<longrightarrow> t v = Some e \<longrightarrow>
        align_down m v = v \<and> align_down m (frame e) = frame e)"

lemma align_down_cong: "page_size m = page_size m' \<Longrightarrow> align_down m = align_down m'"
  by (auto simp: align_down_def)

lemma align_down_update [simp]:
  "align_down (m\<lparr>page_tables := pt\<rparr>) = align_down m" "align_down (m\<lparr>memory := mem\<rparr>) = align_down m"
  by (auto simp: align_down_def)

lemma align_down_idem: "mmu_wf m \<Longrightarrow> align_down m (align_down m a) = align_down m a"
  by (auto simp: mmu_wf_def is_power_of_two_iff align_down_mask and.assoc)

lemma mmu_wfD:
  assumes "mmu_wf m"
  shows "mem_wf (memory m)" "\<exists>k < 64. page_size m = 2 ^ k"
    "page_tables m p = Some t \<Longrightarrow> t v = Some e \<Longrightarrow> align_down m v = v \<and> align_down m (frame e) = frame e"
  using assms by (auto simp: mmu_wf_def is_power_of_two_iff)

lemma MMU_new_wf: "mem_wf mem \<Longrightarrow> MMU_new mem ps = Some m \<Longrightarrow> mmu_wf m"
  by (auto simp: MMU_new_def mmu_wf_def split: if_splits)

lemma create_page_table_wf [inv_intros]: "mmu_wf m \<Longrightarrow> mmu_wf (create_page_table m p)"
  by (auto simp: create_page_table_def mmu_wf_def split: option.splits if_splits)

lemma remove_page_table_wf [inv_intros]: "mmu_wf m \<Longrightarrow> mmu_wf (remove_page_table m p)"
  by (auto simp: remove_page_table_def mmu_wf_def split: if_splits)

lemma map_page_wf [inv_intros]: "mmu_wf m \<Longrightarrow> map_page m p v pa fl = Inr m' \<Longrightarrow> mmu_wf m'"
  using align_down_idem [of m]
  by (fastforce simp: map_page_def mmu_wf_def Let_def split: if_splits option.splits)

lemma unmap_page_wf [inv_intros]: "mmu_wf m \<Longrightarrow> unmap_page m p v = Inr m' \<Longrightarrow> mmu_wf m'"
  by (fastforce simp: unmap_page_def mmu_wf_def split: if_splits option.splits)

lemma memory_update_wf [inv_intros]: "mmu_wf m \<Longrightarrow> mem_wf mem \<Longrightarrow> mmu_wf (m\<lparr>memory := mem\<rparr>)"
  by (auto simp: mmu_wf_def)

lemma mmu_write_u8_wf [inv_intros]: "mmu_wf m \<Longrightarrow> mmu_write_u8 m p v b = Inr m' \<Longrightarrow> mmu_wf m'"
  by (auto simp: mmu_write_u8_def rbind_eq_Inr intro!: memory_update_wf dest: mmu_wfD(1) mem_write_u8_wf)

lemma mmu_write_u32_wf [inv_intros]: "mmu_wf m \<Longrightarrow> mmu_write_u32 m p v b = Inr m' \<Longrightarrow> mmu_wf m'"
  by (auto simp: mmu_write_u32_def rbind_eq_Inr intro!: memory_update_wf dest: mmu_wfD(1) mem_write_u32_wf)

section \<open>Translation\<close>

text \<open>The page-table entry that governs an access.\<close>

definition pte :: "MMU \<Rightarrow> pid \<Rightarrow> virt_addr \<Rightarrow> PageTableEntry option" where
  "pte m p v = (case page_tables m p of None \<Rightarrow> None | Some t \<Rightarrow> t (align_down m v))"

definition access_ok :: "PageTableEntry \<Rightarrow> AccessType \<Rightarrow> bool" where
  "access_ok e access \<longleftrightarrow> present (flags e) \<and> (access = Read \<or> page_writable (flags e))"

lemma translate_Inr:
  "translate m p v access = Inr pa \<longleftrightarrow>
     (\<exists>e. pte m p v = Some e \<and> access_ok e access \<and> pa = frame e + (v - align_down m v))"
  by (cases access) (auto simp: translate_def pte_def access_ok_def Let_def split: option.splits)

lemma translate_memory_update [simp]: "translate (m\<lparr>memory := mem\<rparr>) = translate m"
  by (intro ext) (simp add: translate_def)

lemma translate_page_tables_update [frame_simps]:
  "page_size m' = page_size m \<Longrightarrow> page_tables m' p = page_tables m p \<Longrightarrow> translate m' p = translate m p"
  by (intro ext) (simp add: translate_def align_down_cong [of m' m])

lemma translate_write_read: "translate m p v Write = Inr pa \<Longrightarrow> translate m p v Read = Inr pa"
  by (auto simp: translate_Inr access_ok_def)

lemma pte_map_page:
  "map_page m p v pa fl = Inr m' \<Longrightarrow>
   pte m' q w = (if q = p \<and> align_down m w = align_down m v
                 then Some \<lparr>frame = align_down m pa, flags = fl\<rparr> else pte m q w)"
  by (cases "q = p") (auto simp: map_page_def pte_def Let_def split: option.splits)

lemma pte_unmap_page:
  "unmap_page m p v = Inr m' \<Longrightarrow>
   pte m' q w = (if q = p \<and> align_down m w = align_down m v then None else pte m q w)"
  by (cases "q = p") (auto simp: unmap_page_def pte_def split: option.splits)

lemma map_page_frame [frame_simps]:
  "map_page m p v pa fl = Inr m' \<Longrightarrow> memory m' = memory m \<and> page_size m' = page_size m \<and> align_down m' = align_down m"
  by (auto simp: map_page_def Let_def)

lemma unmap_page_frame [frame_simps]:
  "unmap_page m p v = Inr m' \<Longrightarrow> memory m' = memory m \<and> page_size m' = page_size m \<and> align_down m' = align_down m"
  by (auto simp: unmap_page_def split: option.splits)

lemma mmu_write_u8_Inr:
  "mmu_write_u8 m p v b = Inr m' \<longleftrightarrow>
     (\<exists>pa mem. translate m p v Write = Inr pa \<and> mem_write_u8 (memory m) (unat pa) b = Inr mem \<and>
        m' = m\<lparr>memory := mem\<rparr>)"
  by (auto simp: mmu_write_u8_def rbind_eq_Inr)

lemma mmu_write_u8_frame [frame_simps]:
  "mmu_write_u8 m p v b = Inr m' \<Longrightarrow> page_tables m' = page_tables m \<and> page_size m' = page_size m"
  by (auto simp: mmu_write_u8_Inr)

lemma mmu_read_u8_Inr:
  "mmu_read_u8 m p v = Inr b \<longleftrightarrow>
     (\<exists>pa. translate m p v Read = Inr pa \<and> mem_read_u8 (memory m) (unat pa) = Inr b)"
  by (auto simp: mmu_read_u8_def rbind_eq_Inr)


lemma mmu_write_u32_Inr:
  "mmu_write_u32 m p v b = Inr m' \<longleftrightarrow>
     (\<exists>pa mem. translate m p v Write = Inr pa \<and> mem_write_u32 (memory m) (unat pa) b = Inr mem \<and>
        m' = m\<lparr>memory := mem\<rparr>)"
  by (auto simp: mmu_write_u32_def rbind_eq_Inr)

section \<open>Isolation\<close>

text \<open>No frame is shared between two processes.\<close>

definition frames_of :: "MMU \<Rightarrow> pid \<Rightarrow> phys_addr set" where
  "frames_of m p = (case page_tables m p of None \<Rightarrow> {} | Some t \<Rightarrow> frame ` ran t)"

definition frames_disjoint :: "MMU \<Rightarrow> pid \<Rightarrow> pid \<Rightarrow> bool" where
  "frames_disjoint m p q \<longleftrightarrow> frames_of m p \<inter> frames_of m q = {}"

lemma pte_frame: "pte m p v = Some e \<Longrightarrow> frame e \<in> frames_of m p"
  by (auto simp: pte_def frames_of_def ran_def split: option.splits)

lemma pte_aligned: "mmu_wf m \<Longrightarrow> pte m p v = Some e \<Longrightarrow> align_down m (frame e) = frame e"
  by (auto simp: pte_def dest: mmu_wfD(3) split: option.splits)

lemma and_not_mask_div: "unat (a AND NOT (mask k) :: u64) = unat a div 2 ^ k * 2 ^ k"
proof -
  have low: "unat (take_bit k a) = unat a mod 2 ^ k"
    by (simp add: unsigned_take_bit_eq take_bit_eq_mod [of k "unat a"])
  then have "take_bit k a \<le> a" by (simp add: word_le_nat_alt)
  moreover have "a AND NOT (mask k) = a - take_bit k a"
    using and_mask_split [of a k] by (simp add: take_bit_eq_mask algebra_simps)
  ultimately have "unat (a AND NOT (mask k)) = unat a - unat a mod 2 ^ k"
    by (simp add: unat_sub low)
  then show ?thesis by (simp add: minus_mod_eq_div_mult)
qed

lemma same_word_same_page:
  assumes "mmu_wf m" "4 dvd page_size m" "unat x div 4 = unat y div 4"
  shows "align_down m x = align_down m y"
proof -
  obtain k where k: "page_size m = 2 ^ k" "k < 64" using mmu_wfD(2) [OF assms(1)] by blast
  from assms(2) k obtain c :: nat where c: "2 ^ k = 4 * c" by (auto simp: dvd_def)
  have "unat x div 2 ^ k = unat y div 2 ^ k" by (simp add: c assms(3) div_mult2_eq)
  then show ?thesis
    by (metis align_down_mask and_not_mask_div k(1) word_unat_eq_iff)
qed

lemma align_down_frame_offset:
  assumes "mmu_wf m" "align_down m f = f"
  shows "align_down m (f + (v - align_down m v)) = f"
proof -
  obtain k where k: "page_size m = 2 ^ k" using mmu_wfD(2) [OF assms(1)] by blast
  have al: "f AND NOT (mask k) = f" using assms(2) k by (simp add: align_down_mask)
  then have "f AND mask k = 0" using and_mask_split [of f k] by simp
  then have "align_down m (f + (v - align_down m v)) = (f OR (v AND mask k)) AND NOT (mask k)"
    by (simp add: page_offset_mask [OF k] masked_disjoint_add) (simp add: align_down_mask [OF k])
  also have "\<dots> = f AND NOT (mask k)" by (rule bit_word_eqI) (auto simp: bit_simps)
  finally show ?thesis by (simp add: al)
qed

text \<open>An accessible address lies in the frame of its entry.\<close>

lemma translate_in_frame:
  assumes "mmu_wf m" "translate m p v access = Inr pa"
  shows "\<exists>e. pte m p v = Some e \<and> align_down m pa = frame e"
  using assms by (auto simp: translate_Inr dest: pte_aligned align_down_frame_offset)

lemma translate_disjoint:
  assumes "mmu_wf m" "4 dvd page_size m" "frames_disjoint m p q"
    and "translate m p v a = Inr pa" "translate m q w b = Inr pb"
  shows "unat pa div 4 \<noteq> unat pb div 4"
proof
  assume "unat pa div 4 = unat pb div 4"
  then have "align_down m pa = align_down m pb" by (rule same_word_same_page [OF assms(1,2)])
  with assms show False
    using translate_in_frame [OF assms(1,4)] translate_in_frame [OF assms(1,5)]
    by (auto simp: frames_disjoint_def dest!: pte_frame)
qed

lemma translate_distinct:
  assumes "mmu_wf m" "frames_disjoint m p q" "translate m p v a = Inr pa" "translate m q w b = Inr pb"
  shows "pa \<noteq> pb"
  using translate_in_frame [OF assms(1,3)] translate_in_frame [OF assms(1,4)] assms(2)
  by (auto simp: frames_disjoint_def dest!: pte_frame)

text \<open>A byte written by one process is invisible to a process that shares no frame with it.\<close>

lemma mmu_write_u8_isolated:
  assumes "mmu_wf m" "frames_disjoint m p q" "mmu_write_u8 m p v x = Inr m'"
  shows "mmu_read_u8 m' q w = mmu_read_u8 m q w"
proof -
  obtain pa mem where wr: "translate m p v Write = Inr pa" "mem_write_u8 (memory m) (unat pa) x = Inr mem"
    "m' = m\<lparr>memory := mem\<rparr>"
    using assms(3) by (auto simp: mmu_write_u8_Inr)
  show ?thesis
  proof (cases "translate m q w Read")
    case (Inr pb)
    have ne: "unat pb \<noteq> unat pa"
      using translate_distinct [OF assms(1,2) wr(1) Inr] by (simp add: word_unat_eq_iff)
    have wf: "mem_wf (memory m)" by (rule mmu_wfD(1) [OF assms(1)])
    have "mem_read_u8 mem (unat pb) = mem_read_u8 (memory m) (unat pb)"
      using ne wr(2) by (auto simp: mem_write_u8_def mem_read_u8_def rbind_eq_Inr)
    then show ?thesis by (simp add: wr(3) mmu_read_u8_def Inr)
  qed (simp add: wr(3) mmu_read_u8_def)
qed

text \<open>Pages are a multiple of the word size, so translation keeps the alignment within a word.\<close>

lemma translate_mod4:
  assumes "mmu_wf m" "4 dvd page_size m" "translate m p v a = Inr pa"
  shows "unat pa mod 4 = unat v mod 4"
proof -
  obtain k where k: "page_size m = 2 ^ k" using mmu_wfD(2) [OF assms(1)] by blast
  have two: "2 \<le> k"
  proof (rule ccontr)
    assume "\<not> 2 \<le> k"
    then have "k = 0 \<or> k = 1" by auto
    with assms(2) k show False by auto
  qed
  obtain e where e: "pte m p v = Some e" "pa = frame e + (v - align_down m v)"
    using assms(3) by (auto simp: translate_Inr)
  have "frame e AND NOT (mask k) = frame e"
    using pte_aligned [OF assms(1) e(1)] by (simp add: align_down_mask [OF k])
  then have "frame e AND mask k = 0" using and_mask_split [of "frame e" k] by simp
  then have pa: "pa = frame e OR (v AND mask k)" and "frame e AND mask k = 0"
    by (simp_all add: e(2) page_offset_mask [OF k] masked_disjoint_add)
  have bits: "\<not> bit (frame e) i" if "i < k" for i
  proof
    assume "bit (frame e) i"
    then have "bit (frame e AND mask k) i" using that bit_imp_le_length by (fastforce simp: bit_simps)
    with \<open>frame e AND mask k = 0\<close> show False by simp
  qed
  have "take_bit 2 pa = take_bit 2 v"
    using two bits by (intro bit_word_eqI) (auto simp: pa bit_simps)
  then have "unat (take_bit 2 pa) = unat (take_bit 2 v)" by simp
  then show ?thesis by (simp add: unsigned_take_bit_eq take_bit_eq_mod [of 2 "unat pa"] take_bit_eq_mod [of 2 "unat v"])
qed

lemma mmu_read_u32_misaligned:
  assumes "mmu_wf m" "4 dvd page_size m" "\<not> 4 dvd unat v"
  shows "\<exists>e. mmu_read_u32 m p v = Inl e"
proof (cases "translate m p v Read")
  case (Inr pa)
  then have "unat pa mod 4 \<noteq> 0"
    using translate_mod4 [OF assms(1,2) Inr] assms(3) by (simp add: dvd_eq_mod_eq_0)
  then show ?thesis by (simp add: mmu_read_u32_def Inr mem_read_u32_misaligned)
qed (simp add: mmu_read_u32_def)

text \<open>Four readable bytes of an aligned word read as that word.\<close>

lemma translate_same_page:
  assumes "align_down m w = align_down m v" "translate m p v a = Inr pa"
  shows "translate m p w a = Inr (pa + (w - v))"
proof -
  have "pte m p w = pte m p v" using assms(1) by (cases "page_tables m p") (simp_all add: pte_def)
  with assms show ?thesis by (auto simp: translate_Inr)
qed

lemma word_unat_plus: "unat (v :: u64) mod 4 = 0 \<Longrightarrow> i < 4 \<Longrightarrow> unat (v + of_nat i) = unat v + i"
proof -
  assume v: "unat v mod 4 = 0" and i: "i < 4"
  have "unat v < 18446744073709551616" using unsigned_less [of v] by simp
  with v i have "unat v + i < 18446744073709551616" by presburger
  moreover have "unat (of_nat i :: u64) = i" using i by (simp add: unat_of_nat)
  ultimately show ?thesis by (simp add: unat_word_ariths)
qed

lemma mmu_read_u32_of_bytes:
  assumes "mmu_wf m" "4 dvd page_size m" "4 dvd unat v"
    and "\<And>i. i < 4 \<Longrightarrow> mmu_read_u8 m p (v + of_nat i) = Inr (bs ! i)" "length bs = 4"
  shows "mmu_read_u32 m p v = Inr (from_le bs)"
proof -
  have v: "unat v mod 4 = 0" using assms(3) by simp
  obtain pa where pa: "translate m p v Read = Inr pa"
    using assms(4) [of 0] by (auto simp: mmu_read_u8_Inr)
  have al: "unat pa mod 4 = 0" using translate_mod4 [OF assms(1,2) pa] v by simp
  have wf: "mem_wf (memory m)" by (rule mmu_wfD(1) [OF assms(1)])
  have byte: "unat pa + i < mem_size (memory m) \<and> mem_data (memory m) ! (unat pa + i) = bs ! i" if "i < 4" for i
  proof -
    have "align_down m (v + of_nat i) = align_down m v"
      using v that by (intro same_word_same_page [OF assms(1,2)]) (simp add: word_unat_plus div_add1_eq)
    then have "translate m p (v + of_nat i) Read = Inr (pa + of_nat i)"
      using translate_same_page [of m "v + of_nat i" v p Read pa] pa by simp
    then have "mem_read_u8 (memory m) (unat pa + i) = Inr (bs ! i)"
      using assms(4) [OF that] al that by (simp add: mmu_read_u8_Inr word_unat_plus)
    then show ?thesis using wf by (auto simp: mem_read_u8_def rbind_eq_Inr check_bounds_Inr)
  qed
  have size: "unat pa + 4 \<le> mem_size (memory m)" using byte [of 3] by simp
  have "subvec (unat pa) 4 (mem_data (memory m)) = bs"
    using byte size wf assms(5) by (intro nth_equalityI) (auto simp: subvec_nth mem_wf_def)
  with pa al size wf show ?thesis by (simp add: mmu_read_u32_def mem_read_u32_eq)
qed

section \<open>Properties\<close>

text \<open>
  C10. Isolation: when two processes share no frame, a word written by one of them leaves every byte
  the other can read unchanged, and its faults too. (The page size of the machine, 4096, is a multiple
  of the word size.)
\<close>

theorem mmu_write_isolated:
  assumes "mmu_wf m" "4 dvd page_size m" "frames_disjoint m p q"
    and "mmu_write_u32 m p v x = Inr m'"
  shows "mmu_read_u8 m' q w = mmu_read_u8 m q w \<and> mmu_read_u32 m' q w = mmu_read_u32 m q w"
proof -
  obtain pa mem where wr: "translate m p v Write = Inr pa" "mem_write_u32 (memory m) (unat pa) x = Inr mem"
    "m' = m\<lparr>memory := mem\<rparr>"
    using assms(4) by (auto simp: mmu_write_u32_Inr)
  show ?thesis
  proof (cases "translate m q w Read")
    case (Inr pb)
    have "unat pb div 4 \<noteq> unat pa div 4"
      using translate_disjoint [OF assms(1-3) wr(1) Inr] by simp
    then show ?thesis
      using mem_read_u8_after_write_u32 [OF mmu_wfD(1) [OF assms(1)] wr(2)]
        mem_read_u32_after_write_u32 [OF mmu_wfD(1) [OF assms(1)] wr(2)]
      by (simp add: wr(3) mmu_read_u8_def mmu_read_u32_def Inr)
  qed (simp add: wr(3) mmu_read_u8_def mmu_read_u32_def)
qed

definition demo_mmu :: MMU where
  "demo_mmu = \<lparr>page_tables = [1 \<mapsto> [0 \<mapsto> \<lparr>frame = 0, flags = present_writable\<rparr>],
                              2 \<mapsto> [0 \<mapsto> \<lparr>frame = 8, flags = present_writable\<rparr>]],
               memory = \<lparr>mem_data = replicate 16 0, mem_size = 16\<rparr>, page_size = 8\<rparr>"

lemma demo_mmu_wf: "mmu_wf demo_mmu"
proof -
  have "is_power_of_two 8" by (auto simp: is_power_of_two_iff intro: exI [of _ 3])
  then show ?thesis
    by (auto simp: mmu_wf_def demo_mmu_def mem_wf_def align_down_def split: if_splits)
qed

lemma demo_write_ok: "\<exists>m'. mmu_write_u32 demo_mmu 1 4 7 = Inr m'"
  by (simp add: mmu_write_u32_def demo_mmu_def translate_def align_down_def Let_def
      present_writable_def mem_write_u32_def check_alignment_def check_bounds_def checked_add_usize_def)

theorem mmu_write_isolated_witness:
  "\<exists>m'. mmu_write_u32 demo_mmu 1 4 7 = Inr m' \<and> mmu_read_u32 m' 2 4 = mmu_read_u32 demo_mmu 2 4"
proof -
  have "frames_disjoint demo_mmu 1 2"
    by (auto simp: frames_disjoint_def frames_of_def demo_mmu_def ran_def split: if_splits)
  moreover have "4 dvd page_size demo_mmu" by (simp add: demo_mmu_def)
  ultimately show ?thesis
    using demo_write_ok mmu_write_isolated [OF demo_mmu_wf, of 1 2 4 7 _ 4] by blast
qed

text \<open>
  A word written through a translation is read back through it: the value is stored at the
  translated address, and the write has not changed any translation.
\<close>

theorem mmu_read_after_write:
  assumes "mmu_wf m" "mmu_write_u32 m p v x = Inr m'"
  shows "mmu_read_u32 m' p v = Inr x \<and> translate m' = translate m \<and> mmu_wf m'"
proof -
  obtain pa mem where wr: "translate m p v Write = Inr pa" "mem_write_u32 (memory m) (unat pa) x = Inr mem"
    "m' = m\<lparr>memory := mem\<rparr>"
    using assms(2) by (auto simp: mmu_write_u32_Inr)
  have "mem_read_u32 mem (unat pa) = Inr x"
    using mem_read_u32_after_write wr(2) mmu_wfD(1) [OF assms(1)] by blast
  then show ?thesis
    using translate_write_read [OF wr(1)] mmu_write_u32_wf [OF assms]
    by (simp add: wr(3) mmu_read_u32_def)
qed

theorem mmu_read_after_write_witness:
  "\<exists>m'. mmu_write_u32 demo_mmu 1 4 7 = Inr m' \<and> mmu_read_u32 m' 1 4 = Inr 7"
  using demo_write_ok mmu_read_after_write [OF demo_mmu_wf] by blast

text \<open>
  What mapping a page does to translation: addresses of that page of that process translate to
  the frame at the same offset when the flags allow the access, and every other address of every
  process translates as before; unmapping the page makes exactly its addresses fault.
\<close>

theorem map_page_translate:
  assumes "map_page m p v pa fl = Inr m1" "unmap_page m1 p v = Inr m2"
  shows "(translate m1 q w a = Inr x \<longleftrightarrow>
            (if q = p \<and> align_down m w = align_down m v
             then present fl \<and> (a = Read \<or> page_writable fl) \<and> x = align_down m pa + (w - align_down m w)
             else translate m q w a = Inr x)) \<and>
         (translate m2 q w a = Inr x \<longleftrightarrow>
            \<not> (q = p \<and> align_down m w = align_down m v) \<and> translate m q w a = Inr x) \<and>
         memory m2 = memory m"
  using pte_map_page [OF assms(1)] pte_unmap_page [OF assms(2)] map_page_frame [OF assms(1)]
    unmap_page_frame [OF assms(2)]
  by (auto simp: translate_Inr access_ok_def)

theorem map_page_translate_witness:
  "\<exists>m1. map_page demo_mmu 1 8 8 present_writable = Inr m1 \<and> translate m1 1 9 Read = Inr 9"
proof -
  obtain m1 m2 where m: "map_page demo_mmu 1 8 8 present_writable = Inr m1" "unmap_page m1 1 8 = Inr m2"
    by (simp add: map_page_def unmap_page_def Let_def demo_mmu_def)
  have "translate m1 1 9 Read = Inr 9"
    using map_page_translate [OF m, of 1 9 Read 9]
    by (simp add: align_down_def demo_mmu_def present_writable_def)
  with m show ?thesis by blast
qed

end
