(* ===== verification/Text_Format.thy ===== *)
theory Text_Format
  imports OS_Prelude
begin

text \<open>
  The string operations of the Rust standard library that the sources use, on ASCII text: trimming
  and splitting at white space, prefixes and suffixes, case, splitting into lines, radix parsing of
  \<^verbatim>\<open>u64\<close> and the decimal and hexadecimal formats. The closing lemmas say that a formatted number
  parses back to itself and how splitting acts on a word followed by a blank.
\<close>

section \<open>Characters and words\<close>

definition ascii_ws :: "char \<Rightarrow> bool" where
  "ascii_ws c \<longleftrightarrow> (let n = of_char c :: nat in (9 \<le> n \<and> n \<le> 13) \<or> n = 32)"

definition to_upper_char :: "char \<Rightarrow> char" where
  "to_upper_char c = (let n = of_char c :: nat in if 97 \<le> n \<and> n \<le> 122 then char_of (n - 32) else c)"

definition to_uppercase :: "string \<Rightarrow> string" where
  "to_uppercase s = map to_upper_char s"

definition trim_start_pred :: "(char \<Rightarrow> bool) \<Rightarrow> string \<Rightarrow> string" where
  "trim_start_pred p s = dropWhile p s"

definition trim_end_pred :: "(char \<Rightarrow> bool) \<Rightarrow> string \<Rightarrow> string" where
  "trim_end_pred p s = rev (dropWhile p (rev s))"

definition trim :: "string \<Rightarrow> string" where
  "trim s = trim_end_pred ascii_ws (trim_start_pred ascii_ws s)"

definition strip_prefix :: "string \<Rightarrow> string \<Rightarrow> string option" where
  "strip_prefix p s = (if take (length p) s = p then Some (drop (length p) s) else None)"

definition strip_suffix :: "string \<Rightarrow> string \<Rightarrow> string option" where
  "strip_suffix p s = map_option rev (strip_prefix (rev p) (rev s))"

definition starts_with :: "string \<Rightarrow> string \<Rightarrow> bool" where
  "starts_with p s \<longleftrightarrow> strip_prefix p s \<noteq> None"

text \<open>\<^verbatim>\<open>split_whitespace\<close>: the maximal runs of characters that are not white space.\<close>

function split_whitespace :: "string \<Rightarrow> string list" where
  "split_whitespace s =
     (let t = dropWhile ascii_ws s in
      if t = [] then []
      else takeWhile (\<lambda>c. \<not> ascii_ws c) t # split_whitespace (dropWhile (\<lambda>c. \<not> ascii_ws c) t))"
  by pat_completeness auto
termination
proof (relation "measure length", goal_cases)
  case (2 s t)
  then have "t \<noteq> []" "\<not> ascii_ws (hd t)" using hd_dropWhile [of ascii_ws s] by auto
  then have "length (dropWhile (\<lambda>c. \<not> ascii_ws c) t) < length t"
    by (cases t) (auto simp: less_Suc_eq_le length_dropWhile_le)
  moreover have "length t \<le> length s" by (simp add: 2(1) length_dropWhile_le)
  ultimately show ?case by simp
qed simp

declare split_whitespace.simps [simp del]

text \<open>\<^verbatim>\<open>lines\<close>: split after each line feed, dropping it and one carriage return before it.\<close>

definition strip_cr :: "string \<Rightarrow> string" where
  "strip_cr s = (case strip_suffix [CHR 0x0D] s of None \<Rightarrow> s | Some t \<Rightarrow> t)"

fun lines_acc :: "string \<Rightarrow> string \<Rightarrow> string list" where
  "lines_acc acc [] = (if acc = [] then [] else [rev acc])"
| "lines_acc acc (c # s) =
     (if c = CHR 0x0A then strip_cr (rev acc) # lines_acc [] s else lines_acc (c # acc) s)"

definition str_lines :: "string \<Rightarrow> string list" where
  "str_lines s = lines_acc [] s"

section \<open>Numbers\<close>

fun digits :: "nat \<Rightarrow> nat \<Rightarrow> nat list" where
  "digits b n = (if b < 2 \<or> n < b then [n] else digits b (n div b) @ [n mod b])"

declare digits.simps [simp del]

definition digit_char :: "nat \<Rightarrow> char" where
  "digit_char d = ''0123456789abcdef'' ! d"

definition show_dec :: "nat \<Rightarrow> string" where
  "show_dec n = map digit_char (digits 10 n)"

definition show_hex_digits :: "nat \<Rightarrow> string" where
  "show_hex_digits n = map digit_char (digits 16 n)"

text \<open>The format \<^verbatim>\<open>{:#x}\<close>, and \<^verbatim>\<open>{:#04x}\<close> with its two-digit minimum.\<close>

definition show_hex :: "nat \<Rightarrow> string" where
  "show_hex n = ''0x'' @ show_hex_digits n"

definition show_hex04 :: "nat \<Rightarrow> string" where
  "show_hex04 n = ''0x'' @ (if n < 16 then ''0'' else []) @ show_hex_digits n"

definition to_digit :: "nat \<Rightarrow> char \<Rightarrow> nat option" where
  "to_digit radix c =
     (let n = of_char c :: nat;
          d = (if 48 \<le> n \<and> n \<le> 57 then Some (n - 48)
               else if 97 \<le> n \<and> n \<le> 122 then Some (n - 87)
               else if 65 \<le> n \<and> n \<le> 90 then Some (n - 55) else None) in
      case d of None \<Rightarrow> None | Some v \<Rightarrow> if v < radix then Some v else None)"

text \<open>
  \<^verbatim>\<open>u64::from_str_radix\<close>: an optional plus sign, at least one digit, and no overflow at any prefix.
\<close>

fun radix_digits :: "nat \<Rightarrow> nat \<Rightarrow> string \<Rightarrow> nat option" where
  "radix_digits radix acc [] = Some acc"
| "radix_digits radix acc (c # s) =
     (case to_digit radix c of
        None \<Rightarrow> None
      | Some d \<Rightarrow> if acc * radix + d < 2 ^ 64 then radix_digits radix (acc * radix + d) s else None)"

definition from_str_radix :: "nat \<Rightarrow> string \<Rightarrow> nat option" where
  "from_str_radix radix s =
     (case s of
        [] \<Rightarrow> None
      | c # t \<Rightarrow> if c = CHR ''+'' then (if t = [] then None else radix_digits radix 0 t)
                 else radix_digits radix 0 s)"

section \<open>Formatted numbers parse back\<close>

lemma digits_bound: "2 \<le> b \<Longrightarrow> \<forall>d \<in> set (digits b n). d < b"
proof (induction b n rule: digits.induct)
  case (1 b n)
  then show ?case by (subst digits.simps) auto
qed

lemma digits_not_Nil [simp]: "digits b n \<noteq> []"
  by (subst digits.simps) simp

lemma hex_cases: "d < 16 \<Longrightarrow> d \<in> {0, 1, 2, 3, 4, 5, 6, 7, 8, 9, 10, 11, 12, 13, 14, 15 :: nat}"
  by (simp only: insert_iff empty_iff) presburger

lemma to_digit_hex: "d < 16 \<Longrightarrow> to_digit 16 (digit_char d) = Some d"
  by (drule hex_cases) (auto simp: to_digit_def digit_char_def)

lemma digit_char_plain:
  "d < 16 \<Longrightarrow> \<not> ascii_ws (digit_char d) \<and> digit_char d \<notin> set ''+,;]#[x''"
  by (drule hex_cases) (auto simp: ascii_ws_def digit_char_def)

lemma radix_digits_append:
  "radix_digits r acc (s @ t) =
     (case radix_digits r acc s of None \<Rightarrow> None | Some v \<Rightarrow> radix_digits r v t)"
  by (induction r acc s rule: radix_digits.induct) (auto split: option.splits)

lemma radix_digits_show_hex: "n < 2 ^ 64 \<Longrightarrow> radix_digits 16 0 (show_hex_digits n) = Some n"
proof (induction "16 :: nat" n rule: digits.induct)
  case (1 n)
  show ?case
  proof (cases "n < 16")
    case True
    then show ?thesis by (simp add: show_hex_digits_def digits.simps [of 16 n] to_digit_hex)
  next
    case False
    then have "show_hex_digits n = show_hex_digits (n div 16) @ [digit_char (n mod 16)]"
      by (simp add: show_hex_digits_def digits.simps [of 16 n])
    moreover have "radix_digits 16 0 (show_hex_digits (n div 16)) = Some (n div 16)"
      using 1 False by simp
    moreover have "n div 16 * 16 + n mod 16 = n" by simp
    ultimately show ?thesis
      using "1.prems" by (simp add: radix_digits_append to_digit_hex)
  qed
qed

lemma show_hex_digits_chars:
  "c \<in> set (show_hex_digits n) \<Longrightarrow> \<not> ascii_ws c \<and> c \<notin> set ''+,;]#[x''"
  using digits_bound [of 16 n] digit_char_plain by (auto simp: show_hex_digits_def)

lemma show_hex_digits_not_Nil [simp]: "show_hex_digits n \<noteq> []"
  by (simp add: show_hex_digits_def)

lemma from_str_radix_show_hex: "n < 2 ^ 64 \<Longrightarrow> from_str_radix 16 (show_hex_digits n) = Some n"
proof -
  assume n: "n < 2 ^ 64"
  obtain c t where ct: "show_hex_digits n = c # t" by (cases "show_hex_digits n") auto
  then have "c \<noteq> CHR ''+''" using show_hex_digits_chars [of c n] by auto
  with ct n show ?thesis using radix_digits_show_hex [of n] by (simp add: from_str_radix_def)
qed

section \<open>Splitting and trimming\<close>

text \<open>A word is a non-empty run of characters without white space.\<close>

definition is_word :: "string \<Rightarrow> bool" where
  "is_word w \<longleftrightarrow> w \<noteq> [] \<and> (\<forall>c \<in> set w. \<not> ascii_ws c)"

lemma split_whitespace_Nil [simp]: "split_whitespace [] = []"
  by (subst split_whitespace.simps) simp

lemma split_whitespace_word: "is_word w \<Longrightarrow> split_whitespace w = [w]"
  by (subst split_whitespace.simps)
     (cases w; auto simp: is_word_def Let_def takeWhile_eq_all_conv dropWhile_eq_Nil_conv [THEN iffD2])

lemma split_whitespace_blank: "split_whitespace (CHR '' '' # s) = split_whitespace s"
  by (subst (1 2) split_whitespace.simps) (simp add: ascii_ws_def)

lemma split_whitespace_Cons:
  assumes "is_word w"
  shows "split_whitespace (w @ CHR '' '' # s) = w # split_whitespace s"
proof -
  obtain c u where w: "w = c # u" "\<not> ascii_ws c" using assms by (cases w) (auto simp: is_word_def)
  have blank: "ascii_ws (CHR '' '')" by (simp add: ascii_ws_def)
  have dw: "dropWhile ascii_ws (w @ CHR '' '' # s) = w @ CHR '' '' # s" using w by simp
  have tk: "takeWhile (\<lambda>c. \<not> ascii_ws c) (w @ CHR '' '' # s) = w"
    "dropWhile (\<lambda>c. \<not> ascii_ws c) (w @ CHR '' '' # s) = CHR '' '' # s"
    using assms blank by (simp_all add: is_word_def takeWhile_append2 dropWhile_append2)
  have "w @ CHR '' '' # s \<noteq> []" using w by simp
  then show ?thesis
    by (subst split_whitespace.simps) (simp only: dw tk Let_def if_False split_whitespace_blank)
qed

lemma split_whitespace_nonempty: "c \<in> set s \<Longrightarrow> \<not> ascii_ws c \<Longrightarrow> split_whitespace s \<noteq> []"
  by (subst split_whitespace.simps) (auto simp: Let_def)

lemma stop_at:
  assumes "p c"
  shows "takeWhile (\<lambda>x. \<not> p x) (t @ c # b) = takeWhile (\<lambda>x. \<not> p x) t"
    "dropWhile (\<lambda>x. \<not> p x) (t @ c # b) = dropWhile (\<lambda>x. \<not> p x) t @ c # b"
  using assms by (induction t) auto

lemma split_whitespace_append: "split_whitespace (a @ CHR '' '' # b) = split_whitespace a @ split_whitespace b"
proof (induction a rule: split_whitespace.induct)
  case (1 a)
  let ?t = "dropWhile ascii_ws a"
  have blank: "ascii_ws (CHR '' '')" by (simp add: ascii_ws_def)
  show ?case
  proof (cases "?t = []")
    case True
    then have "dropWhile ascii_ws (a @ CHR '' '' # b) = dropWhile ascii_ws b" using blank by (simp add: dropWhile_append2)
    then show ?thesis using True
      by (subst (1 2 3) split_whitespace.simps) (simp only: Let_def simp_thms if_True append_Nil)
  next
    case False
    let ?w = "takeWhile (\<lambda>c. \<not> ascii_ws c) ?t" and ?r = "dropWhile (\<lambda>c. \<not> ascii_ws c) ?t"
    have "dropWhile ascii_ws (a @ CHR '' '' # b) = ?t @ CHR '' '' # b" using False by (auto simp: dropWhile_append)
    moreover have "takeWhile (\<lambda>c. \<not> ascii_ws c) (?t @ CHR '' '' # b) = ?w" "dropWhile (\<lambda>c. \<not> ascii_ws c) (?t @ CHR '' '' # b) = ?r @ CHR '' '' # b"
      by (simp_all add: stop_at [of ascii_ws, OF blank])
    ultimately have "split_whitespace (a @ CHR '' '' # b) = ?w # split_whitespace (?r @ CHR '' '' # b)"
      by (subst split_whitespace.simps) (simp add: Let_def)
    moreover have "split_whitespace a = ?w # split_whitespace ?r" using False by (subst split_whitespace.simps) (simp add: Let_def)
    ultimately show ?thesis using 1 [OF refl False] by simp
  qed
qed

lemma trim_end_pred_id: "s \<noteq> [] \<Longrightarrow> \<not> p (last s) \<Longrightarrow> trim_end_pred p s = s"
  by (cases s rule: rev_cases) (simp_all add: trim_end_pred_def)

lemma trim_id: "s \<noteq> [] \<Longrightarrow> \<not> ascii_ws (hd s) \<Longrightarrow> \<not> ascii_ws (last s) \<Longrightarrow> trim s = s"
  by (cases s) (simp_all add: trim_def trim_start_pred_def trim_end_pred_id)

lemma trim_word: "is_word w \<Longrightarrow> trim w = w"
  by (rule trim_id) (auto simp: is_word_def)

lemma trim_end_comma: "trim_end_pred p (s @ [c]) = (if p c then trim_end_pred p s else s @ [c])"
  by (simp add: trim_end_pred_def)

lemma strip_prefix_append [simp]: "strip_prefix p (p @ s) = Some s"
  by (simp add: strip_prefix_def)

lemma strip_suffix_append [simp]: "strip_suffix p (s @ p) = Some s"
  by (simp add: strip_suffix_def strip_prefix_def)

end
