(* ===== verification/IVT.thy ===== *)
theory IVT
  imports Text_Format
begin

text \<open>
  The interrupt vector table (\<^verbatim>\<open>src/hardware/ivt.rs\<close>): the four vectors, their classification and the
  lookup by vector number.
\<close>

datatype InterruptVector = VDivideByZero | VPageFault | VTimer | VSyscall

definition vector_as_u8 :: "InterruptVector \<Rightarrow> u8" where
  "vector_as_u8 v = (case v of VDivideByZero \<Rightarrow> 0x00 | VPageFault \<Rightarrow> 0x0E | VTimer \<Rightarrow> 0x20 | VSyscall \<Rightarrow> 0x80)"

definition vector_from_u8 :: "u8 \<Rightarrow> InterruptVector option" where
  "vector_from_u8 val =
     (if val = 0x00 then Some VDivideByZero
      else if val = 0x0E then Some VPageFault
      else if val = 0x20 then Some VTimer
      else if val = 0x80 then Some VSyscall
      else None)"

definition vector_fmt :: "InterruptVector \<Rightarrow> string" where
  "vector_fmt v =
     (case v of
        VDivideByZero \<Rightarrow> ''DivideByZero (0x00)''
      | VPageFault \<Rightarrow> ''PageFault (0x0E)''
      | VTimer \<Rightarrow> ''Timer (0x20)''
      | VSyscall \<Rightarrow> ''Syscall (0x80)'')"

datatype InterruptType = TypeException | TypeInterrupt | TypeTrap

definition for_vector :: "InterruptVector \<Rightarrow> InterruptType" where
  "for_vector v =
     (case v of
        VDivideByZero \<Rightarrow> TypeException
      | VPageFault \<Rightarrow> TypeException
      | VTimer \<Rightarrow> TypeInterrupt
      | VSyscall \<Rightarrow> TypeTrap)"

definition VECTORS :: "(InterruptVector \<times> InterruptType) list" where
  "VECTORS = [(VDivideByZero, TypeException), (VPageFault, TypeException),
              (VTimer, TypeInterrupt), (VSyscall, TypeTrap)]"

definition get_vector :: "u8 \<Rightarrow> (InterruptVector \<times> InterruptType) option" where
  "get_vector vector = map_option (\<lambda>v. (v, for_vector v)) (vector_from_u8 vector)"

definition all_vectors :: "(InterruptVector \<times> InterruptType) list" where
  "all_vectors = VECTORS"

definition format_vector :: "u8 \<Rightarrow> string" where
  "format_vector vector =
     (case vector_from_u8 vector of
        Some v \<Rightarrow> vector_fmt v @ '' ('' @ show_hex04 (unat vector) @ '')''
      | None \<Rightarrow> ''Unknown ('' @ show_hex04 (unat vector) @ '')'')"

lemma vector_from_as_u8 [simp]: "vector_from_u8 (vector_as_u8 v) = Some v"
  by (cases v) (simp_all add: vector_as_u8_def vector_from_u8_def)

text \<open>The static table lists exactly the vectors that the lookup by number finds.\<close>

lemma get_vector_table: "get_vector n = Some vt \<longleftrightarrow> vt \<in> set all_vectors \<and> vector_as_u8 (fst vt) = n"
  by (cases vt; cases "fst vt")
     (auto simp: get_vector_def vector_from_u8_def for_vector_def all_vectors_def VECTORS_def
       vector_as_u8_def split: if_splits)

end
