(* ===== verification/CPU.thy ===== *)
theory CPU
  imports MMU IVT
begin

text \<open>
  The virtual processor (\<^verbatim>\<open>src/hardware/cpu.rs\<close>): register file, flags, the eight-byte instruction
  encoding, and the fetch-decode-execute step with its fault and trap paths. The messages the
  processor sends on the bus are appended to the log \<open>cpu_bus\<close>; the source ignores the result of
  sending. The shared memory management unit is a component of the state.
\<close>

section \<open>Registers, flags and instructions\<close>

datatype Register = R0 | R1 | R2 | R3

definition reg_idx :: "Register \<Rightarrow> nat" where
  "reg_idx r = (case r of R0 \<Rightarrow> 0 | R1 \<Rightarrow> 1 | R2 \<Rightarrow> 2 | R3 \<Rightarrow> 3)"

definition reg_from_index :: "nat \<Rightarrow> Register option" where
  "reg_from_index idx =
     (if idx = 0 then Some R0 else if idx = 1 then Some R1 else if idx = 2 then Some R2
      else if idx = 3 then Some R3 else None)"

definition reg_count :: nat where
  "reg_count = 4"

definition reg_fmt :: "Register \<Rightarrow> string" where
  "reg_fmt r = (case r of R0 \<Rightarrow> ''R0'' | R1 \<Rightarrow> ''R1'' | R2 \<Rightarrow> ''R2'' | R3 \<Rightarrow> ''R3'')"

record CPUFlags =
  zero_flag :: bool
  sign_flag :: bool
  overflow_flag :: bool
  carry_flag :: bool

definition CPUFlags_new :: CPUFlags where
  "CPUFlags_new = \<lparr>zero_flag = False, sign_flag = False, overflow_flag = False, carry_flag = False\<rparr>"

definition flags_from_result :: "u64 \<Rightarrow> u64 \<Rightarrow> u64 \<Rightarrow> CPUFlags" where
  "flags_from_result result a b =
     \<lparr>zero_flag = (result = 0),
      sign_flag = (sint result < 0),
      overflow_flag = ((sint a \<ge> 0 \<and> sint b \<ge> 0 \<and> sint result < 0) \<or>
                       (sint a < 0 \<and> sint b < 0 \<and> sint result \<ge> 0)),
      carry_flag = (result < a)\<rparr>"

datatype Operand = Reg Register | Imm u64

datatype Instruction =
    Mov Register Operand
  | Add Register Operand
  | Sub Register Operand
  | Mul Register Operand
  | Div Register Operand
  | Jmp virt_addr
  | IntVec u8
  | Load Register Operand
  | Store Register Operand
  | Cmp Register Operand
  | Jz virt_addr
  | Jnz virt_addr
  | Halt

definition operand_fmt :: "Operand \<Rightarrow> string" where
  "operand_fmt o' = (case o' of Reg r \<Rightarrow> reg_fmt r | Imm v \<Rightarrow> ''#'' @ show_hex (unat v))"

fun instruction_fmt :: "Instruction \<Rightarrow> string" where
  "instruction_fmt (Mov d s) = ''MOV '' @ reg_fmt d @ '', '' @ operand_fmt s"
| "instruction_fmt (Add d s) = ''ADD '' @ reg_fmt d @ '', '' @ operand_fmt s"
| "instruction_fmt (Sub d s) = ''SUB '' @ reg_fmt d @ '', '' @ operand_fmt s"
| "instruction_fmt (Mul d s) = ''MUL '' @ reg_fmt d @ '', '' @ operand_fmt s"
| "instruction_fmt (Div d s) = ''DIV '' @ reg_fmt d @ '', '' @ operand_fmt s"
| "instruction_fmt (Jmp a) = ''JMP '' @ show_hex (unat a)"
| "instruction_fmt (Load d a) = ''LOAD '' @ reg_fmt d @ '', ['' @ operand_fmt a @ '']''"
| "instruction_fmt (Store s a) = ''STORE ['' @ operand_fmt a @ ''], '' @ reg_fmt s"
| "instruction_fmt (IntVec v) = ''INT '' @ show_hex (unat v)"
| "instruction_fmt (Cmp d s) = ''CMP '' @ reg_fmt d @ '', '' @ operand_fmt s"
| "instruction_fmt (Jz a) = ''JZ '' @ show_hex (unat a)"
| "instruction_fmt (Jnz a) = ''JNZ '' @ show_hex (unat a)"
| "instruction_fmt Halt = ''HALT''"

section \<open>Processor state\<close>

record CPUState =
  st_registers :: "u64 list"
  st_pc :: u64
  st_sp :: u64
  st_flags :: CPUFlags
  st_halted :: bool
  st_current_pid :: pid
  st_instruction_count :: u64
  st_pagefault_pending :: bool

record VirtualCPU =
  registers :: "u64 list"
  pc :: u64
  sp :: u64
  cpu_flags :: CPUFlags
  current_pid :: pid
  halted :: bool
  syscall_pending :: bool
  syscall_regs :: "u64 list"
  mmu :: MMU
  cpu_bus :: "KernelMsg list"
  instruction_count :: u64
  pagefault_pending :: bool

definition initial_sp :: u64 where
  "initial_sp = 0xFFFFFFFFFFFFF000"

definition VirtualCPU_new :: "MMU \<Rightarrow> KernelMsg list \<Rightarrow> pid \<Rightarrow> VirtualCPU" where
  "VirtualCPU_new m bus p =
     \<lparr>registers = replicate 4 0, pc = 0, sp = initial_sp, cpu_flags = CPUFlags_new, current_pid = p,
      halted = False, syscall_pending = False, syscall_regs = replicate 4 0, mmu = m, cpu_bus = bus,
      instruction_count = 0, pagefault_pending = False\<rparr>"

definition read_register :: "VirtualCPU \<Rightarrow> Register \<Rightarrow> u64" where
  "read_register c r = registers c ! reg_idx r"

definition write_register :: "VirtualCPU \<Rightarrow> Register \<Rightarrow> u64 \<Rightarrow> VirtualCPU" where
  "write_register c r v = c\<lparr>registers := (registers c)[reg_idx r := v]\<rparr>"

definition cpu_send :: "KernelMsg \<Rightarrow> VirtualCPU \<Rightarrow> VirtualCPU" where
  "cpu_send msg c = c\<lparr>cpu_bus := cpu_bus c @ [msg]\<rparr>"

definition set_pid :: "VirtualCPU \<Rightarrow> pid \<Rightarrow> VirtualCPU" where
  "set_pid c p = c\<lparr>current_pid := p\<rparr>"

definition set_pc :: "VirtualCPU \<Rightarrow> u64 \<Rightarrow> VirtualCPU" where
  "set_pc c v = c\<lparr>pc := v\<rparr>"

definition set_sp :: "VirtualCPU \<Rightarrow> u64 \<Rightarrow> VirtualCPU" where
  "set_sp c v = c\<lparr>sp := v\<rparr>"

definition cpu_halt :: "VirtualCPU \<Rightarrow> VirtualCPU" where
  "cpu_halt c = c\<lparr>halted := True\<rparr>"

definition cpu_reset :: "VirtualCPU \<Rightarrow> VirtualCPU" where
  "cpu_reset c = c\<lparr>registers := replicate 4 0, pc := 0, sp := initial_sp, cpu_flags := CPUFlags_new,
                  halted := False, instruction_count := 0, pagefault_pending := False\<rparr>"

section \<open>Fetch and decode\<close>

definition fetch_byte :: "VirtualCPU \<Rightarrow> (CPUError, u8) result \<times> VirtualCPU" where
  "fetch_byte c =
     (case mmu_read_u8 (mmu c) (current_pid c) (pc c) of
        Inl _ \<Rightarrow> (Inl (CpuPageFault (pc c) Read), c)
      | Inr v \<Rightarrow> (Inr v, c\<lparr>pc := pc c + 1\<rparr>))"

definition fetch_qword :: "VirtualCPU \<Rightarrow> (CPUError, u64) result \<times> VirtualCPU" where
  "fetch_qword c =
     (case mmu_read_u32 (mmu c) (current_pid c) (pc c) of
        Inl _ \<Rightarrow> (Inl (CpuPageFault (pc c) Read), c)
      | Inr v \<Rightarrow> (Inr (ucast v), c\<lparr>pc := pc c + 4\<rparr>))"

definition saturating_sub64 :: "u64 \<Rightarrow> u64 \<Rightarrow> u64" where
  "saturating_sub64 a b = (if a < b then 0 else a - b)"

definition decode_reg :: "nat \<Rightarrow> (CPUError, Register) result" where
  "decode_reg idx = (case reg_from_index idx of None \<Rightarrow> Inl (InvalidRegister idx) | Some r \<Rightarrow> Inr r)"

definition decode_operand :: "u8 \<Rightarrow> u64 \<Rightarrow> (CPUError, Operand) result" where
  "decode_operand src_type v =
     (if src_type = 0 then rbind (decode_reg (unat v)) (\<lambda>r. Inr (Reg r)) else Inr (Imm v))"

definition decode_two :: "(Register \<Rightarrow> Operand \<Rightarrow> Instruction) \<Rightarrow> u8 \<Rightarrow> u8 \<Rightarrow> u64 \<Rightarrow> (CPUError, Instruction) result" where
  "decode_two mk dst_reg src_type v =
     rbind (decode_reg (unat dst_reg)) (\<lambda>d. rbind (decode_operand src_type v) (\<lambda>s. Inr (mk d s)))"

text \<open>The decoder proper: the program counter is the one after the eight bytes were fetched.\<close>

definition decode :: "u64 \<Rightarrow> u8 \<Rightarrow> u8 \<Rightarrow> u8 \<Rightarrow> u64 \<Rightarrow> (CPUError, Instruction) result" where
  "decode cur_pc opcode dst_reg src_type v =
     (if opcode = 0x01 then decode_two Mov dst_reg src_type v
      else if opcode = 0x02 then decode_two Add dst_reg src_type v
      else if opcode = 0x03 then decode_two Sub dst_reg src_type v
      else if opcode = 0x04 then decode_two Mul dst_reg src_type v
      else if opcode = 0x05 then decode_two Div dst_reg src_type v
      else if opcode = 0x06 then decode_two Load dst_reg src_type v
      else if opcode = 0x07 then decode_two Store dst_reg src_type v
      else if opcode = 0x10 then Inr (Jmp v)
      else if opcode = 0x11 then decode_two Cmp dst_reg src_type v
      else if opcode = 0x12 then Inr (Jz v)
      else if opcode = 0x13 then Inr (Jnz v)
      else if opcode = 0x80 then Inr (IntVec (ucast v))
      else if opcode = 0xFF then Inr Halt
      else Inl (InvalidInstruction (saturating_sub64 cur_pc 11) opcode))"

definition fetch_instruction :: "VirtualCPU \<Rightarrow> (CPUError, Instruction) result \<times> VirtualCPU" where
  "fetch_instruction =
     sbind fetch_byte (\<lambda>opcode.
     sbind fetch_byte (\<lambda>dst_reg.
     sbind fetch_byte (\<lambda>src_type.
     sbind fetch_byte (\<lambda>pad.
     sbind fetch_qword (\<lambda>src_value c. (decode (pc c) opcode dst_reg src_type src_value, c))))))"

section \<open>Execute\<close>

definition read_operand :: "VirtualCPU \<Rightarrow> Operand \<Rightarrow> u64" where
  "read_operand c o' = (case o' of Reg r \<Rightarrow> read_register c r | Imm v \<Rightarrow> v)"

definition handle_software_interrupt :: "VirtualCPU \<Rightarrow> u8 \<Rightarrow> (CPUError, unit) result \<times> VirtualCPU" where
  "handle_software_interrupt c vector =
     (if vector = vector_as_u8 VSyscall
      then (Inr (), cpu_send (InterruptMsg SyscallTrap)
                      (c\<lparr>syscall_regs := registers c, syscall_pending := True\<rparr>))
      else (Inr (), cpu_send (InterruptMsg (HardwareFailure
                      (''CPU: Unknown interrupt vector '' @ show_hex (unat vector)))) c))"

definition report_divide_by_zero :: "VirtualCPU \<Rightarrow> VirtualCPU" where
  "report_divide_by_zero c =
     cpu_send (InterruptMsg (HardwareFailure
       (''CPU: Divide by zero in PID '' @ show_dec (unat (current_pid c)) @ '' at PC '' @ show_hex (unat (pc c))))) c"

text \<open>The common shape of the arithmetic instructions: flags from the result, result to the register.\<close>

definition alu :: "VirtualCPU \<Rightarrow> Register \<Rightarrow> u64 \<Rightarrow> u64 \<Rightarrow> VirtualCPU" where
  "alu c dst src_val result =
     write_register (c\<lparr>cpu_flags := flags_from_result result (read_register c dst) src_val\<rparr>) dst result"

fun execute_instruction :: "Instruction \<Rightarrow> VirtualCPU \<Rightarrow> (CPUError, unit) result \<times> VirtualCPU" where
  "execute_instruction (Mov dst src) c = (Inr (), write_register c dst (read_operand c src))"
| "execute_instruction (Add dst src) c =
     (let s = read_operand c src in (Inr (), alu c dst s (read_register c dst + s)))"
| "execute_instruction (Sub dst src) c =
     (let s = read_operand c src in (Inr (), alu c dst s (read_register c dst - s)))"
| "execute_instruction (Mul dst src) c =
     (let s = read_operand c src in (Inr (), alu c dst s (read_register c dst * s)))"
| "execute_instruction (Div dst src) c =
     (let s = read_operand c src in
      if s = 0 then (Inl (DivideByZero (pc c)), report_divide_by_zero c)
      else (Inr (), alu c dst s (read_register c dst div s)))"
| "execute_instruction (Load dst addr) c =
     (let a = read_operand c addr in
      case mmu_read_u8 (mmu c) (current_pid c) a of
        Inl _ \<Rightarrow> (Inl (CpuPageFault a Read), c)
      | Inr v \<Rightarrow> (Inr (), write_register c dst (ucast v)))"
| "execute_instruction (Store src addr) c =
     (let a = read_operand c addr in
      case mmu_write_u8 (mmu c) (current_pid c) a (ucast (read_register c src)) of
        Inl _ \<Rightarrow> (Inl (CpuPageFault a Write), c)
      | Inr m' \<Rightarrow> (Inr (), c\<lparr>mmu := m'\<rparr>))"
| "execute_instruction (Jmp addr) c = (Inr (), c\<lparr>pc := addr\<rparr>)"
| "execute_instruction (Cmp dst src) c =
     (let d = read_register c dst; s = read_operand c src in
      (Inr (), c\<lparr>cpu_flags := flags_from_result (d - s) d s\<rparr>))"
| "execute_instruction (Jz addr) c = (Inr (), if zero_flag (cpu_flags c) then c\<lparr>pc := addr\<rparr> else c)"
| "execute_instruction (Jnz addr) c = (Inr (), if \<not> zero_flag (cpu_flags c) then c\<lparr>pc := addr\<rparr> else c)"
| "execute_instruction (IntVec vector) c = handle_software_interrupt c vector"
| "execute_instruction Halt c = (Inr (), cpu_halt c)"

definition page_fault_exit :: "u64 \<Rightarrow> virt_addr \<Rightarrow> VirtualCPU \<Rightarrow> VirtualCPU" where
  "page_fault_exit saved_pc vaddr c =
     (cpu_send (InterruptMsg (PageFaultInterrupt vaddr Read)) (c\<lparr>pc := saved_pc\<rparr>))\<lparr>pagefault_pending := True\<rparr>"

definition cpu_step :: "VirtualCPU \<Rightarrow> (CPUError, unit) result \<times> VirtualCPU" where
  "cpu_step c =
     (if halted c then (Inl Halted, c)
      else if pagefault_pending c then (Inr (), c)
      else (case fetch_instruction c of
              (Inr instr, c1) \<Rightarrow>
                (case execute_instruction instr c1 of
                   (Inr _, c2) \<Rightarrow> (Inr (), c2\<lparr>instruction_count := instruction_count c2 + 1\<rparr>)
                 | (Inl (CpuPageFault vaddr _), c2) \<Rightarrow> (Inr (), page_fault_exit (pc c) vaddr c2)
                 | (Inl e, c2) \<Rightarrow> (Inl e, c2))
            | (Inl (CpuPageFault vaddr _), c1) \<Rightarrow> (Inr (), page_fault_exit (pc c) vaddr c1)
            | (Inl e, c1) \<Rightarrow> (Inl e, c1)))"

section \<open>Context switching\<close>

definition save_state :: "VirtualCPU \<Rightarrow> CPUState" where
  "save_state c =
     \<lparr>st_registers = registers c, st_pc = pc c, st_sp = sp c, st_flags = cpu_flags c, st_halted = halted c,
      st_current_pid = current_pid c, st_instruction_count = instruction_count c,
      st_pagefault_pending = pagefault_pending c\<rparr>"

definition restore_state :: "VirtualCPU \<Rightarrow> CPUState \<Rightarrow> VirtualCPU" where
  "restore_state c st =
     c\<lparr>registers := st_registers st, pc := st_pc st, sp := st_sp st, cpu_flags := st_flags st,
       halted := st_halted st, current_pid := st_current_pid st,
       instruction_count := st_instruction_count st, pagefault_pending := st_pagefault_pending st\<rparr>"

definition cpu_dump_state :: "VirtualCPU \<Rightarrow> CPUState" where
  "cpu_dump_state c = save_state c"

section \<open>Well-formedness\<close>

definition cpu_wf :: "VirtualCPU \<Rightarrow> bool" where
  "cpu_wf c \<longleftrightarrow> length (registers c) = reg_count \<and> mmu_wf (mmu c)"

lemma reg_idx_bound [simp]: "reg_idx r < 4"
  by (cases r) (simp_all add: reg_idx_def)

lemma reg_idx_inj: "reg_idx r = reg_idx s \<longleftrightarrow> r = s"
  by (cases r; cases s) (simp_all add: reg_idx_def)

lemma reg_from_idx [simp]: "reg_from_index (reg_idx r) = Some r"
  by (cases r) (simp_all add: reg_idx_def reg_from_index_def)

lemma reg_from_index_Some: "reg_from_index i = Some r \<longleftrightarrow> i = reg_idx r"
  by (cases r) (auto simp: reg_idx_def reg_from_index_def)

lemma read_write_register [simp]:
  "length (registers c) = 4 \<Longrightarrow> read_register (write_register c r v) s = (if s = r then v else read_register c s)"
  by (simp add: read_register_def write_register_def nth_list_update reg_idx_inj [symmetric] eq_commute)

lemmas cpu_defs = write_register_def cpu_send_def cpu_halt_def report_divide_by_zero_def alu_def
  handle_software_interrupt_def page_fault_exit_def

text \<open>What fetching changes: nothing but the program counter.\<close>

lemma fetch_byte_frame: "fetch_byte c = (r, c') \<Longrightarrow> \<exists>v. c' = c\<lparr>pc := v\<rparr>"
  by (auto simp: fetch_byte_def split: sum.splits intro: exI [of _ "pc c"])

lemma fetch_qword_frame: "fetch_qword c = (r, c') \<Longrightarrow> \<exists>v. c' = c\<lparr>pc := v\<rparr>"
  by (auto simp: fetch_qword_def split: sum.splits intro: exI [of _ "pc c"])

lemma fetch_instruction_frame: "fetch_instruction c = (r, c') \<Longrightarrow> \<exists>v. c' = c\<lparr>pc := v\<rparr>"
  unfolding fetch_instruction_def
  by (elim sbind_cases) (auto dest!: fetch_byte_frame fetch_qword_frame)

text \<open>Every error of fetching is a page fault, except those of the decoder.\<close>

lemma fetch_byte_cases:
  obtains (fault) e where "mmu_read_u8 (mmu c) (current_pid c) (pc c) = Inl e" "fetch_byte c = (Inl (CpuPageFault (pc c) Read), c)"
    | (ok) v where "mmu_read_u8 (mmu c) (current_pid c) (pc c) = Inr v" "fetch_byte c = (Inr v, c\<lparr>pc := pc c + 1\<rparr>)"
  by (cases "mmu_read_u8 (mmu c) (current_pid c) (pc c)") (auto simp: fetch_byte_def)

lemma execute_instruction_frame:
  assumes "execute_instruction i c = (r, c')"
  shows "current_pid c' = current_pid c \<and> sp c' = sp c \<and> instruction_count c' = instruction_count c \<and>
         pagefault_pending c' = pagefault_pending c \<and> page_tables (mmu c') = page_tables (mmu c) \<and>
         page_size (mmu c') = page_size (mmu c) \<and> length (registers c') = length (registers c)"
  using assms
  by (cases i) (auto simp: cpu_defs Let_def mmu_write_u8_Inr split: if_splits sum.splits)

lemma execute_page_fault_frame: "execute_instruction i c = (Inl (CpuPageFault v a), c') \<Longrightarrow> c' = c"
  by (cases i) (auto simp: cpu_defs Let_def split: if_splits sum.splits)

lemma execute_instruction_wf [inv_intros]:
  "cpu_wf c \<Longrightarrow> execute_instruction i c = (r, c') \<Longrightarrow> cpu_wf c'"
  by (cases i) (auto simp: cpu_wf_def cpu_defs Let_def dest: mmu_write_u8_wf split: if_splits sum.splits)

section \<open>Fetching\<close>

lemma fetch_byte_ok:
  "mmu_read_u8 (mmu c) (current_pid c) (pc c) = Inr v \<Longrightarrow> fetch_byte c = (Inr v, c\<lparr>pc := pc c + 1\<rparr>)"
  by (simp add: fetch_byte_def)

lemma fetch_qword_ok:
  "mmu_read_u32 (mmu c) (current_pid c) (pc c) = Inr w \<Longrightarrow> fetch_qword c = (Inr (ucast w), c\<lparr>pc := pc c + 4\<rparr>)"
  by (simp add: fetch_qword_def)

text \<open>The eight bytes at an address are readable by the current process.\<close>

definition code_at :: "VirtualCPU \<Rightarrow> u64 \<Rightarrow> u8 list \<Rightarrow> bool" where
  "code_at c a bs \<longleftrightarrow> length bs = 8 \<and> (\<forall>i < 8. mmu_read_u8 (mmu c) (current_pid c) (a + of_nat i) = Inr (bs ! i))"

definition decode_bytes :: "u64 \<Rightarrow> u8 list \<Rightarrow> (CPUError, Instruction) result" where
  "decode_bytes cur_pc bs = decode cur_pc (bs ! 0) (bs ! 1) (bs ! 2) (ucast (from_le (subvec 4 4 bs) :: u32))"

lemma code_atD: "code_at c a bs \<Longrightarrow> i < 8 \<Longrightarrow> mmu_read_u8 (mmu c) (current_pid c) (a + of_nat i) = Inr (bs ! i)"
  by (simp add: code_at_def)

lemma aligned_plus4: "4 dvd unat (v :: u64) \<Longrightarrow> 4 dvd unat (v + 4)"
  by (simp add: unat_word_ariths dvd_mod_iff)

lemma code_at_value:
  assumes "cpu_wf c" "4 dvd page_size (mmu c)" "4 dvd unat a" "code_at c a bs"
  shows "mmu_read_u32 (mmu c) (current_pid c) (a + 4) = Inr (from_le (subvec 4 4 bs))"
proof (rule mmu_read_u32_of_bytes)
  show "mmu_read_u8 (mmu c) (current_pid c) (a + 4 + of_nat i) = Inr (subvec 4 4 bs ! i)" if "i < 4" for i
    using code_atD [OF assms(4), of "4 + i"] that assms(4)
    by (simp add: subvec_nth code_at_def add.assoc)
qed (use assms in \<open>simp_all add: cpu_wf_def code_at_def aligned_plus4\<close>)

lemma fetch_instruction_ok:
  assumes "cpu_wf c" "4 dvd page_size (mmu c)" "4 dvd unat (pc c)" "code_at c (pc c) bs"
  shows "fetch_instruction c = (decode_bytes (pc c + 8) bs, c\<lparr>pc := pc c + 8\<rparr>)"
proof -
  let ?rd = "mmu_read_u8 (mmu c) (current_pid c)"
  note rd = code_atD [OF assms(4)]
  have rds: "?rd (pc c) = Inr (bs ! 0)" "?rd (pc c + 1) = Inr (bs ! 1)"
    "?rd (pc c + 2) = Inr (bs ! 2)" "?rd (pc c + 3) = Inr (bs ! 3)"
    using rd [of 0] rd [of 1] rd [of 2] rd [of 3] by simp_all
  note val = code_at_value [OF assms]
  note commuted = rds(2-4) [unfolded add.commute [of "pc c"]] val [unfolded add.commute [of "pc c"]]
  show ?thesis
    by (simp add: fetch_instruction_def sbind_def fetch_byte_def fetch_qword_def rds val commuted decode_bytes_def)
       (simp add: add.commute)
qed

text \<open>An error while fetching is a page fault at one of the eight addresses, or comes from the decoder.\<close>

lemma fetch_instruction_error:
  assumes "fetch_instruction c = (Inl e, c')"
  shows "(\<exists>v. e = CpuPageFault v Read) \<or>
         (c' = c\<lparr>pc := pc c + 8\<rparr> \<and> (\<exists>op d t w. decode (pc c + 8) op d t w = Inl e))"
  using assms unfolding fetch_instruction_def
  by (elim sbind_cases) (auto simp: fetch_byte_def fetch_qword_def add.commute split: sum.splits)

lemma fetch_instruction_pc:
  assumes "fetch_instruction c = (Inr i, c')"
  shows "c' = c\<lparr>pc := pc c + 8\<rparr>"
  using assms unfolding fetch_instruction_def
  by (elim sbind_cases) (auto simp: fetch_byte_def fetch_qword_def split: sum.splits)

lemma decode_no_fault: "decode q op d t w \<noteq> Inl (CpuPageFault v a)"
  by (auto simp: decode_def decode_two_def decode_operand_def decode_reg_def rbind_eq_Inl
      split: option.splits if_splits)

section \<open>Properties of the step\<close>

definition faulted :: "virt_addr \<Rightarrow> VirtualCPU \<Rightarrow> VirtualCPU" where
  "faulted v c = c\<lparr>cpu_bus := cpu_bus c @ [InterruptMsg (PageFaultInterrupt v Read)], pagefault_pending := True\<rparr>"

lemma page_fault_exit_faulted: "c' = c\<lparr>pc := x\<rparr> \<Longrightarrow> page_fault_exit (pc c) v c' = faulted v c"
  by (simp add: page_fault_exit_def faulted_def cpu_send_def)

lemma execute_error_frame:
  "execute_instruction i c = (Inl e, c') \<Longrightarrow>
   registers c' = registers c \<and> cpu_flags c' = cpu_flags c \<and> mmu c' = mmu c \<and> pc c' = pc c \<and>
   instruction_count c' = instruction_count c"
  by (cases i) (auto simp: cpu_defs Let_def split: if_splits sum.splits)

lemma cpu_step_fetch_fault:
  assumes "\<not> halted c" "\<not> pagefault_pending c" "fetch_instruction c = (Inl (CpuPageFault v a), c1)"
  shows "cpu_step c = (Inr (), faulted v c)"
proof -
  obtain x where "c1 = c\<lparr>pc := x\<rparr>" using fetch_instruction_frame [OF assms(3)] by blast
  then show ?thesis using assms by (simp add: cpu_step_def page_fault_exit_faulted)
qed

lemma cpu_step_execute:
  assumes "\<not> halted c" "\<not> pagefault_pending c" "fetch_instruction c = (Inr i, c1)"
  shows "cpu_step c =
     (case execute_instruction i (c\<lparr>pc := pc c + 8\<rparr>) of
        (Inr _, c2) \<Rightarrow> (Inr (), c2\<lparr>instruction_count := instruction_count c + 1\<rparr>)
      | (Inl (CpuPageFault v _), c2) \<Rightarrow> (Inr (), faulted v c)
      | (Inl e, c2) \<Rightarrow> (Inl e, c2))"
proof -
  have c1: "c1 = c\<lparr>pc := pc c + 8\<rparr>" by (rule fetch_instruction_pc [OF assms(3)])
  obtain r c2 where ex: "execute_instruction i (c\<lparr>pc := pc c + 8\<rparr>) = (r, c2)" by (cases "execute_instruction i (c\<lparr>pc := pc c + 8\<rparr>)")
  have count: "instruction_count c2 = instruction_count c" using execute_instruction_frame [OF ex] by simp
  have fault: "page_fault_exit (pc c) v c2 = faulted v c" if "r = Inl (CpuPageFault v a)" for v a
    using execute_page_fault_frame [of i "c\<lparr>pc := pc c + 8\<rparr>" v a c2] ex that
    by (simp add: page_fault_exit_faulted)
  show ?thesis using assms ex count fault
    by (auto simp: cpu_step_def c1 split: sum.splits CPUError.splits)
qed

text \<open>
  C9. Exceptions are precise. A step of a running processor either retires one instruction, or
  faults and leaves the whole state as it was except for the pending-fault flag and one
  page-fault message on the bus, or reports an error (bad opcode, bad register, division by zero) with
  registers, flags and memory untouched and the program counter past the eight bytes of the instruction.
\<close>

theorem cpu_step_outcomes:
  assumes "\<not> halted c" "\<not> pagefault_pending c" "cpu_step c = (r, c')"
  shows "(r = Inr () \<and> instruction_count c' = instruction_count c + 1 \<and> \<not> pagefault_pending c') \<or>
         (\<exists>v. r = Inr () \<and> c' = faulted v c) \<or>
         (\<exists>e. r = Inl e \<and> registers c' = registers c \<and> cpu_flags c' = cpu_flags c \<and> mmu c' = mmu c \<and>
              pc c' = pc c + 8 \<and> instruction_count c' = instruction_count c)"
proof (cases "fetch_instruction c")
  case (Pair f c1)
  show ?thesis
  proof (cases f)
    case (Inr i)
    obtain s c2 where ex: "execute_instruction i (c\<lparr>pc := pc c + 8\<rparr>) = (s, c2)"
      by (cases "execute_instruction i (c\<lparr>pc := pc c + 8\<rparr>)")
    have "pagefault_pending c2 = pagefault_pending c" using execute_instruction_frame [OF ex] by simp
    moreover have "s = Inl e \<Longrightarrow> registers c2 = registers c \<and> cpu_flags c2 = cpu_flags c \<and> mmu c2 = mmu c \<and>
        pc c2 = pc c + 8 \<and> instruction_count c2 = instruction_count c" for e
      using execute_error_frame [of i "c\<lparr>pc := pc c + 8\<rparr>" e c2] ex by simp
    ultimately show ?thesis
      using cpu_step_execute [OF assms(1,2) Pair [unfolded Inr]] assms(2,3) ex
      by (auto split: sum.splits CPUError.splits)
  next
    case (Inl e)
    note err = fetch_instruction_error [OF Pair [unfolded Inl]]
    show ?thesis
    proof (cases "\<exists>v. e = CpuPageFault v Read")
      case True
      then show ?thesis using cpu_step_fetch_fault [OF assms(1,2)] Pair Inl assms(3) by auto
    next
      case False
      with err have c1: "c1 = c\<lparr>pc := pc c + 8\<rparr>" and "\<forall>v a. e \<noteq> CpuPageFault v a"
        using decode_no_fault by blast+
      then have "cpu_step c = (Inl e, c1)"
        using assms(1,2) Pair Inl by (auto simp: cpu_step_def split: CPUError.splits)
      with assms(3) c1 show ?thesis by auto
    qed
  qed
qed

text \<open>A processor whose process has no page table faults on its first step.\<close>

definition demo_cpu :: VirtualCPU where
  "demo_cpu = VirtualCPU_new demo_mmu [] 3"

lemma demo_cpu_fault: "cpu_step demo_cpu = (Inr (), faulted 0 demo_cpu)"
  by (rule cpu_step_fetch_fault)
     (simp_all add: demo_cpu_def VirtualCPU_new_def demo_mmu_def fetch_instruction_def sbind_def
       fetch_byte_def mmu_read_u8_def translate_def Let_def)

theorem cpu_step_outcomes_witness: "\<exists>v. cpu_step demo_cpu = (Inr (), faulted v demo_cpu)"
proof -
  have "\<not> halted demo_cpu" "\<not> pagefault_pending demo_cpu" by (simp_all add: demo_cpu_def VirtualCPU_new_def)
  from cpu_step_outcomes [OF this demo_cpu_fault] show ?thesis
    using demo_cpu_fault by (auto simp: faulted_def)
qed

text \<open>
  A step of a running processor executes exactly the instruction its eight bytes encode: when the
  bytes at a word-aligned program counter are readable and decode to an instruction, the step has the
  effect of executing it with the program counter past it.
\<close>

theorem cpu_step_executes:
  assumes "cpu_wf c" "4 dvd page_size (mmu c)" "4 dvd unat (pc c)" "code_at c (pc c) bs"
    and "decode_bytes (pc c + 8) bs = Inr i" "\<not> halted c" "\<not> pagefault_pending c"
    and "execute_instruction i (c\<lparr>pc := pc c + 8\<rparr>) = (Inr u, c')"
  shows "cpu_step c = (Inr (), c'\<lparr>instruction_count := instruction_count c + 1\<rparr>) \<and> cpu_wf c'"
proof -
  have "cpu_wf (c\<lparr>pc := pc c + 8\<rparr>)" using assms(1) by (simp add: cpu_wf_def)
  then show ?thesis
    using cpu_step_execute [OF assms(6,7)] fetch_instruction_ok [OF assms(1-4)] assms(5,8)
      execute_instruction_wf by fastforce
qed

definition halt_cpu :: VirtualCPU where
  "halt_cpu = VirtualCPU_new
     (demo_mmu\<lparr>memory := \<lparr>mem_data = [0xFF, 0, 0, 0, 0, 0, 0, 0], mem_size = 8\<rparr>\<rparr>) [] 1"

lemma mem_read_u8_in: "mem_wf m \<Longrightarrow> a < mem_size m \<Longrightarrow> mem_read_u8 m a = Inr (mem_data m ! a)"
  by (simp add: mem_read_u8_def check_bounds_cases)

lemma less8_cases: "i < 8 \<Longrightarrow> i \<in> {0, 1, 2, 3, 4, 5, 6, 7 :: nat}"
  by (simp only: insert_iff empty_iff) presburger

lemma halt_cpu_code: "code_at halt_cpu (pc halt_cpu) [0xFF, 0, 0, 0, 0, 0, 0, 0]"
proof -
  have "mmu_read_u8 (mmu halt_cpu) 1 (of_nat i) = Inr ([0xFF, 0, 0, 0, 0, 0, 0, 0] ! i)" if "i < 8" for i
    using less8_cases [OF that]
    by (elim insertE emptyE; simp add: halt_cpu_def VirtualCPU_new_def demo_mmu_def mmu_read_u8_def
        translate_def align_down_def present_writable_def mem_read_u8_in mem_wf_def Let_def)
  then show ?thesis by (simp add: code_at_def halt_cpu_def VirtualCPU_new_def)
qed

lemma halt_cpu_wf: "cpu_wf halt_cpu"
  using demo_mmu_wf
  by (simp add: cpu_wf_def halt_cpu_def VirtualCPU_new_def reg_count_def memory_update_wf mem_wf_def)

theorem cpu_step_executes_witness: "halted (snd (cpu_step halt_cpu))"
proof -
  have ps: "4 dvd page_size (mmu halt_cpu)" "4 dvd unat (pc halt_cpu)" "\<not> halted halt_cpu"
    "\<not> pagefault_pending halt_cpu"
    by (simp_all add: halt_cpu_def VirtualCPU_new_def demo_mmu_def)
  have dec: "decode_bytes (pc halt_cpu + 8) [0xFF, 0, 0, 0, 0, 0, 0, 0] = Inr Halt"
    by (simp add: decode_bytes_def decode_def)
  show ?thesis
    using cpu_step_executes [OF halt_cpu_wf ps(1,2) halt_cpu_code dec ps(3,4)] by (simp add: cpu_halt_def)
qed

text \<open>
  C6. Running one process cannot touch the memory of another: a step keeps every page table, and a
  process that shares no frame with the running one reads the same bytes after it as before.
\<close>

theorem cpu_step_isolated:
  assumes "cpu_wf c" "frames_disjoint (mmu c) (current_pid c) q" "cpu_step c = (r, c')"
  shows "page_tables (mmu c') = page_tables (mmu c) \<and> mmu_read_u8 (mmu c') q w = mmu_read_u8 (mmu c) q w"
proof -
  have ex: "page_tables (mmu c2) = page_tables (mmu c) \<and> mmu_read_u8 (mmu c2) q w = mmu_read_u8 (mmu c) q w"
    if "execute_instruction i (c\<lparr>pc := x\<rparr>) = (s, c2)" for i x s c2
    using that assms(1,2)
    by (cases i) (auto simp: cpu_defs Let_def cpu_wf_def mmu_write_u8_isolated mmu_write_u8_frame
        split: if_splits sum.splits)
  obtain f c1 where f: "fetch_instruction c = (f, c1)" by (cases "fetch_instruction c")
  with fetch_instruction_frame obtain x where "c1 = c\<lparr>pc := x\<rparr>" by blast
  with f assms(3) show ?thesis
    by (auto simp: cpu_step_def page_fault_exit_def cpu_send_def dest!: ex
        split: if_splits sum.splits prod.splits CPUError.splits)
qed

theorem cpu_step_isolated_witness:
  "mmu_read_u8 (mmu (snd (cpu_step halt_cpu))) 2 0 = mmu_read_u8 (mmu halt_cpu) 2 0"
proof -
  have "frames_disjoint (mmu halt_cpu) (current_pid halt_cpu) 2"
    by (auto simp: frames_disjoint_def frames_of_def halt_cpu_def VirtualCPU_new_def demo_mmu_def ran_def split: if_splits)
  then show ?thesis using cpu_step_isolated [OF halt_cpu_wf, of 2 _ _ 0] by (cases "cpu_step halt_cpu") auto
qed

text \<open>
  A misaligned program counter never retires an instruction: the four-byte operand fetch is
  misaligned, every such fetch error is reported as a page fault, and the step leaves the program counter
  where it was, however often the fault is served.
\<close>

theorem cpu_step_misaligned:
  assumes "cpu_wf c" "4 dvd page_size (mmu c)" "\<not> 4 dvd unat (pc c)" "\<not> halted c" "\<not> pagefault_pending c"
  shows "\<exists>v. cpu_step c = (Inr (), faulted v c)"
proof -
  have "\<not> 4 dvd unat (4 + pc c)" using assms(3) by (simp add: unat_word_ariths dvd_mod_iff)
  then obtain e where e: "mmu_read_u32 (mmu c) (current_pid c) (4 + pc c) = Inl e"
    using mmu_read_u32_misaligned [of "mmu c" "4 + pc c" "current_pid c"] assms(1,2) by (auto simp: cpu_wf_def)
  obtain f c1 where f: "fetch_instruction c = (f, c1)" by (cases "fetch_instruction c")
  then have "\<exists>v. f = Inl (CpuPageFault v Read)"
    using e unfolding fetch_instruction_def
    by (elim sbind_cases) (auto simp: fetch_byte_def fetch_qword_def split: sum.splits)
  with f show ?thesis using cpu_step_fetch_fault [OF assms(4,5)] by blast
qed

theorem cpu_step_misaligned_witness:
  "\<exists>v. cpu_step (set_pc halt_cpu 2) = (Inr (), faulted v (set_pc halt_cpu 2))"
proof (rule cpu_step_misaligned)
  show "cpu_wf (set_pc halt_cpu 2)" using halt_cpu_wf by (simp add: cpu_wf_def set_pc_def)
qed (simp_all add: set_pc_def halt_cpu_def VirtualCPU_new_def demo_mmu_def)

text \<open>
  C39. Flags of a comparison. \<^verbatim>\<open>CMP\<close> makes the following \<^verbatim>\<open>JZ\<close> jump exactly when the operands are
  equal and \<^verbatim>\<open>JNZ\<close> exactly when they differ, and its carry flag, computed as for an addition, is set
  exactly when no borrow occurs and the subtrahend is not zero.
\<close>

theorem cmp_flags_branch:
  assumes "execute_instruction (Cmp d s) c = (Inr u, c')"
  shows "pc (snd (execute_instruction (Jz a) c')) = (if read_register c d = read_operand c s then a else pc c) \<and>
         pc (snd (execute_instruction (Jnz a) c')) = (if read_register c d = read_operand c s then pc c else a) \<and>
         (carry_flag (cpu_flags c') \<longleftrightarrow> 0 < read_operand c s \<and> read_operand c s \<le> read_register c d) \<and>
         registers c' = registers c"
proof -
  have carry: "x - y < x \<longleftrightarrow> 0 < y \<and> y \<le> x" for x y :: u64
  proof -
    have "unat y < 18446744073709551616" using unsigned_less [of y] by simp
    then show ?thesis by (auto simp: word_less_nat_alt word_le_nat_alt unat_sub_if_size word_size)
  qed
  show ?thesis using assms by (auto simp: Let_def flags_from_result_def carry)
qed

theorem cmp_flags_branch_witness:
  "pc (snd (execute_instruction (Jz 64) (snd (execute_instruction (Cmp R0 (Imm 0)) demo_cpu)))) = 64"
  using cmp_flags_branch [of R0 "Imm 0" demo_cpu "()" "snd (execute_instruction (Cmp R0 (Imm 0)) demo_cpu)" 64]
  by (simp add: Let_def read_operand_def read_register_def demo_cpu_def VirtualCPU_new_def reg_idx_def)

section \<open>Context switches\<close>

text \<open>
  The saved state leaves out the pending system call, its registers and the bus. Stepping depends on
  none of them: two processors that agree on the rest keep agreeing, and send the same new messages.
\<close>

definition rebased :: "KernelMsg list \<Rightarrow> bool \<Rightarrow> u64 list \<Rightarrow> VirtualCPU \<Rightarrow> VirtualCPU" where
  "rebased b p rs c = c\<lparr>cpu_bus := b, syscall_pending := p, syscall_regs := rs\<rparr>"

lemma rebased_simps [simp]:
  "registers (rebased b p rs c) = registers c" "pc (rebased b p rs c) = pc c" "sp (rebased b p rs c) = sp c"
  "cpu_flags (rebased b p rs c) = cpu_flags c" "current_pid (rebased b p rs c) = current_pid c"
  "halted (rebased b p rs c) = halted c" "mmu (rebased b p rs c) = mmu c"
  "instruction_count (rebased b p rs c) = instruction_count c"
  "pagefault_pending (rebased b p rs c) = pagefault_pending c" "cpu_bus (rebased b p rs c) = b"
  "(rebased b p rs c)\<lparr>pc := x\<rparr> = rebased b p rs (c\<lparr>pc := x\<rparr>)"
  "save_state (rebased b p rs c) = save_state c"
  by (simp_all add: rebased_def save_state_def)

lemma restore_rebased:
  "mmu d = mmu c \<Longrightarrow> restore_state d (save_state c) = rebased (cpu_bus d) (syscall_pending d) (syscall_regs d) c"
  by (simp add: restore_state_def save_state_def rebased_def)

lemma fetch_byte_rebased: "fetch_byte (rebased b p rs c) = map_prod id (rebased b p rs) (fetch_byte c)"
  by (simp add: fetch_byte_def split: sum.splits)

lemma fetch_qword_rebased: "fetch_qword (rebased b p rs c) = map_prod id (rebased b p rs) (fetch_qword c)"
  by (simp add: fetch_qword_def split: sum.splits)

lemma sbind_commute:
  assumes "f (h s) = map_prod id h (f s)" "\<And>a t. g a (h t) = map_prod id h (g a t)"
  shows "sbind f g (h s) = map_prod id h (sbind f g s)"
  using assms by (auto simp: sbind_def split: prod.splits sum.splits)

lemma fetch_instruction_rebased:
  "fetch_instruction (rebased b p rs c) = map_prod id (rebased b p rs) (fetch_instruction c)"
  unfolding fetch_instruction_def
  by (intro sbind_commute fetch_byte_rebased fetch_qword_rebased) simp

lemma execute_rebased:
  assumes "execute_instruction i c = (r, c')" "execute_instruction i (rebased b p rs c) = (s, d')"
  shows "s = r \<and> save_state d' = save_state c' \<and> mmu d' = mmu c' \<and>
         (\<forall>new. cpu_bus c' = cpu_bus c @ new \<longrightarrow> cpu_bus d' = b @ new)"
  using assms
  by (cases i)
     (auto simp: cpu_defs save_state_def rebased_def Let_def read_operand_def read_register_def
       split: if_splits sum.splits Operand.splits)

lemma execute_bus: "execute_instruction i c = (r, c') \<Longrightarrow> \<exists>new. cpu_bus c' = cpu_bus c @ new"
  by (cases i) (auto simp: cpu_defs Let_def split: if_splits sum.splits)

lemma cpu_step_fetch_error:
  assumes "\<not> halted c" "\<not> pagefault_pending c" "fetch_instruction c = (Inl e, c1)"
  shows "cpu_step c = (case e of CpuPageFault v a \<Rightarrow> (Inr (), faulted v c) | _ \<Rightarrow> (Inl e, c1))"
  using assms cpu_step_fetch_fault [of c] by (cases e) (simp_all add: cpu_step_def)

lemma faulted_fields:
  "registers (faulted v c) = registers c" "pc (faulted v c) = pc c" "sp (faulted v c) = sp c"
  "cpu_flags (faulted v c) = cpu_flags c" "current_pid (faulted v c) = current_pid c"
  "halted (faulted v c) = halted c" "mmu (faulted v c) = mmu c"
  "instruction_count (faulted v c) = instruction_count c" "pagefault_pending (faulted v c)"
  "cpu_bus (faulted v c) = cpu_bus c @ [InterruptMsg (PageFaultInterrupt v Read)]"
  by (simp_all add: faulted_def)

text \<open>
  A context switch is transparent: saving the state of one processor and restoring it on
  another one attached to the same memory gives a processor that steps exactly like the first, with the
  same result, the same state to save, the same memory, and the same new messages on its bus.
\<close>

theorem context_switch_transparent:
  assumes "mmu d = mmu c" "cpu_step c = (r, c')" "cpu_step (restore_state d (save_state c)) = (s, d')"
  shows "s = r \<and> save_state d' = save_state c' \<and> mmu d' = mmu c' \<and>
         (\<exists>new. cpu_bus c' = cpu_bus c @ new \<and> cpu_bus d' = cpu_bus d @ new)"
proof -
  let ?h = "rebased (cpu_bus d) (syscall_pending d) (syscall_regs d)"
  have s: "cpu_step (?h c) = (s, d')" using assms(1,3) by (simp add: restore_rebased)
  show ?thesis
  proof (cases "halted c \<or> pagefault_pending c")
    case True
    then show ?thesis using assms(2) s by (auto simp: cpu_step_def split: if_splits)
  next
    case False
    obtain f c1 where f: "fetch_instruction c = (f, c1)" by (cases "fetch_instruction c")
    then have fd: "fetch_instruction (?h c) = (f, ?h c1)" by (simp add: fetch_instruction_rebased)
    show ?thesis
    proof (cases f)
      case (Inr i)
      obtain q c2 where ec: "execute_instruction i (c\<lparr>pc := pc c + 8\<rparr>) = (q, c2)" by fastforce
      obtain t d2 where ed: "execute_instruction i (?h (c\<lparr>pc := pc c + 8\<rparr>)) = (t, d2)" by fastforce
      from execute_bus [OF ec] execute_rebased [OF ec ed] obtain new where
        same: "t = q" "save_state d2 = save_state c2" "mmu d2 = mmu c2"
          "cpu_bus c2 = cpu_bus c @ new" "cpu_bus d2 = cpu_bus d @ new" by auto
      note step = cpu_step_execute [of c i c1] cpu_step_execute [of "?h c" i "?h c1"]
      show ?thesis
        using step False f fd Inr ec ed same assms(2) s
        by (cases q) (auto simp: save_state_def faulted_fields split: CPUError.splits)
    next
      case (Inl e)
      note step = cpu_step_fetch_error [of c e c1] cpu_step_fetch_error [of "?h c" e "?h c1"]
      have "cpu_bus c1 = cpu_bus c" using fetch_instruction_frame [OF f] by auto
      then show ?thesis
        using step False f fd Inl assms(2) s
        by (cases e) (auto simp: save_state_def faulted_fields)
    qed
  qed
qed

theorem context_switch_transparent_witness:
  "fst (cpu_step (restore_state (VirtualCPU_new demo_mmu [] 7) (save_state demo_cpu))) = fst (cpu_step demo_cpu)"
proof -
  have "mmu (VirtualCPU_new demo_mmu [] 7) = mmu demo_cpu" by (simp add: demo_cpu_def VirtualCPU_new_def)
  from context_switch_transparent [OF this prod.collapse [symmetric] prod.collapse [symmetric]]
  show ?thesis by blast
qed

end
