(* ===== verification/Assembler.thy ===== *)
theory Assembler
  imports CPU
begin

text \<open>
  The assembler (\<^verbatim>\<open>src/services/process/assembler.rs\<close>): operand and line parsing, the eight-byte
  instruction encoding, and the assembly of a source text. A line the assembler cannot read is
  reported on the standard error stream and skipped, so it is the value \<open>None\<close> here. The locale
  \<open>instruction_codec\<close> is the contract between this encoder and the decoder of the processor.
\<close>

section \<open>Encoding\<close>

definition OP_MOV :: u8 where "OP_MOV = 0x01"
definition OP_ADD :: u8 where "OP_ADD = 0x02"
definition OP_SUB :: u8 where "OP_SUB = 0x03"
definition OP_MUL :: u8 where "OP_MUL = 0x04"
definition OP_DIV :: u8 where "OP_DIV = 0x05"
definition OP_LOAD :: u8 where "OP_LOAD = 0x06"
definition OP_STORE :: u8 where "OP_STORE = 0x07"
definition OP_JMP :: u8 where "OP_JMP = 0x10"
definition OP_CMP :: u8 where "OP_CMP = 0x11"
definition OP_JZ :: u8 where "OP_JZ = 0x12"
definition OP_JNZ :: u8 where "OP_JNZ = 0x13"
definition OP_INT :: u8 where "OP_INT = 0x80"
definition OP_HALT :: u8 where "OP_HALT = 0xFF"
definition SRC_REG :: u8 where "SRC_REG = 0"
definition SRC_IMM :: u8 where "SRC_IMM = 1"

lemmas op_defs = OP_MOV_def OP_ADD_def OP_SUB_def OP_MUL_def OP_DIV_def OP_LOAD_def OP_STORE_def
  OP_JMP_def OP_CMP_def OP_JZ_def OP_JNZ_def OP_INT_def OP_HALT_def SRC_REG_def SRC_IMM_def

definition encode :: "u8 \<Rightarrow> u8 \<Rightarrow> u8 \<Rightarrow> u64 \<Rightarrow> u8 list" where
  "encode opcode dst_reg src_type v = [opcode, dst_reg, src_type, 0x00] @ to_le 4 (ucast v :: u32)"

section \<open>Parsing\<close>

definition reg_index :: "string \<Rightarrow> u8 option" where
  "reg_index name =
     (let n = to_uppercase name in
      if n = ''R0'' then Some 0 else if n = ''R1'' then Some 1
      else if n = ''R2'' then Some 2 else if n = ''R3'' then Some 3 else None)"

definition parse_number :: "string \<Rightarrow> u64 option" where
  "parse_number s =
     map_option of_nat
       (case strip_prefix ''0x'' s of
          Some hex \<Rightarrow> from_str_radix 16 hex
        | None \<Rightarrow> (case strip_prefix ''0X'' s of
                     Some hex \<Rightarrow> from_str_radix 16 hex
                   | None \<Rightarrow> from_str_radix 10 s))"

definition parse_operand :: "string \<Rightarrow> (u8 \<times> u64) option" where
  "parse_operand s0 =
     (let s = trim s0 in
      case strip_prefix ''#'' s of
        Some stripped \<Rightarrow> map_option (\<lambda>v. (SRC_IMM, v)) (parse_number stripped)
      | None \<Rightarrow> map_option (\<lambda>idx. (SRC_REG, ucast idx)) (reg_index s))"

definition parse_immediate :: "string \<Rightarrow> u64 option" where
  "parse_immediate s0 = parse_number (trim_start_pred (\<lambda>c. c = CHR ''#'') (trim s0))"

definition parse_mem_operand :: "string \<Rightarrow> (u8 \<times> u64) option" where
  "parse_mem_operand s0 =
     (case strip_prefix ''['' (trim s0) of
        None \<Rightarrow> None
      | Some t \<Rightarrow>
         (case strip_suffix '']'' t of
            None \<Rightarrow> None
          | Some inner \<Rightarrow>
             (case reg_index inner of
                Some idx \<Rightarrow> Some (SRC_REG, ucast idx)
              | None \<Rightarrow> map_option (\<lambda>v. (SRC_IMM, v)) (parse_immediate inner))))"

definition trim_commas :: "string \<Rightarrow> string" where
  "trim_commas = trim_end_pred (\<lambda>c. c = CHR '','')"

definition two_operands :: "u8 \<Rightarrow> string list \<Rightarrow> u8 list option" where
  "two_operands opcode parts =
     (if length parts < 3 then None
      else case reg_index (trim_commas (parts ! 1)) of
             None \<Rightarrow> None
           | Some dst \<Rightarrow> map_option (\<lambda>(src_type, v). encode opcode dst src_type v) (parse_operand (parts ! 2)))"

definition one_address :: "u8 \<Rightarrow> string list \<Rightarrow> u8 list option" where
  "one_address opcode parts =
     (if length parts < 2 then None
      else map_option (\<lambda>addr. encode opcode 0 SRC_IMM addr) (parse_immediate (parts ! 1)))"

definition parse_load :: "string list \<Rightarrow> u8 list option" where
  "parse_load parts =
     (if length parts < 3 then None
      else case reg_index (trim_commas (parts ! 1)) of
             None \<Rightarrow> None
           | Some dst \<Rightarrow> map_option (\<lambda>(t, v). encode OP_LOAD dst t v) (parse_mem_operand (parts ! 2)))"

definition parse_store :: "string list \<Rightarrow> u8 list option" where
  "parse_store parts =
     (if length parts < 3 then None
      else case reg_index (trim_commas (parts ! 2)) of
             None \<Rightarrow> None
           | Some src \<Rightarrow> map_option (\<lambda>(t, v). encode OP_STORE src t v) (parse_mem_operand (trim_commas (parts ! 1))))"

definition parse_parts :: "string list \<Rightarrow> u8 list option" where
  "parse_parts parts =
     (let mnemonic = to_uppercase (parts ! 0) in
      if mnemonic = ''HALT'' then Some (encode OP_HALT 0 0 0)
      else if mnemonic = ''MOV'' then two_operands OP_MOV parts
      else if mnemonic = ''ADD'' then two_operands OP_ADD parts
      else if mnemonic = ''SUB'' then two_operands OP_SUB parts
      else if mnemonic = ''MUL'' then two_operands OP_MUL parts
      else if mnemonic = ''DIV'' then two_operands OP_DIV parts
      else if mnemonic = ''JMP'' then one_address OP_JMP parts
      else if mnemonic = ''CMP'' then two_operands OP_CMP parts
      else if mnemonic = ''JZ'' \<or> mnemonic = ''JE'' then one_address OP_JZ parts
      else if mnemonic = ''JNZ'' \<or> mnemonic = ''JNE'' then one_address OP_JNZ parts
      else if mnemonic = ''LOAD'' then parse_load parts
      else if mnemonic = ''STORE'' then parse_store parts
      else if mnemonic = ''INT'' then one_address OP_INT parts
      else None)"

definition parse_line :: "string \<Rightarrow> u8 list option" where
  "parse_line line0 =
     (let line = trim line0 in
      if line = [] \<or> starts_with '';'' line \<or> starts_with ''//'' line then None
      else let line = (case position (\<lambda>c. c = CHR '';'') line of
                         Some pos \<Rightarrow> trim (take pos line)
                       | None \<Rightarrow> line);
               parts = split_whitespace line in
           if parts = [] then None else parse_parts parts)"

fun assemble_lines :: "string list \<Rightarrow> u8 list" where
  "assemble_lines [] = []"
| "assemble_lines (line # ls) =
     (case parse_line line of Some bytes \<Rightarrow> bytes @ assemble_lines ls | None \<Rightarrow> assemble_lines ls)"

definition assemble :: "string \<Rightarrow> (string, u8 list) result" where
  "assemble source =
     (let code = assemble_lines (str_lines source) in
      if code = [] then Inl ''no instructions generated'' else Inr code)"

section \<open>Encoder and decoder\<close>

text \<open>The encoding of an instruction, and the instruction after its immediate went through 32 bits.\<close>

definition enc_operand :: "u8 \<Rightarrow> Register \<Rightarrow> Operand \<Rightarrow> u8 list" where
  "enc_operand opcode r o' =
     (case o' of
        Reg s \<Rightarrow> encode opcode (of_nat (reg_idx r)) SRC_REG (of_nat (reg_idx s))
      | Imm v \<Rightarrow> encode opcode (of_nat (reg_idx r)) SRC_IMM v)"

fun encode_instr :: "Instruction \<Rightarrow> u8 list" where
  "encode_instr (Mov d s) = enc_operand OP_MOV d s"
| "encode_instr (Add d s) = enc_operand OP_ADD d s"
| "encode_instr (Sub d s) = enc_operand OP_SUB d s"
| "encode_instr (Mul d s) = enc_operand OP_MUL d s"
| "encode_instr (Div d s) = enc_operand OP_DIV d s"
| "encode_instr (Load d s) = enc_operand OP_LOAD d s"
| "encode_instr (Store d s) = enc_operand OP_STORE d s"
| "encode_instr (Cmp d s) = enc_operand OP_CMP d s"
| "encode_instr (Jmp a) = encode OP_JMP 0 SRC_IMM a"
| "encode_instr (Jz a) = encode OP_JZ 0 SRC_IMM a"
| "encode_instr (Jnz a) = encode OP_JNZ 0 SRC_IMM a"
| "encode_instr (IntVec v) = encode OP_INT 0 SRC_IMM (ucast v)"
| "encode_instr Halt = encode OP_HALT 0 0 0"

definition trunc32 :: "u64 \<Rightarrow> u64" where
  "trunc32 v = take_bit 32 v"

definition trunc_operand :: "Operand \<Rightarrow> Operand" where
  "trunc_operand o' = (case o' of Reg r \<Rightarrow> Reg r | Imm v \<Rightarrow> Imm (trunc32 v))"

fun truncate_imm :: "Instruction \<Rightarrow> Instruction" where
  "truncate_imm (Mov d s) = Mov d (trunc_operand s)"
| "truncate_imm (Add d s) = Add d (trunc_operand s)"
| "truncate_imm (Sub d s) = Sub d (trunc_operand s)"
| "truncate_imm (Mul d s) = Mul d (trunc_operand s)"
| "truncate_imm (Div d s) = Div d (trunc_operand s)"
| "truncate_imm (Load d s) = Load d (trunc_operand s)"
| "truncate_imm (Store d s) = Store d (trunc_operand s)"
| "truncate_imm (Cmp d s) = Cmp d (trunc_operand s)"
| "truncate_imm (Jmp a) = Jmp (trunc32 a)"
| "truncate_imm (Jz a) = Jz (trunc32 a)"
| "truncate_imm (Jnz a) = Jnz (trunc32 a)"
| "truncate_imm (IntVec v) = IntVec v"
| "truncate_imm Halt = Halt"

locale instruction_codec =
  fixes enc :: "'i \<Rightarrow> 'b list"
    and dec :: "'b list \<Rightarrow> ('e, 'i) result"
    and norm :: "'i \<Rightarrow> 'i"
    and width :: nat
  assumes enc_width: "length (enc i) = width"
    and dec_enc: "dec (enc i) = Inr (norm i)"
begin

lemma length_program: "length (concat (map enc is)) = width * length is"
  by (induction "is") (simp_all add: enc_width)

lemma program_decodes:
  "k < length is \<Longrightarrow> dec (subvec (width * k) width (concat (map enc is))) = Inr (norm (is ! k))"
proof (induction "is" arbitrary: k)
  case (Cons i "is")
  show ?case
  proof (cases k)
    case 0
    then show ?thesis by (simp add: subvec_def enc_width dec_enc)
  next
    case (Suc j)
    with Cons show ?thesis by (simp add: subvec_def enc_width)
  qed
qed simp

end

lemma length_encode [simp]: "length (encode opcode d t v) = 8"
  by (simp add: encode_def)

lemma encode_bytes:
  "encode op d t v ! 0 = op" "encode op d t v ! 1 = d" "encode op d t v ! 2 = t"
  "(ucast (from_le (subvec 4 4 (encode op d t v)) :: u32) :: u64) = trunc32 v"
proof -
  have "subvec 4 4 (encode op d t v) = to_le 4 (ucast v :: u32)"
    by (simp add: encode_def subvec_def)
  moreover have "(ucast (ucast v :: u32) :: u64) = trunc32 v"
    by (rule bit_word_eqI) (auto simp: trunc32_def bit_simps)
  ultimately show "(ucast (from_le (subvec 4 4 (encode op d t v)) :: u32) :: u64) = trunc32 v" by simp
qed (simp_all add: encode_def)

lemma trunc32_id: "unat v < 2 ^ 32 \<Longrightarrow> trunc32 v = v"
  by (simp add: trunc32_def word_unat_eq_iff unsigned_take_bit_eq take_bit_nat_eq_self)

lemma trunc32_reg [simp]: "trunc32 (of_nat (reg_idx r)) = of_nat (reg_idx r)"
  by (rule trunc32_id) (cases r; simp add: reg_idx_def)

lemma trunc32_ucast8 [simp]: "ucast (trunc32 (ucast (v :: u8))) = v"
  by (rule bit_word_eqI) (auto simp: trunc32_def bit_simps)

lemma decode_reg_idx [simp]: "decode_reg (reg_idx r) = Inr r"
  by (simp add: decode_reg_def)

lemma unat_reg_idx [simp]: "unat (of_nat (reg_idx r) :: u8) = reg_idx r" "unat (of_nat (reg_idx r) :: u64) = reg_idx r"
  by (cases r; simp add: reg_idx_def)+

lemma decode_two_reg:
  "decode_two mk (of_nat (reg_idx d)) SRC_REG (of_nat (reg_idx s)) = Inr (mk d (Reg s))"
  by (simp add: decode_two_def decode_operand_def SRC_REG_def)

lemma decode_two_imm: "decode_two mk (of_nat (reg_idx d)) SRC_IMM v = Inr (mk d (Imm v))"
  by (simp add: decode_two_def decode_operand_def SRC_IMM_def)

lemma decode_encode:
  "decode_bytes q (encode op d t v) = decode q op d t (trunc32 v)"
  by (simp only: decode_bytes_def encode_bytes)

lemma decode_enc_operand:
  "decode_bytes q (enc_operand op d s) =
     (case trunc_operand s of
        Reg r \<Rightarrow> decode q op (of_nat (reg_idx d)) SRC_REG (of_nat (reg_idx r))
      | Imm v \<Rightarrow> decode q op (of_nat (reg_idx d)) SRC_IMM v)"
  by (cases s) (simp_all add: enc_operand_def decode_encode trunc_operand_def)

interpretation isa: instruction_codec encode_instr "decode_bytes q" truncate_imm 8 for q
proof (standard, goal_cases)
  case (1 i)
  show ?case by (cases i) (simp_all add: enc_operand_def split: Operand.split)
next
  case (2 i)
  show ?case
    by (cases i)
       (simp_all add: decode_enc_operand decode_encode decode_def op_defs decode_two_reg [unfolded op_defs]
         decode_two_imm [unfolded op_defs] split: Operand.split)
qed

section \<open>Every assembled line is an instruction\<close>

text \<open>The bytes a line can produce: one of the thirteen opcodes with register fields in range.\<close>

definition wf_code :: "u8 list \<Rightarrow> bool" where
  "wf_code bs \<longleftrightarrow> (\<exists>op d t v. bs = encode op d t v \<and>
     (op \<in> {OP_MOV, OP_ADD, OP_SUB, OP_MUL, OP_DIV, OP_LOAD, OP_STORE, OP_CMP} \<and> unat d < 4 \<and>
        (t = SRC_REG \<and> unat v < 4 \<or> t = SRC_IMM) \<or>
      op \<in> {OP_JMP, OP_JZ, OP_JNZ, OP_INT, OP_HALT}))"

lemma reg_index_bound: "reg_index s = Some d \<Longrightarrow> unat d < 4 \<and> unat (ucast d :: u64) < 4"
  by (auto simp: reg_index_def Let_def split: if_splits)

lemma parse_operand_range: "parse_operand s = Some (t, v) \<Longrightarrow> t = SRC_REG \<and> unat v < 4 \<or> t = SRC_IMM"
  by (auto simp: parse_operand_def Let_def dest: reg_index_bound split: option.splits)

lemma parse_mem_operand_range: "parse_mem_operand s = Some (t, v) \<Longrightarrow> t = SRC_REG \<and> unat v < 4 \<or> t = SRC_IMM"
  by (auto simp: parse_mem_operand_def dest: reg_index_bound split: option.splits)

lemma two_operands_wf:
  "two_operands op parts = Some bs \<Longrightarrow> op \<in> {OP_MOV, OP_ADD, OP_SUB, OP_MUL, OP_DIV, OP_CMP} \<Longrightarrow> wf_code bs"
  unfolding two_operands_def wf_code_def
  by (auto dest!: parse_operand_range reg_index_bound split: if_splits option.splits)

lemma one_address_wf:
  "one_address op parts = Some bs \<Longrightarrow> op \<in> {OP_JMP, OP_JZ, OP_JNZ, OP_INT} \<Longrightarrow> wf_code bs"
  unfolding one_address_def wf_code_def by (auto split: if_splits)

lemma parse_load_wf: "parse_load parts = Some bs \<Longrightarrow> wf_code bs"
  unfolding parse_load_def wf_code_def
  by (auto dest!: parse_mem_operand_range reg_index_bound split: if_splits option.splits)

lemma parse_store_wf: "parse_store parts = Some bs \<Longrightarrow> wf_code bs"
  unfolding parse_store_def wf_code_def
  by (auto dest!: parse_mem_operand_range reg_index_bound split: if_splits option.splits)

lemma parse_line_wf: "parse_line l = Some bs \<Longrightarrow> wf_code bs"
proof -
  have halt: "wf_code (encode OP_HALT 0 0 0)" unfolding wf_code_def by blast
  have "parse_parts parts = Some bs \<Longrightarrow> wf_code bs" for parts
    unfolding parse_parts_def Let_def
    by (auto simp: halt dest: parse_load_wf parse_store_wf intro: two_operands_wf one_address_wf split: if_splits)
  then show "parse_line l = Some bs \<Longrightarrow> wf_code bs"
    by (auto simp: parse_line_def Let_def split: if_splits option.splits)
qed

lemma decode_two_ok:
  "unat d < 4 \<Longrightarrow> t = SRC_REG \<and> unat v < 4 \<or> t = SRC_IMM \<Longrightarrow> \<exists>i. decode_two mk d t v = Inr i"
  by (auto simp: decode_two_def decode_operand_def decode_reg_def reg_from_index_def SRC_IMM_def)

lemma wf_code_decodes: "wf_code bs \<Longrightarrow> length bs = 8 \<and> (\<exists>i. decode_bytes q bs = Inr i)"
proof -
  assume "wf_code bs"
  then obtain op d t v where bs: "bs = encode op d t v" and
    ok: "op \<in> {OP_MOV, OP_ADD, OP_SUB, OP_MUL, OP_DIV, OP_LOAD, OP_STORE, OP_CMP} \<and> unat d < 4 \<and>
        (t = SRC_REG \<and> unat v < 4 \<or> t = SRC_IMM) \<or> op \<in> {OP_JMP, OP_JZ, OP_JNZ, OP_INT, OP_HALT}"
    unfolding wf_code_def by blast
  have "unat (trunc32 v) < 4" if "unat v < 4" using that by (simp add: trunc32_id)
  then have "\<exists>i. decode q op d t (trunc32 v) = Inr i"
    using ok decode_two_ok [of d t "trunc32 v"] unfolding decode_def op_defs by auto
  then show ?thesis by (simp add: bs decode_encode)
qed

lemma assemble_lines_decodes:
  "\<exists>is. length (assemble_lines ls) = 8 * length is \<and>
       (\<forall>k < length is. decode_bytes q (subvec (8 * k) 8 (assemble_lines ls)) = Inr (is ! k))"
proof (induction ls)
  case (Cons l ls)
  then obtain "is" where IH: "length (assemble_lines ls) = 8 * length is"
    "\<And>k. k < length is \<Longrightarrow> decode_bytes q (subvec (8 * k) 8 (assemble_lines ls)) = Inr (is ! k)" by blast
  show ?case
  proof (cases "parse_line l")
    case None
    with Cons show ?thesis by simp
  next
    case (Some bs)
    with parse_line_wf wf_code_decodes obtain i where
      bs: "length bs = 8" "decode_bytes q bs = Inr i" by blast
    have "decode_bytes q (subvec (8 * k) 8 (bs @ assemble_lines ls)) = Inr ((i # is) ! k)"
      if "k < length (i # is)" for k
      using bs IH(2) that by (cases k) (simp_all add: subvec_def)
    with Some IH(1) bs(1) show ?thesis by (intro exI [of _ "i # is"]) auto
  qed
qed simp

text \<open>
  The assembler never emits a byte sequence the processor cannot decode: the code of every source
  text it accepts is a non-empty sequence of eight-byte blocks, and each of them decodes to an
  instruction, wherever it is loaded.
\<close>

theorem assemble_decodes:
  assumes "assemble source = Inr code"
  shows "\<exists>is. is \<noteq> [] \<and> length code = 8 * length is \<and>
              (\<forall>k < length is. decode_bytes q (subvec (8 * k) 8 code) = Inr (is ! k))"
proof -
  have code: "code = assemble_lines (str_lines source)" "code \<noteq> []"
    using assms by (auto simp: assemble_def Let_def split: if_splits)
  obtain "is" where "is": "length code = 8 * length is"
    "\<forall>k < length is. decode_bytes q (subvec (8 * k) 8 code) = Inr (is ! k)"
    using assemble_lines_decodes [of "str_lines source" q] unfolding code(1) by blast
  moreover have "is \<noteq> []" using "is"(1) code(2) by auto
  ultimately show ?thesis by blast
qed

theorem assemble_decodes_witness:
  "\<exists>is. is \<noteq> [] \<and> length (encode OP_HALT 0 0 0) = 8 * length is \<and>
        (\<forall>k < length is. decode_bytes 8 (subvec (8 * k) 8 (encode OP_HALT 0 0 0)) = Inr (is ! k))"
proof -
  have "assemble ''HALT'' = Inr (encode OP_HALT 0 0 0)"
    by (simp add: assemble_def str_lines_def parse_line_def trim_def trim_start_pred_def trim_end_pred_def
        starts_with_def strip_prefix_def ascii_ws_def split_whitespace.simps parse_parts_def to_uppercase_def
        to_upper_char_def Let_def encode_def)
  then show ?thesis by (rule assemble_decodes)
qed

section \<open>Printed instructions assemble to themselves\<close>

lemma parse_line_words:
  assumes "is_word w" "hd w \<noteq> CHR ''/''" "CHR '';'' \<notin> set (w @ r)" "r = [] \<or> \<not> ascii_ws (last r)"
    and "ps = split_whitespace (w @ r)"
  shows "parse_line (w @ r) = parse_parts ps"
proof -
  have ne: "w @ r \<noteq> []" "\<not> ascii_ws (hd (w @ r))" "hd (w @ r) \<noteq> CHR '';''" "hd (w @ r) \<noteq> CHR ''/''"
    using assms(1-3) by (cases w; auto simp: is_word_def)+
  have "\<not> ascii_ws (last (w @ r))"
    using assms(1,4) by (cases "r = []") (auto simp: is_word_def)
  then have trim: "trim (w @ r) = w @ r" using ne by (intro trim_id)
  have plain: "\<not> starts_with '';'' (w @ r)" "\<not> starts_with ''//'' (w @ r)"
    using ne by (cases "w @ r"; auto simp: starts_with_def strip_prefix_def)+
  have nocomment: "position (\<lambda>c. c = CHR '';'') (w @ r) = None"
    using assms(3) by (auto simp: position_None_iff)
  have "ps \<noteq> []"
  proof -
    obtain c u where w: "w @ r = c # u" "\<not> ascii_ws c" using ne(1,2) by (cases "w @ r") auto
    show ?thesis unfolding assms(5) w(1) by (subst split_whitespace.simps) (simp add: w(2) Let_def)
  qed
  then show ?thesis using ne(1) plain
    by (simp add: parse_line_def trim nocomment Let_def assms(5) del: append_is_Nil_conv)
qed

text \<open>Tokens the printer produces: characters that neither split nor end a line.\<close>

definition plain_char :: "char \<Rightarrow> bool" where
  "plain_char c \<longleftrightarrow> \<not> ascii_ws c \<and> c \<noteq> CHR '';''"

lemma plain_show_hex: "list_all plain_char (show_hex n)"
  using show_hex_digits_chars [of _ n]
  by (auto simp: show_hex_def list_all_iff plain_char_def ascii_ws_def)

lemma plain_reg_fmt: "list_all plain_char (reg_fmt r)"
  by (cases r) (simp_all add: reg_fmt_def plain_char_def ascii_ws_def)

lemma plain_operand_fmt: "list_all plain_char (operand_fmt s)"
  using plain_show_hex plain_reg_fmt by (cases s) (simp_all add: operand_fmt_def plain_char_def ascii_ws_def)

lemmas plain_fmt = plain_show_hex plain_reg_fmt plain_operand_fmt

lemma plain_is_word: "list_all plain_char w \<Longrightarrow> w \<noteq> [] \<Longrightarrow> is_word w"
  by (auto simp: is_word_def list_all_iff plain_char_def)

lemma fmt_not_Nil [simp]: "show_hex n \<noteq> []" "reg_fmt r \<noteq> []" "operand_fmt s \<noteq> []"
  by (auto simp: show_hex_def reg_fmt_def operand_fmt_def split: Register.splits Operand.splits)

lemma parse_three:
  assumes "list_all plain_char a" "list_all plain_char b" "list_all plain_char c"
    and "a \<noteq> []" "b \<noteq> []" "c \<noteq> []" "hd a \<noteq> CHR ''/''"
  shows "parse_line (a @ '' '' @ b @ '' '' @ c) = parse_parts [a, b, c]"
proof (rule parse_line_words)
  have w: "is_word a" "is_word b" "is_word c" using assms by (simp_all add: plain_is_word)
  then show "is_word a" "hd a \<noteq> CHR ''/''" using assms by auto
  show "CHR '';'' \<notin> set (a @ '' '' @ b @ '' '' @ c)"
    using assms by (auto simp: list_all_iff plain_char_def)
  show "'' '' @ b @ '' '' @ c = [] \<or> \<not> ascii_ws (last ('' '' @ b @ '' '' @ c))"
    using w(3) assms(6) by (auto simp: is_word_def)
  show "[a, b, c] = split_whitespace (a @ '' '' @ b @ '' '' @ c)"
    using w by (simp add: split_whitespace_Cons split_whitespace_word)
qed

lemma parse_two:
  assumes "list_all plain_char a" "list_all plain_char b" "a \<noteq> []" "b \<noteq> []" "hd a \<noteq> CHR ''/''"
  shows "parse_line (a @ '' '' @ b) = parse_parts [a, b]"
proof (rule parse_line_words)
  have w: "is_word a" "is_word b" using assms by (simp_all add: plain_is_word)
  then show "is_word a" "hd a \<noteq> CHR ''/''" using assms by auto
  show "CHR '';'' \<notin> set (a @ '' '' @ b)"
    using assms by (auto simp: list_all_iff plain_char_def)
  show "'' '' @ b = [] \<or> \<not> ascii_ws (last ('' '' @ b))"
    using w(2) assms(4) by (auto simp: is_word_def)
  show "[a, b] = split_whitespace (a @ '' '' @ b)"
    using w by (simp add: split_whitespace_Cons split_whitespace_word)
qed

lemma reg_index_fmt [simp]: "reg_index (reg_fmt r) = Some (of_nat (reg_idx r))"
  by (cases r) (simp_all add: reg_index_def reg_fmt_def reg_idx_def to_uppercase_def to_upper_char_def)

lemma trim_commas_reg [simp]: "trim_commas (reg_fmt r @ '','') = reg_fmt r" "trim_commas (reg_fmt r) = reg_fmt r"
  by (cases r; simp add: trim_commas_def trim_end_pred_def reg_fmt_def)+

lemma parse_number_hex [simp]: "parse_number (show_hex (unat (v :: u64))) = Some v"
proof -
  have "unat v < 2 ^ 64" using unsigned_less [of v] by simp
  then have "from_str_radix 16 (show_hex_digits (unat v)) = Some (unat v)" by (rule from_str_radix_show_hex)
  moreover have "strip_prefix ''0x'' (show_hex (unat v)) = Some (show_hex_digits (unat v))"
    unfolding show_hex_def by (rule strip_prefix_append)
  ultimately show ?thesis by (simp add: parse_number_def)
qed

lemma trim_plain [simp]: "list_all plain_char w \<Longrightarrow> w \<noteq> [] \<Longrightarrow> trim w = w"
  by (simp add: plain_is_word trim_word)

lemma parse_immediate_hex [simp]:
  "parse_immediate (show_hex (unat (v :: u64))) = Some v" "parse_immediate (''#'' @ show_hex (unat (v :: u64))) = Some v"
proof -
  have "trim_start_pred (\<lambda>c. c = CHR ''#'') (show_hex (unat v)) = show_hex (unat v)"
    by (simp add: trim_start_pred_def show_hex_def)
  moreover have "trim_start_pred (\<lambda>c. c = CHR ''#'') (''#'' @ show_hex (unat v)) = show_hex (unat v)"
    by (simp add: trim_start_pred_def show_hex_def)
  moreover have "trim (''#'' @ show_hex (unat v)) = ''#'' @ show_hex (unat v)"
    using plain_show_hex [of "unat v"] by (intro trim_plain) (simp_all add: plain_char_def ascii_ws_def)
  ultimately show "parse_immediate (show_hex (unat v)) = Some v"
    "parse_immediate (''#'' @ show_hex (unat v)) = Some v"
    by (simp_all add: parse_immediate_def plain_fmt del: append.simps)
qed

definition operand_code :: "Operand \<Rightarrow> u8 \<times> u64" where
  "operand_code s = (case s of Reg r \<Rightarrow> (SRC_REG, of_nat (reg_idx r)) | Imm v \<Rightarrow> (SRC_IMM, v))"

lemma enc_operand_code: "enc_operand op d s = (case operand_code s of (t, v) \<Rightarrow> encode op (of_nat (reg_idx d)) t v)"
  by (cases s) (simp_all add: enc_operand_def operand_code_def)

lemma ucast_reg_idx [simp]: "(ucast (of_nat (reg_idx r) :: u8) :: u64) = of_nat (reg_idx r)"
  by (cases r) (simp_all add: reg_idx_def)

lemma parse_operand_fmt [simp]: "parse_operand (operand_fmt s) = Some (operand_code s)"
proof (cases s)
  case (Reg r)
  have "strip_prefix ''#'' (reg_fmt r) = None" by (cases r) (simp_all add: reg_fmt_def strip_prefix_def)
  with Reg show ?thesis by (simp add: parse_operand_def operand_fmt_def operand_code_def plain_fmt)
next
  case (Imm v)
  have "trim (''#'' @ show_hex (unat v)) = ''#'' @ show_hex (unat v)"
    using plain_operand_fmt [of s] Imm by (intro trim_plain) (simp_all add: operand_fmt_def)
  moreover have "strip_prefix ''#'' (''#'' @ show_hex (unat v)) = Some (show_hex (unat v))"
    by (rule strip_prefix_append)
  ultimately show ?thesis using Imm by (simp add: parse_operand_def operand_fmt_def operand_code_def Let_def del: append.simps)
qed

lemma reg_index_imm: "reg_index (''#'' @ t) = None"
  by (simp add: reg_index_def to_uppercase_def to_upper_char_def)

lemma parse_mem_operand_fmt [simp]: "parse_mem_operand (''['' @ operand_fmt s @ '']'') = Some (operand_code s)"
proof -
  have tr: "trim (''['' @ operand_fmt s @ '']'') = ''['' @ operand_fmt s @ '']''"
    using plain_operand_fmt [of s] by (intro trim_plain) (simp_all add: plain_char_def ascii_ws_def)
  have "strip_prefix ''['' (''['' @ operand_fmt s @ '']'') = Some (operand_fmt s @ '']'')"
    by (rule strip_prefix_append)
  moreover have "strip_suffix '']'' (operand_fmt s @ '']'') = Some (operand_fmt s)"
    by (rule strip_suffix_append)
  moreover have "case operand_fmt s of t \<Rightarrow>
      (case reg_index t of Some idx \<Rightarrow> Some (SRC_REG, ucast idx)
       | None \<Rightarrow> map_option (\<lambda>v. (SRC_IMM, v)) (parse_immediate t)) = Some (operand_code s)"
    by (cases s) (simp_all add: operand_fmt_def operand_code_def reg_index_imm del: append.simps)
  ultimately show ?thesis by (simp add: parse_mem_operand_def tr del: append.simps)
qed

lemmas parse_mem_operand_fmt_Cons [simp] = parse_mem_operand_fmt [simplified]

lemma trim_commas_mem [simp]: "trim_commas (''['' @ t @ '']'' @ '','') = ''['' @ t @ '']''"
  by (simp add: trim_commas_def trim_end_pred_def)

lemmas trim_commas_mem_Cons [simp] = trim_commas_mem [simplified]

lemma upper_mnemonics [simp]:
  "to_uppercase ''MOV'' = ''MOV''" "to_uppercase ''ADD'' = ''ADD''" "to_uppercase ''SUB'' = ''SUB''"
  "to_uppercase ''MUL'' = ''MUL''" "to_uppercase ''DIV'' = ''DIV''" "to_uppercase ''JMP'' = ''JMP''"
  "to_uppercase ''CMP'' = ''CMP''" "to_uppercase ''JZ'' = ''JZ''" "to_uppercase ''JNZ'' = ''JNZ''"
  "to_uppercase ''LOAD'' = ''LOAD''" "to_uppercase ''STORE'' = ''STORE''" "to_uppercase ''INT'' = ''INT''"
  "to_uppercase ''HALT'' = ''HALT''"
  by (simp_all add: to_uppercase_def to_upper_char_def)

lemma parse_arith_line:
  assumes "m \<in> {''MOV'', ''ADD'', ''SUB'', ''MUL'', ''DIV'', ''CMP''}"
  shows "parse_line (m @ '' '' @ (reg_fmt d @ '','') @ '' '' @ operand_fmt s) =
         parse_parts [m, reg_fmt d @ '','', operand_fmt s]"
proof (rule parse_three)
  show "list_all plain_char m" "hd m \<noteq> CHR ''/''" "m \<noteq> []"
    using assms by (auto simp: plain_char_def ascii_ws_def)
qed (simp_all add: plain_fmt, simp add: plain_char_def ascii_ws_def)

lemma two_operands_fmt: "two_operands op [m, reg_fmt d @ '','', operand_fmt s] = Some (enc_operand op d s)"
  by (simp add: two_operands_def enc_operand_code split: prod.split)

lemma parse_jump_line:
  assumes "m \<in> {''JMP'', ''JZ'', ''JNZ'', ''INT''}"
  shows "parse_line (m @ '' '' @ show_hex n) = parse_parts [m, show_hex n]"
  using assms by (intro parse_two) (auto simp: plain_fmt plain_char_def ascii_ws_def)

lemma one_address_fmt: "one_address op [m, show_hex (unat (a :: u64))] = Some (encode op 0 SRC_IMM a)"
  by (simp add: one_address_def)

lemma parse_mem_lines:
  "parse_line (''LOAD'' @ '' '' @ (reg_fmt d @ '','') @ '' '' @ (''['' @ operand_fmt s @ '']'')) =
     parse_parts [''LOAD'', reg_fmt d @ '','', ''['' @ operand_fmt s @ '']'']"
  "parse_line (''STORE'' @ '' '' @ (''['' @ operand_fmt s @ '']'' @ '','') @ '' '' @ reg_fmt d) =
     parse_parts [''STORE'', ''['' @ operand_fmt s @ '']'' @ '','', reg_fmt d]"
  by (rule parse_three; simp add: plain_fmt plain_char_def ascii_ws_def)+

lemmas arith_lines = parse_arith_line [of "''MOV''"] parse_arith_line [of "''ADD''"] parse_arith_line [of "''SUB''"]
  parse_arith_line [of "''MUL''"] parse_arith_line [of "''DIV''"] parse_arith_line [of "''CMP''"]

lemmas jump_lines = parse_jump_line [of "''JMP''"] parse_jump_line [of "''JZ''"] parse_jump_line [of "''JNZ''"]

lemma parse_line_fmt: "parse_line (instruction_fmt i) = Some (encode_instr i)"
proof (cases i)
  case Halt
  have "parse_line (''HALT'' @ []) = parse_parts [''HALT'']"
    by (rule parse_line_words) (simp_all add: is_word_def ascii_ws_def split_whitespace_word)
  with Halt show ?thesis by (simp add: parse_parts_def)
next
  case (Load d s)
  then show ?thesis
    using parse_mem_lines(1) [of d s]
    by (simp add: parse_parts_def parse_load_def enc_operand_code split: prod.split)
next
  case (Store d s)
  then show ?thesis
    using parse_mem_lines(2) [of s d]
    by (simp add: parse_parts_def parse_store_def enc_operand_code split: prod.split)
next
  case (IntVec v)
  have "unat v < 256" using unsigned_less [of v] by simp
  then have "unat v = unat (ucast v :: u64)" by (simp add: unsigned_ucast_eq take_bit_nat_eq_self)
  then show ?thesis
    using IntVec parse_jump_line [of "''INT''" "unat v"] one_address_fmt [of OP_INT "''INT''" "ucast v"]
    by (simp add: parse_parts_def)
qed (use arith_lines jump_lines in \<open>simp_all add: parse_parts_def two_operands_fmt one_address_fmt\<close>)

text \<open>Splitting a listing into its lines.\<close>

lemma lines_acc_line:
  "CHR 0x0A \<notin> set l \<Longrightarrow> lines_acc acc (l @ CHR 0x0A # s) = strip_cr (rev acc @ l) # lines_acc [] s"
  by (induction l arbitrary: acc) auto

lemma strip_cr_id: "CHR 0x0D \<notin> set l \<Longrightarrow> strip_cr l = l"
proof -
  assume "CHR 0x0D \<notin> set l"
  then have "strip_prefix [CHR 0x0D] (rev l) = None"
    by (cases l rule: rev_cases) (auto simp: strip_prefix_def)
  then show "strip_cr l = l" by (simp add: strip_cr_def strip_suffix_def)
qed

definition listing :: "Instruction list \<Rightarrow> string" where
  "listing is = concat (map (\<lambda>i. instruction_fmt i @ [CHR 0x0A]) is)"

lemma instruction_fmt_one_line: "CHR 0x0A \<notin> set (instruction_fmt i) \<and> CHR 0x0D \<notin> set (instruction_fmt i)"
proof -
  have *: "\<not> plain_char (CHR 0x0A)" "\<not> plain_char (CHR 0x0D)" by (simp_all add: plain_char_def ascii_ws_def)
  then have "c \<notin> set (show_hex n)" "c \<notin> set (reg_fmt r)" "c \<notin> set (operand_fmt s)"
    if "c = CHR 0x0A \<or> c = CHR 0x0D" for c n r s
    using plain_fmt that by (auto simp: list_all_iff)
  then show ?thesis by (cases i) auto
qed

lemma str_lines_listing: "str_lines (listing is) = map instruction_fmt is"
  unfolding str_lines_def listing_def
  by (induction "is") (simp_all add: lines_acc_line strip_cr_id instruction_fmt_one_line)

lemma assemble_lines_fmt: "assemble_lines (map instruction_fmt is) = concat (map encode_instr is)"
  by (induction "is") (simp_all add: parse_line_fmt)

lemma assemble_listing_eq: "is \<noteq> [] \<Longrightarrow> assemble (listing is) = Inr (concat (map encode_instr is))"
proof -
  assume "is \<noteq> []"
  then have "0 < length (concat (map encode_instr is))" unfolding isa.length_program by simp
  then have "concat (map encode_instr is) \<noteq> []" by (rule length_greater_0_conv [THEN iffD1])
  then show ?thesis by (simp only: assemble_def str_lines_listing assemble_lines_fmt Let_def if_False)
qed

text \<open>
  C16. Printing, assembling and decoding agree: a listing with one printed instruction per line
  assembles to eight bytes per instruction, and the processor decodes the \<open>k\<close>-th block to the
  \<open>k\<close>-th instruction, its immediate truncated to the 32 bits the encoding has room for.
\<close>

theorem assemble_listing:
  assumes "is \<noteq> []"
  shows "\<exists>code. assemble (listing is) = Inr code \<and> length code = 8 * length is \<and>
     (\<forall>k < length is. decode_bytes q (subvec (8 * k) 8 code) = Inr (truncate_imm (is ! k)))"
proof -
  have "\<forall>k < length is. decode_bytes q (subvec (8 * k) 8 (concat (map encode_instr is))) = Inr (truncate_imm (is ! k))"
    using isa.program_decodes by blast
  then show ?thesis using assemble_listing_eq [OF assms] isa.length_program [of "is"] by blast
qed

theorem assemble_listing_witness:
  "\<exists>code. assemble (listing [Mov R0 (Imm 0x100000005), Halt]) = Inr code \<and> length code = 16 \<and>
     decode_bytes 8 (subvec 0 8 code) = Inr (Mov R0 (Imm 5))"
proof -
  have "trunc32 0x100000005 = 5" by (simp add: trunc32_def take_bit_eq_mod)
  then show ?thesis
    using assemble_listing [of "[Mov R0 (Imm 0x100000005), Halt]" 8]
    by (auto simp: trunc_operand_def dest: spec [of _ 0])
qed

end
