(* ===== verification/Program_Run.thy ===== *)
theory Program_Run
  imports CPU Assembler
begin

text \<open>
  Programs from source text to execution: the meaning of a listing, runs of the processor, and the lemma that
  links them through the assembler and the decoder.
\<close>

section \<open>From source text to execution\<close>

text \<open>
  The meaning of a listing: the line at an address, and \<open>n\<close> instructions run straight from the
  listing, with no encoding and no memory in between.
\<close>

definition line_at :: "u64 \<Rightarrow> Instruction list \<Rightarrow> u64 \<Rightarrow> Instruction option" where
  "line_at base is a =
     (let off = unat (a - base) in
      if 8 dvd off \<and> off div 8 < length is then Some (truncate_imm (is ! (off div 8))) else None)"

fun run_listing :: "u64 \<Rightarrow> Instruction list \<Rightarrow> nat \<Rightarrow> VirtualCPU \<Rightarrow> VirtualCPU option" where
  "run_listing base is 0 c = Some c"
| "run_listing base is (Suc n) c =
     (if halted c \<or> pagefault_pending c then None
      else case line_at base is (pc c) of
             None \<Rightarrow> None
           | Some i \<Rightarrow>
              (case execute_instruction i (c\<lparr>pc := pc c + 8\<rparr>) of
                 (Inl _, _) \<Rightarrow> None
               | (Inr _, c') \<Rightarrow> run_listing base is n (c'\<lparr>instruction_count := instruction_count c' + 1\<rparr>)))"

fun run_cpu :: "nat \<Rightarrow> VirtualCPU \<Rightarrow> (CPUError, unit) result \<times> VirtualCPU" where
  "run_cpu 0 c = (Inr (), c)"
| "run_cpu (Suc n) c = (case cpu_step c of (Inl e, c') \<Rightarrow> (Inl e, c') | (Inr _, c') \<Rightarrow> run_cpu n c')"

definition loaded :: "VirtualCPU \<Rightarrow> u64 \<Rightarrow> u8 list \<Rightarrow> bool" where
  "loaded c base code \<longleftrightarrow>
     (\<forall>j < length code. mmu_read_u8 (mmu c) (current_pid c) (base + of_nat j) = Inr (code ! j))"

definition is_store :: "Instruction \<Rightarrow> bool" where
  "is_store i = (case i of Store _ _ \<Rightarrow> True | _ \<Rightarrow> False)"

lemma execute_keeps_mmu: "\<not> is_store i \<Longrightarrow> execute_instruction i c = (r, c') \<Longrightarrow> mmu c' = mmu c"
  by (cases i) (auto simp: is_store_def cpu_defs Let_def split: if_splits sum.splits)

lemma is_store_truncate [simp]: "is_store (truncate_imm i) = is_store i"
  by (cases i) (simp_all add: is_store_def)

lemma loaded_block:
  assumes "loaded c base code" "8 * k + 8 \<le> length code"
  shows "code_at c (base + of_nat (8 * k)) (subvec (8 * k) 8 code)"
proof -
  have "mmu_read_u8 (mmu c) (current_pid c) (base + of_nat (8 * k + i)) = Inr (code ! (8 * k + i))" if "i < 8" for i
    using assms that by (intro assms(1) [unfolded loaded_def, rule_format]) linarith
  then show ?thesis
    using assms(2) by (simp add: code_at_def length_subvec subvec_nth add.assoc)
qed

lemma line_at_Some:
  assumes "line_at base is a = Some i"
  obtains k where "k < length is" "a = base + of_nat (8 * k)" "i = truncate_imm (is ! k)"
proof -
  let ?off = "unat (a - base)"
  have k: "8 dvd ?off" "?off div 8 < length is" "i = truncate_imm (is ! (?off div 8))"
    using assms by (auto simp: line_at_def Let_def split: if_splits)
  moreover have "a = base + of_nat (8 * (?off div 8))" using k(1) by simp
  ultimately show thesis using that by blast
qed

lemma aligned_line:
  assumes "4 dvd unat (base :: u64)"
  shows "4 dvd unat (base + of_nat (8 * k))"
proof -
  have "4 dvd (unat base + 8 * k)" using assms by (simp add: dvd_add)
  then have "4 dvd (unat base + 8 * k) mod 2 ^ 64" by (rule dvd_mod) simp
  moreover have "base + of_nat (8 * k) = of_nat (unat base + 8 * k)" by simp
  ultimately show ?thesis by (simp only: unat_of_nat) simp
qed

lemma encoded_runs:
  assumes "loaded c base (concat (map encode_instr is))" "list_all (\<lambda>i. \<not> is_store i) is"
    and "cpu_wf c" "4 dvd page_size (mmu c)" "4 dvd unat base" "run_listing base is n c = Some c'"
  shows "run_cpu n c = (Inr (), c')"
  using assms(1,3,4,6)
proof (induction n arbitrary: c)
  case (Suc n)
  from Suc.prems(4) obtain i where run: "\<not> halted c" "\<not> pagefault_pending c" "line_at base is (pc c) = Some i"
    by (auto split: if_splits option.splits)
  obtain k where k: "k < length is" "pc c = base + of_nat (8 * k)" "i = truncate_imm (is ! k)"
    using line_at_Some [OF run(3)] .
  obtain u c2 where ex: "execute_instruction i (c\<lparr>pc := pc c + 8\<rparr>) = (Inr u, c2)"
    "run_listing base is n (c2\<lparr>instruction_count := instruction_count c2 + 1\<rparr>) = Some c'"
    using Suc.prems(4) run by (auto split: prod.splits sum.splits)
  have "code_at c (pc c) (subvec (8 * k) 8 (concat (map encode_instr is)))"
    using loaded_block [OF Suc.prems(1), of k] k(1,2) isa.length_program [of "is"] by simp
  moreover have "decode_bytes (pc c + 8) (subvec (8 * k) 8 (concat (map encode_instr is))) = Inr i"
    using isa.program_decodes [OF k(1)] k(3) by simp
  ultimately have fetch: "fetch_instruction c = (Inr i, c\<lparr>pc := pc c + 8\<rparr>)"
    using fetch_instruction_ok [OF Suc.prems(2,3)] aligned_line [OF assms(5)] k(2) by simp
  note frame = execute_instruction_frame [OF ex(1)]
  have step: "cpu_step c = (Inr (), c2\<lparr>instruction_count := instruction_count c2 + 1\<rparr>)"
    using cpu_step_execute [OF run(1,2) fetch] ex(1) frame by simp
  have "mmu c2 = mmu c"
    using execute_keeps_mmu [OF _ ex(1)] assms(2) k(1,3) by (simp add: list_all_length)
  then have "loaded (c2\<lparr>instruction_count := instruction_count c2 + 1\<rparr>) base (concat (map encode_instr is))"
    "4 dvd page_size (mmu (c2\<lparr>instruction_count := instruction_count c2 + 1\<rparr>))"
    "cpu_wf (c2\<lparr>instruction_count := instruction_count c2 + 1\<rparr>)"
    using Suc.prems(1-3) frame by (simp_all add: loaded_def cpu_wf_def)
  from Suc.IH [OF this(1,3,2) ex(2)] show ?case using step by simp
qed simp

lemma listing_runs:
  assumes "assemble (listing is) = Inr code" "loaded c base code" "list_all (\<lambda>i. \<not> is_store i) is"
    and "cpu_wf c" "4 dvd page_size (mmu c)" "4 dvd unat base" "run_listing base is n c = Some c'"
  shows "run_cpu n c = (Inr (), c')"
proof (cases "is = []")
  case True
  then show ?thesis using assms(1) by (simp add: listing_def assemble_def str_lines_def)
next
  case False
  then have "code = concat (map encode_instr is)" using assms(1) assemble_listing_eq by simp
  then show ?thesis using encoded_runs assms(2-) by blast
qed

end
