(* ===== verification/Error_Format.thy ===== *)
theory Error_Format
  imports Messages Text_Format
begin

text \<open>
  The texts of errors and responses: the \<^verbatim>\<open>Display\<close> implementations of \<^verbatim>\<open>src/error.rs\<close> and
  \<^verbatim>\<open>src/messaging/response.rs\<close>, and the derived \<^verbatim>\<open>Debug\<close> text of the enumerations that handlers print.
  Services put these texts into the error responses they send.
\<close>

definition dec64 :: "u64 \<Rightarrow> string" where
  "dec64 w = show_dec (unat w)"

definition hex64 :: "u64 \<Rightarrow> string" where
  "hex64 w = show_hex (unat w)"

section \<open>Hardware errors\<close>

definition access_debug :: "AccessType \<Rightarrow> string" where
  "access_debug a = (case a of Read \<Rightarrow> ''Read'' | Write \<Rightarrow> ''Write'' | Execute \<Rightarrow> ''Execute'')"

definition bool_debug :: "bool \<Rightarrow> string" where
  "bool_debug b = (if b then ''true'' else ''false'')"

definition page_flags_fmt :: "ErrorPageFlags \<Rightarrow> string" where
  "page_flags_fmt f =
     ''P'' @ (if epf_present f then ''1'' else ''0'') @ ''W'' @ (if epf_writable f then ''1'' else ''0'') @
     ''U'' @ (if epf_user_accessible f then ''1'' else ''0'')"

definition page_flags_debug :: "ErrorPageFlags \<Rightarrow> string" where
  "page_flags_debug f =
     ''PageFlags { present: '' @ bool_debug (epf_present f) @ '', writable: '' @ bool_debug (epf_writable f) @
     '', user_accessible: '' @ bool_debug (epf_user_accessible f) @ '' }''"

definition memory_error_fmt :: "MemoryError \<Rightarrow> string" where
  "memory_error_fmt e =
     (case e of
        OutOfBounds addr sz mx \<Rightarrow>
          ''Out of bounds: addr='' @ show_hex addr @ '', size='' @ show_dec sz @ '', max_size='' @ show_hex mx
      | Misaligned addr al \<Rightarrow>
          ''Misaligned: addr='' @ show_hex addr @ '', must be aligned to '' @ show_dec al @ '' bytes''
      | Locked \<Rightarrow> ''Memory region is locked''
      | AllocationFailed sz \<Rightarrow> ''Failed to allocate '' @ show_dec sz @ '' bytes'')"

definition disk_error_fmt :: "DiskError \<Rightarrow> string" where
  "disk_error_fmt e =
     (case e of
        InvalidSector s m \<Rightarrow> ''Invalid sector '' @ show_dec (unat s) @ '' (max '' @ show_dec (unat m) @ '')''
      | IoFailed op s \<Rightarrow> op @ '' failed on sector '' @ show_dec (unat s)
      | DiskBusy \<Rightarrow> ''Disk is busy''
      | NotReady \<Rightarrow> ''Disk is not ready''
      | OutOfSpace \<Rightarrow> ''Disk out of space'')"

definition mmu_error_fmt :: "MMUError \<Rightarrow> string" where
  "mmu_error_fmt e =
     (case e of
        PageNotPresent p v \<Rightarrow> ''Page not present: pid='' @ dec64 p @ '', vaddr='' @ hex64 v
      | MmuPermissionDenied p v a fl \<Rightarrow>
          ''Permission denied: pid='' @ dec64 p @ '', vaddr='' @ hex64 v @ '', access='' @ access_debug a
      | InvalidPhysicalAddress a \<Rightarrow> ''Invalid physical address: '' @ hex64 a
      | PageTableNotFound p \<Rightarrow> ''Page table not found for pid='' @ dec64 p
      | InvalidPageTableEntry p v \<Rightarrow> ''Invalid page table entry: pid='' @ dec64 p @ '', vaddr='' @ hex64 v)"

definition mmu_error_debug :: "MMUError \<Rightarrow> string" where
  "mmu_error_debug e =
     (case e of
        PageNotPresent p v \<Rightarrow> ''PageNotPresent { pid: '' @ dec64 p @ '', vaddr: '' @ dec64 v @ '' }''
      | MmuPermissionDenied p v a fl \<Rightarrow>
          ''PermissionDenied { pid: '' @ dec64 p @ '', vaddr: '' @ dec64 v @ '', access_type: '' @ access_debug a @
          '', required: '' @ page_flags_debug fl @ '' }''
      | InvalidPhysicalAddress a \<Rightarrow> ''InvalidPhysicalAddress { paddr: '' @ dec64 a @ '' }''
      | PageTableNotFound p \<Rightarrow> ''PageTableNotFound { pid: '' @ dec64 p @ '' }''
      | InvalidPageTableEntry p v \<Rightarrow> ''InvalidPageTableEntry { pid: '' @ dec64 p @ '', vaddr: '' @ dec64 v @ '' }'')"

definition cpu_error_fmt :: "CPUError \<Rightarrow> string" where
  "cpu_error_fmt e =
     (case e of
        InvalidInstruction q op \<Rightarrow> ''Invalid instruction at PC='' @ hex64 q @ '', opcode='' @ show_hex (unat op)
      | DivideByZero q \<Rightarrow> ''Divide by zero at PC='' @ hex64 q
      | CpuPageFault v a \<Rightarrow> ''Page fault at vaddr='' @ hex64 v @ '', access='' @ access_debug a
      | InvalidRegister i \<Rightarrow> ''Invalid register index: '' @ show_dec i
      | Halted \<Rightarrow> ''CPU is halted''
      | InvalidMode c r \<Rightarrow> ''Invalid mode: current='' @ c @ '', requested='' @ r
      | StackOverflow s \<Rightarrow> ''Stack overflow at SP='' @ hex64 s
      | StackUnderflow s \<Rightarrow> ''Stack underflow at SP='' @ hex64 s)"

definition timer_error_fmt :: "TimerError \<Rightarrow> string" where
  "timer_error_fmt e =
     (case e of
        AlreadyRunning \<Rightarrow> ''Timer is already running''
      | NotRunning \<Rightarrow> ''Timer is not running''
      | InvalidInterval i mn mx \<Rightarrow>
          ''Invalid interval '' @ dec64 i @ ''ms (must be '' @ dec64 mn @ ''-'' @ dec64 mx @ ''ms)''
      | InitFailed \<Rightarrow> ''Timer initialization failed'')"

definition hardware_error_fmt :: "HardwareError \<Rightarrow> string" where
  "hardware_error_fmt e =
     (case e of
        MemoryErr m \<Rightarrow> ''Memory: '' @ memory_error_fmt m
      | DiskErr d \<Rightarrow> ''Disk: '' @ disk_error_fmt d
      | MMUErr m \<Rightarrow> ''MMU: '' @ mmu_error_fmt m
      | CPUErr c \<Rightarrow> ''CPU: '' @ cpu_error_fmt c
      | TimerErr t \<Rightarrow> ''Timer: '' @ timer_error_fmt t
      | DeviceErr i s \<Rightarrow> ''Device '' @ show_dec (unat i) @ '': '' @ s)"

section \<open>Service and bus errors\<close>

definition service_error_fmt :: "ServiceError \<Rightarrow> string" where
  "service_error_fmt e =
     (case e of
        InvalidArguments p r \<Rightarrow> ''Invalid argument '' @ [CHR 0x27] @ p @ [CHR 0x27] @ '': '' @ r
      | NotFound t i \<Rightarrow> t @ '' not found: '' @ i
      | PermissionDenied op r \<Rightarrow> ''Permission denied for '' @ [CHR 0x27] @ op @ [CHR 0x27] @ '': '' @ r
      | ResourceExhausted r a q \<Rightarrow>
          ''Resource exhausted: '' @ r @ '' (available: '' @ show_dec a @ '', requested: '' @ show_dec q @ '')''
      | ServiceIo op d \<Rightarrow> ''I/O error during '' @ [CHR 0x27] @ op @ [CHR 0x27] @ '': '' @ d
      | Timeout op d t \<Rightarrow>
          ''Operation '' @ [CHR 0x27] @ op @ [CHR 0x27] @ '' timed out after '' @ dec64 d @ ''ms (timeout: '' @ dec64 t @ ''ms)''
      | NotImplemented f \<Rightarrow> ''Not implemented: '' @ f
      | OtherError c m \<Rightarrow> ''Error (code '' @ show_dec (unat c) @ ''): '' @ m)"

definition bus_error_fmt :: "BusError \<Rightarrow> string" where
  "bus_error_fmt e =
     (case e of
        Disconnected \<Rightarrow> ''Bus disconnected''
      | BusFull \<Rightarrow> ''Bus full''
      | NoReceiver t \<Rightarrow> ''No receiver for message type: '' @ t
      | SendFailed r \<Rightarrow> ''Send failed: '' @ r)"

definition genshin_error_fmt :: "GenshinError \<Rightarrow> string" where
  "genshin_error_fmt e =
     (case e of
        HardwareE h \<Rightarrow> ''[Hardware] '' @ hardware_error_fmt h
      | ServiceE s \<Rightarrow> ''[Service] '' @ service_error_fmt s
      | BusE b \<Rightarrow> ''[Bus] '' @ bus_error_fmt b
      | OtherE c m \<Rightarrow> ''[Error '' @ show_dec (unat c) @ ''] '' @ m)"

section \<open>Responses\<close>

fun join_comma :: "string list \<Rightarrow> string" where
  "join_comma [] = []"
| "join_comma [s] = s"
| "join_comma (s # ss) = s @ '', '' @ join_comma ss"

definition response_data_fmt :: "ResponseData \<Rightarrow> string" where
  "response_data_fmt d =
     (case d of
        Void \<Rightarrow> ''Void''
      | RPid p \<Rightarrow> ''Pid('' @ dec64 p @ '')''
      | RTid t \<Rightarrow> ''Tid('' @ dec64 t @ '')''
      | RFd f \<Rightarrow> ''Fd('' @ show_dec (unat f) @ '')''
      | BytesProcessed n \<Rightarrow> show_dec n @ '' bytes''
      | PhysicalAddr a \<Rightarrow> ''PhysAddr('' @ hex64 a @ '')''
      | RBytes bs \<Rightarrow> ''Bytes('' @ show_dec (length bs) @ '' bytes)''
      | RInteger n \<Rightarrow> dec64 n
      | RString s \<Rightarrow> [CHR 0x22] @ s @ [CHR 0x22]
      | RBool b \<Rightarrow> bool_debug b
      | StringList ss \<Rightarrow> ''['' @ join_comma ss @ '']''
      | DiskStats t u b \<Rightarrow> ''Disk('' @ show_dec u @ ''/'' @ show_dec (unat t) @ '' sectors)''
      | MemoryStats t u f \<Rightarrow> ''Mem('' @ dec64 u @ ''/'' @ dec64 f @ ''/'' @ dec64 t @ '')''
      | FrameMap m \<Rightarrow> ''FrameMap('' @ show_dec (length m) @ '')'')"

definition msg_service_error_fmt :: "MsgServiceError \<Rightarrow> string" where
  "msg_service_error_fmt e =
     (case e of
        MsgInvalidArguments m \<Rightarrow> ''Invalid arguments: '' @ m
      | MsgNotFound r i \<Rightarrow> r @ '' not found: '' @ i
      | MsgPermissionDenied op \<Rightarrow> ''Permission denied: '' @ op
      | MsgResourceExhausted r \<Rightarrow> ''Resource exhausted: '' @ r
      | MsgIo d \<Rightarrow> ''I/O error: '' @ d
      | MsgTimeout op d \<Rightarrow> ''Operation '' @ [CHR 0x27] @ op @ [CHR 0x27] @ '' timed out after '' @ dec64 d @ ''ms''
      | MsgNotImplemented f \<Rightarrow> ''Not implemented: '' @ f
      | MsgOther c m \<Rightarrow> ''Error (code '' @ show_dec (unat c) @ ''): '' @ m)"

definition response_request_id :: "Response \<Rightarrow> u64" where
  "response_request_id r = (case r of ResponseSuccess i _ \<Rightarrow> i | ResponseError i _ \<Rightarrow> i)"

definition response_is_success :: "Response \<Rightarrow> bool" where
  "response_is_success r = (case r of ResponseSuccess _ _ \<Rightarrow> True | ResponseError _ _ \<Rightarrow> False)"

definition response_is_error :: "Response \<Rightarrow> bool" where
  "response_is_error r = (case r of ResponseSuccess _ _ \<Rightarrow> False | ResponseError _ _ \<Rightarrow> True)"

definition response_data :: "Response \<Rightarrow> ResponseData option" where
  "response_data r = (case r of ResponseSuccess _ d \<Rightarrow> Some d | ResponseError _ _ \<Rightarrow> None)"

definition response_service_error :: "Response \<Rightarrow> MsgServiceError option" where
  "response_service_error r = (case r of ResponseSuccess _ _ \<Rightarrow> None | ResponseError _ e \<Rightarrow> Some e)"

definition response_fmt :: "Response \<Rightarrow> string" where
  "response_fmt r =
     (case r of
        ResponseSuccess i d \<Rightarrow> ''Request '' @ dec64 i @ '': Success '' @ response_data_fmt d
      | ResponseError i e \<Rightarrow> ''Request '' @ dec64 i @ '': Error '' @ msg_service_error_fmt e)"

lemma response_cases:
  "response_is_success r \<longleftrightarrow> response_data r \<noteq> None" "response_is_error r \<longleftrightarrow> response_service_error r \<noteq> None"
  "response_is_error r \<longleftrightarrow> \<not> response_is_success r"
  by (cases r; simp add: response_is_success_def response_is_error_def response_data_def response_service_error_def)+

end
