(* ===== verification/VFS.thy ===== *)
theory VFS
  imports Error_Format
begin

text \<open>
  The virtual file system (\<^verbatim>\<open>src/services/file/vfs.rs\<close>): nodes with inode numbers, directories as maps
  from names to inodes, lookup along a path, creation, deletion, and the image of the tree in a JSON file.
  A node behind \<^verbatim>\<open>Arc<Mutex<_>>\<close> is the value in the node table: every client takes it from the table and
  gives the lock back before it calls the table again. The one place where a lock is taken twice, deleting
  a node that is its own parent, is the outcome \<open>None\<close>. The lemmas show that reachable file systems are
  trees and refine a map from paths to node types.
\<close>

section \<open>Nodes\<close>

datatype NodeType = NodeFile | NodeDirectory | NodeSymLink | NodeBlockDevice | NodeCharDevice

record VFSNode =
  vn_inode :: u64
  vn_type :: NodeType
  vn_name :: string
  vn_parent :: "u64 option"
  vn_permissions :: u16
  vn_owner :: pid
  vn_size :: u64
  vn_created :: u64
  vn_modified :: u64
  vn_blocks :: "u64 list"
  vn_children :: "string \<rightharpoonup> u64"
  vn_ref_count :: u32
  vn_deleted :: bool

definition VFSNode_new :: "u64 \<Rightarrow> string \<Rightarrow> NodeType \<Rightarrow> u64 option \<Rightarrow> pid \<Rightarrow> VFSNode" where
  "VFSNode_new ino nm ty par ow =
     \<lparr>vn_inode = ino, vn_type = ty, vn_name = nm, vn_parent = par, vn_permissions = 420, vn_owner = ow, vn_size = 0,
      vn_created = 0, vn_modified = 0, vn_blocks = [], vn_children = Map.empty, vn_ref_count = 0, vn_deleted = False\<rparr>"

definition is_directory :: "VFSNode \<Rightarrow> bool" where
  "is_directory n \<longleftrightarrow> vn_type n = NodeDirectory"

definition is_file :: "VFSNode \<Rightarrow> bool" where
  "is_file n \<longleftrightarrow> vn_type n = NodeFile"

definition is_symlink :: "VFSNode \<Rightarrow> bool" where
  "is_symlink n \<longleftrightarrow> vn_type n = NodeSymLink"

definition not_a_directory :: GenshinError where
  "not_a_directory = ServiceE (InvalidArguments ''node'' ''Not a directory'')"

definition add_child :: "string \<Rightarrow> u64 \<Rightarrow> VFSNode \<Rightarrow> (GenshinError, unit) result \<times> VFSNode" where
  "add_child nm ino n =
     (if \<not> is_directory n then (Inl not_a_directory, n)
      else if vn_children n nm \<noteq> None then (Inl (ServiceE (InvalidArguments ''name'' ''Child already exists'')), n)
      else (Inr (), n\<lparr>vn_children := (vn_children n)(nm \<mapsto> ino), vn_modified := 0\<rparr>))"

definition remove_child :: "string \<Rightarrow> VFSNode \<Rightarrow> (GenshinError, u64) result \<times> VFSNode" where
  "remove_child nm n =
     (if \<not> is_directory n then (Inl not_a_directory, n)
      else case vn_children n nm of
             None \<Rightarrow> (Inl (ServiceE (NotFound ''Child'' nm)), n)
           | Some i \<Rightarrow> (Inr i, n\<lparr>vn_children := (vn_children n)(nm := None)\<rparr>))"

definition get_child :: "string \<Rightarrow> VFSNode \<Rightarrow> u64 option" where
  "get_child nm n = vn_children n nm"

definition inc_ref :: "VFSNode \<Rightarrow> VFSNode" where
  "inc_ref n = n\<lparr>vn_ref_count := vn_ref_count n + 1\<rparr>"

definition dec_ref :: "VFSNode \<Rightarrow> bool \<times> VFSNode" where
  "dec_ref n =
     (let n' = (if vn_ref_count n > 0 then n\<lparr>vn_ref_count := vn_ref_count n - 1\<rparr> else n) in
      (vn_ref_count n' = 0 \<and> vn_deleted n', n'))"

definition mark_deleted :: "VFSNode \<Rightarrow> VFSNode" where
  "mark_deleted n = n\<lparr>vn_deleted := True\<rparr>"

definition node_can_delete :: "VFSNode \<Rightarrow> bool" where
  "node_can_delete n \<longleftrightarrow>
     (vn_ref_count n = 0 \<and> \<not> is_directory n) \<or> (is_directory n \<and> vn_children n = Map.empty)"

section \<open>The file system\<close>

record VirtualFileSystem =
  nodes :: "u64 \<rightharpoonup> VFSNode"
  next_inode :: u64
  root_inode :: u64
  mounts :: "string \<rightharpoonup> u64"

definition vfs_lookup :: "u64 \<Rightarrow> VirtualFileSystem \<Rightarrow> VFSNode option" where
  "vfs_lookup i v = nodes v i"

text \<open>
  Creation, the same for both kinds: the node enters the table first, its parent's entry comes second and
  may fail.
\<close>

definition create_node :: "NodeType \<Rightarrow> u64 \<Rightarrow> string \<Rightarrow> pid \<Rightarrow> VirtualFileSystem \<Rightarrow> (GenshinError, u64) result \<times> VirtualFileSystem" where
  "create_node ty par nm ow v =
     (let i = next_inode v;
          v1 = v\<lparr>next_inode := i + 1, nodes := (nodes v)(i \<mapsto> VFSNode_new i nm ty (Some par) ow)\<rparr> in
      case nodes v1 par of
        None \<Rightarrow> (Inr i, v1)
      | Some pn \<Rightarrow>
         (case add_child nm i pn of
            (Inl e, _) \<Rightarrow> (Inl e, v1)
          | (Inr _, pn') \<Rightarrow> (Inr i, v1\<lparr>nodes := (nodes v1)(par \<mapsto> pn')\<rparr>)))"

definition create_file :: "u64 \<Rightarrow> string \<Rightarrow> pid \<Rightarrow> VirtualFileSystem \<Rightarrow> (GenshinError, u64) result \<times> VirtualFileSystem" where
  "create_file = create_node NodeFile"

definition create_directory :: "u64 \<Rightarrow> string \<Rightarrow> pid \<Rightarrow> VirtualFileSystem \<Rightarrow> (GenshinError, u64) result \<times> VirtualFileSystem" where
  "create_directory = create_node NodeDirectory"

definition standard_dirs :: "string list" where
  "standard_dirs = [''bin'', ''home'', ''tmp'', ''etc'', ''var'', ''examples'', ''programs'']"

definition asm_files :: "string list" where
  "asm_files = [''add.asm'', ''busy.asm'', ''cat.asm'', ''count.asm'', ''divide.asm'', ''exec.asm'', ''fork.asm'',
     ''hello.asm'', ''init.asm'', ''loop.asm'', ''ls.asm'', ''mkdir.asm'', ''multiply.asm'', ''pf.asm'', ''rm.asm'',
     ''stat.asm'', ''sub.asm'', ''swaptest.asm'', ''touch.asm'', ''tree.asm'', ''write.asm'']"

definition empty_vfs :: VirtualFileSystem where
  "empty_vfs = \<lparr>nodes = [0 \<mapsto> VFSNode_new 0 ''/'' NodeDirectory None 0], next_inode = 1, root_inode = 0, mounts = Map.empty\<rparr>"

definition create_all :: "NodeType \<Rightarrow> u64 \<Rightarrow> string list \<Rightarrow> VirtualFileSystem \<Rightarrow> VirtualFileSystem" where
  "create_all ty par nms v = foldl (\<lambda>v nm. snd (create_node ty par nm 0 v)) v nms"

definition VirtualFileSystem_new :: VirtualFileSystem where
  "VirtualFileSystem_new =
     (let v = create_all NodeDirectory 0 standard_dirs empty_vfs in
      case Option.bind (nodes v 0) (\<lambda>root. vn_children root ''programs'') of
        None \<Rightarrow> v
      | Some prog \<Rightarrow> create_all NodeFile prog asm_files v)"

text \<open>\<^verbatim>\<open>split('/')\<close> and the components that are not empty.\<close>

fun split_char :: "char \<Rightarrow> string \<Rightarrow> string list" where
  "split_char c [] = [[]]"
| "split_char c (x # s) =
     (if x = c then [] # split_char c s
      else case split_char c s of [] \<Rightarrow> [[x]] | w # ws \<Rightarrow> (x # w) # ws)"

definition path_components :: "string \<Rightarrow> string list" where
  "path_components p = filter (\<lambda>s. s \<noteq> []) (split_char (CHR 0x2F) p)"

definition inode_not_found :: "u64 \<Rightarrow> GenshinError" where
  "inode_not_found i = ServiceE (NotFound ''Inode'' (dec64 i))"

fun lookup_walk :: "VirtualFileSystem \<Rightarrow> u64 \<Rightarrow> string list \<Rightarrow> (GenshinError, u64) result" where
  "lookup_walk v i [] = Inr i"
| "lookup_walk v i (c # cs) =
     (case vfs_lookup i v of
        None \<Rightarrow> Inl (inode_not_found i)
      | Some n \<Rightarrow> (case get_child c n of
                      Some j \<Rightarrow> lookup_walk v j cs
                    | None \<Rightarrow> Inl (ServiceE (NotFound ''Path component'' c))))"

definition lookup_path :: "string \<Rightarrow> VirtualFileSystem \<Rightarrow> (GenshinError, VFSNode) result" where
  "lookup_path p v =
     (if p = [] \<or> p = [CHR 0x2F]
      then (case vfs_lookup (root_inode v) v of
              None \<Rightarrow> Inl (ServiceE (NotFound ''Root'' (dec64 (root_inode v))))
            | Some n \<Rightarrow> Inr n)
      else rbind (lookup_walk v (root_inode v) (path_components p)) (\<lambda>i.
             case vfs_lookup i v of None \<Rightarrow> Inl (inode_not_found i) | Some n \<Rightarrow> Inr n))"

text \<open>
  Deletion. The node's lock is held while its parent's is taken, so a node that is its own parent
  blocks for good.
\<close>

definition unlink_parent :: "VFSNode \<Rightarrow> VirtualFileSystem \<Rightarrow> VirtualFileSystem" where
  "unlink_parent n v =
     (case vn_parent n of
        None \<Rightarrow> v
      | Some p \<Rightarrow>
         (case nodes v p of
            None \<Rightarrow> v
          | Some pn \<Rightarrow> v\<lparr>nodes := (nodes v)(p \<mapsto> snd (remove_child (vn_name n) pn))\<rparr>))"

definition vfs_delete :: "u64 \<Rightarrow> VirtualFileSystem \<Rightarrow> ((GenshinError, unit) result \<times> VirtualFileSystem) option" where
  "vfs_delete i v =
     (case vfs_lookup i v of
        None \<Rightarrow> Some (Inl (inode_not_found i), v)
      | Some n \<Rightarrow>
         if \<not> node_can_delete n
         then Some (Inl (ServiceE (InvalidArguments ''inode'' ''Node cannot be deleted'')), v)
         else if vn_parent n = Some i then None
         else let v1 = unlink_parent n v in
           Some (Inr (), v1\<lparr>nodes := (nodes v1)(i := (if vn_ref_count n = 0 then None else Some (mark_deleted n)))\<rparr>))"

definition vfs_root :: "VirtualFileSystem \<Rightarrow> u64" where
  "vfs_root v = root_inode v"

definition node_count :: "VirtualFileSystem \<Rightarrow> nat" where
  "node_count v = card (dom (nodes v))"

section \<open>Saving and loading\<close>

text \<open>
  The saved form of a node, and the list of all of them in the order in which the hash map delivers the
  inodes. Turning that list into JSON text and back is the library serde's work: \<open>ser\<close> and \<open>de\<close>.
\<close>

type_synonym SavedNode = "u64 \<times> NodeType \<times> string \<times> u64 option \<times> u64 \<times> (string \<rightharpoonup> u64) \<times> u64 list"

definition saved_node :: "VFSNode \<Rightarrow> SavedNode" where
  "saved_node n = (vn_inode n, vn_type n, vn_name n, vn_parent n, vn_size n, vn_children n, vn_blocks n)"

definition save_to_file :: "(SavedNode list \<Rightarrow> 'json) \<Rightarrow> u64 list \<Rightarrow> VirtualFileSystem \<Rightarrow> 'json" where
  "save_to_file ser ord v = ser (map saved_node (List.map_filter (nodes v) ord))"

definition load_node :: "VirtualFileSystem \<Rightarrow> SavedNode \<Rightarrow> VirtualFileSystem" where
  "load_node v e =
     (case e of (ino, ty, nm, par, sz, _, bl) \<Rightarrow>
        if ino = 0 then v
        else v\<lparr>nodes := (nodes v)(ino \<mapsto> (VFSNode_new ino nm ty par 0)\<lparr>vn_size := sz, vn_blocks := bl\<rparr>),
               next_inode := (if ino \<ge> next_inode v then ino + 1 else next_inode v)\<rparr>)"

definition load_children :: "VirtualFileSystem \<Rightarrow> SavedNode \<Rightarrow> VirtualFileSystem" where
  "load_children v e =
     (case e of (ino, _, _, _, _, ch, _) \<Rightarrow>
        case nodes v ino of
          None \<Rightarrow> v
        | Some n \<Rightarrow> v\<lparr>nodes := (nodes v)(ino \<mapsto> n\<lparr>vn_children := ch\<rparr>)\<rparr>)"

definition load_from_file :: "('json \<Rightarrow> SavedNode list option) \<Rightarrow> 'json option \<Rightarrow> VirtualFileSystem option" where
  "load_from_file de txt =
     (case Option.bind txt de of
        None \<Rightarrow> None
      | Some es \<Rightarrow> Some (foldl load_children (foldl load_node VirtualFileSystem_new es) es))"

section \<open>The tree\<close>

text \<open>
  Well-formedness: nodes are filed under their own inode, below the counter; only directories have entries;
  an entry leads to a node that has that name and that parent; parents are older than their children;
  inode 0 is the root.
\<close>

definition entry_ok :: "VirtualFileSystem \<Rightarrow> u64 \<Rightarrow> string \<Rightarrow> u64 \<Rightarrow> bool" where
  "entry_ok v i nm c \<longleftrightarrow> (\<exists>m. nodes v c = Some m \<and> vn_parent m = Some i \<and> vn_name m = nm)"

definition node_ok :: "VirtualFileSystem \<Rightarrow> u64 \<Rightarrow> VFSNode \<Rightarrow> bool" where
  "node_ok v i n \<longleftrightarrow> vn_inode n = i \<and> i < next_inode v \<and>
     (\<not> is_directory n \<longrightarrow> vn_children n = Map.empty) \<and>
     (\<forall>nm c. vn_children n nm = Some c \<longrightarrow> entry_ok v i nm c) \<and>
     (\<forall>p. vn_parent n = Some p \<longrightarrow> p < i)"

definition vfs_wf :: "VirtualFileSystem \<Rightarrow> bool" where
  "vfs_wf v \<longleftrightarrow> root_inode v = 0 \<and> 0 < next_inode v \<and> (\<forall>i n. nodes v i = Some n \<longrightarrow> node_ok v i n)"

lemma node_ok_D:
  assumes "vfs_wf v" "nodes v i = Some n"
  shows "vn_inode n = i" "i < next_inode v" "\<not> is_directory n \<Longrightarrow> vn_children n = Map.empty"
    "vn_children n nm = Some c \<Longrightarrow> entry_ok v i nm c" "vn_parent n = Some p \<Longrightarrow> p < i"
  using assms by (auto simp: vfs_wf_def node_ok_def)

lemma next_inode_free: "vfs_wf v \<Longrightarrow> nodes v (next_inode v) = None"
  by (cases "nodes v (next_inode v)") (auto dest: node_ok_D(2))

text \<open>Every creation starts by filing the new node.\<close>

definition with_node :: "NodeType \<Rightarrow> u64 \<Rightarrow> string \<Rightarrow> pid \<Rightarrow> VirtualFileSystem \<Rightarrow> VirtualFileSystem" where
  "with_node ty par nm ow v =
     v\<lparr>next_inode := next_inode v + 1, nodes := (nodes v)(next_inode v \<mapsto> VFSNode_new (next_inode v) nm ty (Some par) ow)\<rparr>"

lemma create_node_cases:
  assumes "par \<noteq> next_inode v"
  shows "create_node ty par nm ow v =
    (case nodes v par of
       None \<Rightarrow> (Inr (next_inode v), with_node ty par nm ow v)
     | Some pn \<Rightarrow>
        if is_directory pn \<and> vn_children pn nm = None
        then (Inr (next_inode v), with_node ty par nm ow v
               \<lparr>nodes := (nodes (with_node ty par nm ow v))
                  (par \<mapsto> pn\<lparr>vn_children := (vn_children pn)(nm \<mapsto> next_inode v), vn_modified := 0\<rparr>)\<rparr>)
        else (Inl (if is_directory pn then ServiceE (InvalidArguments ''name'' ''Child already exists'') else not_a_directory),
              with_node ty par nm ow v))"
  using assms by (auto simp: create_node_def with_node_def add_child_def Let_def split: option.split)

lemma inode_step: "(i :: u64) \<noteq> - 1 \<Longrightarrow> i < i + 1"
  using inc_less_eq_self_iff_eq [of i] by (auto simp: not_le [symmetric])

lemma with_node_wf:
  assumes "vfs_wf v" "par < next_inode v" "next_inode v \<noteq> - 1"
  shows "vfs_wf (with_node ty par nm ow v)"
proof -
  let ?i = "next_inode v" and ?v = "with_node ty par nm ow v"
  have lt: "j < ?i + 1" if "j < ?i" for j using that inode_step [OF assms(3)] by (rule less_trans)
  have keep: "entry_ok ?v j k c" if "entry_ok v j k c" for j k c
    using that next_inode_free [OF assms(1)] by (auto simp: entry_ok_def with_node_def)
  have "node_ok ?v j n" if "nodes v j = Some n" for j n
    using assms(1) that keep lt by (auto simp: vfs_wf_def node_ok_def with_node_def)
  moreover have "node_ok ?v ?i (VFSNode_new ?i nm ty (Some par) ow)"
    using assms inode_step by (simp add: node_ok_def VFSNode_new_def with_node_def)
  moreover have "0 < ?i + 1" using lt [of 0] assms(1) by (simp add: vfs_wf_def)
  ultimately show ?thesis using assms(1) by (simp add: vfs_wf_def with_node_def)
qed

text \<open>Replacing a node by one that differs in its entries only.\<close>

lemma vfs_wf_entries:
  assumes wf: "vfs_wf v" and n: "nodes v i = Some n"
    and n': "vn_inode n' = vn_inode n" "vn_type n' = vn_type n" "vn_parent n' = vn_parent n" "vn_name n' = vn_name n"
    and ch: "\<And>nm c. vn_children n' nm = Some c \<Longrightarrow> is_directory n \<and> entry_ok v i nm c"
  shows "vfs_wf (v\<lparr>nodes := (nodes v)(i \<mapsto> n')\<rparr>)"
proof -
  let ?v = "v\<lparr>nodes := (nodes v)(i \<mapsto> n')\<rparr>"
  have keep: "entry_ok ?v j k c" if "entry_ok v j k c" for j k c
    using that n n' by (auto simp: entry_ok_def)
  have "node_ok ?v j m" if "nodes v j = Some m" for j m
    using wf that keep by (auto simp: vfs_wf_def node_ok_def)
  moreover have "node_ok ?v i n'"
    using node_ok_D [OF wf n] n' ch keep by (force simp: node_ok_def is_directory_def)
  ultimately show ?thesis using wf by (simp add: vfs_wf_def)
qed

lemma create_node_wf [inv_intros]:
  assumes "vfs_wf v" "par < next_inode v" "next_inode v \<noteq> - 1"
  shows "vfs_wf (snd (create_node ty par nm ow v))"
proof -
  note wf = with_node_wf [OF assms, of ty nm ow]
  have ne: "par \<noteq> next_inode v" using assms(2) by auto
  show ?thesis
  proof (cases "\<exists>pn. nodes v par = Some pn \<and> is_directory pn \<and> vn_children pn nm = None")
    case True
    then obtain pn where pn: "nodes v par = Some pn" "is_directory pn" "vn_children pn nm = None" by blast
    let ?pn = "pn\<lparr>vn_children := (vn_children pn)(nm \<mapsto> next_inode v), vn_modified := 0\<rparr>"
    have at: "nodes (with_node ty par nm ow v) par = Some pn" using pn ne by (simp add: with_node_def)
    have old: "entry_ok (with_node ty par nm ow v) par k c" if "vn_children pn k = Some c" for k c
      using node_ok_D(4) [OF wf at that] .
    have "entry_ok (with_node ty par nm ow v) par nm (next_inode v)"
      by (simp add: entry_ok_def with_node_def VFSNode_new_def)
    with old pn have "vfs_wf ((with_node ty par nm ow v)\<lparr>nodes := (nodes (with_node ty par nm ow v))(par \<mapsto> ?pn)\<rparr>)"
      by (intro vfs_wf_entries [OF wf at]) (auto split: if_splits)
    then show ?thesis using pn by (simp add: create_node_cases [OF ne])
  next
    case False
    then show ?thesis using wf by (auto simp: create_node_cases [OF ne] split: option.split)
  qed
qed

lemma remove_child_simps:
  "vn_inode (snd (remove_child nm n)) = vn_inode n" "vn_type (snd (remove_child nm n)) = vn_type n"
  "vn_parent (snd (remove_child nm n)) = vn_parent n" "vn_name (snd (remove_child nm n)) = vn_name n"
  "is_directory n \<Longrightarrow> vn_children (snd (remove_child nm n)) = (vn_children n)(nm := None)"
  "\<not> is_directory n \<Longrightarrow> snd (remove_child nm n) = n"
  by (auto simp: remove_child_def fun_upd_idem split: option.split)

lemma unlink_parent_wf: "vfs_wf v \<Longrightarrow> vfs_wf (unlink_parent n v)"
proof -
  assume wf: "vfs_wf v"
  show ?thesis
  proof (cases "\<exists>p pn. vn_parent n = Some p \<and> nodes v p = Some pn")
    case True
    then obtain p pn where p: "vn_parent n = Some p" "nodes v p = Some pn" by blast
    have "vfs_wf (v\<lparr>nodes := (nodes v)(p \<mapsto> snd (remove_child (vn_name n) pn))\<rparr>)"
    proof (rule vfs_wf_entries [OF wf p(2)], goal_cases)
      case (5 nm c)
      then show ?case using node_ok_D [OF wf p(2)]
        by (cases "is_directory pn") (auto simp: remove_child_simps split: if_splits)
    qed (simp_all add: remove_child_simps)
    then show ?thesis using p by (simp add: unlink_parent_def)
  qed (auto simp: unlink_parent_def wf split: option.split)
qed

text \<open>The node table after unlinking: only the entry of the node in its parent is gone.\<close>

lemma unlink_parent_nodes:
  assumes "nodes v j = Some m" "j = p \<longleftrightarrow> vn_parent n = Some j"
  shows "nodes (unlink_parent n v) j = Some (if j = p then snd (remove_child (vn_name n) m) else m)"
  using assms by (auto simp: unlink_parent_def split: option.split)

lemma unlink_parent_None: "nodes (unlink_parent n v) j = None \<longleftrightarrow> nodes v j = None"
  by (auto simp: unlink_parent_def split: option.split)

lemma unlink_parent_simps [simp]:
  "root_inode (unlink_parent n v) = root_inode v" "next_inode (unlink_parent n v) = next_inode v"
  by (auto simp: unlink_parent_def split: option.split)

text \<open>After unlinking a node nothing leads to it, so it may be replaced or removed.\<close>

lemma unlinked:
  assumes "vfs_wf v" "nodes v i = Some n" "nodes (unlink_parent n v) j = Some m" "vn_children m nm = Some c"
  shows "c \<noteq> i"
proof
  assume c: "c = i"
  have "entry_ok (unlink_parent n v) j nm i"
    using node_ok_D(4) [OF unlink_parent_wf [OF assms(1)] assms(3)] assms(4) c by simp
  then obtain n' where n': "nodes (unlink_parent n v) i = Some n'" "vn_parent n' = Some j" "vn_name n' = nm"
    by (auto simp: entry_ok_def)
  have same: "vn_parent n' = vn_parent n" "vn_name n' = vn_name n"
    using n'(1) assms(2) by (auto simp: unlink_parent_def remove_child_simps split: option.splits if_splits)
  then obtain pn where pn: "nodes v j = Some pn" "m = snd (remove_child nm pn)"
    using n' assms(3) by (auto simp: unlink_parent_def split: option.splits)
  have "is_directory pn" using node_ok_D(3) [OF assms(1) pn(1)] assms(4) pn(2) remove_child_simps(6) by fastforce
  then show False using assms(4) pn(2) by (simp add: remove_child_simps)
qed

lemma vfs_delete_wf [inv_intros]:
  assumes "vfs_wf v" "vfs_delete i v = Some (r, v')"
  shows "vfs_wf v'"
proof (cases "\<exists>n. nodes v i = Some n \<and> node_can_delete n")
  case True
  then obtain n where n: "nodes v i = Some n" "node_can_delete n" by blast
  let ?u = "unlink_parent n v" and ?x = "if vn_ref_count n = 0 then None else Some (mark_deleted n)"
  have v': "v' = ?u\<lparr>nodes := (nodes ?u)(i := ?x)\<rparr>"
    using assms(2) n by (auto simp: vfs_delete_def vfs_lookup_def Let_def split: if_splits)
  note wf = unlink_parent_wf [OF assms(1), of n]
  have noch: "vn_children n = Map.empty" using n node_ok_D(3) [OF assms(1) n(1)] by (auto simp: node_can_delete_def)
  have keep: "entry_ok v' j k c" if "entry_ok ?u j k c" "c \<noteq> i" for j k c
    using that by (auto simp: entry_ok_def v')
  have "node_ok v' j m" if "nodes ?u j = Some m" for j m
    using wf that keep unlinked [OF assms(1) n(1) that] by (auto simp: vfs_wf_def node_ok_def v')
  moreover have "node_ok v' i (mark_deleted n)"
    using node_ok_D [OF assms(1) n(1)] noch by (auto simp: node_ok_def mark_deleted_def is_directory_def v')
  ultimately show ?thesis using wf by (auto simp: vfs_wf_def v')
next
  case False
  then show ?thesis using assms by (auto simp: vfs_delete_def vfs_lookup_def split: option.splits)
qed

text \<open>Recording the size and the blocks of a node changes nothing else.\<close>

definition with_contents :: "u64 \<Rightarrow> u64 \<Rightarrow> u64 list \<Rightarrow> VirtualFileSystem \<Rightarrow> VirtualFileSystem" where
  "with_contents i sz bl v =
     v\<lparr>nodes := (nodes v)(i := map_option (\<lambda>n. n\<lparr>vn_size := sz, vn_blocks := bl\<rparr>) (nodes v i))\<rparr>"

lemma with_contents_entry: "entry_ok (with_contents i sz bl v) j nm c \<longleftrightarrow> entry_ok v j nm c"
  by (auto simp: entry_ok_def with_contents_def)

lemma with_contents_wf [inv_intros]: "vfs_wf v \<Longrightarrow> vfs_wf (with_contents i sz bl v)"
  by (auto simp: vfs_wf_def node_ok_def with_contents_entry) (auto simp: with_contents_def is_directory_def split: if_splits)

text \<open>
  The file systems that creating nodes, deleting them and recording where their contents are can reach from an empty one. A
  parent is an inode that has been handed out, and the 64-bit counter is not exhausted.
\<close>

inductive vfs_reach :: "VirtualFileSystem \<Rightarrow> bool" where
  vfs_start: "vfs_reach empty_vfs"
| vfs_create: "vfs_reach v \<Longrightarrow> par < next_inode v \<Longrightarrow> next_inode v \<noteq> - 1 \<Longrightarrow> vfs_reach (snd (create_node ty par nm ow v))"
| vfs_deleted: "vfs_reach v \<Longrightarrow> vfs_delete i v = Some (r, v') \<Longrightarrow> vfs_reach v'"
| vfs_recorded: "vfs_reach v \<Longrightarrow> vfs_reach (with_contents i sz bl v)"

lemma vfs_reach_wf: "vfs_reach v \<Longrightarrow> vfs_wf v"
proof (induction rule: vfs_reach.induct)
  case vfs_start
  show ?case by (simp add: vfs_wf_def empty_vfs_def node_ok_def VFSNode_new_def is_directory_def)
qed (auto intro: inv_intros)

section \<open>Paths\<close>

primrec walk :: "VirtualFileSystem \<Rightarrow> u64 \<Rightarrow> string list \<Rightarrow> u64 option" where
  "walk v i [] = (if nodes v i = None then None else Some i)"
| "walk v i (c # cs) =
     (case nodes v i of None \<Rightarrow> None | Some n \<Rightarrow> (case vn_children n c of None \<Rightarrow> None | Some j \<Rightarrow> walk v j cs))"

lemma walk_append: "walk v i (ps @ qs) = Option.bind (walk v i ps) (\<lambda>j. walk v j qs)"
proof (induction ps arbitrary: i)
  case Nil
  show ?case by (cases qs) (auto split: option.split)
qed (auto split: option.split)

lemma walk_exists: "walk v i ps = Some j \<Longrightarrow> nodes v j \<noteq> None"
  by (induction ps arbitrary: i) (auto split: option.splits if_splits)

lemma walk_start: "walk v i ps = Some j \<Longrightarrow> nodes v i \<noteq> None"
  by (cases ps) (auto split: option.splits if_splits)

lemma walk_snoc: "walk v i (ps @ [c]) = Some j \<longleftrightarrow>
    (\<exists>p n. walk v i ps = Some p \<and> nodes v p = Some n \<and> vn_children n c = Some j \<and> nodes v j \<noteq> None)"
proof (cases "walk v i ps")
  case (Some p)
  then obtain n where "nodes v p = Some n" using walk_exists by blast
  with Some show ?thesis by (cases "vn_children n c") (auto simp: walk_append)
qed (simp add: walk_append)

lemma lookup_walk_walk: "(case lookup_walk v i cs of Inl _ \<Rightarrow> None | Inr j \<Rightarrow> if nodes v j = None then None else Some j) = walk v i cs"
  by (induction v i cs rule: lookup_walk.induct) (auto simp: vfs_lookup_def get_child_def split: option.splits)

text \<open>A path string is looked up by walking its components.\<close>

lemma lookup_path_walk:
  "(case lookup_path p v of Inl _ \<Rightarrow> None | Inr n \<Rightarrow> Some n) = Option.bind (walk v (root_inode v) (path_components p)) (nodes v)"
proof (cases "p = [] \<or> p = [CHR 0x2F]")
  case True
  then have "path_components p = []" by (auto simp: path_components_def)
  with True show ?thesis by (auto simp: lookup_path_def vfs_lookup_def split: option.split)
next
  case False
  then show ?thesis using lookup_walk_walk [of v "root_inode v" "path_components p", symmetric]
    by (auto simp: lookup_path_def vfs_lookup_def split: option.split sum.split)
qed

text \<open>Two paths to one node are equal.\<close>

lemma walk_unique:
  assumes "vfs_wf v"
  shows "walk v 0 ps = Some i \<Longrightarrow> walk v 0 qs = Some i \<Longrightarrow> ps = qs"
proof (induction ps arbitrary: qs i rule: rev_induct)
  case Nil
  show ?case
  proof (cases qs rule: rev_cases)
    case (snoc qs' b)
    with Nil obtain p n where "nodes v p = Some n" "vn_children n b = Some 0" by (auto simp: walk_snoc split: if_splits)
    then obtain m where "nodes v 0 = Some m" "vn_parent m = Some p"
      using node_ok_D(4) [OF assms] by (fastforce simp: entry_ok_def)
    then show ?thesis using node_ok_D(5) [OF assms] by fastforce
  qed simp
next
  case (snoc a ps)
  then obtain p n where p: "walk v 0 ps = Some p" "nodes v p = Some n" "vn_children n a = Some i" by (auto simp: walk_snoc)
  from node_ok_D(4) [OF assms p(2,3)] obtain m where
    m: "nodes v i = Some m" "vn_parent m = Some p" "vn_name m = a" by (auto simp: entry_ok_def)
  show ?case
  proof (cases qs rule: rev_cases)
    case Nil
    then have "i = 0" using snoc.prems(2) by (auto split: if_splits)
    then show ?thesis using m node_ok_D(5) [OF assms m(1,2)] by simp
  next
    case (snoc qs' b)
    with snoc.prems obtain q n' where q: "walk v 0 qs' = Some q" "nodes v q = Some n'" "vn_children n' b = Some i"
      by (auto simp: walk_snoc)
    from node_ok_D(4) [OF assms q(2,3)] m have "q = p" "b = a" by (auto simp: entry_ok_def)
    with snoc.IH [OF p(1)] q snoc show ?thesis by simp
  qed
qed

lemma lookup_path_Inr:
  assumes "vfs_wf v"
  shows "lookup_path p v = Inr n \<longleftrightarrow> walk v 0 (path_components p) = Some (vn_inode n) \<and> nodes v (vn_inode n) = Some n"
proof -
  have root: "root_inode v = 0" using assms by (simp add: vfs_wf_def)
  note w = lookup_path_walk [of p v, unfolded root]
  show ?thesis
  proof
    assume "lookup_path p v = Inr n"
    then have "Option.bind (walk v 0 (path_components p)) (nodes v) = Some n" using w by simp
    then obtain i where "walk v 0 (path_components p) = Some i" "nodes v i = Some n" by (auto simp: bind_eq_Some_conv)
    moreover have "vn_inode n = i" using node_ok_D(1) [OF assms] calculation by blast
    ultimately show "walk v 0 (path_components p) = Some (vn_inode n) \<and> nodes v (vn_inode n) = Some n" by simp
  next
    assume *: "walk v 0 (path_components p) = Some (vn_inode n) \<and> nodes v (vn_inode n) = Some n"
    then show "lookup_path p v = Inr n" using w by (cases "lookup_path p v") simp_all
  qed
qed

section \<open>What creating and deleting do to paths\<close>

lemma walk_child:
  assumes "vfs_wf v" "walk v 0 xs = Some j" "nodes v j = Some n" "vn_children n c = Some k"
  shows "walk v 0 (xs @ [c]) = Some k"
  using assms node_ok_D(4) [OF assms(1,3,4)] by (auto simp: walk_snoc entry_ok_def)

text \<open>A node that nothing refers to is not seen.\<close>

lemma with_node_walk:
  assumes "vfs_wf v"
  shows "nodes v i \<noteq> None \<Longrightarrow> walk (with_node ty par nm ow v) i qs = walk v i qs"
proof (induction qs arbitrary: i)
  case Nil
  then show ?case by (auto simp: with_node_def)
next
  case (Cons c cs)
  then obtain n where n: "nodes v i = Some n" by auto
  then have "nodes (with_node ty par nm ow v) i = Some n"
    using next_inode_free [OF assms] by (auto simp: with_node_def)
  moreover have "nodes v k \<noteq> None" if "vn_children n c = Some k" for k
    using node_ok_D(4) [OF assms n that] by (auto simp: entry_ok_def)
  ultimately show ?case using n Cons.IH by (auto split: option.split)
qed

text \<open>A new node at a free name of a directory appears at that path and changes no other.\<close>

lemma create_walk_from:
  assumes wf: "vfs_wf v" and ps: "walk v 0 ps = Some d" and dn: "nodes v d = Some dn" "is_directory dn" "vn_children dn nm = None"
    and v': "v' = snd (create_node ty d nm ow v)"
  shows "walk v 0 xs = Some j \<Longrightarrow> walk v' j qs = (if xs @ qs = ps @ [nm] then Some (next_inode v) else walk v j qs)"
proof (induction qs arbitrary: xs j)
  let ?i = "next_inode v"
  have ne: "d \<noteq> ?i" using next_inode_free [OF wf] dn by auto
  have nodes': "nodes v' k = (if k = d then Some (dn\<lparr>vn_children := (vn_children dn)(nm \<mapsto> ?i), vn_modified := 0\<rparr>)
      else if k = ?i then Some (VFSNode_new ?i nm ty (Some d) ow) else nodes v k)" for k
    using dn ne by (simp add: v' create_node_cases [OF ne] with_node_def)
  have fresh: "walk v 0 (ps @ [nm]) = None" using ps dn by (auto simp: walk_append)
  {
    case Nil
    then show ?case using walk_exists [OF Nil] fresh by (auto simp: nodes')
  next
    case (Cons c cs)
    obtain n where n: "nodes v j = Some n" using walk_exists [OF Cons.prems] by auto
    have old: "walk v' k cs = (if xs @ c # cs = ps @ [nm] then Some ?i else walk v k cs)"
      if "vn_children n c = Some k" for k
      using Cons.IH [OF walk_child [OF wf Cons.prems n that]] by simp
    show ?case
    proof (cases "j = d")
      case True
      then have eq: "xs = ps" "n = dn" using walk_unique [OF wf Cons.prems, of ps] ps n dn by auto
      show ?thesis
      proof (cases "c = nm")
        case True
        have "walk v' ?i cs = (if cs = [] then Some ?i else None)"
          using ne by (cases cs) (simp_all add: nodes' VFSNode_new_def)
        with True eq \<open>j = d\<close> dn show ?thesis by (simp add: nodes')
      next
        case False
        with old eq \<open>j = d\<close> dn show ?thesis by (auto simp: nodes' split: option.split)
      qed
    next
      case False
      have "j \<noteq> ?i" using n next_inode_free [OF wf] by auto
      moreover have "xs @ c # cs \<noteq> ps @ [nm]" if "vn_children n c = None"
      proof
        assume "xs @ c # cs = ps @ [nm]"
        then have "xs = ps \<or> (\<exists>ys. ps = xs @ c # ys)" by (auto simp: append_eq_append_conv2 Cons_eq_append_conv append_eq_Cons_conv)
        then show False using ps Cons.prems False n that by (auto simp: walk_append)
      qed
      ultimately show ?thesis using old n False by (auto simp: nodes' split: option.split)
    qed
  }
qed

lemma create_walk:
  assumes "vfs_wf v" "walk v 0 ps = Some d" "nodes v d = Some dn" "is_directory dn" "vn_children dn nm = None"
  shows "walk (snd (create_node ty d nm ow v)) 0 qs = (if qs = ps @ [nm] then Some (next_inode v) else walk v 0 qs)"
proof -
  have "nodes v 0 \<noteq> None" using assms(2) by (rule walk_start)
  then have "walk v 0 [] = Some 0" by simp
  from create_walk_from [OF assms refl this] show ?thesis by simp
qed

lemma create_fails_walk:
  assumes "vfs_wf v" "nodes v d = Some dn" "\<not> (is_directory dn \<and> vn_children dn nm = None)" "nodes v i \<noteq> None"
  shows "walk (snd (create_node ty d nm ow v)) i qs = walk v i qs" "\<not> is_ok (fst (create_node ty d nm ow v))"
proof -
  have ne: "d \<noteq> next_inode v" using next_inode_free [OF assms(1)] assms(2) by auto
  show "walk (snd (create_node ty d nm ow v)) i qs = walk v i qs" "\<not> is_ok (fst (create_node ty d nm ow v))"
    using assms with_node_walk [OF assms(1,4)] by (auto simp: create_node_cases [OF ne])
qed

text \<open>The table after deleting a node that a path with at least one component leads to.\<close>

lemma delete_nodes:
  assumes wf: "vfs_wf v" and n: "nodes v i = Some n" "node_can_delete n" "vn_parent n = Some p" "nodes v p = Some pn"
    and nm: "vn_children pn nm = Some i"
  obtains v' where "vfs_delete i v = Some (Inr (), v')"
    "\<And>j. j \<noteq> i \<Longrightarrow> nodes v' j = (if j = p then Some (pn\<lparr>vn_children := (vn_children pn)(nm := None)\<rparr>) else nodes v j)"
proof -
  from node_ok_D(4) [OF wf n(4) nm] n have name: "vn_name n = nm" by (auto simp: entry_ok_def)
  have ne: "vn_parent n \<noteq> Some i" using node_ok_D(5) [OF wf n(1,3)] n(3) by auto
  have dir: "is_directory pn" using node_ok_D(3) [OF wf n(4)] nm by (cases "is_directory pn") auto
  obtain v' where "vfs_delete i v = Some (Inr (), v')"
    using n ne by (simp add: vfs_delete_def vfs_lookup_def Let_def)
  moreover have "nodes v' j = (if j = p then Some (pn\<lparr>vn_children := (vn_children pn)(nm := None)\<rparr>) else nodes v j)"
    if "j \<noteq> i" for j
    using calculation that n ne dir name nm
    by (auto simp: vfs_delete_def vfs_lookup_def unlink_parent_def Let_def remove_child_def)
  ultimately show thesis by (rule that)
qed

lemma delete_walk_from:
  assumes wf: "vfs_wf v" and ps: "walk v 0 (ps @ [nm]) = Some i" and i: "nodes v i = Some n" "node_can_delete n"
    and v': "vfs_delete i v = Some (r, v')"
  shows "walk v 0 xs = Some j \<Longrightarrow> j \<noteq> i \<Longrightarrow> walk v' j qs = (if xs @ qs = ps @ [nm] then None else walk v j qs)"
proof (induction qs arbitrary: xs j)
  obtain p pn where p: "walk v 0 ps = Some p" "nodes v p = Some pn" "vn_children pn nm = Some i"
    using ps by (auto simp: walk_snoc)
  from node_ok_D(4) [OF wf p(2,3)] i have par: "vn_parent n = Some p" "vn_name n = nm" by (auto simp: entry_ok_def)
  have nodes': "nodes v' j = (if j = p then Some (pn\<lparr>vn_children := (vn_children pn)(nm := None)\<rparr>) else nodes v j)"
    if "j \<noteq> i" for j
    using delete_nodes [OF wf i par(1) p(2,3)] v' that by (metis option.inject prod.inject)
  have empty: "walk v i cs = (if cs = [] then Some i else None)" for cs
    using i node_ok_D(3) [OF wf i(1)] by (cases cs) (auto simp: node_can_delete_def)
  {
    case Nil
    then show ?case using walk_exists [OF Nil(1)] ps p(2) by (auto simp: nodes')
  next
    case (Cons c cs)
    obtain m where m: "nodes v j = Some m" using walk_exists [OF Cons.prems(1)] by auto
    have old: "walk v' k cs = (if xs @ c # cs = ps @ [nm] then None else walk v k cs)"
      if "vn_children m c = Some k" "k \<noteq> i" for k
      using Cons.IH [OF walk_child [OF wf Cons.prems(1) m that(1)] that(2)] by simp
    have entry: "j = p \<and> c = nm" if "vn_children m c = Some i"
      using node_ok_D(4) [OF wf m that] par i by (auto simp: entry_ok_def)
    show ?case
    proof (cases "j = p \<and> c = nm")
      case True
      then have eq: "xs = ps" "m = pn" using walk_unique [OF wf Cons.prems(1), of ps] p m by auto
      then show ?thesis using True p empty [of cs] nodes' [OF Cons.prems(2)] by auto
    next
      case False
      with entry have ch: "vn_children m c \<noteq> Some i" by blast
      moreover have "(if j = p then (vn_children pn)(nm := None) else vn_children m) c = vn_children m c"
        using False m p by auto
      ultimately show ?thesis using old m nodes' [OF Cons.prems(2)] p(2)
        by (cases "vn_children m c") auto
    qed
  }
qed

lemma delete_walk:
  assumes "vfs_wf v" "walk v 0 (ps @ [nm]) = Some i" "nodes v i = Some n" "node_can_delete n" "vfs_delete i v = Some (r, v')"
  shows "walk v' 0 qs = (if qs = ps @ [nm] then None else walk v 0 qs)"
proof -
  have "nodes v 0 \<noteq> None" using assms(2) by (rule walk_start)
  then have root: "walk v 0 [] = Some 0" by simp
  then have "0 \<noteq> i" using walk_unique [OF assms(1) root] assms(2) by fastforce
  from delete_walk_from [OF assms root this] show ?thesis by simp
qed

section \<open>The abstract file system\<close>

text \<open>
  What a client of a file system may rely on: a view of it as a map from paths to node types, closed under
  prefixes; creating adds one path below an existing directory, removing takes away one path that
  has nothing below it, and a refused operation changes nothing. \<open>room\<close> is the provider's capacity.
\<close>

locale path_store =
  fixes view :: "'s \<Rightarrow> string list \<rightharpoonup> NodeType"
    and mk :: "NodeType \<Rightarrow> string list \<Rightarrow> string \<Rightarrow> 's \<Rightarrow> bool \<times> 's"
    and rm :: "string list \<Rightarrow> 's \<Rightarrow> bool \<times> 's"
    and inv :: "'s \<Rightarrow> bool"
    and room :: "'s \<Rightarrow> bool"
  assumes view_prefix: "inv s \<Longrightarrow> view s (ps @ [c]) \<noteq> None \<Longrightarrow> view s ps = Some NodeDirectory"
    and mk_ok: "inv s \<Longrightarrow> room s \<Longrightarrow>
      fst (mk ty ps nm s) \<longleftrightarrow> view s ps = Some NodeDirectory \<and> view s (ps @ [nm]) = None"
    and mk_view: "inv s \<Longrightarrow> room s \<Longrightarrow>
      view (snd (mk ty ps nm s)) = (if fst (mk ty ps nm s) then (view s)(ps @ [nm] \<mapsto> ty) else view s)"
    and mk_inv: "inv s \<Longrightarrow> room s \<Longrightarrow> inv (snd (mk ty ps nm s))"
    and rm_ok: "inv s \<Longrightarrow> ps \<noteq> [] \<Longrightarrow> fst (rm ps s) \<longleftrightarrow> view s ps \<noteq> None \<and> (\<forall>c. view s (ps @ [c]) = None)"
    and rm_view: "inv s \<Longrightarrow> ps \<noteq> [] \<Longrightarrow> view (snd (rm ps s)) = (if fst (rm ps s) then (view s)(ps := None) else view s)"
    and rm_inv: "inv s \<Longrightarrow> inv (snd (rm ps s))"
begin

lemma view_append: "inv s \<Longrightarrow> view s (ps @ qs) \<noteq> None \<Longrightarrow> qs \<noteq> [] \<Longrightarrow> view s ps = Some NodeDirectory"
proof (induction qs rule: rev_induct)
  case (snoc c qs)
  then have "view s (ps @ qs) = Some NodeDirectory" using view_prefix [of s "ps @ qs" c] by simp
  with snoc show ?case by (cases "qs = []") auto
qed simp

lemma nothing_below_new: "inv s \<Longrightarrow> view s ps = None \<Longrightarrow> view s (ps @ qs) = None"
  using view_append [of s ps qs] by (cases "qs = []"; cases "view s (ps @ qs)") auto

text \<open>What was just created can be removed, and the view is the old one.\<close>

lemma mk_rm:
  assumes "inv s" "room s" "fst (mk ty ps nm s)"
  shows "fst (rm (ps @ [nm]) (snd (mk ty ps nm s))) \<and> view (snd (rm (ps @ [nm]) (snd (mk ty ps nm s)))) = view s"
proof -
  let ?t = "snd (mk ty ps nm s)"
  have new: "view s (ps @ [nm]) = None" using mk_ok [OF assms(1,2)] assms(3) by blast
  have view: "view ?t = (view s)(ps @ [nm] \<mapsto> ty)" using mk_view [OF assms(1,2)] assms(3) by simp
  have inv: "inv ?t" using mk_inv [OF assms(1,2)] .
  have "view ?t ((ps @ [nm]) @ [c]) = None" for c
    using nothing_below_new [OF assms(1) new, of "[c]"] unfolding view by simp
  then have ok: "fst (rm (ps @ [nm]) ?t)" using rm_ok [OF inv, of "ps @ [nm]"] view by auto
  have "view (snd (rm (ps @ [nm]) ?t)) = (view ?t)(ps @ [nm] := None)"
    using rm_view [OF inv, of "ps @ [nm]"] ok by simp
  then show ?thesis using ok view new by (auto simp: fun_eq_iff)
qed

end

text \<open>The operations by path, as the file service composes them.\<close>

definition fs_view :: "VirtualFileSystem \<Rightarrow> string list \<rightharpoonup> NodeType" where
  "fs_view v ps = Option.bind (walk v 0 ps) (\<lambda>i. map_option vn_type (nodes v i))"

definition create_at :: "pid \<Rightarrow> NodeType \<Rightarrow> string list \<Rightarrow> string \<Rightarrow> VirtualFileSystem \<Rightarrow> bool \<times> VirtualFileSystem" where
  "create_at ow ty ps nm v =
     (case walk v 0 ps of
        None \<Rightarrow> (False, v)
      | Some d \<Rightarrow> (case create_node ty d nm ow v of (r, v') \<Rightarrow> (is_ok r, v')))"

definition delete_at :: "string list \<Rightarrow> VirtualFileSystem \<Rightarrow> bool \<times> VirtualFileSystem" where
  "delete_at ps v =
     (case walk v 0 ps of
        None \<Rightarrow> (False, v)
      | Some i \<Rightarrow> (case vfs_delete i v of None \<Rightarrow> (False, v) | Some (r, v') \<Rightarrow> (is_ok r, v')))"

definition unreferenced :: "VirtualFileSystem \<Rightarrow> bool" where
  "unreferenced v \<longleftrightarrow> (\<forall>i n. nodes v i = Some n \<longrightarrow> vn_ref_count n = 0)"

lemma create_node_unreferenced: "unreferenced v \<Longrightarrow> unreferenced (snd (create_node ty par nm ow v))"
  by (auto simp: unreferenced_def create_node_def add_child_def VFSNode_new_def Let_def split: option.split)

lemma remove_child_ref: "vn_ref_count (snd (remove_child nm n)) = vn_ref_count n"
  by (simp add: remove_child_def split: option.split)

lemma vfs_delete_unreferenced: "unreferenced v \<Longrightarrow> vfs_delete i v = Some (r, v') \<Longrightarrow> unreferenced v'"
  by (auto simp: unreferenced_def vfs_delete_def vfs_lookup_def unlink_parent_def Let_def remove_child_ref
      split: option.splits if_splits)

lemma with_contents_unreferenced: "unreferenced v \<Longrightarrow> unreferenced (with_contents i sz bl v)"
  by (auto simp: unreferenced_def with_contents_def)

lemma vfs_reach_unreferenced: "vfs_reach v \<Longrightarrow> unreferenced v"
proof (induction rule: vfs_reach.induct)
  case vfs_start
  then show ?case by (simp add: unreferenced_def empty_vfs_def VFSNode_new_def)
qed (auto intro: create_node_unreferenced vfs_delete_unreferenced with_contents_unreferenced)

text \<open>What the operations on paths need of a tree, and keep.\<close>

definition tree_ok :: "VirtualFileSystem \<Rightarrow> bool" where
  "tree_ok v \<longleftrightarrow> vfs_wf v \<and> unreferenced v"

lemma vfs_reach_ok: "vfs_reach v \<Longrightarrow> tree_ok v"
  by (simp add: tree_ok_def vfs_reach_wf vfs_reach_unreferenced)

lemma tree_ok_steps:
  "tree_ok v \<Longrightarrow> par < next_inode v \<Longrightarrow> next_inode v \<noteq> - 1 \<Longrightarrow> tree_ok (snd (create_node ty par nm ow v))"
  "tree_ok v \<Longrightarrow> vfs_delete i v = Some (r, v') \<Longrightarrow> tree_ok v'"
  "tree_ok v \<Longrightarrow> tree_ok (with_contents i sz bl v)"
  unfolding tree_ok_def
  by (blast intro: create_node_wf create_node_unreferenced vfs_delete_wf vfs_delete_unreferenced
      with_contents_wf with_contents_unreferenced)+

text \<open>The view of a node with its entries.\<close>

lemma fs_view_Some: "walk v 0 ps = Some i \<Longrightarrow> nodes v i = Some n \<Longrightarrow> fs_view v ps = Some (vn_type n)"
  by (simp add: fs_view_def)

lemma fs_view_None: "fs_view v ps = None \<longleftrightarrow> walk v 0 ps = None"
  using walk_exists [of v 0 ps] by (cases "walk v 0 ps") (auto simp: fs_view_def)

lemma fs_view_child:
  assumes "vfs_wf v" "walk v 0 ps = Some i" "nodes v i = Some n"
  shows "fs_view v (ps @ [c]) = None \<longleftrightarrow> vn_children n c = None"
proof (cases "vn_children n c")
  case None
  then show ?thesis using assms(2,3) by (simp add: fs_view_None walk_append)
next
  case (Some k)
  then show ?thesis using walk_child [OF assms Some] by (simp add: fs_view_None)
qed

text \<open>Two states whose nodes agree in type along equal walks have the same view.\<close>

lemma fs_view_cong:
  assumes "\<And>qs. walk v' 0 qs = (if qs = ps then x else walk v 0 qs)"
    and "\<And>i. i \<noteq> k \<Longrightarrow> map_option vn_type (nodes v' i) = map_option vn_type (nodes v i)"
    and "\<And>qs. qs \<noteq> ps \<Longrightarrow> walk v 0 qs \<noteq> Some k"
  shows "fs_view v' = (fs_view v)(ps := Option.bind x (\<lambda>i. map_option vn_type (nodes v' i)))"
proof
  fix qs
  show "fs_view v' qs = ((fs_view v)(ps := Option.bind x (\<lambda>i. map_option vn_type (nodes v' i)))) qs"
  proof (cases "qs = ps \<or> walk v 0 qs = None")
    case False
    then obtain i where "walk v 0 qs = Some i" "i \<noteq> k" using assms(3) by (cases "walk v 0 qs") auto
    with False assms show ?thesis by (simp add: fs_view_def)
  qed (use assms(1) in \<open>auto simp: fs_view_def\<close>)
qed

lemma create_at_view:
  assumes wf: "vfs_wf v"
  shows "(fst (create_at ow ty ps nm v) \<longleftrightarrow> fs_view v ps = Some NodeDirectory \<and> fs_view v (ps @ [nm]) = None) \<and>
    fs_view (snd (create_at ow ty ps nm v)) = (if fst (create_at ow ty ps nm v) then (fs_view v)(ps @ [nm] \<mapsto> ty) else fs_view v)"
proof (cases "walk v 0 ps")
  case None
  then show ?thesis by (simp add: create_at_def fs_view_def)
next
  case (Some d)
  obtain dn where dn: "nodes v d = Some dn" using walk_exists [OF Some] by auto
  have ne: "d \<noteq> next_inode v" using next_inode_free [OF wf] dn by auto
  let ?v = "snd (create_node ty d nm ow v)"
  have at: "fst (create_at ow ty ps nm v) = is_ok (fst (create_node ty d nm ow v))" "snd (create_at ow ty ps nm v) = ?v"
    using Some by (simp_all add: create_at_def split: prod.split)
  have ok: "is_directory dn \<and> vn_children dn nm = None \<longleftrightarrow> fs_view v ps = Some NodeDirectory \<and> fs_view v (ps @ [nm]) = None"
    using fs_view_child [OF wf Some dn] fs_view_Some [OF Some dn] by (simp add: is_directory_def)
  have types: "map_option vn_type (nodes ?v i) = map_option vn_type (nodes v i)" if "i \<noteq> next_inode v" for i
    using that dn by (auto simp: create_node_cases [OF ne] with_node_def)
  have unseen: "walk v 0 qs \<noteq> Some (next_inode v)" for qs
    using walk_exists [of v 0 qs "next_inode v"] next_inode_free [OF wf] by auto
  show ?thesis
  proof (cases "is_directory dn \<and> vn_children dn nm = None")
    case True
    have "fs_view ?v = (fs_view v)(ps @ [nm] := Option.bind (Some (next_inode v)) (\<lambda>i. map_option vn_type (nodes ?v i)))"
      using create_walk [OF wf Some dn conjunct1 [OF True] conjunct2 [OF True]] types unseen by (intro fs_view_cong) auto
    moreover have "nodes ?v (next_inode v) = Some (VFSNode_new (next_inode v) nm ty (Some d) ow)"
      and "is_ok (fst (create_node ty d nm ow v))"
      using True dn ne by (simp_all add: create_node_cases [OF ne] with_node_def)
    ultimately show ?thesis using at ok True by (simp add: VFSNode_new_def)
  next
    case False
    note fail = create_fails_walk [OF wf dn False walk_start [OF Some]]
    have "fs_view ?v = (fs_view v)(ps := fs_view v ps)"
    proof -
      have "fs_view ?v = (fs_view v)(ps := Option.bind (walk v 0 ps) (\<lambda>i. map_option vn_type (nodes ?v i)))"
        using fail(1) types unseen by (intro fs_view_cong) auto
      then show ?thesis using types [OF ne] Some by (simp add: fs_view_def)
    qed
    then show ?thesis using at ok False fail(2) by auto
  qed
qed

lemma delete_at_view:
  assumes wf: "vfs_wf v" and un: "unreferenced v" and ne: "ps \<noteq> []"
  shows "(fst (delete_at ps v) \<longleftrightarrow> fs_view v ps \<noteq> None \<and> (\<forall>c. fs_view v (ps @ [c]) = None)) \<and>
    fs_view (snd (delete_at ps v)) = (if fst (delete_at ps v) then (fs_view v)(ps := None) else fs_view v)"
proof (cases "walk v 0 ps")
  case None
  then show ?thesis by (simp add: delete_at_def fs_view_def)
next
  case (Some i)
  obtain n where n: "nodes v i = Some n" using walk_exists [OF Some] by auto
  obtain ps' nm where ps: "ps = ps' @ [nm]" using ne by (cases ps rule: rev_cases) auto
  have "vn_ref_count n = 0" using un n by (auto simp: unreferenced_def)
  then have can: "node_can_delete n \<longleftrightarrow> (\<forall>c. fs_view v (ps @ [c]) = None)"
    using fs_view_child [OF wf Some n] node_ok_D(3) [OF wf n]
    by (cases "is_directory n") (auto simp: node_can_delete_def fun_eq_iff)
  show ?thesis
  proof (cases "node_can_delete n")
    case True
    obtain p pn where p: "walk v 0 ps' = Some p" "nodes v p = Some pn" "vn_children pn nm = Some i"
      using Some ps by (auto simp: walk_snoc)
    from node_ok_D(4) [OF wf p(2,3)] n have par: "vn_parent n = Some p" by (auto simp: entry_ok_def)
    from delete_nodes [OF wf n True par p(2,3)] obtain v' where v': "vfs_delete i v = Some (Inr (), v')"
      "\<And>j. j \<noteq> i \<Longrightarrow> nodes v' j = (if j = p then Some (pn\<lparr>vn_children := (vn_children pn)(nm := None)\<rparr>) else nodes v j)"
      by blast
    have "walk v 0 qs \<noteq> Some i" if "qs \<noteq> ps" for qs using that walk_unique [OF wf Some, of qs] by auto
    then have "fs_view v' = (fs_view v)(ps := Option.bind None (\<lambda>i. map_option vn_type (nodes v' i)))"
      using delete_walk [OF wf Some [unfolded ps] n True v'(1)] v'(2) p(2) ps by (intro fs_view_cong [where k = i]) auto
    then show ?thesis using v'(1) Some can True by (simp add: delete_at_def fs_view_None)
  next
    case False
    then show ?thesis using Some n can by (auto simp: delete_at_def vfs_delete_def vfs_lookup_def)
  qed
qed

lemma walk_handed_out: "vfs_wf v \<Longrightarrow> walk v 0 ps = Some d \<Longrightarrow> d < next_inode v"
  using walk_exists node_ok_D(2) by blast

lemma create_at_ok: "tree_ok v \<Longrightarrow> next_inode v \<noteq> - 1 \<Longrightarrow> tree_ok (snd (create_at ow ty ps nm v))"
  using tree_ok_steps(1) [of v _ ty nm ow] walk_handed_out [of v ps]
  by (auto simp: create_at_def tree_ok_def split: option.split prod.split) (metis snd_conv)+

lemma delete_at_ok: "tree_ok v \<Longrightarrow> tree_ok (snd (delete_at ps v))"
  by (auto simp: delete_at_def split: option.split intro: tree_ok_steps(2))

interpretation vfs: path_store fs_view "create_at ow" delete_at tree_ok "\<lambda>v. next_inode v \<noteq> - 1"
proof (standard, goal_cases)
  case (1 v ps c)
  have wf: "vfs_wf v" using 1(1) by (simp add: tree_ok_def)
  have "walk v 0 (ps @ [c]) \<noteq> None" using 1(2) by (simp add: fs_view_None)
  then obtain j where "walk v 0 (ps @ [c]) = Some j" by auto
  then obtain p n where p: "walk v 0 ps = Some p" "nodes v p = Some n" "vn_children n c = Some j" by (auto simp: walk_snoc)
  then have "is_directory n" using node_ok_D(3) [OF wf p(2)] by (cases "is_directory n") auto
  then show ?case using fs_view_Some [OF p(1,2)] by (simp add: is_directory_def)
next
  case (2 v ty ps nm) then show ?case using create_at_view unfolding tree_ok_def by blast
next
  case (3 v ty ps nm) then show ?case using create_at_view unfolding tree_ok_def by blast
next
  case (4 v ty ps nm) then show ?case by (rule create_at_ok)
next
  case (5 v ps) then show ?case using delete_at_view unfolding tree_ok_def by blast
next
  case (6 v ps) then show ?case using delete_at_view unfolding tree_ok_def by blast
next
  case (7 v ps) then show ?case by (rule delete_at_ok)
qed

text \<open>
  C12. The file system implements a map from paths to node types. In every reachable state, creating a node
  below a path succeeds exactly when that path is a directory without an entry of that name, and then adds
  exactly that path; deleting succeeds exactly for an existing path with nothing below it, and then removes
  exactly that path; a refused operation changes no path. Deleting what was just created restores the view.
\<close>

theorem vfs_refines:
  assumes "vfs_reach v" "next_inode v \<noteq> - 1" "qs \<noteq> []"
  shows "(fst (create_at ow ty ps nm v) \<longleftrightarrow> fs_view v ps = Some NodeDirectory \<and> fs_view v (ps @ [nm]) = None) \<and>
    fs_view (snd (create_at ow ty ps nm v)) = (if fst (create_at ow ty ps nm v) then (fs_view v)(ps @ [nm] \<mapsto> ty) else fs_view v) \<and>
    (fst (delete_at qs v) \<longleftrightarrow> fs_view v qs \<noteq> None \<and> (\<forall>c. fs_view v (qs @ [c]) = None)) \<and>
    fs_view (snd (delete_at qs v)) = (if fst (delete_at qs v) then (fs_view v)(qs := None) else fs_view v) \<and>
    (fst (create_at ow ty ps nm v) \<longrightarrow>
       fs_view (snd (delete_at (ps @ [nm]) (snd (create_at ow ty ps nm v)))) = fs_view v)"
proof (intro conjI impI)
  note ok = vfs_reach_ok [OF assms(1)]
  show "fst (create_at ow ty ps nm v) \<longleftrightarrow> fs_view v ps = Some NodeDirectory \<and> fs_view v (ps @ [nm]) = None"
    using ok assms(2) by (rule vfs.mk_ok)
  show "fs_view (snd (create_at ow ty ps nm v)) = (if fst (create_at ow ty ps nm v) then (fs_view v)(ps @ [nm] \<mapsto> ty) else fs_view v)"
    using ok assms(2) by (rule vfs.mk_view)
  show "fst (delete_at qs v) \<longleftrightarrow> fs_view v qs \<noteq> None \<and> (\<forall>c. fs_view v (qs @ [c]) = None)"
    using ok assms(3) by (rule vfs.rm_ok)
  show "fs_view (snd (delete_at qs v)) = (if fst (delete_at qs v) then (fs_view v)(qs := None) else fs_view v)"
    using ok assms(3) by (rule vfs.rm_view)
  assume "fst (create_at ow ty ps nm v)"
  then show "fs_view (snd (delete_at (ps @ [nm]) (snd (create_at ow ty ps nm v)))) = fs_view v"
    using vfs.mk_rm [OF ok assms(2)] by blast
qed

lemma empty_view: "fs_view empty_vfs ps = (if ps = [] then Some NodeDirectory else None)"
  by (cases ps) (simp_all add: fs_view_def empty_vfs_def VFSNode_new_def)

theorem vfs_refines_witness:
  "fst (create_at 5 NodeDirectory [] ''d'' empty_vfs) \<and>
   fs_view (snd (create_at 5 NodeDirectory [] ''d'' empty_vfs)) [''d''] = Some NodeDirectory \<and>
   \<not> fst (delete_at [''x''] empty_vfs)"
proof -
  have pre: "next_inode empty_vfs \<noteq> - 1" "[''x''] \<noteq> []" by (simp_all add: empty_vfs_def)
  from vfs_refines [OF vfs_start pre, of 5 NodeDirectory "[]" "''d''"] show ?thesis by (simp add: empty_view)
qed

text \<open>
  C31. Reachable file systems are trees: two non-empty path strings that lead to the same inode have the same
  components, and a node that a non-empty path string leads to carries the last component as its name and the node of any
  non-empty path string for the components before it as its parent. The empty string is left out.
\<close>

theorem vfs_tree:
  assumes "vfs_reach v" "p \<noteq> []" "q \<noteq> []" "lookup_path p v = Inr n"
  shows "(lookup_path q v = Inr m \<and> vn_inode m = vn_inode n \<longrightarrow> path_components q = path_components p) \<and>
    (path_components p = cs @ [c] \<and> path_components q = cs \<longrightarrow>
       (\<exists>d. lookup_path q v = Inr d \<and> is_directory d \<and> vn_parent n = Some (vn_inode d) \<and> vn_name n = c))"
proof -
  note wf = vfs_reach_wf [OF assms(1)]
  note found = lookup_path_Inr [OF wf, THEN iffD1]
  have "\<exists>d. lookup_path q v = Inr d \<and> is_directory d \<and> vn_parent n = Some (vn_inode d) \<and> vn_name n = c"
    if pc: "path_components p = cs @ [c]" and qc: "path_components q = cs"
  proof -
    obtain d dn where d: "walk v 0 cs = Some d" "nodes v d = Some dn" "vn_children dn c = Some (vn_inode n)"
      using found [OF assms(4)] pc by (auto simp: walk_snoc)
    then have "lookup_path q v = Inr dn" using lookup_path_Inr [OF wf] qc node_ok_D(1) [OF wf d(2)] by simp
    moreover have "is_directory dn" using node_ok_D(3) [OF wf d(2)] d(3) by (cases "is_directory dn") auto
    ultimately show ?thesis using node_ok_D(4) [OF wf d(2,3)] node_ok_D(1) [OF wf d(2)] found [OF assms(4)]
      by (auto simp: entry_ok_def)
  qed
  then show ?thesis using walk_unique [OF wf] found found [OF assms(4)] by metis
qed

definition demo_vfs :: VirtualFileSystem where
  "demo_vfs = snd (create_node NodeDirectory 0 ''d'' 0 empty_vfs)"

lemma demo_vfs_reach: "vfs_reach demo_vfs"
  unfolding demo_vfs_def by (rule vfs_create [OF vfs_start]) (simp_all add: empty_vfs_def)

lemma demo_vfs_lookup:
  "lookup_path ''/d'' demo_vfs = Inr (VFSNode_new 1 ''d'' NodeDirectory (Some 0) 0)"
  by (simp add: demo_vfs_def lookup_path_def path_components_def vfs_lookup_def get_child_def create_node_def
      empty_vfs_def add_child_def is_directory_def VFSNode_new_def Let_def)

theorem vfs_tree_witness:
  "\<exists>d. lookup_path ''/'' demo_vfs = Inr d \<and> is_directory d \<and> vn_inode d = 0"
proof -
  have "path_components ''/d'' = [] @ [''d'']" "path_components ''/'' = []" by (simp_all add: path_components_def)
  then show ?thesis using vfs_tree [OF demo_vfs_reach _ _ demo_vfs_lookup, of "''/''" _ "[]" "''d''"]
    by (auto simp: VFSNode_new_def)
qed

text \<open>
  Two consequences of the order of steps in the code: a refused creation leaves its node in the table, and
  once everything else is deleted the root can be deleted too, after which every lookup fails.
\<close>

lemma refused_create_leaks:
  assumes "nodes v d = Some dn" "d \<noteq> next_inode v" "vn_children dn nm \<noteq> None"
  shows "\<not> is_ok (fst (create_node ty d nm ow v)) \<and> nodes (snd (create_node ty d nm ow v)) (next_inode v) \<noteq> None"
  using assms by (simp add: create_node_cases with_node_def)

lemma root_deleted:
  "\<exists>v'. vfs_delete 0 empty_vfs = Some (Inr (), v') \<and> \<not> is_ok (lookup_path p v')"
proof -
  obtain v' where v': "vfs_delete 0 empty_vfs = Some (Inr (), v')" "nodes v' = Map.empty" "root_inode v' = 0"
    by (simp add: vfs_delete_def vfs_lookup_def empty_vfs_def VFSNode_new_def node_can_delete_def is_directory_def
        unlink_parent_def Let_def)
  have "walk v' 0 cs = None" for cs using v'(2) by (cases cs) simp_all
  with v' show ?thesis using lookup_path_walk [of p v'] by (cases "lookup_path p v'") auto
qed

section \<open>The saved image\<close>

definition loaded_node :: "SavedNode \<Rightarrow> VFSNode" where
  "loaded_node e = (case e of (ino, ty, nm, par, sz, _, bl) \<Rightarrow> (VFSNode_new ino nm ty par 0)\<lparr>vn_size := sz, vn_blocks := bl\<rparr>)"

lemma load_nodes_fold:
  "nodes (foldl load_node v es) i =
     (if i = 0 then nodes v 0 else case map_of (rev es) i of None \<Rightarrow> nodes v i | Some e \<Rightarrow> Some (loaded_node (i, e)))"
  by (induction es rule: rev_induct) (auto simp: load_node_def loaded_node_def split: prod.split)

lemma load_children_nodes:
  "nodes (load_children v e) i =
     (if i = fst e then map_option (\<lambda>n. n\<lparr>vn_children := fst (snd (snd (snd (snd (snd e)))))\<rparr>) (nodes v i) else nodes v i)"
  by (cases e) (simp add: load_children_def split: option.split)

lemma load_children_fold:
  "nodes (foldl load_children v es) i =
     map_option (\<lambda>n. case map_of (rev es) i of None \<Rightarrow> n
                     | Some e \<Rightarrow> n\<lparr>vn_children := fst (snd (snd (snd (snd e))))\<rparr>) (nodes v i)"
proof (induction es rule: rev_induct)
  case Nil
  show ?case by (simp add: option.map_ident)
next
  case (snoc e es)
  obtain ino rest where e: "e = (ino, rest)" by (cases e)
  show ?case
  proof (cases "i = ino")
    case True
    then show ?thesis using snoc by (cases "nodes v i"; cases "map_of (rev es) i") (simp_all add: load_children_nodes e)
  next
    case False
    then show ?thesis using snoc by (simp add: load_children_nodes e)
  qed
qed

lemma saved_entries:
  assumes "vfs_wf v" "distinct ord" "set ord = dom (nodes v)"
  shows "map_of (rev (map saved_node (List.map_filter (nodes v) ord))) i = map_option (\<lambda>n. snd (saved_node n)) (nodes v i)"
proof -
  have "map saved_node (List.map_filter (nodes v) xs) = map (\<lambda>j. (j, snd (saved_node (the (nodes v j))))) xs"
    if "set xs \<subseteq> dom (nodes v)" for xs
    using that
  proof (induction xs)
    case (Cons j xs)
    then obtain n where "nodes v j = Some n" by auto
    moreover have "saved_node n = (j, snd (saved_node n))" using node_ok_D(1) [OF assms(1) calculation] by (simp add: saved_node_def)
    ultimately show ?case using Cons by (simp add: List.map_filter_def)
  qed (simp add: List.map_filter_def)
  then have "rev (map saved_node (List.map_filter (nodes v) ord)) = map (\<lambda>j. (j, snd (saved_node (the (nodes v j))))) (rev ord)"
    using assms(3) by (simp add: rev_map)
  then show ?thesis using assms(3) by (cases "nodes v i") (auto simp: map_of_map_restrict restrict_map_def)
qed

lemma create_keeps: "nodes v i \<noteq> None \<Longrightarrow> nodes (snd (create_node ty par nm ow v)) i \<noteq> None"
  by (auto simp: create_node_def Let_def split: option.split prod.split sum.split)

lemma create_all_keeps: "nodes v i \<noteq> None \<Longrightarrow> nodes (create_all ty par nms v) i \<noteq> None"
  unfolding create_all_def by (induction nms arbitrary: v) (simp_all add: create_keeps del: not_None_eq)

lemma new_has_root: "nodes VirtualFileSystem_new 0 \<noteq> None"
  using create_all_keeps [of empty_vfs 0 NodeDirectory 0 standard_dirs]
    create_all_keeps [of "create_all NodeDirectory 0 standard_dirs empty_vfs" 0 NodeFile _ asm_files]
  by (simp add: VirtualFileSystem_new_def Let_def empty_vfs_def split: option.split del: not_None_eq)

lemma create_node_next: "next_inode (snd (create_node ty par nm ow v)) = next_inode v + 1"
  by (auto simp: create_node_def Let_def split: option.split prod.split sum.split)

lemma create_all_reach:
  "vfs_reach v \<Longrightarrow> par < next_inode v \<Longrightarrow> unat (next_inode v) + length nms < 2 ^ 64 - 1 \<Longrightarrow>
   vfs_reach (create_all ty par nms v) \<and> unat (next_inode (create_all ty par nms v)) = unat (next_inode v) + length nms"
proof (induction nms arbitrary: v)
  case (Cons nm nms)
  let ?v = "snd (create_node ty par nm 0 v)"
  have ne: "next_inode v \<noteq> - 1" using Cons.prems(3) by (auto simp: unsigned_minus_1_eq_mask mask_eq_exp_minus_1)
  have nx: "next_inode ?v = next_inode v + 1" by (rule create_node_next)
  have u: "unat (next_inode v + 1) = Suc (unat (next_inode v))" using Cons.prems(3) by (simp add: unat_word_ariths)
  have "par < next_inode v + 1" using Cons.prems(2) inode_step [OF ne] by (rule less_trans)
  with Cons.IH [of ?v] Cons.prems ne nx u vfs_create [of v par ty nm 0] show ?case by (simp add: create_all_def)
qed (simp add: create_all_def)

lemma new_reach: "vfs_reach VirtualFileSystem_new"
proof -
  let ?v = "create_all NodeDirectory 0 standard_dirs empty_vfs"
  have v: "vfs_reach ?v" "unat (next_inode ?v) = 8"
    using create_all_reach [OF vfs_start, of 0 standard_dirs NodeDirectory] by (simp_all add: empty_vfs_def standard_dirs_def)
  have "vfs_reach (create_all NodeFile d asm_files ?v)" if "nodes ?v 0 = Some r" "vn_children r ''programs'' = Some d" for r d
  proof -
    from node_ok_D(4) [OF vfs_reach_wf [OF v(1)] that] have "nodes ?v d \<noteq> None" by (auto simp: entry_ok_def)
    then have "d < next_inode ?v" using node_ok_D(2) [OF vfs_reach_wf [OF v(1)]] by blast
    then show ?thesis using create_all_reach [OF v(1), of d asm_files NodeFile] v(2) by (simp add: asm_files_def)
  qed
  then show ?thesis using v(1) by (cases "nodes ?v 0") (auto simp: VirtualFileSystem_new_def Let_def split: option.split)
qed

lemma create_node_root: "root_inode (snd (create_node ty par nm ow v)) = root_inode v"
  by (auto simp: create_node_def Let_def split: option.split prod.split sum.split)

text \<open>The loaded table, node by node.\<close>

lemma loaded_nodes:
  assumes "vfs_wf v" "distinct ord" "set ord = dom (nodes v)" "\<And>es. de (ser es) = Some es"
    and v': "load_from_file de (Some (save_to_file ser ord v)) = Some v'" and n: "nodes v i = Some n"
  obtains n' where "nodes v' i = Some n'" "vn_children n' = vn_children n" "i \<noteq> 0 \<Longrightarrow> saved_node n' = saved_node n"
proof -
  let ?es = "map saved_node (List.map_filter (nodes v) ord)"
  have es: "map_of (rev ?es) i = Some (snd (saved_node n))" using saved_entries [OF assms(1-3)] n by simp
  have v'_eq: "v' = foldl load_children (foldl load_node VirtualFileSystem_new ?es) ?es"
    using v' assms(4) by (simp add: load_from_file_def save_to_file_def)
  obtain b where b: "nodes (foldl load_node VirtualFileSystem_new ?es) i = Some b"
    "i \<noteq> 0 \<Longrightarrow> b = loaded_node (i, snd (saved_node n))"
    using es new_has_root by (cases "i = 0") (auto simp: load_nodes_fold)
  have "nodes v' i = Some (b\<lparr>vn_children := vn_children n\<rparr>)"
    unfolding v'_eq load_children_fold b(1) es by (simp add: saved_node_def)
  moreover have "saved_node (b\<lparr>vn_children := vn_children n\<rparr>) = saved_node n" if "i \<noteq> 0"
    using b(2) [OF that] node_ok_D(1) [OF assms(1) n] by (simp add: loaded_node_def saved_node_def VFSNode_new_def)
  ultimately show thesis by (intro that [of "b\<lparr>vn_children := vn_children n\<rparr>"]) simp_all
qed

text \<open>
  C20. The file system survives a restart. If serde reads back the list it wrote, then loading the saved
  image succeeds, every path leads to the inode it led to before and no other path leads anywhere, and every
  node but the root has its inode, type, name, parent, size, entries and blocks, in whatever order the
  nodes were written.
\<close>

theorem vfs_save_load:
  fixes ser :: "SavedNode list \<Rightarrow> 'json"
  assumes "vfs_wf v" "distinct ord" "set ord = dom (nodes v)" and serde: "\<And>es. de (ser es) = Some es"
  shows "\<exists>v'. load_from_file de (Some (save_to_file ser ord v)) = Some v' \<and>
    (nodes v 0 \<noteq> None \<longrightarrow> (\<forall>ps. walk v' 0 ps = walk v 0 ps)) \<and>
    (\<forall>i n. nodes v i = Some n \<and> i \<noteq> 0 \<longrightarrow> (\<exists>n'. nodes v' i = Some n' \<and> saved_node n' = saved_node n))"
proof -
  obtain v' where v': "load_from_file de (Some (save_to_file ser ord v)) = Some v'"
    using serde by (simp add: load_from_file_def save_to_file_def)
  note node = loaded_nodes [OF assms(1-3) serde v']
  have "walk v' i ps = walk v i ps" if "nodes v i \<noteq> None" for i ps
    using that
  proof (induction ps arbitrary: i)
    case Nil
    then obtain n where n: "nodes v i = Some n" by auto
    show ?case using node [OF n] n by auto
  next
    case (Cons c cs)
    then obtain n where n: "nodes v i = Some n" by auto
    obtain n' where n': "nodes v' i = Some n'" "vn_children n' = vn_children n" using node [OF n] by auto
    have "nodes v k \<noteq> None" if "vn_children n c = Some k" for k
      using node_ok_D(4) [OF assms(1) n that] by (auto simp: entry_ok_def)
    then show ?case using n n' Cons.IH by (auto split: option.split)
  qed
  moreover have "\<exists>n'. nodes v' i = Some n' \<and> saved_node n' = saved_node n" if "nodes v i = Some n" "i \<noteq> 0" for i n
    using node [OF that(1)] that(2) by metis
  ultimately show ?thesis using v' by blast
qed

theorem vfs_save_load_witness:
  "\<exists>v'. load_from_file Some (Some (save_to_file (\<lambda>es. es) [0, 1] demo_vfs)) = Some v' \<and> walk v' 0 [''d''] = Some 1"
proof -
  have nodes: "dom (nodes demo_vfs) = {0, 1}" "walk demo_vfs 0 [''d''] = Some 1"
    by (auto simp: demo_vfs_def create_node_def empty_vfs_def add_child_def is_directory_def VFSNode_new_def Let_def)
  then have pre: "distinct [0, 1 :: u64]" "set [0, 1] = dom (nodes demo_vfs)" "nodes demo_vfs 0 \<noteq> None" by auto
  show ?thesis
    using vfs_save_load [OF vfs_reach_wf [OF demo_vfs_reach] pre(1,2), of Some "\<lambda>es. es"] pre(3) nodes(2)
    by (auto simp del: walk.simps)
qed

end
