(* ===== verification/Virtual_Disk.thy ===== *)
theory Virtual_Disk
  imports Error_Format
begin

text \<open>
  The file-backed disk (\<^verbatim>\<open>src/hardware/disk.rs\<close>): sectors of a disk image, and the bitmap of used
  sectors that is kept in memory and flushed to sector 0. The image file is its contents; a host file
  reads fail past its end and writes extend it, and other host I/O errors are not modelled. The locale
  \<open>sector_store\<close> is what the swap space and the block devices rely on.
\<close>

section \<open>The image file\<close>

definition SECTOR_SIZE :: nat where
  "SECTOR_SIZE = 512"

definition file_read_exact :: "nat \<Rightarrow> nat \<Rightarrow> u8 list \<Rightarrow> u8 list option" where
  "file_read_exact pos n img = (if pos + n \<le> length img then Some (subvec pos n img) else None)"

definition file_write_all :: "nat \<Rightarrow> u8 list \<Rightarrow> u8 list \<Rightarrow> u8 list" where
  "file_write_all pos bs img = overwrite pos bs (img @ replicate (pos + length bs - length img) 0)"

record VirtualDisk =
  disk_image :: "u8 list"
  total_sectors :: u32
  bitmap :: "u64 list"

section \<open>The bitmap\<close>

definition mark_used :: "u64 list \<Rightarrow> nat \<Rightarrow> u64 list" where
  "mark_used bm sector =
     (let w = sector div 64; b = sector mod 64 in
      if w < length bm then bm[w := (bm ! w) OR push_bit b 1] else bm)"

definition mark_free :: "u64 list \<Rightarrow> nat \<Rightarrow> u64 list" where
  "mark_free bm sector =
     (let w = sector div 64; b = sector mod 64 in
      if w < length bm then bm[w := (bm ! w) AND NOT (push_bit b 1)] else bm)"

definition sector_is_free :: "u64 list \<Rightarrow> nat \<Rightarrow> bool" where
  "sector_is_free bm sector \<longleftrightarrow>
     (let w = sector div 64; b = sector mod 64 in
      w \<ge> length bm \<or> (bm ! w) AND push_bit b 1 = 0)"

definition mark_used_range :: "u64 list \<Rightarrow> nat \<Rightarrow> nat \<Rightarrow> u64 list" where
  "mark_used_range bm start cnt = foldl mark_used bm [start..<start + cnt]"

section \<open>Opening\<close>

definition load_bitmap :: "nat \<Rightarrow> u8 list \<Rightarrow> u64 list" where
  "load_bitmap words buf =
     map (\<lambda>i. if i < SECTOR_SIZE div 8 then from_le (subvec (8 * i) 8 buf) else 0) [0..<words]"

text \<open>The image holds what the file held before, nothing for a new one. Fewer than eight sectors panic.\<close>

definition VirtualDisk_new :: "u32 \<Rightarrow> u8 list \<Rightarrow> VirtualDisk option" where
  "VirtualDisk_new n img =
     (if n < 8 then None
      else let words = (unat n + 63) div 64; expected = unat n * SECTOR_SIZE in
        Some (if length img \<ge> SECTOR_SIZE
              then \<lparr>disk_image = img, total_sectors = n, bitmap = load_bitmap words (take SECTOR_SIZE img)\<rparr>
              else \<lparr>disk_image = img @ replicate (expected - length img) 0, total_sectors = n,
                    bitmap = mark_used_range (replicate words 0) 0 3\<rparr>))"

section \<open>Sector access\<close>

definition check_sector :: "VirtualDisk \<Rightarrow> u32 \<Rightarrow> (DiskError, unit) result" where
  "check_sector d sector =
     (if sector \<ge> total_sectors d then Inl (InvalidSector sector (total_sectors d - 1)) else Inr ())"

definition size_bytes :: "VirtualDisk \<Rightarrow> nat" where
  "size_bytes d = unat (total_sectors d) * SECTOR_SIZE"

definition read_sector :: "VirtualDisk \<Rightarrow> u32 \<Rightarrow> (DiskError, u8 list) result" where
  "read_sector d sector =
     rbind (check_sector d sector) (\<lambda>_.
       case file_read_exact (unat sector * SECTOR_SIZE) SECTOR_SIZE (disk_image d) of
         None \<Rightarrow> Inl (IoFailed ''read'' sector)
       | Some buf \<Rightarrow> Inr buf)"

definition read_sectors :: "VirtualDisk \<Rightarrow> u32 \<Rightarrow> u32 \<Rightarrow> (DiskError, u8 list) result" where
  "read_sectors d start cnt =
     (if cnt = 0 then Inr []
      else rbind (check_sector d (start + cnt - 1)) (\<lambda>_.
        case file_read_exact (unat start * SECTOR_SIZE) (unat cnt * SECTOR_SIZE) (disk_image d) of
          None \<Rightarrow> Inl (IoFailed ''read'' start)
        | Some buf \<Rightarrow> Inr buf))"

definition write_sector :: "VirtualDisk \<Rightarrow> u32 \<Rightarrow> u8 list \<Rightarrow> (DiskError, VirtualDisk) result" where
  "write_sector d sector buf =
     rbind (check_sector d sector) (\<lambda>_.
       if length buf \<noteq> SECTOR_SIZE then Inl (IoFailed ''write_sector'' sector)
       else Inr (d\<lparr>disk_image := file_write_all (unat sector * SECTOR_SIZE) buf (disk_image d)\<rparr>))"

definition write_sectors :: "VirtualDisk \<Rightarrow> u32 \<Rightarrow> u8 list \<Rightarrow> (DiskError, VirtualDisk) result" where
  "write_sectors d start buf =
     (let cnt = (length buf + SECTOR_SIZE - 1) div SECTOR_SIZE in
      if cnt = 0 then Inr d
      else rbind (check_sector d (start + of_nat cnt - 1)) (\<lambda>_.
        Inr (d\<lparr>disk_image := file_write_all (unat start * SECTOR_SIZE) buf (disk_image d)\<rparr>)))"

fun bitmap_bytes :: "nat \<Rightarrow> u64 list \<Rightarrow> u8 list \<Rightarrow> u8 list" where
  "bitmap_bytes i [] buf = buf"
| "bitmap_bytes i (w # ws) buf =
     bitmap_bytes (Suc i) ws (if i * 8 + 8 \<le> SECTOR_SIZE then overwrite (i * 8) (to_le 8 w) buf else buf)"

definition flush_bitmap :: "VirtualDisk \<Rightarrow> (DiskError, VirtualDisk) result" where
  "flush_bitmap d = write_sector d 0 (bitmap_bytes 0 (bitmap d) (replicate SECTOR_SIZE 0))"

text \<open>A flush whose result is dropped with \<^verbatim>\<open>ok()\<close>.\<close>

definition flush_ok :: "VirtualDisk \<Rightarrow> VirtualDisk" where
  "flush_ok d = (case flush_bitmap d of Inl _ \<Rightarrow> d | Inr d' \<Rightarrow> d')"

section \<open>Sector allocation\<close>

definition alloc_sector :: "VirtualDisk \<Rightarrow> (u32 \<times> VirtualDisk) option" where
  "alloc_sector d =
     (case List.find (sector_is_free (bitmap d)) [4..<unat (total_sectors d)] of
        None \<Rightarrow> None
      | Some s \<Rightarrow> Some (of_nat s, flush_ok (d\<lparr>bitmap := mark_used (bitmap d) s\<rparr>)))"

definition free_sector :: "VirtualDisk \<Rightarrow> u32 \<Rightarrow> (DiskError, VirtualDisk) result" where
  "free_sector d sector =
     (if sector < 4 then Inr d else flush_bitmap (d\<lparr>bitmap := mark_free (bitmap d) (unat sector)\<rparr>))"

text \<open>The scan for a run of free sectors; the result is the start of the first run that is long enough.\<close>

fun find_run :: "u64 list \<Rightarrow> nat \<Rightarrow> nat \<Rightarrow> nat \<Rightarrow> nat list \<Rightarrow> nat option" where
  "find_run bm cnt run_start run_len [] = None"
| "find_run bm cnt run_start run_len (s # ss) =
     (if sector_is_free bm s
      then let run_start = (if run_len = 0 then s else run_start); run_len = run_len + 1 in
           if run_len \<ge> cnt then Some run_start else find_run bm cnt run_start run_len ss
      else find_run bm cnt run_start 0 ss)"

definition allocate_sectors :: "VirtualDisk \<Rightarrow> u32 \<Rightarrow> (DiskError, u32 \<times> VirtualDisk) result" where
  "allocate_sectors d cnt =
     (case find_run (bitmap d) (unat cnt) 4 0 [4..<unat (total_sectors d)] of
        None \<Rightarrow> Inl OutOfSpace
      | Some st \<Rightarrow> Inr (of_nat st, flush_ok (d\<lparr>bitmap := foldl mark_used (bitmap d) [st..<st + unat cnt]\<rparr>)))"

definition free_sectors :: "VirtualDisk \<Rightarrow> u32 \<Rightarrow> u32 \<Rightarrow> (DiskError, VirtualDisk) result" where
  "free_sectors d start cnt =
     flush_bitmap (d\<lparr>bitmap := foldl (\<lambda>bm s. if s \<ge> 4 then mark_free bm s else bm) (bitmap d)
                       [unat start..<unat (start + cnt)]\<rparr>)"

definition count_ones :: "u64 \<Rightarrow> nat" where
  "count_ones w = length (filter (bit w) [0..<64])"

definition used_sectors_count :: "VirtualDisk \<Rightarrow> nat" where
  "used_sectors_count d = sum_list (map count_ones (bitmap d))"

record DiskState =
  ds_total_sectors :: u32
  ds_total_bytes :: nat

definition disk_dump_state :: "VirtualDisk \<Rightarrow> DiskState" where
  "disk_dump_state d = \<lparr>ds_total_sectors = total_sectors d, ds_total_bytes = size_bytes d\<rparr>"

section \<open>The bitmap as a set\<close>

definition used_set :: "u64 list \<Rightarrow> nat set" where
  "used_set bm = {s. s div 64 < length bm \<and> bit (bm ! (s div 64)) (s mod 64)}"

lemma and_push_bit_zero: "(w :: u64) AND push_bit b 1 = 0 \<longleftrightarrow> b \<ge> 64 \<or> \<not> bit w b"
proof
  assume *: "w AND push_bit b 1 = 0"
  show "b \<ge> 64 \<or> \<not> bit w b"
  proof (rule ccontr)
    assume "\<not> (b \<ge> 64 \<or> \<not> bit w b)"
    then have "bit (w AND push_bit b 1) b" by (simp add: bit_simps)
    with * show False by simp
  qed
qed (rule bit_word_eqI, auto simp: bit_simps)

lemmas and_pow_zero = and_push_bit_zero [unfolded push_bit_of_1]

lemma sector_is_free_iff: "sector_is_free bm s \<longleftrightarrow> s \<notin> used_set bm"
  by (auto simp: sector_is_free_def used_set_def Let_def and_pow_zero)

lemma length_mark [simp]: "length (mark_used bm s) = length bm" "length (mark_free bm s) = length bm"
  by (simp_all add: mark_used_def mark_free_def Let_def)

lemma div_mod_64_eq: "t div 64 = s div 64 \<Longrightarrow> t mod 64 = s mod 64 \<Longrightarrow> t = (s :: nat)"
  by (metis div_mult_mod_eq)

lemma used_set_mark_used:
  "used_set (mark_used bm s) = (if s div 64 < length bm then insert s (used_set bm) else used_set bm)"
  by (auto simp: used_set_def mark_used_def Let_def nth_list_update bit_simps split: if_splits dest: div_mod_64_eq)

lemma used_set_mark_free: "used_set (mark_free bm s) = used_set bm - {s}"
  by (auto simp: used_set_def mark_free_def Let_def nth_list_update bit_simps split: if_splits dest: div_mod_64_eq)

lemma length_foldl_mark_used [simp]: "length (foldl mark_used bm ss) = length bm"
  by (induction ss arbitrary: bm) simp_all

lemma used_set_foldl_mark_used:
  "\<forall>s \<in> set ss. s div 64 < length bm \<Longrightarrow> used_set (foldl mark_used bm ss) = used_set bm \<union> set ss"
  by (induction ss arbitrary: bm) (auto simp: used_set_mark_used)

lemma used_set_foldl_mark_free:
  "used_set (foldl (\<lambda>bm s. if s \<ge> 4 then mark_free bm s else bm) bm ss) = used_set bm - {s \<in> set ss. 4 \<le> s}"
  by (induction ss arbitrary: bm) (auto simp: used_set_mark_free)

lemma length_foldl_mark_free [simp]:
  "length (foldl (\<lambda>bm s. if s \<ge> 4 then mark_free bm s else bm) bm ss) = length bm"
  by (induction ss arbitrary: bm) simp_all

section \<open>The sector-store interface\<close>

text \<open>
  Sectors are addressed by \<^verbatim>\<open>u32\<close> numbers; reads and writes succeed exactly below the number of
  sectors, a write needs a full sector of data, and it changes that sector only.
\<close>

locale sector_store =
  fixes rd :: "'s \<Rightarrow> u32 \<Rightarrow> ('e, u8 list) result"
    and wr :: "'s \<Rightarrow> u32 \<Rightarrow> u8 list \<Rightarrow> ('e, 's) result"
    and sectors :: "'s \<Rightarrow> nat"
    and inv :: "'s \<Rightarrow> bool"
  assumes rd_ok: "inv s \<Longrightarrow> is_ok (rd s a) \<longleftrightarrow> unat a < sectors s"
    and rd_length: "inv s \<Longrightarrow> rd s a = Inr bs \<Longrightarrow> length bs = SECTOR_SIZE"
    and wr_ok: "inv s \<Longrightarrow> is_ok (wr s a bs) \<longleftrightarrow> unat a < sectors s \<and> length bs = SECTOR_SIZE"
    and rd_wr: "inv s \<Longrightarrow> wr s a bs = Inr s' \<Longrightarrow> rd s' a' = (if a' = a then Inr bs else rd s a')"
    and wr_inv: "inv s \<Longrightarrow> wr s a bs = Inr s' \<Longrightarrow> inv s' \<and> sectors s' = sectors s"

text \<open>
  Transfers of several consecutive sectors, as the clients' loops make them: a write that fails leaves
  the sectors before it written.
\<close>

fun wr_run :: "('s \<Rightarrow> u32 \<Rightarrow> u8 list \<Rightarrow> ('e, 's) result) \<Rightarrow> 's \<Rightarrow> u32 \<Rightarrow> u8 list list \<Rightarrow> ('e, unit) result \<times> 's" where
  "wr_run wr s a [] = (Inr (), s)"
| "wr_run wr s a (b # bs) = (case wr s a b of Inl e \<Rightarrow> (Inl e, s) | Inr s' \<Rightarrow> wr_run wr s' (a + 1) bs)"

fun rd_run :: "('s \<Rightarrow> u32 \<Rightarrow> ('e, u8 list) result) \<Rightarrow> 's \<Rightarrow> u32 \<Rightarrow> nat \<Rightarrow> ('e, u8 list list) result" where
  "rd_run rd s a 0 = Inr []"
| "rd_run rd s a (Suc k) = rbind (rd s a) (\<lambda>b. rbind (rd_run rd s (a + 1) k) (\<lambda>bs. Inr (b # bs)))"

lemma u32_less: "unat (x :: u32) < 2 ^ 32"
proof -
  have "unat x < 2 ^ LENGTH(32)" by (rule unsigned_less)
  then show ?thesis by simp
qed

lemma unat_sector64: "unat (ucast (x :: u32) :: u64) = unat x"
  using u32_less [of x] by (simp add: unsigned_ucast_eq take_bit_nat_eq_self)

lemma unat_plus_one: "unat (a :: u32) + 1 < 2 ^ 32 \<Longrightarrow> unat (a + 1) = unat a + 1"
  by (simp add: unat_word_ariths)

context sector_store
begin

lemma wr_run_spec:
  "inv s \<Longrightarrow> unat a + length bss \<le> sectors s \<Longrightarrow> sectors s < 2 ^ 32 \<Longrightarrow> \<forall>b \<in> set bss. length b = SECTOR_SIZE \<Longrightarrow>
   \<exists>s'. wr_run wr s a bss = (Inr (), s') \<and> inv s' \<and> sectors s' = sectors s \<and>
     (\<forall>x. rd s' x = (if unat a \<le> unat x \<and> unat x < unat a + length bss then Inr (bss ! (unat x - unat a)) else rd s x))"
proof (induction bss arbitrary: s a)
  case (Cons b bss)
  have "is_ok (wr s a b)" using Cons.prems by (simp add: wr_ok)
  then obtain t where t: "wr s a b = Inr t" by (cases "wr s a b") auto
  then have inv: "inv t" "sectors t = sectors s" using wr_inv Cons.prems by blast+
  have rd_t: "rd t x = (if x = a then Inr b else rd s x)" for x using rd_wr [OF Cons.prems(1) t] .
  show ?case
  proof (cases bss)
    case Nil
    have "unat a \<le> unat x \<and> unat x < unat a + 1 \<longleftrightarrow> x = a" for x :: u32
      by (auto simp: word_unat_eq_iff)
    then show ?thesis using t inv rd_t Nil by (auto simp: word_unat_eq_iff)
  next
    case (Cons c cs)
    then have a1: "unat (a + 1) = unat a + 1" using Cons.prems(2,3) by (intro unat_plus_one) simp
    with Cons.IH [OF inv(1), of "a + 1"] Cons.prems inv obtain s' where
      s': "wr_run wr t (a + 1) bss = (Inr (), s')" "inv s'" "sectors s' = sectors s"
        "\<And>x. rd s' x = (if unat a + 1 \<le> unat x \<and> unat x < unat a + 1 + length bss
                        then Inr (bss ! (unat x - (unat a + 1))) else rd t x)" by auto
    have "rd s' x = (if unat a \<le> unat x \<and> unat x < unat a + length (b # bss)
                     then Inr ((b # bss) ! (unat x - unat a)) else rd s x)" for x
    proof (cases "x = a")
      case True
      then show ?thesis using s'(4) [of a] rd_t [of a] by simp
    next
      case False
      then have "unat x \<noteq> unat a" by (simp add: word_unat_eq_iff)
      with False show ?thesis using s'(4) [of x] rd_t [of x] by (auto simp: nth_Cons')
    qed
    with s' t show ?thesis by auto
  qed
qed auto

lemma rd_run_spec:
  "inv s \<Longrightarrow> unat a + k \<le> sectors s \<Longrightarrow> sectors s < 2 ^ 32 \<Longrightarrow>
   (\<And>i. i < k \<Longrightarrow> rd s (a + of_nat i) = Inr (bss ! i)) \<Longrightarrow> rd_run rd s a k = Inr (take k bss)
    \<or> length bss < k"
proof (induction k arbitrary: a bss)
  case (Suc k)
  show ?case
  proof (cases bss)
    case (Cons b bs)
    have "rd s a = Inr b" using Suc.prems(4) [of 0] Cons by simp
    moreover have "rd_run rd s (a + 1) k = Inr (take k bs) \<or> length bs < k"
    proof (cases "k = 0")
      case False
      then have "unat (a + 1) = unat a + 1" using Suc.prems(2,3) by (intro unat_plus_one) simp
      moreover have "rd s (a + 1 + of_nat i) = Inr (bs ! i)" if "i < k" for i
        using Suc.prems(4) [of "Suc i"] that Cons by (simp add: add.assoc)
      ultimately show ?thesis using Suc.IH [of "a + 1" bs] Suc.prems by simp
    qed simp
    ultimately show ?thesis using Cons by auto
  qed simp
qed simp

lemma rd_run_cong: "(\<And>i. i < k \<Longrightarrow> rd s (a + of_nat i) = rd t (a + of_nat i)) \<Longrightarrow> rd_run rd s a k = rd_run rd t a k"
proof (induction k arbitrary: a)
  case (Suc k)
  have "rd s a = rd t a" using Suc.prems [of 0] by simp
  moreover have "rd_run rd s (a + 1) k = rd_run rd t (a + 1) k"
    using Suc.prems [of "Suc _"] by (intro Suc.IH) (simp add: add.assoc)
  ultimately show ?case by simp
qed simp

text \<open>Sectors written in a run are read back by a run from the same place.\<close>

lemma run_round_trip:
  assumes "inv s" "unat a + length bss \<le> sectors s" "sectors s < 2 ^ 32" "\<forall>b \<in> set bss. length b = SECTOR_SIZE"
  shows "\<exists>s'. wr_run wr s a bss = (Inr (), s') \<and> rd_run rd s' a (length bss) = Inr bss \<and> inv s'"
proof -
  obtain s' where s': "wr_run wr s a bss = (Inr (), s')" "inv s'" "sectors s' = sectors s"
    "\<And>x. rd s' x = (if unat a \<le> unat x \<and> unat x < unat a + length bss then Inr (bss ! (unat x - unat a)) else rd s x)"
    using wr_run_spec [OF assms] by blast
  have "rd s' (a + of_nat i) = Inr (bss ! i)" if "i < length bss" for i
  proof -
    have i: "unat (of_nat i :: u32) = i" using that assms(2,3) by (simp add: unat_of_nat)
    have "unat (a + of_nat i) = unat a + i"
      using that assms(2,3) by (simp add: unat_word_ariths i)
    then show ?thesis using s'(4) [of "a + of_nat i"] that by simp
  qed
  from rd_run_spec [OF s'(2), of a "length bss" bss] this s' assms show ?thesis by auto
qed

end

section \<open>The disk is a sector store\<close>

definition disk_wf :: "VirtualDisk \<Rightarrow> bool" where
  "disk_wf d \<longleftrightarrow> 8 \<le> total_sectors d \<and> length (bitmap d) = (unat (total_sectors d) + 63) div 64 \<and>
     length (disk_image d) = unat (total_sectors d) * SECTOR_SIZE"

lemma check_sector_Inr: "check_sector d a = Inr u \<longleftrightarrow> unat a < unat (total_sectors d)"
  by (auto simp: check_sector_def word_le_nat_alt)

lemma sector_extent: "unat a < n \<Longrightarrow> unat (a :: u32) * SECTOR_SIZE + SECTOR_SIZE \<le> n * SECTOR_SIZE"
  by (metis Suc_leI add.commute mult_Suc mult_le_mono1)

lemma file_write_all_within: "pos + length bs \<le> length img \<Longrightarrow> file_write_all pos bs img = overwrite pos bs img"
  by (simp add: file_write_all_def)

lemma read_sector_eq:
  "disk_wf d \<Longrightarrow> read_sector d a =
     (if unat a < unat (total_sectors d) then Inr (subvec (unat a * SECTOR_SIZE) SECTOR_SIZE (disk_image d))
      else Inl (InvalidSector a (total_sectors d - 1)))"
  using sector_extent [of a "unat (total_sectors d)"]
  by (auto simp: read_sector_def check_sector_def word_le_nat_alt file_read_exact_def disk_wf_def)

lemma write_sector_Inr:
  "disk_wf d \<Longrightarrow> write_sector d a bs = Inr d' \<longleftrightarrow>
     unat a < unat (total_sectors d) \<and> length bs = SECTOR_SIZE \<and>
     d' = d\<lparr>disk_image := overwrite (unat a * SECTOR_SIZE) bs (disk_image d)\<rparr>"
  using sector_extent [of a "unat (total_sectors d)"]
  by (auto simp: write_sector_def rbind_eq_Inr check_sector_Inr disk_wf_def file_write_all_within)

lemma write_sector_wf [inv_intros]: "disk_wf d \<Longrightarrow> write_sector d a bs = Inr d' \<Longrightarrow> disk_wf d'"
  using sector_extent [of a "unat (total_sectors d)"]
  by (auto simp: write_sector_Inr disk_wf_def)

lemma sectors_disjoint:
  "(a :: u32) \<noteq> b \<Longrightarrow> unat a * SECTOR_SIZE + SECTOR_SIZE \<le> unat b * SECTOR_SIZE \<or>
     unat b * SECTOR_SIZE + SECTOR_SIZE \<le> unat a * SECTOR_SIZE"
  by (auto simp: SECTOR_SIZE_def word_unat_eq_iff)

interpretation vdisk: sector_store read_sector write_sector "\<lambda>d. unat (total_sectors d)" disk_wf
proof (standard, goal_cases)
  case (1 s a) then show ?case by (auto simp: read_sector_eq)
next
  case (2 s a bs)
  then show ?case
    using sector_extent [of a "unat (total_sectors s)"] by (auto simp: read_sector_eq disk_wf_def split: if_splits)
next
  case (3 s a bs)
  then show ?case
    by (cases "write_sector s a bs") (auto simp: write_sector_Inr write_sector_def check_sector_def
        word_le_nat_alt split: if_splits)
next
  case (4 s a bs s' a')
  note wf = write_sector_wf [OF 4]
  have s': "unat a < unat (total_sectors s)" "length bs = SECTOR_SIZE"
    "s' = s\<lparr>disk_image := overwrite (unat a * SECTOR_SIZE) bs (disk_image s)\<rparr>" using 4 by (auto simp: write_sector_Inr)
  have len: "length (disk_image s) = unat (total_sectors s) * SECTOR_SIZE" using 4 by (simp add: disk_wf_def)
  have fit: "unat a * SECTOR_SIZE + length bs \<le> length (disk_image s)" using s' len sector_extent by simp
  have "read_sector s' a' = Inr bs" if "a' = a"
    unfolding read_sector_eq [OF wf] that using s' subvec_overwrite_same [OF fit] by simp
  moreover have "read_sector s' a' = read_sector s a'" if "a' \<noteq> a"
    unfolding read_sector_eq [OF wf] read_sector_eq [OF 4(1)]
    using sectors_disjoint [OF that] fit s' len sector_extent [of a' "unat (total_sectors s)"]
    by (auto simp: subvec_overwrite_disjoint)
  ultimately show ?case by auto
next
  case (5 s a bs s')
  then show ?case using write_sector_wf by (auto simp: write_sector_Inr)
qed

section \<open>Flushing the bitmap\<close>

lemma bitmap_bytes_spec:
  "length buf = SECTOR_SIZE \<Longrightarrow>
   length (bitmap_bytes i ws buf) = SECTOR_SIZE \<and>
   (\<forall>j < 64. subvec (j * 8) 8 (bitmap_bytes i ws buf) =
      (if i \<le> j \<and> j < i + length ws then to_le 8 (ws ! (j - i)) else subvec (j * 8) 8 buf))"
proof (induction i ws buf rule: bitmap_bytes.induct)
  case (2 i w ws buf)
  define b where "b = (if i * 8 + 8 \<le> SECTOR_SIZE then overwrite (i * 8) (to_le 8 w) buf else buf)"
  have len: "length b = SECTOR_SIZE" using 2(2) by (simp add: b_def)
  note IH = 2(1) [folded b_def, OF len]
  have upd: "subvec (j * 8) 8 b = (if j = i then to_le 8 w else subvec (j * 8) 8 buf)" if "j < 64" for j
  proof (cases "j = i")
    case True
    then show ?thesis
      using that 2(2) subvec_overwrite_same [of "i * 8" "to_le 8 w" buf] by (simp add: SECTOR_SIZE_def b_def)
  next
    case False
    then have "j * 8 + 8 \<le> i * 8 \<or> i * 8 + 8 \<le> j * 8" by auto
    with False that 2(2) show ?thesis by (auto simp: SECTOR_SIZE_def subvec_overwrite_disjoint b_def)
  qed
  have "subvec (j * 8) 8 (bitmap_bytes (Suc i) ws b) =
      (if i \<le> j \<and> j < i + length (w # ws) then to_le 8 ((w # ws) ! (j - i)) else subvec (j * 8) 8 buf)"
    if "j < 64" for j
    using IH upd [OF that] that by (cases "j = i") (auto simp: nth_Cons')
  with IH show ?case by (simp add: b_def [symmetric])
qed auto

lemma flush_bitmap_ok:
  assumes "disk_wf d"
  shows "\<exists>d'. flush_bitmap d = Inr d' \<and> flush_ok d = d' \<and> disk_wf d' \<and> bitmap d' = bitmap d \<and>
    total_sectors d' = total_sectors d \<and>
    read_sector d' 0 = Inr (bitmap_bytes 0 (bitmap d) (replicate SECTOR_SIZE 0)) \<and>
    (\<forall>a. a \<noteq> 0 \<longrightarrow> read_sector d' a = read_sector d a)"
proof -
  let ?buf = "bitmap_bytes 0 (bitmap d) (replicate SECTOR_SIZE 0)"
  have "length ?buf = SECTOR_SIZE" using bitmap_bytes_spec by simp
  moreover have "0 < unat (total_sectors d)" using assms by (auto simp: disk_wf_def word_le_nat_alt)
  ultimately obtain d' where d': "write_sector d 0 ?buf = Inr d'"
    using vdisk.wr_ok [OF assms, of 0 ?buf] by (cases "write_sector d 0 ?buf") auto
  then have "bitmap d' = bitmap d" "total_sectors d' = total_sectors d"
    using assms by (auto simp: write_sector_Inr)
  with d' write_sector_wf [OF assms d'] vdisk.rd_wr [OF assms d'] show ?thesis
    by (auto simp: flush_bitmap_def flush_ok_def)
qed

lemma disk_wf_bitmap [simp]: "length bm = length (bitmap d) \<Longrightarrow> disk_wf (d\<lparr>bitmap := bm\<rparr>) = disk_wf d"
  by (simp add: disk_wf_def)

lemma read_sector_bitmap [simp]: "read_sector (d\<lparr>bitmap := bm\<rparr>) a = read_sector d a"
  by (simp add: read_sector_def check_sector_def)

text \<open>
  The allocation state survives a restart: on a disk whose bitmap fits its sector (at most 4096
  sectors), opening the image that a flush left gives a disk with the same bitmap and contents.
\<close>

theorem flush_bitmap_reopen:
  assumes "disk_wf d" "unat (total_sectors d) \<le> 4096" "flush_bitmap d = Inr d'"
  shows "VirtualDisk_new (total_sectors d) (disk_image d') = Some d'"
proof -
  let ?buf = "bitmap_bytes 0 (bitmap d) (replicate SECTOR_SIZE 0)" and ?n = "(unat (total_sectors d) + 63) div 64"
  from flush_bitmap_ok [OF assms(1)] assms(3) have
    d': "disk_wf d'" "bitmap d' = bitmap d" "total_sectors d' = total_sectors d" "read_sector d' 0 = Inr ?buf" by auto
  have buf: "take SECTOR_SIZE (disk_image d') = ?buf"
    using d'(4) unfolding read_sector_eq [OF d'(1)] by (auto simp: subvec_def split: if_splits)
  have words: "?n \<le> 64" "length (bitmap d) = ?n" using assms(1,2) by (auto simp: disk_wf_def)
  have "load_bitmap ?n ?buf = bitmap d"
  proof (rule nth_equalityI)
    fix i assume "i < length (load_bitmap ?n ?buf)"
    then have i: "i < ?n" "i < 64" using words(1) by (simp_all add: load_bitmap_def)
    have "subvec (i * 8) 8 ?buf = to_le 8 (bitmap d ! i)"
      using bitmap_bytes_spec [of "replicate SECTOR_SIZE 0" 0 "bitmap d"] i words(2) by simp
    with i show "load_bitmap ?n ?buf ! i = bitmap d ! i"
      by (simp add: load_bitmap_def SECTOR_SIZE_def mult.commute)
  qed (simp add: load_bitmap_def words(2))
  moreover have "SECTOR_SIZE \<le> length (disk_image d')" "\<not> total_sectors d < 8"
    using d' by (auto simp: disk_wf_def SECTOR_SIZE_def word_le_nat_alt word_less_nat_alt)
  ultimately show ?thesis using d' buf by (simp add: VirtualDisk_new_def Let_def)
qed

definition demo_disk :: VirtualDisk where
  "demo_disk = the (VirtualDisk_new 8 [])"

lemma demo_disk_wf: "disk_wf demo_disk" "total_sectors demo_disk = 8"
  by (simp_all add: demo_disk_def VirtualDisk_new_def disk_wf_def SECTOR_SIZE_def mark_used_range_def)

theorem flush_bitmap_reopen_witness:
  "\<exists>d'. flush_bitmap demo_disk = Inr d' \<and> VirtualDisk_new 8 (disk_image d') = Some d'"
  using flush_bitmap_ok [OF demo_disk_wf(1)] flush_bitmap_reopen [OF demo_disk_wf(1)] demo_disk_wf(2) by fastforce

section \<open>Runs of sectors\<close>

lemma find_run_sound:
  "find_run bm cnt rs rl [s..<n] = Some st \<Longrightarrow> rl < cnt \<Longrightarrow> rl \<le> s - lo \<Longrightarrow> lo \<le> s \<Longrightarrow> (0 < rl \<longrightarrow> rs = s - rl) \<Longrightarrow>
   (\<forall>i. s - rl \<le> i \<and> i < s \<longrightarrow> sector_is_free bm i) \<Longrightarrow>
   lo \<le> st \<and> st + cnt \<le> n \<and> (\<forall>i. st \<le> i \<and> i < st + cnt \<longrightarrow> sector_is_free bm i)"
proof (induction "n - s" arbitrary: s rs rl)
  case (Suc k)
  then have s: "[s..<n] = s # [Suc s..<n]" "s < n" "k = n - Suc s" by (auto simp: upt_conv_Cons)
  show ?case
  proof (cases "sector_is_free bm s")
    case True
    let ?rs = "if rl = 0 then s else rs"
    have rs: "?rs = s - rl" using Suc.prems by auto
    have free: "\<forall>i. s - rl \<le> i \<and> i < Suc s \<longrightarrow> sector_is_free bm i"
      using Suc.prems True by (auto simp: less_Suc_eq)
    show ?thesis
    proof (cases "cnt \<le> Suc rl")
      case True
      then have "st = s - rl" "cnt = Suc rl" using Suc.prems \<open>sector_is_free bm s\<close> s(1) rs by (auto simp: Let_def)
      with free Suc.prems s(2) show ?thesis by auto
    next
      case False
      then have "find_run bm cnt ?rs (Suc rl) [Suc s..<n] = Some st"
        using Suc.prems(1) \<open>sector_is_free bm s\<close> s(1) by (simp add: Let_def)
      from Suc.hyps(1) [OF s(3) this] False Suc.prems free rs show ?thesis by auto
    qed
  next
    case False
    then have "find_run bm cnt rs 0 [Suc s..<n] = Some st" using Suc.prems(1) s(1) by simp
    from Suc.hyps(1) [OF s(3) this] Suc.prems show ?thesis by auto
  qed
qed simp

lemma find_run_complete:
  "find_run bm cnt rs rl [s..<n] = None \<Longrightarrow> rl < cnt \<Longrightarrow> rl \<le> s \<Longrightarrow> s - rl \<le> st \<Longrightarrow> st + cnt \<le> n \<Longrightarrow>
   \<exists>i. st \<le> i \<and> i < st + cnt \<and> \<not> sector_is_free bm i"
proof (induction "n - s" arbitrary: s rs rl)
  case (Suc k)
  then have s: "[s..<n] = s # [Suc s..<n]" "k = n - Suc s" by (auto simp: upt_conv_Cons)
  show ?case
  proof (cases "sector_is_free bm s")
    case True
    then show ?thesis
      using Suc.hyps(1) [OF s(2), of "if rl = 0 then s else rs" "Suc rl"] Suc.prems s(1)
      by (auto simp: Let_def split: if_splits)
  next
    case False
    show ?thesis
    proof (cases "st \<le> s")
      case True
      then show ?thesis using False Suc.prems by (intro exI [of _ s]) auto
    next
      case st: False
      then show ?thesis using Suc.hyps(1) [OF s(2), of rs 0] Suc.prems s(1) False by auto
    qed
  qed
qed auto

text \<open>What allocation returns and changes, in both outcomes.\<close>

lemma allocate_sectors_run:
  assumes "disk_wf d" "0 < cnt"
  shows "case allocate_sectors d cnt of
      Inl e \<Rightarrow> e = OutOfSpace \<and>
        (\<forall>st. 4 \<le> st \<and> st + unat cnt \<le> unat (total_sectors d) \<longrightarrow> \<not> {st..<st + unat cnt} \<inter> used_set (bitmap d) = {})
    | Inr (st, d') \<Rightarrow> 4 \<le> unat st \<and> unat st + unat cnt \<le> unat (total_sectors d) \<and>
        {unat st..<unat st + unat cnt} \<inter> used_set (bitmap d) = {} \<and>
        used_set (bitmap d') = used_set (bitmap d) \<union> {unat st..<unat st + unat cnt} \<and>
        (\<forall>a. a \<noteq> 0 \<longrightarrow> read_sector d' a = read_sector d a) \<and> disk_wf d'"
proof (cases "find_run (bitmap d) (unat cnt) 4 0 [4..<unat (total_sectors d)]")
  case None
  have "0 < unat cnt" using assms(2) by (simp add: word_less_nat_alt)
  then have "\<exists>i. st \<le> i \<and> i < st + unat cnt \<and> i \<in> used_set (bitmap d)"
    if "4 \<le> st" "st + unat cnt \<le> unat (total_sectors d)" for st
    using find_run_complete [OF None, of st] that by (auto simp: sector_is_free_iff)
  with None show ?thesis by (fastforce simp: allocate_sectors_def)
next
  case (Some st)
  let ?n = "unat cnt" let ?bm = "foldl mark_used (bitmap d) [st..<st + ?n]"
  have pos: "0 < ?n" using assms(2) by (simp add: word_less_nat_alt)
  have none: "\<forall>i. 4 - 0 \<le> i \<and> i < 4 \<longrightarrow> sector_is_free (bitmap d) i" by auto
  have st: "4 \<le> st" "st + ?n \<le> unat (total_sectors d)" "\<forall>i. st \<le> i \<and> i < st + ?n \<longrightarrow> i \<notin> used_set (bitmap d)"
    using find_run_sound [OF Some pos _ _ _ none, of 4] by (auto simp: sector_is_free_iff)
  have lt: "unat (total_sectors d) < 2 ^ 32" using unsigned_less [of "total_sectors d"] by simp
  then have u: "unat (of_nat st :: u32) = st" using st pos by (simp add: unat_of_nat)
  have "\<forall>s \<in> set [st..<st + ?n]. s div 64 < length (bitmap d)"
    using st(2) assms(1) by (auto simp: disk_wf_def)
  then have used: "used_set ?bm = used_set (bitmap d) \<union> {st..<st + ?n}"
    by (simp add: used_set_foldl_mark_used)
  from flush_bitmap_ok [of "d\<lparr>bitmap := ?bm\<rparr>"] assms(1) obtain d' where
    d': "flush_ok (d\<lparr>bitmap := ?bm\<rparr>) = d'" "disk_wf d'" "bitmap d' = ?bm"
      "\<forall>a. a \<noteq> 0 \<longrightarrow> read_sector d' a = read_sector d a" by auto
  then have "allocate_sectors d cnt = Inr (of_nat st, d')" by (simp add: allocate_sectors_def Some)
  with d' st u used show ?thesis by auto
qed

text \<open>
  C22. Contiguous allocation is sound and complete: it fails exactly when no run of that many free sectors
  exists after the metadata sectors, and otherwise returns the start of such a run, marks exactly
  its sectors used, and leaves the contents of every sector but the bitmap's unchanged.
\<close>

theorem allocate_sectors_spec:
  assumes "disk_wf d" "0 < cnt"
  shows "case allocate_sectors d cnt of
      Inl e \<Rightarrow> e = OutOfSpace \<and>
        (\<forall>st. 4 \<le> st \<and> st + unat cnt \<le> unat (total_sectors d) \<longrightarrow> \<not> {st..<st + unat cnt} \<inter> used_set (bitmap d) = {})
    | Inr (st, d') \<Rightarrow> 4 \<le> unat st \<and> unat st + unat cnt \<le> unat (total_sectors d) \<and>
        {unat st..<unat st + unat cnt} \<inter> used_set (bitmap d) = {} \<and>
        used_set (bitmap d') = used_set (bitmap d) \<union> {unat st..<unat st + unat cnt} \<and>
        (\<forall>a. a \<noteq> 0 \<longrightarrow> read_sector d' a = read_sector d a) \<and> disk_wf d'"
  using assms by (rule allocate_sectors_run)

theorem allocate_sectors_spec_witness:
  "case allocate_sectors demo_disk 2 of Inl _ \<Rightarrow> False | Inr (st, d') \<Rightarrow> 4 \<le> unat st"
proof -
  have "find_run (bitmap demo_disk) 2 4 0 [4..<8] = Some 4"
    by (simp add: demo_disk_def VirtualDisk_new_def mark_used_range_def mark_used_def sector_is_free_def
        upt_conv_Cons Let_def SECTOR_SIZE_def)
  then have "allocate_sectors demo_disk 2 \<noteq> Inl e" for e
    by (simp add: allocate_sectors_def demo_disk_wf(2))
  then show ?thesis using allocate_sectors_spec [OF demo_disk_wf(1), of 2]
    by (cases "allocate_sectors demo_disk 2") auto
qed

end
