(* ===== verification/File_Data.thy ===== *)
theory File_Data
  imports Virtual_Disk
begin

text \<open>
  Files and directories of the file service (\<^verbatim>\<open>src/services/file/file.rs\<close>): permissions, the bytes and
  cursor of an open file, and their transfer to and from sectors of the virtual disk. A slice or a
  reservation that is out of range panics; a method that can panic returns an option, \<open>None\<close> for the panic.
\<close>

section \<open>Permissions and metadata\<close>

record FilePermissions =
  perm_owner :: u8
  perm_group :: u8
  perm_others :: u8

definition FilePermissions_new :: "u8 \<Rightarrow> u8 \<Rightarrow> u8 \<Rightarrow> FilePermissions" where
  "FilePermissions_new ow gr ot = \<lparr>perm_owner = ow, perm_group = gr, perm_others = ot\<rparr>"

definition FilePermissions_default :: FilePermissions where
  "FilePermissions_default = FilePermissions_new 6 4 4"

definition perm_to_u16 :: "FilePermissions \<Rightarrow> u16" where
  "perm_to_u16 p = push_bit 6 (ucast (perm_owner p)) OR push_bit 3 (ucast (perm_group p)) OR ucast (perm_others p)"

definition owner_can_read :: "FilePermissions \<Rightarrow> bool" where
  "owner_can_read p \<longleftrightarrow> perm_owner p AND 4 \<noteq> 0"

definition owner_can_write :: "FilePermissions \<Rightarrow> bool" where
  "owner_can_write p \<longleftrightarrow> perm_owner p AND 2 \<noteq> 0"

definition owner_can_execute :: "FilePermissions \<Rightarrow> bool" where
  "owner_can_execute p \<longleftrightarrow> perm_owner p AND 1 \<noteq> 0"

datatype FileType =
    FTRegularFile | FTDirectory | FTSymLink | FTBlockDevice | FTCharDevice | FTFifo | FTSocket

record FileMetadata =
  meta_size :: u64
  meta_created :: u64
  meta_modified :: u64
  meta_accessed :: u64
  meta_owner :: pid
  meta_permissions :: FilePermissions
  meta_file_type :: FileType

datatype OpenMode = ModeRead | ModeWrite | ModeReadWrite | ModeAppend

section \<open>Files\<close>

record File =
  f_inode :: u64
  f_name :: string
  f_metadata :: FileMetadata
  f_position :: u64
  f_mode :: OpenMode
  f_data :: "u8 list"
  f_dirty :: bool
  f_eof :: bool
  f_start_sector :: "u32 option"
  f_sector_count :: u32

definition File_new :: "u64 \<Rightarrow> string \<Rightarrow> pid \<Rightarrow> OpenMode \<Rightarrow> File" where
  "File_new ino nm ow md =
     \<lparr>f_inode = ino, f_name = nm,
      f_metadata = \<lparr>meta_size = 0, meta_created = 0, meta_modified = 0, meta_accessed = 0, meta_owner = ow,
                    meta_permissions = FilePermissions_default, meta_file_type = FTRegularFile\<rparr>,
      f_position = 0, f_mode = md, f_data = [], f_dirty = False, f_eof = False, f_start_sector = None,
      f_sector_count = 0\<rparr>"

text \<open>
  Reading. The sum of position and count is a \<^verbatim>\<open>usize\<close> and wraps; a range that ends before it starts
  panics.
\<close>

definition file_read :: "nat \<Rightarrow> File \<Rightarrow> ((GenshinError, u8 list) result \<times> File) option" where
  "file_read cnt f =
     (if f_mode f = ModeWrite
      then Some (Inl (ServiceE (PermissionDenied ''read'' ''File opened for write only'')), f)
      else let start = unat (f_position f); fin = min ((start + cnt) mod 2 ^ 64) (length (f_data f)) in
        if start \<ge> length (f_data f) then Some (Inr [], f\<lparr>f_eof := True\<rparr>)
        else if fin < start then None
        else let bytes = subvec start (fin - start) (f_data f) in
          Some (Inr bytes,
                f\<lparr>f_position := f_position f + of_nat (length bytes), f_eof := (fin = length (f_data f)),
                  f_metadata := (f_metadata f)\<lparr>meta_accessed := 0\<rparr>\<rparr>))"

text \<open>
  Writing. A vector cannot grow beyond \<^verbatim>\<open>isize::MAX\<close> bytes: growing it further, or the wrapped sum that a
  still larger position gives, panics.
\<close>

definition vec_resize :: "nat \<Rightarrow> u8 list \<Rightarrow> u8 list" where
  "vec_resize n xs = take n xs @ replicate (n - length xs) 0"

definition file_write :: "u8 list \<Rightarrow> File \<Rightarrow> ((GenshinError, nat) result \<times> File) option" where
  "file_write bs f =
     (if f_mode f = ModeRead
      then Some (Inl (ServiceE (PermissionDenied ''write'' ''File opened for read only'')), f)
      else let write_pos = (if f_mode f = ModeAppend then length (f_data f) else unat (f_position f));
               required_size = write_pos + length bs in
        if required_size > length (f_data f) \<and> required_size \<ge> 2 ^ 63 then None
        else let d = (if required_size > length (f_data f) then vec_resize required_size (f_data f) else f_data f);
                 d' = overwrite write_pos bs d in
          Some (Inr (length bs),
                f\<lparr>f_data := d', f_position := of_nat (write_pos + length bs), f_dirty := True,
                  f_metadata := (f_metadata f)\<lparr>meta_size := of_nat (length d'), meta_modified := 0\<rparr>\<rparr>))"

definition file_seek :: "u64 \<Rightarrow> File \<Rightarrow> u64 \<times> File" where
  "file_seek pos f = (f_position f, f\<lparr>f_position := pos, f_eof := False\<rparr>)"

definition file_size :: "File \<Rightarrow> u64" where
  "file_size f = meta_size (f_metadata f)"

definition file_truncate :: "u64 \<Rightarrow> File \<Rightarrow> File option" where
  "file_truncate new_size f =
     (if unat new_size > length (f_data f) \<and> unat new_size \<ge> 2 ^ 63 then None
      else Some (f\<lparr>f_data := (if unat new_size < length (f_data f) then take (unat new_size) (f_data f)
                             else vec_resize (unat new_size) (f_data f)),
                   f_metadata := (f_metadata f)\<lparr>meta_size := new_size\<rparr>, f_dirty := True\<rparr>))"

definition file_sync :: "File \<Rightarrow> File" where
  "file_sync f = f\<lparr>f_dirty := False\<rparr>"

section \<open>Transfer to and from the disk\<close>

definition disk_error_debug :: "DiskError \<Rightarrow> string" where
  "disk_error_debug e =
     (case e of
        InvalidSector s m \<Rightarrow> ''InvalidSector { sector: '' @ show_dec (unat s) @ '', max_sector: '' @ show_dec (unat m) @ '' }''
      | IoFailed op s \<Rightarrow> ''IoFailed { operation: '' @ [CHR 0x22] @ op @ [CHR 0x22] @ '', sector: '' @ show_dec (unat s) @ '' }''
      | DiskBusy \<Rightarrow> ''Busy''
      | NotReady \<Rightarrow> ''NotReady''
      | OutOfSpace \<Rightarrow> ''OutOfSpace'')"

definition io_err :: "string \<Rightarrow> DiskError \<Rightarrow> GenshinError" where
  "io_err op e = ServiceE (ServiceIo op (disk_error_debug e))"

text \<open>The contents cut into sectors, the last one filled with zeros.\<close>

definition sector_chunk :: "u8 list \<Rightarrow> nat \<Rightarrow> u8 list" where
  "sector_chunk bs i = (let c = subvec (i * 512) 512 bs in c @ replicate (512 - length c) 0)"

definition free_dropped :: "VirtualDisk \<Rightarrow> u32 \<Rightarrow> u32 \<Rightarrow> VirtualDisk" where
  "free_dropped d start cnt = (case free_sectors d start cnt of Inl _ \<Rightarrow> d | Inr d' \<Rightarrow> d')"

definition release_old :: "File \<Rightarrow> VirtualDisk \<Rightarrow> VirtualDisk" where
  "release_old f d =
     (case f_start_sector f of
        None \<Rightarrow> d
      | Some old \<Rightarrow> if f_sector_count f > 0 then free_dropped d old (f_sector_count f) else d)"

definition sync_to_disk :: "File \<Rightarrow> VirtualDisk \<Rightarrow> (GenshinError, unit) result \<times> File \<times> VirtualDisk" where
  "sync_to_disk f d =
     (if \<not> f_dirty f \<and> f_start_sector f \<noteq> None then (Inr (), f, d)
      else let needed = of_nat ((length (f_data f) + 511) div 512) :: u32; d1 = release_old f d in
        if needed = 0 then (Inr (), f\<lparr>f_start_sector := None, f_sector_count := 0, f_dirty := False\<rparr>, d1)
        else case allocate_sectors d1 needed of
               Inl e \<Rightarrow> (Inl (io_err ''disk alloc'' e), f, d1)
             | Inr (start, d2) \<Rightarrow>
                (case wr_run write_sector d2 start (map (sector_chunk (f_data f)) [0..<unat needed]) of
                   (Inl e, d3) \<Rightarrow> (Inl (io_err ''disk write'' e), f, d3)
                 | (Inr _, d3) \<Rightarrow>
                     (Inr (), f\<lparr>f_start_sector := Some start, f_sector_count := needed, f_dirty := False\<rparr>, d3)))"

definition load_from_disk :: "VirtualDisk \<Rightarrow> File \<Rightarrow> (GenshinError, unit) result \<times> File" where
  "load_from_disk d f =
     (case f_start_sector f of
        None \<Rightarrow> (Inr (), f\<lparr>f_data := []\<rparr>)
      | Some start \<Rightarrow>
         if f_sector_count f = 0 then (Inr (), f\<lparr>f_data := []\<rparr>)
         else (case rd_run read_sector d start (unat (f_sector_count f)) of
                 Inl e \<Rightarrow> (Inl (io_err ''disk read'' e), f)
               | Inr chunks \<Rightarrow>
                   (Inr (), f\<lparr>f_data := take (unat (meta_size (f_metadata f))) (concat chunks), f_dirty := False,
                             f_eof := False, f_position := 0\<rparr>)))"

section \<open>Directories\<close>

record Directory =
  dir_inode :: u64
  dir_name :: string
  dir_entries :: "string \<rightharpoonup> u64"
  dir_metadata :: FileMetadata

definition Directory_new :: "u64 \<Rightarrow> string \<Rightarrow> pid \<Rightarrow> Directory" where
  "Directory_new ino nm ow =
     \<lparr>dir_inode = ino, dir_name = nm, dir_entries = Map.empty,
      dir_metadata = \<lparr>meta_size = 0, meta_created = 0, meta_modified = 0, meta_accessed = 0, meta_owner = ow,
                      meta_permissions = FilePermissions_new 7 5 5, meta_file_type = FTDirectory\<rparr>\<rparr>"

definition add_entry :: "string \<Rightarrow> u64 \<Rightarrow> Directory \<Rightarrow> (GenshinError, unit) result \<times> Directory" where
  "add_entry nm ino dr =
     (if dir_entries dr nm \<noteq> None
      then (Inl (ServiceE (InvalidArguments ''name'' ''Entry already exists'')), dr)
      else (Inr (), dr\<lparr>dir_entries := (dir_entries dr)(nm \<mapsto> ino),
                       dir_metadata := (dir_metadata dr)\<lparr>meta_modified := 0\<rparr>\<rparr>))"

definition remove_entry :: "string \<Rightarrow> Directory \<Rightarrow> (GenshinError, u64) result \<times> Directory" where
  "remove_entry nm dr =
     (case dir_entries dr nm of
        None \<Rightarrow> (Inl (ServiceE (NotFound ''Directory entry'' nm)), dr)
      | Some i \<Rightarrow> (Inr i, dr\<lparr>dir_entries := (dir_entries dr)(nm := None)\<rparr>))"

definition dir_lookup :: "string \<Rightarrow> Directory \<Rightarrow> u64 option" where
  "dir_lookup nm dr = dir_entries dr nm"

definition entry_count :: "Directory \<Rightarrow> nat" where
  "entry_count dr = card (dom (dir_entries dr))"

section \<open>Bytes and cursor\<close>

lemma length_vec_resize [simp]: "length (vec_resize n xs) = n"
  by (simp add: vec_resize_def)

lemma vec_resize_nth: "i < n \<Longrightarrow> vec_resize n xs ! i = (if i < length xs then xs ! i else 0)"
  by (auto simp: vec_resize_def nth_append)

lemma add_entry_lookup:
  "dir_lookup nm dr = None \<Longrightarrow> dir_lookup x (snd (add_entry nm i dr)) = (if x = nm then Some i else dir_lookup x dr)"
  by (simp add: add_entry_def dir_lookup_def)

text \<open>The contents after a successful write: the new bytes at the cursor, zeros in a gap, the rest kept.\<close>

lemma file_write_content:
  assumes "file_write bs f = Some (Inr n, f')"
  defines "wp \<equiv> (if f_mode f = ModeAppend then length (f_data f) else unat (f_position f))"
  shows "n = length bs \<and> length (f_data f') = max (length (f_data f)) (wp + length bs) \<and>
    (\<forall>i < length (f_data f').
       f_data f' ! i = (if wp \<le> i \<and> i < wp + length bs then bs ! (i - wp)
                        else if i < length (f_data f) then f_data f ! i else 0)) \<and>
    f_position f' = of_nat (wp + length bs) \<and> f_mode f' = f_mode f \<and> f_dirty f'"
proof -
  let ?d = "if wp + length bs > length (f_data f) then vec_resize (wp + length bs) (f_data f) else f_data f"
  have f': "n = length bs" "f_data f' = overwrite wp bs ?d" "f_position f' = of_nat (wp + length bs)"
    "f_mode f' = f_mode f" "f_dirty f'"
    using assms(1) by (auto simp: file_write_def Let_def wp_def split: if_splits)
  have len: "length ?d = max (length (f_data f)) (wp + length bs)" by simp
  then have fit: "wp + length bs \<le> length ?d" by linarith
  have nth: "?d ! i = (if i < length (f_data f) then f_data f ! i else 0)" if "i < length ?d" for i
    using that by (auto simp: vec_resize_nth)
  have l': "length (overwrite wp bs ?d) = max (length (f_data f)) (wp + length bs)" using length_overwrite [OF fit] len by simp
  show ?thesis unfolding f'(2) l' using nth_overwrite [OF fit] nth f' len by auto
qed

text \<open>
  Reading back what was written: in a file opened for reading and writing, after a write at any position
  that fits a vector, seeking back to that position and reading as many bytes gives exactly those bytes, leaves
  the contents alone, and reports the end of file exactly when the write reached it.
\<close>

theorem file_read_after_write:
  assumes "f_mode f = ModeReadWrite" "length (f_data f) < 2 ^ 63" "file_write bs f = Some (Inr n, f')"
  shows "\<exists>g. file_read n (snd (file_seek (f_position f) f')) = Some (Inr bs, g) \<and> f_data g = f_data f' \<and>
    (f_eof g \<longleftrightarrow> length (f_data f) \<le> unat (f_position f) + length bs)"
proof -
  let ?wp = "unat (f_position f)"
  note w = file_write_content [OF assms(3)]
  have wp: "(if f_mode f = ModeAppend then length (f_data f) else unat (f_position f)) = ?wp" using assms(1) by simp
  note w = w [unfolded wp]
  have n: "n = length bs" and len: "length (f_data f') = max (length (f_data f)) (?wp + length bs)" and
    md: "f_mode f' = ModeReadWrite" using w assms(1) by auto
  have fits: "?wp + length bs < 2 ^ 63"
    using assms by (auto simp: file_write_def Let_def split: if_splits)
  then have sm: "(?wp + length bs) mod 2 ^ 64 = ?wp + length bs" by simp
  show ?thesis
  proof (cases "length (f_data f') \<le> ?wp")
    case True
    then have "bs = []" "length (f_data f) \<le> ?wp" using len by auto
    then show ?thesis using True md n by (simp add: file_read_def file_seek_def Let_def)
  next
    case False
    let ?fin = "min (?wp + length bs) (length (f_data f'))"
    have fin: "?fin = ?wp + length bs" using len by simp
    have "subvec ?wp (length bs) (f_data f') = bs"
      using w len by (intro nth_equalityI) (auto simp: subvec_nth)
    with False md n sm fin show ?thesis
      by (auto simp: file_read_def file_seek_def Let_def len)
  qed
qed

definition demo_file :: File where
  "demo_file = (File_new 1 ''a'' 0 ModeReadWrite)\<lparr>f_position := 2\<rparr>"

theorem file_read_after_write_witness:
  "\<exists>f' g. file_write [7, 8] demo_file = Some (Inr 2, f') \<and> f_data f' = [0, 0, 7, 8] \<and>
     file_read 2 (snd (file_seek 2 f')) = Some (Inr [7, 8], g) \<and> f_eof g"
proof -
  have pre: "f_mode demo_file = ModeReadWrite" "length (f_data demo_file) < 2 ^ 63" "f_position demo_file = 2"
    by (simp_all add: demo_file_def File_new_def)
  have two: "replicate 2 (0::u8) = [0, 0]" by (simp add: numeral_2_eq_2)
  obtain f' where f': "file_write [7, 8] demo_file = Some (Inr 2, f')" "f_data f' = [0, 0, 7, 8]"
    by (simp add: file_write_def demo_file_def File_new_def Let_def vec_resize_def overwrite_def two)
  from file_read_after_write [OF pre(1,2) f'(1)] pre(3) f' show ?thesis
    by (auto simp: demo_file_def File_new_def)
qed

text \<open>A read past the wrap-around of \<^verbatim>\<open>usize\<close> panics, which ends the thread of the file service.\<close>

lemma file_read_panics:
  assumes "f_mode f \<noteq> ModeWrite" "0 < unat (f_position f)" "unat (f_position f) < length (f_data f)"
  shows "file_read (2 ^ 64 - 1) f = None"
proof -
  let ?p = "unat (f_position f)"
  have "?p < 2 ^ LENGTH(64)" by (rule unsigned_less)
  then have "(?p + (2 ^ 64 - 1)) mod 2 ^ 64 = ?p - 1" using assms(2) by (simp add: mod_if)
  then show ?thesis using assms by (simp add: file_read_def Let_def)
qed

section \<open>The disk round trip\<close>

lemma flush_ok_total [simp]: "total_sectors (flush_ok d) = total_sectors d"
  by (auto simp: flush_ok_def flush_bitmap_def write_sector_def check_sector_def split: sum.split)

lemma allocate_sectors_total: "allocate_sectors d cnt = Inr (st, d') \<Longrightarrow> total_sectors d' = total_sectors d"
  by (auto simp: allocate_sectors_def split: option.splits)

definition old_run :: "File \<Rightarrow> nat set" where
  "old_run f =
     (case f_start_sector f of
        None \<Rightarrow> {}
      | Some st \<Rightarrow> if f_sector_count f > 0 then {s. 4 \<le> s \<and> unat st \<le> s \<and> s < unat (st + f_sector_count f)} else {})"

lemma free_dropped_spec:
  assumes "disk_wf d"
  shows "disk_wf (free_dropped d st cnt) \<and> total_sectors (free_dropped d st cnt) = total_sectors d \<and>
    used_set (bitmap (free_dropped d st cnt)) = used_set (bitmap d) - {s. 4 \<le> s \<and> unat st \<le> s \<and> s < unat (st + cnt)} \<and>
    (\<forall>a. a \<noteq> 0 \<longrightarrow> read_sector (free_dropped d st cnt) a = read_sector d a)"
proof -
  let ?d = "d\<lparr>bitmap := foldl (\<lambda>bm s. if s \<ge> 4 then mark_free bm s else bm) (bitmap d) [unat st..<unat (st + cnt)]\<rparr>"
  have "disk_wf ?d" using assms by simp
  from flush_bitmap_ok [OF this] show ?thesis
    by (auto simp: free_dropped_def free_sectors_def used_set_foldl_mark_free)
qed

lemma release_old_spec:
  assumes "disk_wf d"
  shows "disk_wf (release_old f d) \<and> total_sectors (release_old f d) = total_sectors d \<and>
    used_set (bitmap (release_old f d)) = used_set (bitmap d) - old_run f \<and>
    (\<forall>a. a \<noteq> 0 \<longrightarrow> read_sector (release_old f d) a = read_sector d a)"
  using assms free_dropped_spec [OF assms]
  by (cases "f_start_sector f") (simp_all add: release_old_def old_run_def)

lemma length_sector_chunk [simp]: "length (sector_chunk bs i) = SECTOR_SIZE"
  by (simp add: sector_chunk_def Let_def subvec_def SECTOR_SIZE_def)

lemma sector_chunk_Suc: "sector_chunk bs (Suc i) = sector_chunk (drop 512 bs) i"
  by (simp add: sector_chunk_def subvec_def add.commute)

lemma concat_chunks:
  "take (length bs) (concat (map (sector_chunk bs) [0..<(length bs + 511) div 512])) = bs"
proof (induction "length bs" arbitrary: bs rule: less_induct)
  case less
  show ?case
  proof (cases "bs = []")
    case False
    let ?n = "(length (drop 512 bs) + 511) div 512"
    have n: "(length bs + 511) div 512 = Suc ?n"
    proof (cases "length bs \<le> 512")
      case True
      then have "length bs + 511 < 1024" "512 \<le> length bs + 511" using False by (auto simp: Suc_le_eq)
      then have "(length bs + 511) div 512 = 1" by simp
      moreover have "?n = 0" using True by simp
      ultimately show ?thesis by simp
    next
      case False
      then have "length bs + 511 = length (drop 512 bs) + 511 + 512" by simp
      then show ?thesis by simp
    qed
    have "map (sector_chunk bs) [0..<Suc ?n] = sector_chunk bs 0 # map (sector_chunk (drop 512 bs)) [0..<?n]"
      by (simp add: map_upt_Suc sector_chunk_Suc del: upt_Suc)
    then have eq: "concat (map (sector_chunk bs) [0..<(length bs + 511) div 512]) =
        sector_chunk bs 0 @ concat (map (sector_chunk (drop 512 bs)) [0..<?n])" unfolding n by simp
    have c0: "sector_chunk bs 0 = take 512 bs @ replicate (512 - length bs) 0"
      by (simp add: sector_chunk_def subvec_def)
    have IH: "take (length (drop 512 bs)) (concat (map (sector_chunk (drop 512 bs)) [0..<?n])) = drop 512 bs"
      using False by (intro less) simp
    show ?thesis
    proof (cases "length bs \<le> 512")
      case True then show ?thesis unfolding eq c0 by simp
    next
      case False then show ?thesis unfolding eq c0 using IH by simp
    qed
  qed simp
qed

lemma wr_run_bitmap: "wr_run write_sector d a bss = (r, d') \<Longrightarrow> bitmap d' = bitmap d"
  by (induction write_sector d a bss rule: wr_run.induct)
     (auto simp: write_sector_def check_sector_def split: sum.splits if_splits)

lemma unat_add_small: "unat (a :: u32) + i < 2 ^ 32 \<Longrightarrow> unat (a + of_nat i) = unat a + i"
  by (simp add: unat_word_ariths unat_of_nat)

text \<open>Both outcomes of saving.\<close>

lemma sync_to_disk_spec:
  assumes wf: "disk_wf d" and dirty: "f_dirty f \<or> f_start_sector f = None"
    and len: "f_data f \<noteq> []" "length (f_data f) \<le> 2 ^ 40"
  defines "k \<equiv> (length (f_data f) + 511) div 512" and "free \<equiv> - (used_set (bitmap d) - old_run f)"
  shows "case sync_to_disk f d of
      (Inl _, f', d') \<Rightarrow> f' = f \<and> (\<forall>st. 4 \<le> st \<and> st + k \<le> unat (total_sectors d) \<longrightarrow> \<not> {st..<st + k} \<subseteq> free)
    | (Inr _, f', d') \<Rightarrow> \<exists>st. f' = f\<lparr>f_start_sector := Some st, f_sector_count := of_nat k, f_dirty := False\<rparr> \<and>
        disk_wf d' \<and> total_sectors d' = total_sectors d \<and> {unat st..<unat st + k} \<subseteq> free \<and>
        4 \<le> unat st \<and> unat st + k \<le> unat (total_sectors d) \<and>
        used_set (bitmap d') = used_set (bitmap d) - old_run f \<union> {unat st..<unat st + k} \<and>
        (\<forall>a. a \<noteq> 0 \<and> unat a \<notin> {unat st..<unat st + k} \<longrightarrow> read_sector d' a = read_sector d a) \<and>
        (\<forall>g. f_start_sector g = Some st \<and> f_sector_count g = of_nat k \<and>
             meta_size (f_metadata g) = of_nat (length (f_data f)) \<longrightarrow>
           load_from_disk d' g = (Inr (), g\<lparr>f_data := f_data f, f_dirty := False, f_eof := False, f_position := 0\<rparr>))"
proof -
  let ?d = "release_old f d" and ?k = "of_nat k :: u32"
  let ?chunks = "map (sector_chunk (f_data f)) [0..<k]"
  note old = release_old_spec [OF wf, of f]
  have "0 < length (f_data f)" using len(1) by simp
  then have k: "0 < k" "k < 2 ^ 32" using len(2) by (auto simp: k_def div_greater_zero_iff Suc_le_eq)
  then have uk: "unat ?k = k" by (simp add: unat_of_nat)
  then have kpos: "0 < ?k" using k by (simp add: word_less_nat_alt)
  have go: "\<not> (\<not> f_dirty f \<and> f_start_sector f \<noteq> None)" "?k \<noteq> 0" using dirty kpos by auto
  note run = allocate_sectors_run [OF conjunct1 [OF old] kpos, unfolded uk]
  show ?thesis
  proof (cases "allocate_sectors ?d ?k")
    case (Inl e)
    then have "sync_to_disk f d = (Inl (io_err ''disk alloc'' e), f, ?d)"
      unfolding sync_to_disk_def k_def [symmetric] Let_def using go by simp
    with run Inl old show ?thesis unfolding free_def by (auto simp: disjoint_eq_subset_Compl)
  next
    case (Inr p)
    obtain st d2 where p: "p = (st, d2)" by (cases p)
    note a = run [unfolded Inr p sum.case prod.case]
    have tot: "total_sectors d2 = total_sectors d"
      using allocate_sectors_total Inr p old by simp
    have lt: "unat (total_sectors d) < 2 ^ 32" using unsigned_less [of "total_sectors d"] by simp
    have fit: "unat st + k \<le> unat (total_sectors d)" using a old by simp
    have "\<exists>d3. wr_run write_sector d2 st ?chunks = (Inr (), d3) \<and> disk_wf d3 \<and> unat (total_sectors d3) = unat (total_sectors d2) \<and>
       (\<forall>x. read_sector d3 x = (if unat st \<le> unat x \<and> unat x < unat st + length ?chunks
               then Inr (?chunks ! (unat x - unat st)) else read_sector d2 x))"
      using a fit lt tot by (intro vdisk.wr_run_spec) auto
    then obtain d3 where d3: "wr_run write_sector d2 st ?chunks = (Inr (), d3)" "disk_wf d3"
      "unat (total_sectors d3) = unat (total_sectors d2)"
      "\<And>x. read_sector d3 x = (if unat st \<le> unat x \<and> unat x < unat st + k
               then Inr (?chunks ! (unat x - unat st)) else read_sector d2 x)" by auto
    have sync: "sync_to_disk f d = (Inr (), f\<lparr>f_start_sector := Some st, f_sector_count := ?k, f_dirty := False\<rparr>, d3)"
      unfolding sync_to_disk_def k_def [symmetric] Let_def using go Inr p d3(1) uk by auto
    have bm: "bitmap d3 = bitmap d2" using wr_run_bitmap d3(1) by metis
    have rd: "read_sector d3 (st + of_nat i) = Inr (?chunks ! i)" if "i < k" for i
      using d3(4) [of "st + of_nat i"] that fit lt by (simp add: unat_add_small)
    have "rd_run read_sector d3 st k = Inr (take k ?chunks) \<or> length ?chunks < k"
      using d3(2,3) fit lt tot rd by (intro vdisk.rd_run_spec) auto
    then have load: "rd_run read_sector d3 st k = Inr ?chunks" by simp
    have "unat (of_nat (length (f_data f)) :: u64) = length (f_data f)" using len(2) by (simp add: unat_of_nat)
    then have "load_from_disk d3 g = (Inr (), g\<lparr>f_data := f_data f, f_dirty := False, f_eof := False, f_position := 0\<rparr>)"
      if "f_start_sector g = Some st" "f_sector_count g = ?k" "meta_size (f_metadata g) = of_nat (length (f_data f))" for g
      using that load go(2) uk concat_chunks [of "f_data f"] by (simp add: load_from_disk_def k_def [symmetric])
    moreover have "total_sectors d3 = total_sectors d" using d3(3) tot by (simp add: word_unat_eq_iff)
    ultimately show ?thesis using sync a d3 bm old fit
      unfolding free_def by (auto simp: disjoint_eq_subset_Compl)
  qed
qed

text \<open>
  C24. Saving a file and loading it again: a changed file that needs some sectors is saved exactly when, its old
  sectors released, the disk has a run of free sectors long enough. It then gets such a run and nothing else
  on the disk changes but the bitmap; and any file object that points to that run and has the right
  size loads exactly the saved bytes.
\<close>

theorem sync_load_round_trip:
  assumes wf: "disk_wf d" and dirty: "f_dirty f \<or> f_start_sector f = None"
    and len: "f_data f \<noteq> []" "length (f_data f) \<le> 2 ^ 40"
  defines "k \<equiv> (length (f_data f) + 511) div 512" and "free \<equiv> - (used_set (bitmap d) - old_run f)"
  shows "case sync_to_disk f d of
      (Inl _, f', d') \<Rightarrow> f' = f \<and> (\<forall>st. 4 \<le> st \<and> st + k \<le> unat (total_sectors d) \<longrightarrow> \<not> {st..<st + k} \<subseteq> free)
    | (Inr _, f', d') \<Rightarrow> \<exists>st. f' = f\<lparr>f_start_sector := Some st, f_sector_count := of_nat k, f_dirty := False\<rparr> \<and>
        disk_wf d' \<and> total_sectors d' = total_sectors d \<and> {unat st..<unat st + k} \<subseteq> free \<and>
        4 \<le> unat st \<and> unat st + k \<le> unat (total_sectors d) \<and>
        used_set (bitmap d') = used_set (bitmap d) - old_run f \<union> {unat st..<unat st + k} \<and>
        (\<forall>a. a \<noteq> 0 \<and> unat a \<notin> {unat st..<unat st + k} \<longrightarrow> read_sector d' a = read_sector d a) \<and>
        (\<forall>g. f_start_sector g = Some st \<and> f_sector_count g = of_nat k \<and>
             meta_size (f_metadata g) = of_nat (length (f_data f)) \<longrightarrow>
           load_from_disk d' g = (Inr (), g\<lparr>f_data := f_data f, f_dirty := False, f_eof := False, f_position := 0\<rparr>))"
  unfolding k_def free_def by (rule sync_to_disk_spec [OF assms(1-4)])

text \<open>Three bytes fit on the smallest disk.\<close>

lemma demo_disk_saves:
  assumes "f_dirty f" "length (f_data f) = 3" "f_start_sector f = None"
  shows "\<exists>f' d'. sync_to_disk f demo_disk = (Inr (), f', d') \<and> \<not> f_dirty f' \<and> f_data f' = f_data f"
proof -
  have eq: "(length (f_data f) + 511) div 512 = 1" "old_run f = {}" using assms by (simp_all add: old_run_def)
  have pre: "f_dirty f \<or> f_start_sector f = None" "f_data f \<noteq> []" "length (f_data f) \<le> 2 ^ 40" using assms by auto
  have free: "4 \<notin> used_set (bitmap demo_disk)"
    by (simp add: used_set_def demo_disk_def VirtualDisk_new_def mark_used_range_def mark_used_def Let_def SECTOR_SIZE_def
        upt_conv_Cons bit_simps)
  obtain r f' d' where s: "sync_to_disk f demo_disk = (r, f', d')" by (cases "sync_to_disk f demo_disk")
  note t = sync_to_disk_spec [OF demo_disk_wf(1) pre, unfolded s prod.case eq demo_disk_wf(2)]
  have "is_ok r"
  proof (cases r)
    case (Inl e)
    with t have "\<forall>st. 4 \<le> st \<and> st \<le> 7 \<longrightarrow> st \<in> used_set (bitmap demo_disk)" by auto
    with free show ?thesis by auto
  qed simp
  then obtain u where "r = Inr u" by (cases r) auto
  with t s show ?thesis by auto
qed

definition demo_saved :: File where
  "demo_saved = demo_file\<lparr>f_data := [1, 2, 3], f_dirty := True\<rparr>"

theorem sync_load_round_trip_witness:
  "\<exists>f' d'. sync_to_disk demo_saved demo_disk = (Inr (), f', d') \<and>
     load_from_disk d' (f'\<lparr>f_data := [], f_metadata := (f_metadata f')\<lparr>meta_size := 3\<rparr>\<rparr>) =
       (Inr (), f'\<lparr>f_metadata := (f_metadata f')\<lparr>meta_size := 3\<rparr>, f_position := 0\<rparr>)"
proof -
  have pre: "f_dirty demo_saved \<or> f_start_sector demo_saved = None" "f_data demo_saved \<noteq> []"
    "length (f_data demo_saved) \<le> 2 ^ 40" by (simp_all add: demo_saved_def)
  obtain f' d' where s: "sync_to_disk demo_saved demo_disk = (Inr (), f', d')"
    using demo_disk_saves [of demo_saved] by (auto simp: demo_saved_def demo_file_def File_new_def)
  have eq: "f_data demo_saved = [1, 2, 3]" "f_eof demo_saved = False"
    by (simp_all add: demo_saved_def demo_file_def File_new_def)
  from sync_load_round_trip [OF demo_disk_wf(1) pre] s eq show ?thesis by (auto simp: demo_saved_def)
qed

end
