(* ===== verification/Descriptor.thy ===== *)
theory Descriptor
  imports File_Data
begin

text \<open>
  File descriptors (\<^verbatim>\<open>src/services/file/descriptor.rs\<close>). An \<^verbatim>\<open>Arc<Mutex<File>>\<close> is a reference, an index
  into the list of all file objects created so far, so that descriptors may share an object; a reference in
  use is always in range. A table never takes back a number: the lemmas say which numbers are handed out, that
  closing and duplicating act on one number only, and what that costs.
\<close>

type_synonym fd = u32
type_synonym file_ref = nat

record OpenFile =
  open_fd :: fd
  open_owner :: pid
  open_file :: file_ref
  open_flags :: u32
  close_on_exec :: bool

definition OpenFile_new :: "fd \<Rightarrow> pid \<Rightarrow> file_ref \<Rightarrow> u32 \<Rightarrow> OpenFile" where
  "OpenFile_new n ow r fl = \<lparr>open_fd = n, open_owner = ow, open_file = r, open_flags = fl, close_on_exec = False\<rparr>"

definition openfile_read :: "OpenFile \<Rightarrow> nat \<Rightarrow> File list \<Rightarrow> ((GenshinError, u8 list) result \<times> File list) option" where
  "openfile_read of' cnt fs =
     map_option (\<lambda>(r, f). (r, fs[open_file of' := f])) (file_read cnt (fs ! open_file of'))"

definition openfile_write :: "OpenFile \<Rightarrow> u8 list \<Rightarrow> File list \<Rightarrow> ((GenshinError, nat) result \<times> File list) option" where
  "openfile_write of' bs fs =
     map_option (\<lambda>(r, f). (r, fs[open_file of' := f])) (file_write bs (fs ! open_file of'))"

definition openfile_seek :: "OpenFile \<Rightarrow> u64 \<Rightarrow> File list \<Rightarrow> u64 \<times> File list" where
  "openfile_seek of' pos fs = (case file_seek pos (fs ! open_file of') of (old, f) \<Rightarrow> (old, fs[open_file of' := f]))"

definition openfile_sync :: "OpenFile \<Rightarrow> File list \<Rightarrow> File list" where
  "openfile_sync of' fs = fs[open_file of' := file_sync (fs ! open_file of')]"

definition openfile_size :: "OpenFile \<Rightarrow> File list \<Rightarrow> u64" where
  "openfile_size of' fs = file_size (fs ! open_file of')"

section \<open>The table of a process\<close>

record FileTable =
  descriptors :: "fd \<rightharpoonup> OpenFile"
  next_fd :: fd
  max_fds :: fd

definition FileTable_new :: "fd \<Rightarrow> FileTable" where
  "FileTable_new mx = \<lparr>descriptors = Map.empty, next_fd = 3, max_fds = mx\<rparr>"

definition no_fds :: GenshinError where
  "no_fds = ServiceE (ResourceExhausted ''File descriptors'' 0 1)"

definition fd_not_found :: "fd \<Rightarrow> GenshinError" where
  "fd_not_found n = ServiceE (NotFound ''File descriptor'' (show_dec (unat n)))"

definition ft_allocate :: "pid \<Rightarrow> file_ref \<Rightarrow> u32 \<Rightarrow> FileTable \<Rightarrow> (GenshinError, fd) result \<times> FileTable" where
  "ft_allocate ow r fl t =
     (let n = next_fd t in
      if n \<ge> max_fds t then (Inl no_fds, t)
      else (Inr n, t\<lparr>next_fd := n + 1, descriptors := (descriptors t)(n \<mapsto> OpenFile_new n ow r fl)\<rparr>))"

definition ft_get :: "fd \<Rightarrow> FileTable \<Rightarrow> OpenFile option" where
  "ft_get n t = descriptors t n"

definition ft_close :: "fd \<Rightarrow> FileTable \<Rightarrow> (GenshinError, unit) result \<times> FileTable" where
  "ft_close n t =
     (case descriptors t n of
        None \<Rightarrow> (Inl (fd_not_found n), t)
      | Some _ \<Rightarrow> (Inr (), t\<lparr>descriptors := (descriptors t)(n := None)\<rparr>))"

definition ft_dup :: "fd \<Rightarrow> FileTable \<Rightarrow> (GenshinError, fd) result \<times> FileTable" where
  "ft_dup old t =
     (case ft_get old t of
        None \<Rightarrow> (Inl (fd_not_found old), t)
      | Some of' \<Rightarrow>
         let n = next_fd t in
         if n \<ge> max_fds t then (Inl no_fds, t)
         else (Inr n, t\<lparr>next_fd := n + 1, descriptors := (descriptors t)(n \<mapsto> of')\<rparr>))"

definition ft_count :: "FileTable \<Rightarrow> nat" where
  "ft_count t = card (dom (descriptors t))"

definition ft_contains :: "fd \<Rightarrow> FileTable \<Rightarrow> bool" where
  "ft_contains n t \<longleftrightarrow> descriptors t n \<noteq> None"

section \<open>The manager\<close>

record FileDescriptorManager =
  process_tables :: "pid \<rightharpoonup> FileTable"
  max_fds_per_process :: fd
  fdm_stdin :: "file_ref option"
  fdm_stdout :: "file_ref option"
  fdm_stderr :: "file_ref option"

definition FileDescriptorManager_new :: "fd \<Rightarrow> FileDescriptorManager" where
  "FileDescriptorManager_new mx =
     \<lparr>process_tables = Map.empty, max_fds_per_process = mx, fdm_stdin = None, fdm_stdout = None, fdm_stderr = None\<rparr>"

definition FileDescriptorManager_default :: FileDescriptorManager where
  "FileDescriptorManager_default = FileDescriptorManager_new 256"

text \<open>The table of a process, and the manager with an empty one recorded when there was none.\<close>

definition fdm_get_table :: "pid \<Rightarrow> FileDescriptorManager \<Rightarrow> FileTable \<times> FileDescriptorManager" where
  "fdm_get_table p m =
     (case process_tables m p of
        Some t \<Rightarrow> (t, m)
      | None \<Rightarrow> let t = FileTable_new (max_fds_per_process m) in (t, m\<lparr>process_tables := (process_tables m)(p \<mapsto> t)\<rparr>))"

definition put_fds :: "pid \<Rightarrow> FileTable \<Rightarrow> FileDescriptorManager \<Rightarrow> FileDescriptorManager" where
  "put_fds p t m = m\<lparr>process_tables := (process_tables m)(p \<mapsto> t)\<rparr>"

definition fdm_allocate :: "pid \<Rightarrow> file_ref \<Rightarrow> u32 \<Rightarrow> FileDescriptorManager \<Rightarrow> (GenshinError, fd) result \<times> FileDescriptorManager" where
  "fdm_allocate p r fl m =
     (case fdm_get_table p m of
        (t, m') \<Rightarrow> (case ft_allocate p r fl t of (res, t') \<Rightarrow> (res, put_fds p t' m')))"

definition fdm_get :: "pid \<Rightarrow> fd \<Rightarrow> FileDescriptorManager \<Rightarrow> OpenFile option" where
  "fdm_get p n m = Option.bind (process_tables m p) (ft_get n)"

definition no_table :: "pid \<Rightarrow> GenshinError" where
  "no_table p = ServiceE (NotFound ''Process file table'' (dec64 p))"

definition fdm_close :: "pid \<Rightarrow> fd \<Rightarrow> FileDescriptorManager \<Rightarrow> (GenshinError, unit) result \<times> FileDescriptorManager" where
  "fdm_close p n m =
     (case process_tables m p of
        None \<Rightarrow> (Inl (no_table p), m)
      | Some t \<Rightarrow> (case ft_close n t of (res, t') \<Rightarrow> (res, put_fds p t' m)))"

definition fdm_dup :: "pid \<Rightarrow> fd \<Rightarrow> FileDescriptorManager \<Rightarrow> (GenshinError, fd) result \<times> FileDescriptorManager" where
  "fdm_dup p old m =
     (case process_tables m p of
        None \<Rightarrow> (Inl (no_table p), m)
      | Some t \<Rightarrow> (case ft_dup old t of (res, t') \<Rightarrow> (res, put_fds p t' m)))"

definition fdm_remove_process :: "pid \<Rightarrow> FileDescriptorManager \<Rightarrow> (GenshinError, unit) result \<times> FileDescriptorManager" where
  "fdm_remove_process p m =
     (case process_tables m p of
        None \<Rightarrow> (Inl (no_table p), m)
      | Some _ \<Rightarrow> (Inr (), m\<lparr>process_tables := (process_tables m)(p := None)\<rparr>))"

text \<open>
  Copying descriptors for a fork. The numbers of the source table are listed before the copy starts; the
  order in which the hash map lists them is the argument.
\<close>

definition clone_one :: "pid \<Rightarrow> pid \<Rightarrow> FileDescriptorManager \<Rightarrow> fd \<Rightarrow> FileDescriptorManager" where
  "clone_one from_pid to_pid m n =
     (case fdm_get from_pid n m of
        None \<Rightarrow> m
      | Some src \<Rightarrow>
         (case process_tables m to_pid of
            None \<Rightarrow> m
          | Some t \<Rightarrow>
             put_fds to_pid
               (t\<lparr>descriptors := (descriptors t)(n \<mapsto> OpenFile_new n to_pid (open_file src) (open_flags src)),
                  next_fd := (if next_fd t \<le> n then n + 1 else next_fd t)\<rparr>) m))"

definition clone_fds :: "fd list \<Rightarrow> pid \<Rightarrow> pid \<Rightarrow> FileDescriptorManager \<Rightarrow> FileDescriptorManager" where
  "clone_fds fd_list from_pid to_pid m =
     (let m1 = snd (fdm_get_table to_pid m) in
      case process_tables m1 from_pid of
        None \<Rightarrow> m1
      | Some _ \<Rightarrow> foldl (clone_one from_pid to_pid) m1 fd_list)"

definition fdm_count :: "pid \<Rightarrow> FileDescriptorManager \<Rightarrow> nat" where
  "fdm_count p m = (case process_tables m p of None \<Rightarrow> 0 | Some t \<Rightarrow> ft_count t)"

definition set_stdin :: "file_ref \<Rightarrow> FileDescriptorManager \<Rightarrow> FileDescriptorManager" where
  "set_stdin r m = m\<lparr>fdm_stdin := Some r\<rparr>"

definition set_stdout :: "file_ref \<Rightarrow> FileDescriptorManager \<Rightarrow> FileDescriptorManager" where
  "set_stdout r m = m\<lparr>fdm_stdout := Some r\<rparr>"

definition set_stderr :: "file_ref \<Rightarrow> FileDescriptorManager \<Rightarrow> FileDescriptorManager" where
  "set_stderr r m = m\<lparr>fdm_stderr := Some r\<rparr>"

section \<open>Invariant\<close>

text \<open>Every open number was handed out; numbers 0 to 2 never are.\<close>

definition ft_wf :: "FileTable \<Rightarrow> bool" where
  "ft_wf t \<longleftrightarrow> 3 \<le> next_fd t \<and> (next_fd t \<le> max_fds t \<or> next_fd t = 3) \<and>
     (\<forall>n \<in> dom (descriptors t). 3 \<le> n \<and> n < next_fd t)"

definition fdm_wf :: "FileDescriptorManager \<Rightarrow> bool" where
  "fdm_wf m \<longleftrightarrow> (\<forall>p t. process_tables m p = Some t \<longrightarrow> ft_wf t \<and> max_fds t = max_fds_per_process m)"

lemma ft_wf_new [inv_intros]: "ft_wf (FileTable_new mx)"
  by (simp add: ft_wf_def FileTable_new_def)

lemma next_fd_step: "(n :: fd) < mx \<Longrightarrow> n < n + 1 \<and> n + 1 \<le> mx"
  using inc_le [of n mx] inc_less_eq_self_iff_eq [of n] word_not_simps by (auto simp: not_le [symmetric])

text \<open>Filing an open file under a number below the limit, the next one or one copied from another table.\<close>

lemma ft_wf_file:
  assumes "ft_wf t" "n < max_fds t" "3 \<le> n"
  shows "ft_wf (t\<lparr>next_fd := (if next_fd t \<le> n then n + 1 else next_fd t), descriptors := (descriptors t)(n \<mapsto> x)\<rparr>)"
proof -
  let ?nx = "if next_fd t \<le> n then n + 1 else next_fd t"
  have step: "n < n + 1" "n + 1 \<le> max_fds t" using next_fd_step [OF assms(2)] by auto
  have up: "next_fd t \<le> ?nx" "n < ?nx" using step by auto
  have "k < ?nx" if "k = n \<or> k < next_fd t" for k using that up by (auto intro: less_le_trans)
  moreover have "3 \<le> ?nx" using up(1) assms(1) by (auto simp: ft_wf_def intro: order_trans)
  moreover have "?nx \<le> max_fds t \<or> ?nx = 3" using step assms(1) by (auto simp: ft_wf_def)
  ultimately show ?thesis using assms(1,3) by (simp add: ft_wf_def)
qed

lemma ft_wf_next:
  assumes "ft_wf t" "next_fd t < max_fds t"
  shows "ft_wf (t\<lparr>next_fd := next_fd t + 1, descriptors := (descriptors t)(next_fd t \<mapsto> x)\<rparr>)"
  using ft_wf_file [OF assms] assms(1) by (simp add: ft_wf_def)

lemma ft_wf_allocate [inv_intros]: "ft_wf t \<Longrightarrow> ft_wf (snd (ft_allocate ow r fl t)) \<and> max_fds (snd (ft_allocate ow r fl t)) = max_fds t"
  using ft_wf_next by (simp add: ft_allocate_def Let_def not_le)

lemma ft_wf_close [inv_intros]: "ft_wf t \<Longrightarrow> ft_wf (snd (ft_close n t)) \<and> max_fds (snd (ft_close n t)) = max_fds t"
  by (auto simp: ft_wf_def ft_close_def split: option.splits)

lemma ft_wf_dup [inv_intros]: "ft_wf t \<Longrightarrow> ft_wf (snd (ft_dup n t)) \<and> max_fds (snd (ft_dup n t)) = max_fds t"
  using ft_wf_next by (simp add: ft_dup_def Let_def not_le split: option.split)

lemma fdm_wf_table: "fdm_wf m \<Longrightarrow> ft_wf (fst (fdm_get_table p m)) \<and> max_fds (fst (fdm_get_table p m)) = max_fds_per_process m \<and>
    fdm_wf (snd (fdm_get_table p m)) \<and> max_fds_per_process (snd (fdm_get_table p m)) = max_fds_per_process m"
  by (auto simp: fdm_get_table_def fdm_wf_def Let_def ft_wf_new split: option.splits) (simp_all add: FileTable_new_def)

lemma fdm_wf_put: "fdm_wf m \<Longrightarrow> ft_wf t \<Longrightarrow> max_fds t = max_fds_per_process m \<Longrightarrow> fdm_wf (put_fds p t m)"
  by (simp add: fdm_wf_def put_fds_def)

lemma fdm_wf_allocate [inv_intros]: "fdm_wf m \<Longrightarrow> fdm_wf (snd (fdm_allocate p r fl m))"
  using fdm_wf_table [of m p] ft_wf_allocate [of "fst (fdm_get_table p m)" p r fl]
  by (auto simp: fdm_allocate_def split: prod.splits intro!: fdm_wf_put)

lemma fdm_wf_close [inv_intros]: "fdm_wf m \<Longrightarrow> fdm_wf (snd (fdm_close p n m))"
  using fdm_wf_put [of m _ p] ft_wf_close [of _ n]
  by (auto simp: fdm_close_def split: option.split prod.split) (metis fdm_wf_def snd_conv)

lemma fdm_wf_dup [inv_intros]: "fdm_wf m \<Longrightarrow> fdm_wf (snd (fdm_dup p n m))"
  using fdm_wf_put [of m _ p] ft_wf_dup [of _ n]
  by (auto simp: fdm_dup_def split: option.split prod.split) (metis fdm_wf_def snd_conv)

lemma fdm_wf_remove [inv_intros]: "fdm_wf m \<Longrightarrow> fdm_wf (snd (fdm_remove_process p m))"
  by (auto simp: fdm_remove_process_def fdm_wf_def split: option.splits)

lemma fdm_get_put [simp]: "fdm_get q k (put_fds p t m) = (if q = p then ft_get k t else fdm_get q k m)"
  by (simp add: fdm_get_def put_fds_def)

lemma fdm_get_table_get [simp]: "fdm_get q k (snd (fdm_get_table p m)) = fdm_get q k m"
  by (auto simp: fdm_get_table_def fdm_get_def ft_get_def FileTable_new_def Let_def split: option.splits)

lemma ft_get_table [simp]: "ft_get k (fst (fdm_get_table p m)) = fdm_get p k m"
  by (auto simp: fdm_get_table_def fdm_get_def ft_get_def FileTable_new_def Let_def split: option.splits)

lemma fdm_get_Some: "fdm_get q n m = Some x \<longleftrightarrow> (\<exists>t. process_tables m q = Some t \<and> descriptors t n = Some x)"
  by (cases "process_tables m q") (simp_all add: fdm_get_def ft_get_def)

text \<open>An open number is below the limit of its process.\<close>

lemma fdm_wf_bound:
  assumes "fdm_wf m" "fdm_get q n m = Some x"
  shows "3 \<le> n \<and> n < max_fds_per_process m"
proof -
  from assms obtain t where t: "ft_wf t" "max_fds t = max_fds_per_process m" "n \<in> dom (descriptors t)"
    by (auto simp: fdm_get_Some fdm_wf_def)
  then have n: "3 \<le> n" "n < next_fd t" by (auto simp: ft_wf_def)
  then have "next_fd t \<noteq> 3" by auto
  then have "next_fd t \<le> max_fds_per_process m" using t by (auto simp: ft_wf_def)
  with n show ?thesis by (auto intro: less_le_trans)
qed

lemma clone_one_eq:
  "fdm_get q n m = Some src \<Longrightarrow> process_tables m p = Some t \<Longrightarrow>
   clone_one q p m n = put_fds p (t\<lparr>next_fd := (if next_fd t \<le> n then n + 1 else next_fd t),
     descriptors := (descriptors t)(n \<mapsto> OpenFile_new n p (open_file src) (open_flags src))\<rparr>) m"
  by (cases t) (simp add: clone_one_def)

lemma clone_one_wf [inv_intros]:
  assumes "fdm_wf m"
  shows "fdm_wf (clone_one q p m n)"
proof (cases "fdm_get q n m = None \<or> process_tables m p = None")
  case True then show ?thesis using assms by (auto simp: clone_one_def split: option.splits)
next
  case False
  then obtain src t where *: "fdm_get q n m = Some src" "process_tables m p = Some t" by auto
  then have t: "ft_wf t" "max_fds t = max_fds_per_process m" "n < max_fds t" "3 \<le> n"
    using assms fdm_wf_bound [OF assms *(1)] by (auto simp: fdm_wf_def)
  from ft_wf_file [OF t(1,3,4)] t(2) show ?thesis by (simp add: clone_one_eq [OF *] fdm_wf_put [OF assms])
qed

lemma fdm_wf_clone [inv_intros]: "fdm_wf m \<Longrightarrow> fdm_wf (clone_fds ns q p m)"
proof -
  have "fdm_wf m \<Longrightarrow> fdm_wf (foldl (clone_one q p) m ns)" for m
    by (induction ns arbitrary: m) (simp_all add: clone_one_wf)
  moreover assume "fdm_wf m"
  ultimately show ?thesis using fdm_wf_table [of m p] by (auto simp: clone_fds_def Let_def split: option.split)
qed

text \<open>The states a manager can reach. The order of a clone lists the numbers of the source table.\<close>

inductive fdm_reach :: "fd \<Rightarrow> FileDescriptorManager \<Rightarrow> bool" for mx where
  fdm_start: "fdm_reach mx (FileDescriptorManager_new mx)"
| fdm_alloc: "fdm_reach mx m \<Longrightarrow> fdm_reach mx (snd (fdm_allocate p r fl m))"
| fdm_closed: "fdm_reach mx m \<Longrightarrow> fdm_reach mx (snd (fdm_close p n m))"
| fdm_dupped: "fdm_reach mx m \<Longrightarrow> fdm_reach mx (snd (fdm_dup p n m))"
| fdm_removed: "fdm_reach mx m \<Longrightarrow> fdm_reach mx (snd (fdm_remove_process p m))"
| fdm_cloned: "fdm_reach mx m \<Longrightarrow> fdm_reach mx (clone_fds ns q p m)"

lemma fdm_reach_wf: "fdm_reach mx m \<Longrightarrow> fdm_wf m"
  by (induction rule: fdm_reach.induct)
     (auto intro: inv_intros, simp add: fdm_wf_def FileDescriptorManager_new_def)

lemma ft_wf_next_free: "ft_wf t \<Longrightarrow> ft_get (next_fd t) t = None"
  by (auto simp: ft_wf_def ft_get_def intro: ccontr)

lemma fdm_allocate_Inr:
  assumes "fdm_wf m" "fdm_allocate p r fl m = (Inr n, m')"
  shows "3 \<le> n \<and> n < max_fds_per_process m \<and> fdm_get p n m = None \<and>
    (\<forall>q k. fdm_get q k m' = (if q = p \<and> k = n then Some (OpenFile_new n p r fl) else fdm_get q k m))"
proof -
  obtain t m1 where t: "fdm_get_table p m = (t, m1)" by (cases "fdm_get_table p m")
  have wf: "ft_wf t" "max_fds t = max_fds_per_process m" using fdm_wf_table [OF assms(1), of p] t by auto
  have get: "ft_get k t = fdm_get p k m" "fdm_get q k m1 = fdm_get q k m" for k q
    using ft_get_table [of k p m] fdm_get_table_get [of q k p m] t by auto
  have n: "n = next_fd t" "next_fd t < max_fds t"
    and m': "m' = put_fds p (t\<lparr>next_fd := n + 1, descriptors := (descriptors t)(n \<mapsto> OpenFile_new n p r fl)\<rparr>) m1"
    using assms(2) t by (auto simp: fdm_allocate_def ft_allocate_def Let_def split: if_splits)
  have "fdm_get q k m' = (if q = p \<and> k = n then Some (OpenFile_new n p r fl) else fdm_get q k m)" for q k
    unfolding m' using get by (auto simp: ft_get_def)
  moreover have "fdm_get p n m = None" using ft_wf_next_free [OF wf(1)] get n by simp
  ultimately show ?thesis using n wf by (simp add: ft_wf_def)
qed

lemma fdm_dup_Inr:
  assumes "fdm_wf m" "fdm_dup p old m = (Inr n, m')"
  shows "3 \<le> n \<and> n < max_fds_per_process m \<and> fdm_get p n m = None \<and> fdm_get p old m \<noteq> None \<and>
    (\<forall>q k. fdm_get q k m' = (if q = p \<and> k = n then fdm_get p old m else fdm_get q k m))"
proof -
  obtain t x where t: "process_tables m p = Some t" "ft_get old t = Some x"
    and n: "n = next_fd t" "next_fd t < max_fds t"
    and m': "m' = put_fds p (t\<lparr>next_fd := n + 1, descriptors := (descriptors t)(n \<mapsto> x)\<rparr>) m"
    using assms(2) by (auto simp: fdm_dup_def ft_dup_def Let_def split: option.splits if_splits)
  have wf: "ft_wf t" "max_fds t = max_fds_per_process m" using assms(1) t by (auto simp: fdm_wf_def)
  have get: "fdm_get p k m = ft_get k t" for k using t by (simp add: fdm_get_def)
  have "fdm_get q k m' = (if q = p \<and> k = n then fdm_get p old m else fdm_get q k m)" for q k
    unfolding m' using get t(2) by (auto simp: ft_get_def)
  moreover have "fdm_get p n m = None" using ft_wf_next_free [OF wf(1)] get n by simp
  ultimately show ?thesis using n wf get t by (simp add: ft_wf_def)
qed

lemma fdm_close_Inr:
  assumes "fdm_close p n m = (Inr (), m')"
  shows "fdm_get p n m \<noteq> None \<and> (\<forall>q k. fdm_get q k m' = (if q = p \<and> k = n then None else fdm_get q k m))"
proof -
  obtain t where t: "process_tables m p = Some t" "descriptors t n \<noteq> None"
    and m': "m' = put_fds p (t\<lparr>descriptors := (descriptors t)(n := None)\<rparr>) m"
    using assms by (auto simp: fdm_close_def ft_close_def split: option.splits)
  have get: "fdm_get p k m = ft_get k t" for k using t by (simp add: fdm_get_def)
  show ?thesis unfolding m' using get t(2) by (auto simp: ft_get_def)
qed

text \<open>
  C23. A new descriptor is new: in every state the manager can reach, a successful allocation or duplication
  gives a number from 3 up to the limit that the process did not have open, files the right open file
  under it, and leaves every other descriptor of every process as it was; closing removes one descriptor and
  nothing else.
\<close>

theorem descriptors_isolated:
  assumes "fdm_reach mx m"
  shows "(fdm_allocate p r fl m = (Inr n, m') \<longrightarrow>
           3 \<le> n \<and> n < max_fds_per_process m \<and> fdm_get p n m = None \<and>
           (\<forall>q k. fdm_get q k m' = (if q = p \<and> k = n then Some (OpenFile_new n p r fl) else fdm_get q k m))) \<and>
    (fdm_dup p old m = (Inr n, m') \<longrightarrow>
           3 \<le> n \<and> n < max_fds_per_process m \<and> fdm_get p n m = None \<and> fdm_get p old m \<noteq> None \<and>
           (\<forall>q k. fdm_get q k m' = (if q = p \<and> k = n then fdm_get p old m else fdm_get q k m))) \<and>
    (fdm_close p n m = (Inr (), m') \<longrightarrow>
           fdm_get p n m \<noteq> None \<and> (\<forall>q k. fdm_get q k m' = (if q = p \<and> k = n then None else fdm_get q k m)))"
  using fdm_allocate_Inr [OF fdm_reach_wf [OF assms]] fdm_dup_Inr [OF fdm_reach_wf [OF assms]] fdm_close_Inr
  by blast

definition demo_fdm :: FileDescriptorManager where
  "demo_fdm = snd (fdm_allocate 7 0 0 (FileDescriptorManager_new 8))"

lemma demo_fdm_reach: "fdm_reach 8 demo_fdm"
  unfolding demo_fdm_def by (intro fdm_alloc fdm_start)

lemma demo_fdm_eq:
  "demo_fdm = \<lparr>process_tables = [7 \<mapsto> \<lparr>descriptors = [3 \<mapsto> OpenFile_new 3 7 0 0], next_fd = 4, max_fds = 8\<rparr>],
     max_fds_per_process = 8, fdm_stdin = None, fdm_stdout = None, fdm_stderr = None\<rparr>"
  by (simp add: demo_fdm_def fdm_allocate_def fdm_get_table_def ft_allocate_def FileTable_new_def
      FileDescriptorManager_new_def put_fds_def Let_def)

lemma demo_fdm_get: "fdm_get 7 3 demo_fdm = Some (OpenFile_new 3 7 0 0)"
  by (simp add: demo_fdm_eq fdm_get_def ft_get_def)

theorem descriptors_isolated_witness:
  "\<exists>m'. fdm_allocate 7 1 0 demo_fdm = (Inr 4, m') \<and> fdm_get 7 4 demo_fdm = None \<and>
     fdm_get 7 4 m' = Some (OpenFile_new 4 7 1 0) \<and> fdm_get 7 3 m' = Some (OpenFile_new 3 7 0 0)"
proof -
  obtain m' where m': "fdm_allocate 7 1 0 demo_fdm = (Inr 4, m')"
    by (simp add: demo_fdm_eq fdm_allocate_def fdm_get_table_def ft_allocate_def put_fds_def Let_def)
  then show ?thesis using descriptors_isolated [OF demo_fdm_reach, of 7 1 0 4 m'] demo_fdm_get by simp
qed

section \<open>Forking\<close>

definition copy_for :: "pid \<Rightarrow> fd \<Rightarrow> OpenFile \<Rightarrow> OpenFile" where
  "copy_for p k s = OpenFile_new k p (open_file s) (open_flags s)"

lemma clone_one_get:
  assumes "q \<noteq> p" "process_tables m p \<noteq> None"
  shows "fdm_get x k (clone_one q p m n) =
    (if x = p \<and> k = n \<and> fdm_get q n m \<noteq> None then map_option (copy_for p n) (fdm_get q n m) else fdm_get x k m)"
proof (cases "fdm_get q n m")
  case (Some src)
  obtain t where t: "process_tables m p = Some t" using assms(2) by auto
  have "fdm_get p k m = ft_get k t" using t by (simp add: fdm_get_def)
  then show ?thesis unfolding clone_one_eq [OF Some t] fdm_get_put
    using Some by (auto simp: ft_get_def copy_for_def)
qed (simp add: clone_one_def)

lemma clone_one_table: "process_tables m p \<noteq> None \<Longrightarrow> process_tables (clone_one q p m n) p \<noteq> None"
  by (auto simp: clone_one_def put_fds_def split: option.split)

lemma clone_fold:
  "q \<noteq> p \<Longrightarrow> process_tables m p \<noteq> None \<Longrightarrow>
   fdm_get x k (foldl (clone_one q p) m ns) =
     (if x = p \<and> k \<in> set ns \<and> fdm_get q k m \<noteq> None then map_option (copy_for p k) (fdm_get q k m) else fdm_get x k m)"
proof (induction ns arbitrary: m)
  case (Cons n ns)
  note step = clone_one_get [OF Cons.prems] and IH = Cons.IH [OF Cons.prems(1) clone_one_table [OF Cons.prems(2)]]
  have q: "fdm_get q k (clone_one q p m n) = fdm_get q k m" using step Cons.prems(1) by simp
  show ?case
  proof (cases "x = p")
    case True
    then show ?thesis using q step [of p k n] IH [of q n] by auto
  next
    case False
    then show ?thesis using step [of x k n] IH [of q n] by simp
  qed
qed simp

text \<open>
  A fork shares the open files: copying the descriptors of a process gives the other one, under every
  number that is open in the source, an open file of its own on the same file object with the same flags;
  its other numbers and all other processes are unchanged, whatever order the numbers are listed in.
\<close>

theorem fork_shares_files:
  assumes "q \<noteq> p" "process_tables m q = Some t" "set ns = dom (descriptors t)"
  shows "fdm_get x k (clone_fds ns q p m) =
    (if x = p \<and> fdm_get q k m \<noteq> None then map_option (copy_for p k) (fdm_get q k m) else fdm_get x k m)"
proof -
  let ?m = "snd (fdm_get_table p m)"
  have q: "process_tables ?m q = Some t" and p: "process_tables ?m p \<noteq> None"
    using assms(1,2) by (auto simp: fdm_get_table_def Let_def split: option.splits)
  have ns: "k \<in> set ns \<longleftrightarrow> fdm_get q k m \<noteq> None" using assms(2,3) by (auto simp: fdm_get_def ft_get_def)
  have "clone_fds ns q p m = foldl (clone_one q p) ?m ns" using q by (simp add: clone_fds_def Let_def)
  then show ?thesis by (simp only: clone_fold [OF assms(1) p] ns fdm_get_table_get) auto
qed

theorem fork_shares_files_witness:
  "fdm_get 9 3 (clone_fds [3] 7 9 demo_fdm) = Some (OpenFile_new 3 9 0 0) \<and>
   fdm_get 7 3 (clone_fds [3] 7 9 demo_fdm) = Some (OpenFile_new 3 7 0 0)"
proof -
  obtain t where t: "process_tables demo_fdm 7 = Some t" "set [3] = dom (descriptors t)" by (simp add: demo_fdm_eq)
  show ?thesis
    using fork_shares_files [OF _ t, of 9 9 3] fork_shares_files [OF _ t, of 9 7 3] demo_fdm_get
    by (simp add: OpenFile_new_def copy_for_def)
qed

section \<open>Numbers run out\<close>

datatype FdOp = FdOpen pid file_ref u32 | FdClose fd | FdDup fd

text \<open>The numbers handed out by a sequence of operations.\<close>

fun issued :: "FdOp list \<Rightarrow> FileTable \<Rightarrow> fd list" where
  "issued [] t = []"
| "issued (FdOpen p r fl # ops) t =
     (case ft_allocate p r fl t of (res, t') \<Rightarrow> (case res of Inl _ \<Rightarrow> [] | Inr n \<Rightarrow> [n]) @ issued ops t')"
| "issued (FdClose n # ops) t = issued ops (snd (ft_close n t))"
| "issued (FdDup n # ops) t =
     (case ft_dup n t of (res, t') \<Rightarrow> (case res of Inl _ \<Rightarrow> [] | Inr n \<Rightarrow> [n]) @ issued ops t')"

text \<open>What an operation does to the next number: it is handed out, or nothing is.\<close>

lemma unat_fd_step: "(n :: fd) < mx \<Longrightarrow> unat (n + 1) = Suc (unat n) \<and> unat n < unat mx"
proof -
  assume *: "n < mx"
  have "unat mx < 2 ^ LENGTH(32)" by (rule unsigned_less)
  with * show ?thesis using unat_plus_one [of n] by (simp add: word_less_nat_alt)
qed

lemma ft_allocate_cases:
  "(fst (ft_allocate p r fl t) = Inr (next_fd t) \<and> next_fd t < max_fds t \<and>
      next_fd (snd (ft_allocate p r fl t)) = next_fd t + 1 \<and> max_fds (snd (ft_allocate p r fl t)) = max_fds t) \<or>
   (\<exists>e. ft_allocate p r fl t = (Inl e, t))"
  by (simp add: ft_allocate_def Let_def not_le)

lemma ft_dup_cases:
  "(fst (ft_dup n t) = Inr (next_fd t) \<and> next_fd t < max_fds t \<and>
      next_fd (snd (ft_dup n t)) = next_fd t + 1 \<and> max_fds (snd (ft_dup n t)) = max_fds t) \<or>
   (\<exists>e. ft_dup n t = (Inl e, t))"
  by (auto simp: ft_dup_def Let_def not_le split: option.split)

lemma ft_close_next: "next_fd (snd (ft_close n t)) = next_fd t" "max_fds (snd (ft_close n t)) = max_fds t"
  by (auto simp: ft_close_def split: option.split)

definition in_order :: "FileTable \<Rightarrow> fd list \<Rightarrow> bool" where
  "in_order t ns \<longleftrightarrow> ns = map of_nat [unat (next_fd t)..<unat (next_fd t) + length ns] \<and>
     (ns = [] \<or> unat (next_fd t) + length ns \<le> unat (max_fds t))"

lemma in_order_Cons:
  assumes "next_fd t < max_fds t" "next_fd t' = next_fd t + 1" "max_fds t' = max_fds t" "in_order t' ns"
  shows "in_order t (next_fd t # ns)"
proof -
  note u = unat_fd_step [OF assms(1)]
  have "map of_nat [unat (next_fd t)..<unat (next_fd t) + length (next_fd t # ns)] =
      next_fd t # map of_nat [Suc (unat (next_fd t))..<Suc (unat (next_fd t)) + length ns]"
    by (subst upt_conv_Cons) simp_all
  then show ?thesis using assms u by (auto simp: in_order_def)
qed

lemma issued_in_order: "in_order t (issued ops t)"
proof (induction ops t rule: issued.induct)
  case (2 p r fl ops t)
  obtain res t' where eq: "ft_allocate p r fl t = (res, t')" by (cases "ft_allocate p r fl t")
  with 2 [OF eq [symmetric]] ft_allocate_cases [of p r fl t] show ?case by (auto intro: in_order_Cons)
next
  case (3 n ops t)
  then show ?case by (simp add: in_order_def ft_close_next)
next
  case (4 n ops t)
  obtain res t' where eq: "ft_dup n t = (res, t')" by (cases "ft_dup n t")
  with 4 [OF eq [symmetric]] ft_dup_cases [of n t] show ?case by (auto intro: in_order_Cons)
qed (simp add: in_order_def)

text \<open>
  C39. Descriptor numbers are never taken back. Whatever is opened, closed and duplicated, the numbers a
  table hands out are 3, 4, 5 and so on, each once; so over its whole life a table grants at most its limit
  minus three descriptors, however many of them have been closed.
\<close>

theorem descriptor_numbers_run_out:
  "issued ops (FileTable_new mx) = map of_nat [3..<3 + length (issued ops (FileTable_new mx))] \<and>
   length (issued ops (FileTable_new mx)) \<le> unat mx - 3"
  using issued_in_order [of "FileTable_new mx" ops] by (auto simp: in_order_def FileTable_new_def)

end
