(* ===== verification/Bus_Kernel.thy ===== *)
theory Bus_Kernel
  imports Error_Format
begin

text \<open>
  The message bus and the kernel dispatcher (\<^verbatim>\<open>src/messaging/bus.rs\<close>, \<^verbatim>\<open>src/messaging/response.rs\<close>,
  \<^verbatim>\<open>src/services/kernel.rs\<close>). Channels belong to the library crossbeam: a sender is a handle
  (a number), an operation returns the list of values it sends with their handles, in order, and whether
  a receiver is still connected is an argument (\<open>ChanEnv\<close>).
\<close>

section \<open>Envelopes and requests\<close>

type_synonym chan = nat

record ChanEnv =
  connected :: "chan \<Rightarrow> bool"
  send_error_text :: string

text \<open>The request counter: the current value is returned and the counter wraps at 64 bits.\<close>

definition generate_request_id :: "u64 \<Rightarrow> u64 \<times> u64" where
  "generate_request_id next_id = (next_id, next_id + 1)"

record Envelope =
  message :: KernelMsg
  request_id :: "u64 option"
  response_channel :: "chan option"

definition fire_and_forget :: "KernelMsg \<Rightarrow> Envelope" where
  "fire_and_forget msg = \<lparr>message = msg, request_id = None, response_channel = None\<rparr>"

text \<open>The new channel's sender is an argument; the receiver end is the same number.\<close>

definition with_response :: "KernelMsg \<Rightarrow> u64 \<Rightarrow> chan \<Rightarrow> (Envelope \<times> chan) \<times> u64" where
  "with_response msg next_id tx =
     (case generate_request_id next_id of
        (i, next_id') \<Rightarrow> ((\<lparr>message = msg, request_id = Some i, response_channel = Some tx\<rparr>, tx), next_id'))"

definition expects_response :: "Envelope \<Rightarrow> bool" where
  "expects_response e \<longleftrightarrow> response_channel e \<noteq> None"

definition send_response :: "ChanEnv \<Rightarrow> Envelope \<Rightarrow> (u64 \<Rightarrow> Response) \<Rightarrow> (unit, unit) result \<times> (chan \<times> Response) list" where
  "send_response ce e mk =
     (case (request_id e, response_channel e) of
        (Some i, Some ch) \<Rightarrow> if connected ce ch then (Inr (), [(ch, mk i)]) else (Inl (), [])
      | _ \<Rightarrow> (Inr (), []))"

definition respond_success :: "ChanEnv \<Rightarrow> Envelope \<Rightarrow> ResponseData \<Rightarrow> (unit, unit) result \<times> (chan \<times> Response) list" where
  "respond_success ce e data = send_response ce e (\<lambda>i. ResponseSuccess i data)"

definition respond_error :: "ChanEnv \<Rightarrow> Envelope \<Rightarrow> MsgServiceError \<Rightarrow> (unit, unit) result \<times> (chan \<times> Response) list" where
  "respond_error ce e err = send_response ce e (\<lambda>i. ResponseError i err)"

type_synonym responses = "(chan \<times> Response) list"

definition service_err :: "ServiceError \<Rightarrow> (GenshinError, 'a) result" where
  "service_err e = Inl (ServiceE e)"

text \<open>A response whose own result is dropped.\<close>

definition ok_success :: "ChanEnv \<Rightarrow> Envelope \<Rightarrow> ResponseData \<Rightarrow> responses" where
  "ok_success ce env d = snd (respond_success ce env d)"

definition ok_error :: "ChanEnv \<Rightarrow> Envelope \<Rightarrow> MsgServiceError \<Rightarrow> responses" where
  "ok_error ce env e = snd (respond_error ce env e)"

text \<open>The conversion of a failed response into the unified error.\<close>

definition from_send_error :: "ChanEnv \<Rightarrow> unit \<Rightarrow> GenshinError" where
  "from_send_error ce _ = BusE (SendFailed (''Channel send error: '' @ send_error_text ce))"

record RequestWithResponse =
  rw_request_id :: u64
  rw_message :: KernelMsg
  rw_response_channel :: chan
  timeout_ms :: "u64 option"

definition RequestWithResponse_new :: "KernelMsg \<Rightarrow> u64 \<Rightarrow> chan \<Rightarrow> (RequestWithResponse \<times> chan) \<times> u64" where
  "RequestWithResponse_new msg next_id tx =
     (case generate_request_id next_id of
        (i, next_id') \<Rightarrow>
          ((\<lparr>rw_request_id = i, rw_message = msg, rw_response_channel = tx, timeout_ms = None\<rparr>, tx), next_id'))"

definition with_timeout :: "KernelMsg \<Rightarrow> u64 \<Rightarrow> u64 \<Rightarrow> chan \<Rightarrow> (RequestWithResponse \<times> chan) \<times> u64" where
  "with_timeout msg ms next_id tx =
     (case generate_request_id next_id of
        (i, next_id') \<Rightarrow>
          ((\<lparr>rw_request_id = i, rw_message = msg, rw_response_channel = tx, timeout_ms = Some ms\<rparr>, tx), next_id'))"

section \<open>The bus\<close>

record LockedBus =
  subscribers :: "chan list"

definition LockedBus_new :: LockedBus where
  "LockedBus_new = \<lparr>subscribers = []\<rparr>"

definition bus_subscribe :: "LockedBus \<Rightarrow> chan \<Rightarrow> LockedBus \<times> chan" where
  "bus_subscribe b tx = (b\<lparr>subscribers := subscribers b @ [tx]\<rparr>, tx)"

definition bus_send :: "LockedBus \<Rightarrow> KernelMsg \<Rightarrow> (BusError, unit) result \<times> (chan \<times> Envelope) list" where
  "bus_send b msg =
     (if subscribers b = [] then (Inr (), [])
      else (Inr (), map (\<lambda>s. (s, fire_and_forget msg)) (subscribers b)))"

definition bus_send_request ::
  "LockedBus \<Rightarrow> KernelMsg \<Rightarrow> u64 \<Rightarrow> chan \<Rightarrow> ((BusError, chan) result \<times> (chan \<times> Envelope) list) \<times> u64" where
  "bus_send_request b msg next_id tx =
     (if subscribers b = [] then ((Inl Disconnected, []), next_id)
      else case with_response msg next_id tx of
             ((e, rx), next_id') \<Rightarrow> ((Inr rx, map (\<lambda>s. (s, e)) (subscribers b)), next_id'))"

text \<open>
  The point-to-point bus is one channel; what the channel answers to an attempt to send or to receive is an argument. A
  request uses up a number even when it cannot be sent.
\<close>

datatype TrySendOutcome = ChannelSent | ChannelClosed | ChannelFull

datatype TryRecvOutcome = ChannelGot Envelope | ChannelEmpty | ChannelGone

definition direct_result :: "TrySendOutcome \<Rightarrow> 'a \<Rightarrow> (BusError, 'a) result" where
  "direct_result out x =
     (case out of ChannelSent \<Rightarrow> Inr x | ChannelClosed \<Rightarrow> Inl Disconnected | ChannelFull \<Rightarrow> Inl BusFull)"

definition direct_send :: "(Envelope \<Rightarrow> TrySendOutcome) \<Rightarrow> KernelMsg \<Rightarrow> (BusError, unit) result" where
  "direct_send try_send msg = direct_result (try_send (fire_and_forget msg)) ()"

definition direct_send_request ::
  "(Envelope \<Rightarrow> TrySendOutcome) \<Rightarrow> KernelMsg \<Rightarrow> u64 \<Rightarrow> chan \<Rightarrow> (BusError, chan) result \<times> u64" where
  "direct_send_request try_send msg next_id tx =
     (case with_response msg next_id tx of ((e, rx), next_id') \<Rightarrow> (direct_result (try_send e) rx, next_id'))"

definition direct_recv :: "Envelope option \<Rightarrow> (BusError, Envelope) result" where
  "direct_recv got = (case got of Some e \<Rightarrow> Inr e | None \<Rightarrow> Inl Disconnected)"

definition direct_try_recv :: "TryRecvOutcome \<Rightarrow> (BusError, Envelope) result" where
  "direct_try_recv got =
     (case got of ChannelGot e \<Rightarrow> Inr e | ChannelEmpty \<Rightarrow> Inl BusFull | ChannelGone \<Rightarrow> Inl Disconnected)"

section \<open>The kernel\<close>

record Kernel =
  kernel_rx :: chan
  process_tx :: chan
  intr_tx :: chan
  memory_tx :: chan
  file_tx :: chan

text \<open>
  The two ends of a channel carry the same number. The kernel keeps the sending ends of the four service channels and hands
  the receiving ends to its caller.
\<close>

definition Kernel_new ::
    "LockedBus \<Rightarrow> chan \<Rightarrow> chan \<Rightarrow> chan \<Rightarrow> chan \<Rightarrow> chan \<Rightarrow> (Kernel \<times> chan \<times> chan \<times> chan \<times> chan) \<times> LockedBus" where
  "Kernel_new b rx p i m f =
     (case bus_subscribe b rx of
        (b', receiver) \<Rightarrow>
          ((\<lparr>kernel_rx = receiver, process_tx = p, intr_tx = i, memory_tx = m, file_tx = f\<rparr>, p, i, m, f), b'))"

definition route :: "Kernel \<Rightarrow> Envelope \<Rightarrow> (chan \<times> Envelope) list" where
  "route k e =
     (case message e of
        InterruptMsg _ \<Rightarrow> [(intr_tx k, e)]
      | ProcessMsg _ \<Rightarrow> [(process_tx k, e)]
      | SyscallMsg _ \<Rightarrow> [(process_tx k, e)]
      | MemoryMsg _ \<Rightarrow> [(memory_tx k, e)]
      | FileMsg _ \<Rightarrow> [(file_tx k, e)]
      | DeviceMsg _ \<Rightarrow> [])"

text \<open>The dispatch loop, on the envelopes received until the bus disconnects.\<close>

fun kernel_run :: "Kernel \<Rightarrow> Envelope list \<Rightarrow> (chan \<times> Envelope) list" where
  "kernel_run k [] = []"
| "kernel_run k (e # es) = route k e @ kernel_run k es"

section \<open>Properties\<close>

definition sent_to :: "chan \<Rightarrow> (chan \<times> 'a) list \<Rightarrow> 'a list" where
  "sent_to ch evs = map snd (filter (\<lambda>ev. fst ev = ch) evs)"

lemma sent_to_Nil [simp]: "sent_to ch [] = []"
  by (simp add: sent_to_def)

lemma sent_to_Cons [simp]: "sent_to ch ((c, x) # evs) = (if c = ch then x # sent_to ch evs else sent_to ch evs)"
  by (simp add: sent_to_def)

lemma sent_to_append [simp]: "sent_to ch (xs @ ys) = sent_to ch xs @ sent_to ch ys"
  by (simp add: sent_to_def)

definition for_process :: "Envelope \<Rightarrow> bool" where
  "for_process e = (case message e of ProcessMsg _ \<Rightarrow> True | SyscallMsg _ \<Rightarrow> True | _ \<Rightarrow> False)"

definition for_interrupt :: "Envelope \<Rightarrow> bool" where
  "for_interrupt e = (case message e of InterruptMsg _ \<Rightarrow> True | _ \<Rightarrow> False)"

definition for_memory :: "Envelope \<Rightarrow> bool" where
  "for_memory e = (case message e of MemoryMsg _ \<Rightarrow> True | _ \<Rightarrow> False)"

definition for_file :: "Envelope \<Rightarrow> bool" where
  "for_file e = (case message e of FileMsg _ \<Rightarrow> True | _ \<Rightarrow> False)"

definition for_device :: "Envelope \<Rightarrow> bool" where
  "for_device e = (case message e of DeviceMsg _ \<Rightarrow> True | _ \<Rightarrow> False)"

lemmas for_defs = for_process_def for_interrupt_def for_memory_def for_file_def for_device_def

text \<open>
  The kernel routes every envelope to exactly one service and keeps their order: what it sends to the
  process, interrupt, memory and file channels are the received envelopes for that service, unchanged and
  in the order received, and it sends nothing else; device envelopes are the only ones it drops.
\<close>

theorem kernel_routing:
  assumes "distinct [process_tx k, intr_tx k, memory_tx k, file_tx k]"
  shows "sent_to (process_tx k) (kernel_run k es) = filter for_process es \<and>
         sent_to (intr_tx k) (kernel_run k es) = filter for_interrupt es \<and>
         sent_to (memory_tx k) (kernel_run k es) = filter for_memory es \<and>
         sent_to (file_tx k) (kernel_run k es) = filter for_file es \<and>
         map snd (kernel_run k es) = filter (\<lambda>e. \<not> for_device e) es"
proof (induction es)
  case (Cons e es)
  then show ?case using assms by (cases "message e") (simp_all add: route_def for_defs)
qed simp

theorem kernel_routing_witness:
  "sent_to 2 (kernel_run \<lparr>kernel_rx = 4, process_tx = 0, intr_tx = 1, memory_tx = 2, file_tx = 3\<rparr>
      [fire_and_forget (MemoryMsg GetFrameMap), fire_and_forget (InterruptMsg TimerInterrupt)]) =
   [fire_and_forget (MemoryMsg GetFrameMap)]"
proof -
  let ?k = "\<lparr>kernel_rx = 4, process_tx = 0, intr_tx = 1, memory_tx = 2, file_tx = 3\<rparr>"
  have "distinct [process_tx ?k, intr_tx ?k, memory_tx ?k, file_tx ?k]" by simp
  from kernel_routing [OF this, of "[fire_and_forget (MemoryMsg GetFrameMap), fire_and_forget (InterruptMsg TimerInterrupt)]"]
  show ?thesis by (simp add: for_defs fire_and_forget_def)
qed

text \<open>
  A response reaches the requester it belongs to: when a request is sent on a bus whose subscribers
  include the kernel, routed, and answered by the service that receives it, the answer goes to the
  requester's own channel and carries the identifier drawn for this request, whatever the answer is.
\<close>

theorem request_response_matched:
  assumes "subscribers b \<noteq> []" "bus_send_request b msg next_id tx = ((r, evs), next_id')"
    and "(krx, e) \<in> set evs" "(ch, e') \<in> set (route k e)" "connected ce tx"
  shows "r = Inr tx \<and> e' = e \<and> message e = msg \<and> expects_response e' \<and> next_id' = next_id + 1 \<and>
         respond_success ce e' data = (Inr (), [(tx, ResponseSuccess next_id data)]) \<and>
         respond_error ce e' err = (Inr (), [(tx, ResponseError next_id err)])"
  using assms
  by (auto simp: bus_send_request_def with_response_def generate_request_id_def route_def expects_response_def
      respond_success_def respond_error_def send_response_def split: KernelMsg.splits)

theorem request_response_matched_witness:
  "respond_success \<lparr>connected = (\<lambda>_. True), send_error_text = []\<rparr>
     \<lparr>message = MemoryMsg GetFrameMap, request_id = Some 1, response_channel = Some 9\<rparr> Void =
   (Inr (), [(9, ResponseSuccess 1 Void)])"
  using request_response_matched
    [of "\<lparr>subscribers = [5]\<rparr>" "MemoryMsg GetFrameMap" 1 9 "Inr 9"
      "[(5, \<lparr>message = MemoryMsg GetFrameMap, request_id = Some 1, response_channel = Some 9\<rparr>)]" 2 5
      "\<lparr>message = MemoryMsg GetFrameMap, request_id = Some 1, response_channel = Some 9\<rparr>" 2
      "\<lparr>message = MemoryMsg GetFrameMap, request_id = Some 1, response_channel = Some 9\<rparr>"
      "\<lparr>kernel_rx = 4, process_tx = 0, intr_tx = 1, memory_tx = 2, file_tx = 3\<rparr>"
      "\<lparr>connected = (\<lambda>_. True), send_error_text = []\<rparr>" Void "MsgIo []"]
  by (simp add: bus_send_request_def with_response_def generate_request_id_def route_def)

end
