(* ===== verification/Service_Loop.thy ===== *)
theory Service_Loop
  imports Bus_Kernel
begin

text \<open>
  The loop that the memory, file and process services share: receive an envelope, handle it, go on. A handler
  returns the responses it sends and the new state, or \<open>None\<close> when it never returns normally. The locale
  states what a handler owes its requesters; its client lemma carries this over to every run of the loop.
\<close>

section \<open>Who is asking\<close>

definition asks :: "ChanEnv \<Rightarrow> Envelope \<Rightarrow> chan \<Rightarrow> u64 \<Rightarrow> bool" where
  "asks ce env c i \<longleftrightarrow> request_id env = Some i \<and> response_channel env = Some c \<and> connected ce c"

lemma response_request_id_simps [simp]:
  "response_request_id (ResponseSuccess i d) = i" "response_request_id (ResponseError i e) = i"
  by (simp_all add: response_request_id_def)

lemma send_response_asks:
  assumes "\<And>i. response_request_id (mk i) = i"
  shows "list_all (\<lambda>(c, resp). asks ce env c (response_request_id resp)) (snd (send_response ce env mk))"
    "asks ce env c i \<Longrightarrow> snd (send_response ce env mk) \<noteq> []"
  using assms by (auto simp: send_response_def asks_def split: option.split)

lemma respond_asks:
  shows "list_all (\<lambda>(c, resp). asks ce env c (response_request_id resp)) (snd (respond_success ce env d))"
    "list_all (\<lambda>(c, resp). asks ce env c (response_request_id resp)) (snd (respond_error ce env e))"
    "asks ce env c i \<Longrightarrow> snd (respond_success ce env d) \<noteq> []" "asks ce env c i \<Longrightarrow> snd (respond_error ce env e) \<noteq> []"
  by (simp_all add: respond_success_def respond_error_def send_response_asks)

lemmas ok_asks = respond_asks(1,3) [folded ok_success_def] respond_asks(2,4) [folded ok_error_def]

lemma ok_error_addressed: "(c, resp) \<in> set (ok_error ce env e) \<Longrightarrow> asks ce env c (response_request_id resp)"
  using ok_asks(3) [of ce env e] by (auto simp: list_all_iff)

lemma respond_pair_asks:
  assumes "respond_success ce env d = (r, out) \<or> respond_error ce env e = (r, out)"
  shows "list_all (\<lambda>(c, resp). asks ce env c (response_request_id resp)) out" "asks ce env c i \<Longrightarrow> out \<noteq> []"
  using assms respond_asks [of ce env] by (metis snd_conv)+

section \<open>The loop\<close>

fun serve :: "('e \<Rightarrow> 's \<Rightarrow> (responses \<times> 's) option) \<Rightarrow> 'e list \<Rightarrow> 's \<Rightarrow> (responses \<times> 's) option" where
  "serve h [] s = Some ([], s)"
| "serve h (e # es) s =
     (case h e s of
        None \<Rightarrow> None
      | Some (out, s') \<Rightarrow> map_option (\<lambda>(outs, t). (out @ outs, t)) (serve h es s'))"

text \<open>
  An event is an envelope with what else the handler depends on. What requesters may rely on: an event that the
  service owes an answer is answered, on the channel and with the number of the request. It carries over to runs.
\<close>

locale responding_service =
  fixes ce :: ChanEnv
    and h :: "'e \<Rightarrow> 's \<Rightarrow> (responses \<times> 's) option"
    and env_of :: "'e \<Rightarrow> Envelope"
    and owes :: "'e \<Rightarrow> bool"
  assumes handler_answers: "h e s = Some (out, s') \<Longrightarrow> owes e \<Longrightarrow> asks ce (env_of e) c i \<Longrightarrow>
      \<exists>resp. (c, resp) \<in> set out \<and> response_request_id resp = i"
begin

lemma serve_answers:
  "serve h es s = Some (out, t) \<Longrightarrow> e \<in> set es \<Longrightarrow> owes e \<Longrightarrow> asks ce (env_of e) c i \<Longrightarrow>
   \<exists>resp. (c, resp) \<in> set out \<and> response_request_id resp = i"
proof (induction es arbitrary: s out)
  case (Cons e' es)
  obtain out1 s1 where h: "h e' s = Some (out1, s1)" using Cons.prems(1) by (cases "h e' s") auto
  then obtain out2 where run: "serve h es s1 = Some (out2, t)" "out = out1 @ out2" using Cons.prems(1) by auto
  show ?case
  proof (cases "e = e'")
    case True
    then show ?thesis using handler_answers [OF h] Cons.prems(3,4) run(2) by auto
  next
    case False
    then show ?thesis using Cons.IH [OF run(1)] Cons.prems run(2) by auto
  qed
qed simp

end

text \<open>
  A stronger contract: the handler responds only to a request of the service's own kind, on the channel and with the id of that
  request, and responds at least once.
\<close>

locale answering_service =
  fixes ce :: ChanEnv
    and h :: "'e \<Rightarrow> 's \<Rightarrow> (responses \<times> 's) option"
    and env_of :: "'e \<Rightarrow> Envelope"
    and mine :: "KernelMsg \<Rightarrow> bool"
  assumes handler_addressed: "h e s = Some (out, s') \<Longrightarrow> (c, resp) \<in> set out \<Longrightarrow>
      mine (message (env_of e)) \<and> asks ce (env_of e) c (response_request_id resp)"
    and handler_responds: "h e s = Some (out, s') \<Longrightarrow> mine (message (env_of e)) \<Longrightarrow> asks ce (env_of e) c i \<Longrightarrow> out \<noteq> []"
begin

lemma serve_addressed:
  "serve h es s = Some (out, t) \<Longrightarrow> (c, resp) \<in> set out \<Longrightarrow>
   \<exists>e \<in> set es. mine (message (env_of e)) \<and> asks ce (env_of e) c (response_request_id resp)"
proof (induction es arbitrary: s out)
  case (Cons e es)
  obtain out1 s1 where h: "h e s = Some (out1, s1)" using Cons.prems(1) by (cases "h e s") auto
  then obtain out2 where run: "serve h es s1 = Some (out2, t)" "out = out1 @ out2" using Cons.prems(1) by auto
  show ?case
  proof (cases "(c, resp) \<in> set out1")
    case True
    then show ?thesis using handler_addressed [OF h] by auto
  next
    case False
    then show ?thesis using Cons.IH [OF run(1)] Cons.prems(2) run(2) by auto
  qed
qed simp

end

sublocale answering_service \<subseteq> responding_service ce h env_of "\<lambda>e. mine (message (env_of e))"
proof
  fix e s out s' c i
  assume h: "h e s = Some (out, s')" "mine (message (env_of e))" "asks ce (env_of e) c i"
  obtain c' resp where r: "(c', resp) \<in> set out" using handler_responds [OF h] by (cases out) auto
  with handler_addressed [OF h(1) r] h(3) show "\<exists>resp. (c, resp) \<in> set out \<and> response_request_id resp = i"
    by (auto simp: asks_def)
qed

end
