(* ===== verification/File_Service.thy ===== *)
theory File_Service
  imports VFS Descriptor Service_Loop "HOL-Library.List_Lexorder" "HOL-Library.Char_ord"
begin

text \<open>
  The file service (\<^verbatim>\<open>src/services/file/service.rs\<close>): opening, reading, writing and closing through
  descriptors, directory operations by path, the import of host files, the dispatch of requests and
  the service loop. File objects are kept in a list that the descriptors and the table of open files
  refer to. The handlers run one at a time in the service's thread. A handler that panics, or that blocks
  on a lock it holds, is the outcome \<open>FsStopped\<close>.
\<close>

section \<open>State\<close>

record FileService =
  fs_vfs :: VirtualFileSystem
  fd_manager :: FileDescriptorManager
  fs_files :: "File list"
  open_files :: "u64 \<rightharpoonup> file_ref"
  fs_disk :: VirtualDisk

text \<open>The orders in which the hash maps of the state deliver their keys.\<close>

record FsEnv =
  fd_order :: "(fd \<rightharpoonup> OpenFile) \<Rightarrow> fd list"
  name_order :: "(string \<rightharpoonup> u64) \<Rightarrow> string list"

datatype FsResult =
    FsDone "(GenshinError, unit) result" responses FileService
  | FsStopped

text \<open>Creation, from the texts of the host's two files; a disk of fewer than eight sectors panics.\<close>

definition FileService_new ::
  "('json \<Rightarrow> SavedNode list option) \<Rightarrow> 'json option \<Rightarrow> fd \<Rightarrow> nat \<Rightarrow> u8 list \<Rightarrow> FileService option" where
  "FileService_new de txt mx disk_size img =
     map_option (\<lambda>d. \<lparr>fs_vfs = (case load_from_file de txt of None \<Rightarrow> VirtualFileSystem_new | Some v \<Rightarrow> v),
                      fd_manager = FileDescriptorManager_new mx, fs_files = [], open_files = Map.empty, fs_disk = d\<rparr>)
       (VirtualDisk_new (of_nat (disk_size div 512)) img)"

section \<open>Helpers\<close>

definition path_invalid :: "string \<Rightarrow> GenshinError" where
  "path_invalid reason = ServiceE (InvalidArguments ''path'' reason)"

fun join_slash :: "string list \<Rightarrow> string" where
  "join_slash [] = []"
| "join_slash [s] = s"
| "join_slash (s # ss) = s @ CHR 0x2F # join_slash ss"

definition split_path :: "string \<Rightarrow> (GenshinError, string \<times> string) result" where
  "split_path p =
     (if p = [] then Inl (path_invalid ''Path cannot be empty'')
      else let parts = path_components p in
        if parts = [] then Inr ([CHR 0x2F], [CHR 0x2F])
        else Inr (if length parts > 1 then CHR 0x2F # join_slash (butlast parts) else [CHR 0x2F], last parts))"

definition open_flags_to_mode :: "OpenFlags \<Rightarrow> OpenMode" where
  "open_flags_to_mode fl =
     (if of_read fl \<and> of_write fl then ModeReadWrite
      else if of_write fl then ModeWrite
      else if of_append fl then ModeAppend
      else ModeRead)"

text \<open>\<^verbatim>\<open>rfind\<close>: the position of the last occurrence.\<close>

definition rfind :: "char \<Rightarrow> string \<Rightarrow> nat option" where
  "rfind c s = map_option (\<lambda>k. length s - Suc k) (position ((=) c) (rev s))"

definition open_split :: "string \<Rightarrow> (string \<times> string) option" where
  "open_split p =
     (case rfind (CHR 0x2F) p of
        None \<Rightarrow> None
      | Some pos \<Rightarrow> if pos = 0 then Some ([CHR 0x2F], drop 1 p) else Some (take pos p, drop (pos + 1) p))"

section \<open>Opening\<close>

text \<open>
  Finding or creating the node to open. The second component of an error is what the variant that responds
  sends for it.
\<close>

definition open_node ::
  "pid \<Rightarrow> string \<Rightarrow> OpenFlags \<Rightarrow> VirtualFileSystem \<Rightarrow> (GenshinError \<times> MsgServiceError, VFSNode) result \<times> VirtualFileSystem" where
  "open_node p path fl v =
     (case (case lookup_path path v of
              Inr n \<Rightarrow> (Inr n, v)
            | Inl e \<Rightarrow>
               if \<not> of_create fl then (Inl (e, MsgNotFound ''File'' path), v)
               else case open_split path of
                      None \<Rightarrow> (Inl (path_invalid ''Cannot create root as file'', MsgInvalidArguments ''Cannot create root as file''), v)
                    | Some (parent_path, nm) \<Rightarrow>
                       (case lookup_path parent_path v of
                          Inl _ \<Rightarrow> (Inl (ServiceE (NotFound ''Parent directory'' parent_path),
                                         MsgNotFound ''Parent directory'' parent_path), v)
                        | Inr parent \<Rightarrow>
                           (case create_file (vn_inode parent) nm p v of
                              (Inl e, v') \<Rightarrow> (Inl (e, MsgOther 21 (genshin_error_fmt e)), v')
                            | (Inr _, v') \<Rightarrow> (map_err (\<lambda>e. (e, MsgNotFound ''File'' path)) (lookup_path path v'), v')))) of
        (Inl e, v') \<Rightarrow> (Inl e, v')
      | (Inr n, v') \<Rightarrow>
          (if is_file n then Inr n else Inl (path_invalid ''Not a file'', MsgInvalidArguments ''Not a file''), v'))"

text \<open>
  The file object of an inode: the cached one, rewound and switched to the new mode for all who share it,
  or a new one with the contents that its blocks hold.
\<close>

definition load_object :: "pid \<Rightarrow> string \<Rightarrow> OpenMode \<Rightarrow> u64 \<Rightarrow> VirtualFileSystem \<Rightarrow> VirtualDisk \<Rightarrow> File" where
  "load_object p path md ino v d =
     (let f = File_new ino path p md in
      case vfs_lookup ino v of
        None \<Rightarrow> f
      | Some vn \<Rightarrow>
         (case vn_blocks vn of
            [] \<Rightarrow> f
          | b # _ \<Rightarrow>
             snd (load_from_disk d (f\<lparr>f_start_sector := Some (ucast b), f_sector_count := of_nat (length (vn_blocks vn)),
                                     f_metadata := (f_metadata f)\<lparr>meta_size := vn_size vn\<rparr>\<rparr>))))"

definition file_object :: "pid \<Rightarrow> string \<Rightarrow> OpenMode \<Rightarrow> u64 \<Rightarrow> FileService \<Rightarrow> file_ref \<times> FileService" where
  "file_object p path md ino s =
     (case open_files s ino of
        Some r \<Rightarrow> (r, s\<lparr>fs_files := (fs_files s)[r := (fs_files s ! r)\<lparr>f_mode := md, f_position := 0, f_eof := False\<rparr>]\<rparr>)
      | None \<Rightarrow>
         (let r = length (fs_files s) in
          (r, s\<lparr>fs_files := fs_files s @ [load_object p path md ino (fs_vfs s) (fs_disk s)],
                open_files := (open_files s)(ino \<mapsto> r)\<rparr>)))"

definition open_descriptor :: "pid \<Rightarrow> string \<Rightarrow> OpenFlags \<Rightarrow> VFSNode \<Rightarrow> FileService \<Rightarrow> (GenshinError, fd) result \<times> FileService" where
  "open_descriptor p path fl n s =
     (case file_object p path (open_flags_to_mode fl) (vn_inode n) s of
        (r, s1) \<Rightarrow>
          (case fdm_allocate p r 0 (fd_manager s1) of (res, m) \<Rightarrow> (res, s1\<lparr>fd_manager := m\<rparr>)))"

definition handle_open :: "pid \<Rightarrow> string \<Rightarrow> OpenFlags \<Rightarrow> FileService \<Rightarrow> (GenshinError, unit) result \<times> FileService" where
  "handle_open p path fl s =
     (case open_node p path fl (fs_vfs s) of
        (Inl (e, _), v) \<Rightarrow> (Inl e, s\<lparr>fs_vfs := v\<rparr>)
      | (Inr n, v) \<Rightarrow>
         (case open_descriptor p path fl n (s\<lparr>fs_vfs := v\<rparr>) of (res, s') \<Rightarrow> (rbind res (\<lambda>_. Inr ()), s')))"

definition handle_open_with_response :: "ChanEnv \<Rightarrow> Envelope \<Rightarrow> pid \<Rightarrow> string \<Rightarrow> OpenFlags \<Rightarrow> FileService \<Rightarrow> FsResult" where
  "handle_open_with_response ce env p path fl s =
     (case open_node p path fl (fs_vfs s) of
        (Inl (e, m), v) \<Rightarrow> FsDone (Inl e) (ok_error ce env m) (s\<lparr>fs_vfs := v\<rparr>)
      | (Inr n, v) \<Rightarrow>
         (case open_descriptor p path fl n (s\<lparr>fs_vfs := v\<rparr>) of
            (Inl e, s') \<Rightarrow> FsDone (Inl e) [] s'
          | (Inr k, s') \<Rightarrow> FsDone (Inr ()) (ok_success ce env (RFd k)) s'))"

section \<open>Closing, reading, writing\<close>

definition handle_close :: "pid \<Rightarrow> fd \<Rightarrow> FileService \<Rightarrow> (GenshinError, unit) result \<times> FileService" where
  "handle_close p k s = (case fdm_close p k (fd_manager s) of (res, m) \<Rightarrow> (res, s\<lparr>fd_manager := m\<rparr>))"

text \<open>The responding variant saves a changed file first; a failure to save is only printed.\<close>

definition sync_before_close :: "pid \<Rightarrow> fd \<Rightarrow> FileService \<Rightarrow> FileService" where
  "sync_before_close p k s =
     (case fdm_get p k (fd_manager s) of
        None \<Rightarrow> s
      | Some of' \<Rightarrow>
         (let r = open_file of'; f = fs_files s ! r in
          if f_dirty f
          then (case sync_to_disk f (fs_disk s) of (_, f', d') \<Rightarrow> s\<lparr>fs_files := (fs_files s)[r := f'], fs_disk := d'\<rparr>)
          else s))"

definition handle_close_with_response :: "ChanEnv \<Rightarrow> Envelope \<Rightarrow> pid \<Rightarrow> fd \<Rightarrow> FileService \<Rightarrow> FsResult" where
  "handle_close_with_response ce env p k s =
     (case handle_close p k (sync_before_close p k s) of
        (Inl e, s') \<Rightarrow> FsDone (Inl e) [] s'
      | (Inr _, s') \<Rightarrow> FsDone (Inr ()) (ok_success ce env Void) s')"

text \<open>Reading and writing through a descriptor; the outer option is the panic.\<close>

definition read_fd :: "pid \<Rightarrow> fd \<Rightarrow> nat \<Rightarrow> FileService \<Rightarrow> ((GenshinError, u8 list) result \<times> FileService) option" where
  "read_fd p k cnt s =
     (case fdm_get p k (fd_manager s) of
        None \<Rightarrow> Some (Inl (fd_not_found k), s)
      | Some of' \<Rightarrow> map_option (\<lambda>(res, fs). (res, s\<lparr>fs_files := fs\<rparr>)) (openfile_read of' cnt (fs_files s)))"

definition block_list :: "u32 \<Rightarrow> u32 \<Rightarrow> u64 list" where
  "block_list start cnt = map (\<lambda>i. ucast (start + of_nat i)) [0..<unat cnt]"

text \<open>Recording in the node where the file now is on the disk.\<close>

definition record_blocks :: "u64 \<Rightarrow> u64 \<Rightarrow> File \<Rightarrow> VirtualFileSystem \<Rightarrow> VirtualFileSystem" where
  "record_blocks ino sz f v =
     (case (f_start_sector f, vfs_lookup ino v) of
        (Some start, Some vn) \<Rightarrow>
          v\<lparr>nodes := (nodes v)(ino \<mapsto> vn\<lparr>vn_size := sz, vn_blocks := block_list start (f_sector_count f)\<rparr>)\<rparr>
      | _ \<Rightarrow> v)"

definition write_fd :: "pid \<Rightarrow> fd \<Rightarrow> u8 list \<Rightarrow> FileService \<Rightarrow> ((GenshinError, nat) result \<times> FileService) option" where
  "write_fd p k bs s =
     (case fdm_get p k (fd_manager s) of
        None \<Rightarrow> Some (Inl (fd_not_found k), s)
      | Some of' \<Rightarrow>
         (case openfile_write of' bs (fs_files s) of
            None \<Rightarrow> None
          | Some (Inl e, fs) \<Rightarrow> Some (Inl e, s\<lparr>fs_files := fs\<rparr>)
          | Some (Inr written, fs) \<Rightarrow>
             (let r = open_file of'; f = fs ! r in
              case sync_to_disk f (fs_disk s) of
                (res, f', d') \<Rightarrow>
                  Some (Inr written,
                    s\<lparr>fs_files := fs[r := f'], fs_disk := d',
                      fs_vfs := (if is_ok res then record_blocks (f_inode f) (of_nat (length (f_data f'))) f' (fs_vfs s)
                                 else fs_vfs s)\<rparr>))))"

definition handle_read :: "pid \<Rightarrow> fd \<Rightarrow> nat \<Rightarrow> FileService \<Rightarrow> ((GenshinError, unit) result \<times> FileService) option" where
  "handle_read p k cnt s = map_option (\<lambda>(res, s'). (rbind res (\<lambda>_. Inr ()), s')) (read_fd p k cnt s)"

definition handle_write :: "pid \<Rightarrow> fd \<Rightarrow> u8 list \<Rightarrow> FileService \<Rightarrow> ((GenshinError, unit) result \<times> FileService) option" where
  "handle_write p k bs s = map_option (\<lambda>(res, s'). (rbind res (\<lambda>_. Inr ()), s')) (write_fd p k bs s)"

text \<open>The responding variants send the error of an unknown descriptor themselves, other errors not.\<close>

definition respond_io ::
  "ChanEnv \<Rightarrow> Envelope \<Rightarrow> bool \<Rightarrow> fd \<Rightarrow> ('a \<Rightarrow> ResponseData) \<Rightarrow> ((GenshinError, 'a) result \<times> FileService) option \<Rightarrow> FsResult" where
  "respond_io ce env known k mk o' =
     (case o' of
        None \<Rightarrow> FsStopped
      | Some (Inl e, s') \<Rightarrow>
          FsDone (Inl e) (if known then [] else ok_error ce env (MsgNotFound ''File descriptor'' (show_dec (unat k)))) s'
      | Some (Inr x, s') \<Rightarrow> FsDone (Inr ()) (ok_success ce env (mk x)) s')"

definition handle_read_with_response :: "ChanEnv \<Rightarrow> Envelope \<Rightarrow> pid \<Rightarrow> fd \<Rightarrow> nat \<Rightarrow> FileService \<Rightarrow> FsResult" where
  "handle_read_with_response ce env p k cnt s =
     respond_io ce env (fdm_get p k (fd_manager s) \<noteq> None) k RBytes (read_fd p k cnt s)"

definition handle_write_with_response :: "ChanEnv \<Rightarrow> Envelope \<Rightarrow> pid \<Rightarrow> fd \<Rightarrow> u8 list \<Rightarrow> FileService \<Rightarrow> FsResult" where
  "handle_write_with_response ce env p k bs s =
     respond_io ce env (fdm_get p k (fd_manager s) \<noteq> None) k BytesProcessed (write_fd p k bs s)"

text \<open>Seeking; signed offsets are added modulo \<open>2 ^ 64\<close>.\<close>

definition handle_seek :: "pid \<Rightarrow> fd \<Rightarrow> u64 \<Rightarrow> SeekWhence \<Rightarrow> FileService \<Rightarrow> (GenshinError, unit) result \<times> FileService" where
  "handle_seek p k off wh s =
     (case fdm_get p k (fd_manager s) of
        None \<Rightarrow> (Inl (fd_not_found k), s)
      | Some of' \<Rightarrow>
         (let f = fs_files s ! open_file of';
              pos = (case wh of SeekSet \<Rightarrow> off | SeekCur \<Rightarrow> f_position f + off | SeekEnd \<Rightarrow> file_size f + off) in
          (Inr (), s\<lparr>fs_files := snd (openfile_seek of' pos (fs_files s))\<rparr>)))"

definition handle_dup :: "pid \<Rightarrow> fd \<Rightarrow> FileService \<Rightarrow> (GenshinError, unit) result \<times> FileService" where
  "handle_dup p old s =
     (case fdm_dup p old (fd_manager s) of (res, m) \<Rightarrow> (rbind res (\<lambda>_. Inr ()), s\<lparr>fd_manager := m\<rparr>))"

definition handle_dup2 :: "pid \<Rightarrow> fd \<Rightarrow> fd \<Rightarrow> FileService \<Rightarrow> (GenshinError, unit) result \<times> FileService" where
  "handle_dup2 p old new s = (Inr (), s)"

section \<open>Operations by path\<close>

definition make_node :: "NodeType \<Rightarrow> pid \<Rightarrow> string \<Rightarrow> FileService \<Rightarrow> (GenshinError, unit) result \<times> FileService" where
  "make_node ty p path s =
     (case split_path path of
        Inl e \<Rightarrow> (Inl e, s)
      | Inr (parent_path, nm) \<Rightarrow>
         (case lookup_path parent_path (fs_vfs s) of
            Inl e \<Rightarrow> (Inl e, s)
          | Inr parent \<Rightarrow>
             if \<not> is_directory parent then (Inl (path_invalid ''Parent is not a directory''), s)
             else (case create_node ty (vn_inode parent) nm p (fs_vfs s) of
                     (res, v) \<Rightarrow> (rbind res (\<lambda>_. Inr ()), s\<lparr>fs_vfs := v\<rparr>))))"

definition handle_create :: "pid \<Rightarrow> string \<Rightarrow> FileService \<Rightarrow> (GenshinError, unit) result \<times> FileService" where
  "handle_create = make_node NodeFile"

definition handle_mkdir :: "pid \<Rightarrow> string \<Rightarrow> FileService \<Rightarrow> (GenshinError, unit) result \<times> FileService" where
  "handle_mkdir = make_node NodeDirectory"

definition delete_node :: "u64 \<Rightarrow> FileService \<Rightarrow> ((GenshinError, unit) result \<times> FileService) option" where
  "delete_node ino s = map_option (\<lambda>(res, v). (res, s\<lparr>fs_vfs := v\<rparr>)) (vfs_delete ino (fs_vfs s))"

definition handle_delete :: "pid \<Rightarrow> string \<Rightarrow> FileService \<Rightarrow> ((GenshinError, unit) result \<times> FileService) option" where
  "handle_delete p path s =
     (case lookup_path path (fs_vfs s) of
        Inl e \<Rightarrow> Some (Inl e, s)
      | Inr n \<Rightarrow> delete_node (vn_inode n) s)"

definition handle_rmdir :: "pid \<Rightarrow> string \<Rightarrow> FileService \<Rightarrow> ((GenshinError, unit) result \<times> FileService) option" where
  "handle_rmdir p path s =
     (case lookup_path path (fs_vfs s) of
        Inl e \<Rightarrow> Some (Inl e, s)
      | Inr n \<Rightarrow>
         if \<not> is_directory n then Some (Inl (path_invalid ''Not a directory''), s)
         else if vn_children n \<noteq> Map.empty then Some (Inl (path_invalid ''Directory not empty''), s)
         else delete_node (vn_inode n) s)"

definition handle_stat :: "pid \<Rightarrow> string \<Rightarrow> FileService \<Rightarrow> (GenshinError, unit) result" where
  "handle_stat p path s = rbind (lookup_path path (fs_vfs s)) (\<lambda>_. Inr ())"

definition handle_listdir :: "pid \<Rightarrow> string \<Rightarrow> FileService \<Rightarrow> (GenshinError, unit) result" where
  "handle_listdir p path s =
     rbind (lookup_path path (fs_vfs s)) (\<lambda>n. if is_directory n then Inr () else Inl (path_invalid ''Not a directory''))"

definition handle_listdir_with_response :: "FsEnv \<Rightarrow> pid \<Rightarrow> string \<Rightarrow> FileService \<Rightarrow> (GenshinError, string list) result" where
  "handle_listdir_with_response fe p path s =
     rbind (lookup_path path (fs_vfs s)) (\<lambda>n.
       if is_directory n then Inr (sort (name_order fe (vn_children n))) else Inl (path_invalid ''Not a directory''))"

definition clone_descriptors :: "FsEnv \<Rightarrow> pid \<Rightarrow> pid \<Rightarrow> FileService \<Rightarrow> FileService" where
  "clone_descriptors fe from_pid to_pid s =
     s\<lparr>fd_manager := clone_fds (case process_tables (fd_manager s) from_pid of None \<Rightarrow> [] | Some t \<Rightarrow> fd_order fe (descriptors t))
                       from_pid to_pid (fd_manager s)\<rparr>"

section \<open>Dispatch\<close>

text \<open>Requests carry no process: every one is handled as process 0.\<close>

definition handle_file_request :: "FsEnv \<Rightarrow> FileRequest \<Rightarrow> FileService \<Rightarrow> ((GenshinError, unit) result \<times> FileService) option" where
  "handle_file_request fe req s =
     (case req of
        FileOpen path fl \<Rightarrow> Some (handle_open 0 path fl s)
      | FileClose k \<Rightarrow> Some (handle_close 0 k s)
      | FileRead k _ _ sz \<Rightarrow> handle_read 0 k sz s
      | FileWrite k _ _ sz \<Rightarrow> handle_write 0 k (replicate sz 0) s
      | WriteData k bs \<Rightarrow> handle_write 0 k bs s
      | Unlink path \<Rightarrow> handle_delete 0 path s
      | Stat path \<Rightarrow> Some (handle_stat 0 path s, s)
      | CreateDirectory path \<Rightarrow> Some (handle_mkdir 0 path s)
      | RemoveDirectory path \<Rightarrow> handle_rmdir 0 path s
      | OpenDirectory path \<Rightarrow> Some (handle_listdir 0 path s, s)
      | CloneFds q p \<Rightarrow> Some (Inr (), clone_descriptors fe q p s)
      | _ \<Rightarrow> Some (Inr (), s))"

text \<open>A handler without a response of its own, followed by an empty success.\<close>

definition then_void :: "ChanEnv \<Rightarrow> Envelope \<Rightarrow> ((GenshinError, unit) result \<times> FileService) option \<Rightarrow> FsResult" where
  "then_void ce env o' =
     (case o' of
        None \<Rightarrow> FsStopped
      | Some (Inl e, s') \<Rightarrow> FsDone (Inl e) [] s'
      | Some (Inr _, s') \<Rightarrow> FsDone (Inr ()) (ok_success ce env Void) s')"

definition handle_file_request_with_response :: "ChanEnv \<Rightarrow> FsEnv \<Rightarrow> Envelope \<Rightarrow> FileRequest \<Rightarrow> FileService \<Rightarrow> FsResult" where
  "handle_file_request_with_response ce fe env req s =
     (case req of
        FileOpen path fl \<Rightarrow> handle_open_with_response ce env 0 path fl s
      | FileClose k \<Rightarrow> handle_close_with_response ce env 0 k s
      | FileRead k _ _ sz \<Rightarrow> handle_read_with_response ce env 0 k sz s
      | FileWrite k _ _ sz \<Rightarrow> handle_write_with_response ce env 0 k (replicate sz 0) s
      | WriteData k bs \<Rightarrow> handle_write_with_response ce env 0 k bs s
      | Unlink path \<Rightarrow> then_void ce env (handle_delete 0 path s)
      | Stat path \<Rightarrow> then_void ce env (Some (handle_stat 0 path s, s))
      | CreateDirectory path \<Rightarrow> then_void ce env (Some (handle_mkdir 0 path s))
      | RemoveDirectory path \<Rightarrow> then_void ce env (handle_rmdir 0 path s)
      | OpenDirectory path \<Rightarrow> then_void ce env (Some (handle_listdir 0 path s, s))
      | DiskInfo \<Rightarrow>
          (let st = disk_dump_state (fs_disk s) in
           FsDone (Inr ()) (ok_success ce env
             (DiskStats (ds_total_sectors st) (used_sectors_count (fs_disk s)) (of_nat (ds_total_bytes st)))) s)
      | ListDir path \<Rightarrow>
          (case handle_listdir_with_response fe 0 path s of
             Inr entries \<Rightarrow> FsDone (Inr ()) (ok_success ce env (StringList entries)) s
           | Inl e \<Rightarrow> FsDone (Inr ()) (ok_error ce env (MsgOther 50 (genshin_error_fmt e))) s)
      | CloneFds q p \<Rightarrow> FsDone (Inr ()) (ok_success ce env Void) (clone_descriptors fe q p s)
      | _ \<Rightarrow> FsDone (Inr ()) (ok_success ce env Void) s)"

definition fs_handle_envelope :: "ChanEnv \<Rightarrow> FsEnv \<Rightarrow> Envelope \<Rightarrow> FileService \<Rightarrow> FsResult" where
  "fs_handle_envelope ce fe env s =
     (case (case message env of
              FileMsg req \<Rightarrow>
                if expects_response env then handle_file_request_with_response ce fe env req s
                else (case handle_file_request fe req s of None \<Rightarrow> FsStopped | Some (r, s') \<Rightarrow> FsDone r [] s')
            | _ \<Rightarrow> FsDone (Inr ()) [] s) of
        FsStopped \<Rightarrow> FsStopped
      | FsDone (Inr _) out s' \<Rightarrow> FsDone (Inr ()) out s'
      | FsDone (Inl e) out s' \<Rightarrow>
          FsDone (Inr ())
            (out @ (if expects_response env then ok_error ce env (MsgOther 1 (genshin_error_fmt e)) else [])) s')"

section \<open>Import of host files and the service loop\<close>

text \<open>
  A host file is its name and, when it can be read, its contents. The node is found or created; a node that
  has blocks already is left alone.
\<close>

definition import_node :: "string \<Rightarrow> string \<Rightarrow> VirtualFileSystem \<Rightarrow> VFSNode option \<times> VirtualFileSystem" where
  "import_node vfs_dir fname v =
     (let path = vfs_dir @ CHR 0x2F # fname in
      case lookup_path path v of
        Inr n \<Rightarrow> (if vn_blocks n \<noteq> [] then None else Some n, v)
      | Inl _ \<Rightarrow>
         (case lookup_path vfs_dir v of
            Inl _ \<Rightarrow> (None, v)
          | Inr parent \<Rightarrow>
             (case create_file (vn_inode parent) fname 0 v of
                (Inl _, v') \<Rightarrow> (None, v')
              | (Inr _, v') \<Rightarrow> (case lookup_path path v' of Inl _ \<Rightarrow> (None, v') | Inr n \<Rightarrow> (Some n, v')))))"

definition ends_with :: "string \<Rightarrow> string \<Rightarrow> bool" where
  "ends_with suf s \<longleftrightarrow> strip_suffix suf s \<noteq> None"

definition import_one :: "string \<Rightarrow> string \<times> u8 list option \<Rightarrow> FileService \<Rightarrow> FileService option" where
  "import_one vfs_dir hf s =
     (case hf of
        (_, None) \<Rightarrow> Some s
      | (fname, Some content) \<Rightarrow>
         if \<not> ends_with ''.asm'' fname \<and> \<not> ends_with ''.txt'' fname then Some s
         else (case import_node vfs_dir fname (fs_vfs s) of
                 (None, v) \<Rightarrow> Some (s\<lparr>fs_vfs := v\<rparr>)
               | (Some n, v) \<Rightarrow>
                  (case file_write content (File_new (vn_inode n) (vfs_dir @ CHR 0x2F # fname) 0 ModeWrite) of
                     None \<Rightarrow> None
                   | Some (_, f) \<Rightarrow>
                      (case sync_to_disk f (fs_disk s) of
                         (_, f', d') \<Rightarrow>
                           Some (s\<lparr>fs_disk := d',
                                   fs_vfs := record_blocks (vn_inode n) (of_nat (length content)) f' v\<rparr>)))))"

fun import_host_files :: "string \<Rightarrow> (string \<times> u8 list option) list \<Rightarrow> FileService \<Rightarrow> FileService option" where
  "import_host_files vfs_dir [] s = Some s"
| "import_host_files vfs_dir (hf # hfs) s =
     (case import_one vfs_dir hf s of None \<Rightarrow> None | Some s' \<Rightarrow> import_host_files vfs_dir hfs s')"

definition fs_handle :: "ChanEnv \<Rightarrow> FsEnv \<Rightarrow> Envelope \<Rightarrow> FileService \<Rightarrow> (responses \<times> FileService) option" where
  "fs_handle ce fe env s =
     (case fs_handle_envelope ce fe env s of FsStopped \<Rightarrow> None | FsDone _ out s' \<Rightarrow> Some (out, s'))"

text \<open>
  The loop, until the bus is disconnected. After every envelope the tree is written to the host file; the
  last of these writes is the text that the next start loads.
\<close>

definition fs_run :: "ChanEnv \<Rightarrow> FsEnv \<Rightarrow> (string \<times> u8 list option) list \<Rightarrow> Envelope list \<Rightarrow> FileService \<Rightarrow> (responses \<times> FileService) option" where
  "fs_run ce fe hfs evs s =
     (case import_host_files ''/programs'' hfs s of None \<Rightarrow> None | Some s' \<Rightarrow> serve (fs_handle ce fe) evs s')"

record VfsStats =
  total_nodes :: nat

definition vfs_stats :: "FileService \<Rightarrow> VfsStats" where
  "vfs_stats s = \<lparr>total_nodes = node_count (fs_vfs s)\<rparr>"

definition fd_count :: "pid \<Rightarrow> FileService \<Rightarrow> nat" where
  "fd_count p s = fdm_count p (fd_manager s)"

section \<open>Path strings\<close>

lemma split_char_not_Nil [simp]: "split_char c s \<noteq> []"
  by (induction c s rule: split_char.induct) (auto split: list.splits)

lemma split_char_plain: "c \<notin> set w \<Longrightarrow> split_char c w = [w]"
  by (induction w) auto

lemma split_char_join: "c \<notin> set w \<Longrightarrow> split_char c (w @ c # s) = w # split_char c s"
  by (induction w) auto

lemma split_char_words: "w \<in> set (split_char c s) \<Longrightarrow> c \<notin> set w"
proof (induction c s arbitrary: w rule: split_char.induct)
  case (2 c x s)
  show ?case
  proof (cases "x = c")
    case False
    obtain u us where "split_char c s = u # us" by (cases "split_char c s") auto
    with 2 False show ?thesis by auto
  qed (use 2 in auto)
qed simp

definition is_component :: "string \<Rightarrow> bool" where
  "is_component w \<longleftrightarrow> w \<noteq> [] \<and> CHR 0x2F \<notin> set w"

lemma path_components_ok: "w \<in> set (path_components p) \<Longrightarrow> is_component w"
  using split_char_words by (auto simp: path_components_def is_component_def)

lemma path_components_slash [simp]: "path_components (CHR 0x2F # p) = path_components p"
  by (simp add: path_components_def)

lemma path_components_join: "\<forall>w \<in> set ws. is_component w \<Longrightarrow> path_components (join_slash ws) = ws"
  by (induction ws rule: join_slash.induct)
     (auto simp: path_components_def is_component_def split_char_plain split_char_join)

text \<open>Splitting a path takes off its last component.\<close>

lemma split_path_components:
  assumes "path_components p = cs @ [c]"
  shows "\<exists>q. split_path p = Inr (q, c) \<and> path_components q = cs"
proof -
  have "p \<noteq> []" using assms by (auto simp: path_components_def)
  moreover have "path_components (join_slash cs) = cs"
    using path_components_ok [of _ p] assms by (intro path_components_join) auto
  moreover have "path_components [CHR 0x2F] = []" by (simp add: path_components_def)
  ultimately show ?thesis using assms by (cases cs) (auto simp: split_path_def Let_def)
qed

lemma split_char_heads:
  "split_char c xs = u # us \<Longrightarrow> split_char c (xs @ c # w) = v # vs \<Longrightarrow> u = v"
proof (induction xs arbitrary: u us v vs)
  case (Cons x xs)
  obtain a as b bs where "split_char c xs = a # as" "split_char c (xs @ c # w) = b # bs"
    by (metis list.exhaust split_char_not_Nil)
  with Cons show ?case by (auto split: if_splits)
qed simp

lemma path_components_snoc:
  assumes "CHR 0x2F \<notin> set w"
  shows "path_components (xs @ CHR 0x2F # w) = path_components xs @ (if w = [] then [] else [w])"
  unfolding path_components_def
proof (induction xs)
  case (Cons x xs)
  obtain u us where u: "split_char (CHR 0x2F) xs = u # us" by (cases "split_char (CHR 0x2F) xs") auto
  obtain v vs where v: "split_char (CHR 0x2F) (xs @ CHR 0x2F # w) = v # vs"
    by (cases "split_char (CHR 0x2F) (xs @ CHR 0x2F # w)") auto
  have "u = v" using u v by (rule split_char_heads)
  with Cons u v show ?case by (cases "x = CHR 0x2F") (auto split: if_splits)
qed (use assms in \<open>simp add: split_char_plain\<close>)

text \<open>So does the split that opening makes, unless the path has no slash at all or ends in one.\<close>

lemma open_split_components:
  assumes "open_split p = Some (q, nm)"
  shows "path_components p = path_components q @ (if nm = [] then [] else [nm]) \<and> CHR 0x2F \<notin> set nm"
proof -
  obtain k where k: "position ((=) (CHR 0x2F)) (rev p) = Some k" and pos: "rfind (CHR 0x2F) p = Some (length p - Suc k)"
    using assms by (auto simp: open_split_def rfind_def split: option.splits)
  note at = position_SomeD [OF k]
  define m where "m = length p - Suc k"
  have i: "m < length p" "p ! m = CHR 0x2F" using at by (auto simp: rev_nth m_def)
  have later: "p ! j \<noteq> CHR 0x2F" if "m < j" "j < length p" for j
  proof -
    have "length p - Suc j < k" using that at by (simp add: m_def)
    then have "rev p ! (length p - Suc j) \<noteq> CHR 0x2F" using at by metis
    moreover have "rev p ! (length p - Suc j) = p ! j" using that by (simp add: rev_nth)
    ultimately show ?thesis by simp
  qed
  have p: "p = take m p @ CHR 0x2F # drop (Suc m) p" using id_take_nth_drop [OF i(1)] unfolding i(2) .
  have plain: "CHR 0x2F \<notin> set (drop (Suc m) p)" using later by (auto simp: in_set_conv_nth)
  have "path_components p = path_components (take m p) @ (if drop (Suc m) p = [] then [] else [drop (Suc m) p])"
    using arg_cong [OF p, of path_components] path_components_snoc [OF plain] by (rule trans)
  moreover have "path_components [CHR 0x2F] = []" "path_components [] = []" by (simp_all add: path_components_def)
  moreover have "(q, nm) = (if m = 0 then ([CHR 0x2F], drop 1 p) else (take m p, drop (m + 1) p))"
    using assms pos by (auto simp: open_split_def m_def)
  ultimately show ?thesis using plain by (cases "m = 0") auto
qed

section \<open>Requests by path refine the abstract file system\<close>

lemma lookup_path_Inl: "vfs_wf v \<Longrightarrow> lookup_path p v = Inl e \<Longrightarrow> walk v 0 (path_components p) = None"
  using lookup_path_walk [of p v] walk_exists [of v 0 "path_components p"]
  by (cases "walk v 0 (path_components p)") (auto simp: vfs_wf_def)

lemma is_ok_rbind: "is_ok (rbind r (\<lambda>_. Inr ())) = is_ok r"
  by (cases r) simp_all

lemma make_node_spec:
  assumes wf: "vfs_wf (fs_vfs s)" and cs: "path_components path = cs @ [c]"
    and mk: "make_node ty p path s = (r, s')"
  shows "is_ok r = fst (create_at p ty cs c (fs_vfs s)) \<and>
    fs_view (fs_vfs s') = fs_view (snd (create_at p ty cs c (fs_vfs s))) \<and>
    (fs_vfs s' = fs_vfs s \<or> fs_vfs s' = snd (create_at p ty cs c (fs_vfs s)))"
proof -
  let ?v = "fs_vfs s"
  obtain q where q: "split_path path = Inr (q, c)" "path_components q = cs" using split_path_components [OF cs] by blast
  note view = create_at_view [OF wf, of p ty cs c]
  show ?thesis
  proof (cases "lookup_path q ?v")
    case (Inl e)
    then have "walk ?v 0 cs = None" using lookup_path_Inl [OF wf Inl] q(2) by simp
    then show ?thesis using mk q Inl by (auto simp: make_node_def create_at_def)
  next
    case (Inr d)
    then have d: "walk ?v 0 cs = Some (vn_inode d)" "nodes ?v (vn_inode d) = Some d" using lookup_path_Inr [OF wf] q(2) by auto
    show ?thesis
    proof (cases "is_directory d")
      case True
      then show ?thesis using mk q Inr d
        by (auto simp: make_node_def create_at_def is_ok_rbind split: prod.splits)
    next
      case False
      then have "\<not> fst (create_at p ty cs c ?v)" using view fs_view_Some [OF d] by (auto simp: is_directory_def)
      then show ?thesis using mk q Inr False view by (auto simp: make_node_def)
    qed
  qed
qed

lemma delete_node_spec:
  assumes wf: "vfs_wf (fs_vfs s)" and n: "lookup_path path (fs_vfs s) = Inr n" and cs: "path_components path = ps"
  obtains r where "delete_node (vn_inode n) s = Some (r, s\<lparr>fs_vfs := snd (delete_at ps (fs_vfs s))\<rparr>)"
    "is_ok r = fst (delete_at ps (fs_vfs s))"
proof -
  let ?v = "fs_vfs s"
  have w: "walk ?v 0 ps = Some (vn_inode n)" "nodes ?v (vn_inode n) = Some n" using lookup_path_Inr [OF wf] n cs by auto
  have "vn_parent n \<noteq> Some (vn_inode n)" using node_ok_D(5) [OF wf w(2)] by auto
  then obtain r v where "vfs_delete (vn_inode n) ?v = Some (r, v)"
    using w by (cases "node_can_delete n") (auto simp: vfs_delete_def vfs_lookup_def Let_def)
  with w show thesis by (intro that [of r]) (simp_all add: delete_node_def delete_at_def)
qed

lemma handle_delete_spec:
  assumes wf: "vfs_wf (fs_vfs s)" and cs: "path_components path = ps"
  obtains r s' where "handle_delete p path s = Some (r, s')" "is_ok r = fst (delete_at ps (fs_vfs s))"
    "fs_vfs s' = snd (delete_at ps (fs_vfs s))"
proof (cases "lookup_path path (fs_vfs s)")
  case (Inl e)
  then have "walk (fs_vfs s) 0 ps = None" using lookup_path_Inl [OF wf Inl] cs by simp
  with Inl that [of "Inl e" s] show thesis by (simp add: handle_delete_def delete_at_def)
next
  case (Inr n)
  obtain r where "delete_node (vn_inode n) s = Some (r, s\<lparr>fs_vfs := snd (delete_at ps (fs_vfs s))\<rparr>)"
    "is_ok r = fst (delete_at ps (fs_vfs s))" using delete_node_spec [OF wf Inr cs] by blast
  with Inr that show thesis by (simp add: handle_delete_def)
qed

text \<open>Every message that the service handles, and the import of host files, keep the tree.\<close>

lemma record_blocks_contents:
  "record_blocks ino sz f v =
     (case f_start_sector f of None \<Rightarrow> v | Some st \<Rightarrow> with_contents ino sz (block_list st (f_sector_count f)) v)"
  by (cases "nodes v ino") (auto simp: record_blocks_def with_contents_def vfs_lookup_def fun_upd_idem split: option.split)

lemma record_blocks_ok: "tree_ok v \<Longrightarrow> tree_ok (record_blocks ino sz f v)"
  by (simp add: record_blocks_contents tree_ok_steps(3) split: option.split)

lemma lookup_handed_out: "tree_ok v \<Longrightarrow> lookup_path path v = Inr n \<Longrightarrow> vn_inode n < next_inode v"
  using lookup_path_Inr [of v path n] node_ok_D(2) [of v "vn_inode n" n] by (simp add: tree_ok_def)

lemma create_below_ok:
  assumes "tree_ok v" "next_inode v \<noteq> - 1" "lookup_path path v = Inr n" "create_node ty (vn_inode n) nm ow v = (r, v')"
  shows "tree_ok v'"
  using tree_ok_steps(1) [OF assms(1) lookup_handed_out [OF assms(1,3)] assms(2), of ty nm ow] assms(4) by simp

lemma open_node_ok:
  assumes "tree_ok v" "next_inode v \<noteq> - 1"
  shows "tree_ok (snd (open_node p path fl v))"
  using assms create_below_ok [OF assms]
  by (auto simp: open_node_def create_file_def split: sum.split option.split prod.split)

lemma open_descriptor_vfs: "fs_vfs (snd (open_descriptor p path fl n s)) = fs_vfs s"
  by (auto simp: open_descriptor_def file_object_def Let_def split: option.split prod.split)

lemma open_ok:
  assumes "tree_ok (fs_vfs s)" "next_inode (fs_vfs s) \<noteq> - 1"
  shows "tree_ok (fs_vfs (snd (handle_open p path fl s)))"
    "handle_open_with_response ce env p path fl s = FsDone r out s' \<Longrightarrow> tree_ok (fs_vfs s')"
proof -
  obtain x v where o': "open_node p path fl (fs_vfs s) = (x, v)" by fastforce
  then have v: "tree_ok v" using open_node_ok [OF assms, of p path fl] by simp
  have "tree_ok (fs_vfs (snd (open_descriptor p path fl n (s\<lparr>fs_vfs := v\<rparr>))))" for n
    using v by (simp add: open_descriptor_vfs)
  then show "tree_ok (fs_vfs (snd (handle_open p path fl s)))"
    "handle_open_with_response ce env p path fl s = FsDone r out s' \<Longrightarrow> tree_ok (fs_vfs s')"
    using v by (auto simp: handle_open_def handle_open_with_response_def o' split: sum.splits prod.splits) (metis snd_conv)+
qed

lemma make_node_ok: "tree_ok (fs_vfs s) \<Longrightarrow> next_inode (fs_vfs s) \<noteq> - 1 \<Longrightarrow> tree_ok (fs_vfs (snd (make_node ty p path s)))"
  by (auto simp: make_node_def split: sum.split prod.split dest: create_below_ok)

lemma delete_node_ok: "tree_ok (fs_vfs s) \<Longrightarrow> delete_node ino s = Some (r, s') \<Longrightarrow> tree_ok (fs_vfs s')"
  by (auto simp: delete_node_def dest: tree_ok_steps(2))

lemma path_delete_ok:
  "tree_ok (fs_vfs s) \<Longrightarrow> handle_delete p path s = Some (r, s') \<Longrightarrow> tree_ok (fs_vfs s')"
  "tree_ok (fs_vfs s) \<Longrightarrow> handle_rmdir p path s = Some (r, s') \<Longrightarrow> tree_ok (fs_vfs s')"
  by (auto simp: handle_delete_def handle_rmdir_def split: sum.splits if_splits dest: delete_node_ok)

lemma write_fd_ok: "tree_ok (fs_vfs s) \<Longrightarrow> write_fd p k bs s = Some (r, s') \<Longrightarrow> tree_ok (fs_vfs s')"
  by (auto simp: write_fd_def Let_def record_blocks_ok split: option.splits sum.splits prod.splits)

lemma read_fd_ok: "tree_ok (fs_vfs s) \<Longrightarrow> read_fd p k n s = Some (r, s') \<Longrightarrow> tree_ok (fs_vfs s')"
  by (auto simp: read_fd_def split: option.splits)

lemma descriptor_calls_vfs:
  "fs_vfs (snd (handle_close p k s)) = fs_vfs s" "fs_vfs (clone_descriptors fe q p s) = fs_vfs s"
  "fs_vfs (sync_before_close p k s) = fs_vfs s"
  by (simp_all add: handle_close_def clone_descriptors_def sync_before_close_def Let_def split: prod.split option.split)

lemma respond_io_ok:
  assumes "\<And>r s'. o' = Some (r, s') \<Longrightarrow> tree_ok (fs_vfs s')" "respond_io ce env found k mk o' = FsDone x out s''"
  shows "tree_ok (fs_vfs s'')"
  using assms by (auto simp: respond_io_def split: option.splits sum.splits if_splits)

lemma then_void_ok:
  assumes "\<And>r s'. o' = Some (r, s') \<Longrightarrow> tree_ok (fs_vfs s')" "then_void ce env o' = FsDone x out s''"
  shows "tree_ok (fs_vfs s'')"
  using assms by (auto simp: then_void_def split: option.splits sum.splits)

lemma close_ok:
  assumes "tree_ok (fs_vfs s)" "handle_close_with_response ce env p k s = FsDone x out s'"
  shows "tree_ok (fs_vfs s')"
  using assms descriptor_calls_vfs(1) [of p k "sync_before_close p k s"]
  by (auto simp: handle_close_with_response_def descriptor_calls_vfs(3) split: prod.splits sum.splits)

lemma file_request_ok:
  assumes ok: "tree_ok (fs_vfs s)" "next_inode (fs_vfs s) \<noteq> - 1" and r: "handle_file_request fe req s = Some (r, s')"
  shows "tree_ok (fs_vfs s')"
proof -
  have "tree_ok (fs_vfs s')" if "handle_open p path fl s = (r, s')" for p path fl
    using that open_ok(1) [OF ok, of p path fl] by simp
  moreover have "tree_ok (fs_vfs s')" if "make_node ty p path s = (r, s')" for ty p path
    using that make_node_ok [OF ok, of ty p path] by simp
  moreover have "tree_ok (fs_vfs s')" if "handle_close p k s = (r, s')" for p k
    using that ok(1) descriptor_calls_vfs(1) [of p k s] by simp
  ultimately show ?thesis using r ok(1)
    by (cases req) (auto simp: handle_file_request_def handle_read_def handle_write_def handle_mkdir_def descriptor_calls_vfs(2)
        dest: write_fd_ok read_fd_ok path_delete_ok)
qed

lemma file_response_ok:
  assumes ok: "tree_ok (fs_vfs s)" "next_inode (fs_vfs s) \<noteq> - 1"
    and r: "handle_file_request_with_response ce fe env req s = FsDone x out s'"
  shows "tree_ok (fs_vfs s')"
proof -
  have read: "tree_ok (fs_vfs s')" if "handle_read_with_response ce env p k n s = FsDone x out s'" for p k n
    using respond_io_ok [OF _ that [unfolded handle_read_with_response_def]] read_fd_ok [OF ok(1)] by blast
  have "tree_ok (fs_vfs s')" if "handle_write_with_response ce env p k bs s = FsDone x out s'" for p k bs
    using respond_io_ok [OF _ that [unfolded handle_write_with_response_def]] write_fd_ok [OF ok(1)] by blast
  moreover have "tree_ok (fs_vfs s')" if "then_void ce env (handle_delete 0 path s) = FsDone x out s'" for path
    using then_void_ok [OF _ that] path_delete_ok(1) [OF ok(1)] by blast
  moreover have "tree_ok (fs_vfs s')" if "then_void ce env (handle_rmdir 0 path s) = FsDone x out s'" for path
    using then_void_ok [OF _ that] path_delete_ok(2) [OF ok(1)] by blast
  moreover have "tree_ok (fs_vfs s')" if "then_void ce env (Some (handle_mkdir 0 path s)) = FsDone x out s'" for path
    using then_void_ok [OF _ that] make_node_ok [OF ok, of NodeDirectory 0 path]
    unfolding handle_mkdir_def by (metis option.inject snd_conv)
  moreover have "tree_ok (fs_vfs s')" if "then_void ce env (Some (y, s)) = FsDone x out s'" for y
    using then_void_ok [OF _ that] ok(1) by blast
  ultimately show ?thesis using r ok(1) read open_ok(2) [OF ok] close_ok [OF ok(1)]
    by (cases req) (auto simp: handle_file_request_with_response_def Let_def descriptor_calls_vfs(2) split: sum.splits)
qed

lemma fs_handle_ok:
  assumes "tree_ok (fs_vfs s)" "next_inode (fs_vfs s) \<noteq> - 1" "fs_handle ce fe env s = Some (out, s')"
  shows "tree_ok (fs_vfs s')"
  using assms(3) file_request_ok [OF assms(1,2)] file_response_ok [OF assms(1,2)] assms(1)
  by (auto simp: fs_handle_def fs_handle_envelope_def split: FsResult.splits KernelMsg.splits if_splits option.splits sum.splits)

lemma import_one_ok:
  assumes "tree_ok (fs_vfs s)" "next_inode (fs_vfs s) \<noteq> - 1" "import_one dir hf s = Some s'"
  shows "tree_ok (fs_vfs s')"
proof -
  have "tree_ok (snd (import_node dir nm (fs_vfs s)))" for nm
    using assms(1) create_below_ok [OF assms(1,2)]
    by (auto simp: import_node_def create_file_def Let_def split: sum.split prod.split)
  then have "import_node dir nm (fs_vfs s) = (x, v) \<Longrightarrow> tree_ok v" for nm x v by (metis snd_conv)
  then show ?thesis using assms(1,3)
    by (auto simp: import_one_def record_blocks_ok split: prod.splits option.splits if_splits)
qed

text \<open>
  C19. Directory requests do to the abstract file system what their names say. In a well-formed tree without
  references to its nodes, whose inode counter is not exhausted, and for a path of at least one component, creating a directory
  succeeds exactly when the parent is a directory and the path is free, and then adds that path only; unlinking
  succeeds exactly when the path exists with nothing below it, and then removes that path only, returning in every
  case; failed requests change no path. A new tree is well formed and unreferenced, and every message of any kind that the
  service handles, saved writes among them, leaves it so.
\<close>

theorem path_requests_refine:
  assumes "tree_ok (fs_vfs s)" "next_inode (fs_vfs s) \<noteq> - 1" "path_components path = cs @ [c]"
  shows "tree_ok VirtualFileSystem_new \<and>
    (\<exists>r s'. handle_mkdir p path s = (r, s') \<and>
      (is_ok r \<longleftrightarrow> fs_view (fs_vfs s) cs = Some NodeDirectory \<and> fs_view (fs_vfs s) (cs @ [c]) = None) \<and>
      fs_view (fs_vfs s') = (if is_ok r then (fs_view (fs_vfs s))(cs @ [c] \<mapsto> NodeDirectory) else fs_view (fs_vfs s))) \<and>
    (\<exists>r s'. handle_delete p path s = Some (r, s') \<and>
      (is_ok r \<longleftrightarrow> fs_view (fs_vfs s) (cs @ [c]) \<noteq> None \<and> (\<forall>x. fs_view (fs_vfs s) (cs @ [c] @ [x]) = None)) \<and>
      fs_view (fs_vfs s') = (if is_ok r then (fs_view (fs_vfs s))(cs @ [c] := None) else fs_view (fs_vfs s))) \<and>
    (\<forall>ce fe env out s'. fs_handle ce fe env s = Some (out, s') \<longrightarrow> tree_ok (fs_vfs s'))"
proof (intro conjI)
  let ?v = "fs_vfs s"
  have wf: "vfs_wf ?v" using assms(1) by (simp add: tree_ok_def)
  obtain r s' where mk: "handle_mkdir p path s = (r, s')" by (cases "handle_mkdir p path s")
  from make_node_spec [OF wf assms(3) mk [unfolded handle_mkdir_def]] vfs.mk_ok [OF assms(1,2), of p NodeDirectory cs c]
    vfs.mk_view [OF assms(1,2), of p NodeDirectory cs c]
  show "\<exists>r s'. handle_mkdir p path s = (r, s') \<and>
      (is_ok r \<longleftrightarrow> fs_view ?v cs = Some NodeDirectory \<and> fs_view ?v (cs @ [c]) = None) \<and>
      fs_view (fs_vfs s') = (if is_ok r then (fs_view ?v)(cs @ [c] \<mapsto> NodeDirectory) else fs_view ?v)" using mk by metis
  obtain r s' where rm: "handle_delete p path s = Some (r, s')" "is_ok r = fst (delete_at (cs @ [c]) ?v)"
    "fs_vfs s' = snd (delete_at (cs @ [c]) ?v)" using handle_delete_spec [OF wf assms(3)] by blast
  with vfs.rm_ok [OF assms(1), of "cs @ [c]"] vfs.rm_view [OF assms(1), of "cs @ [c]"]
  show "\<exists>r s'. handle_delete p path s = Some (r, s') \<and>
      (is_ok r \<longleftrightarrow> fs_view ?v (cs @ [c]) \<noteq> None \<and> (\<forall>x. fs_view ?v (cs @ [c] @ [x]) = None)) \<and>
      fs_view (fs_vfs s') = (if is_ok r then (fs_view ?v)(cs @ [c] := None) else fs_view ?v)" by auto
  show "tree_ok VirtualFileSystem_new" by (rule vfs_reach_ok [OF new_reach])
  show "\<forall>ce fe env out s'. fs_handle ce fe env s = Some (out, s') \<longrightarrow> tree_ok (fs_vfs s')"
    using fs_handle_ok [OF assms(1,2)] by blast
qed

definition demo_fs :: FileService where
  "demo_fs = \<lparr>fs_vfs = demo_vfs, fd_manager = FileDescriptorManager_new 8, fs_files = [], open_files = Map.empty,
     fs_disk = demo_disk\<rparr>"

theorem path_requests_refine_witness:
  "\<exists>r s'. handle_mkdir 0 ''/d/e/'' demo_fs = (r, s') \<and> is_ok r \<and> fs_view (fs_vfs s') [''d'', ''e''] = Some NodeDirectory"
proof -
  have pre: "tree_ok (fs_vfs demo_fs)" "next_inode (fs_vfs demo_fs) \<noteq> - 1" "path_components ''/d/e/'' = [''d''] @ [''e'']"
    using vfs_reach_ok [OF demo_vfs_reach]
    by (simp_all add: demo_fs_def demo_vfs_def create_node_next empty_vfs_def path_components_def)
  have "fs_view demo_vfs [''d''] = Some NodeDirectory" "fs_view demo_vfs [''d'', ''e''] = None"
    by (simp_all add: fs_view_def demo_vfs_def create_node_def empty_vfs_def add_child_def is_directory_def VFSNode_new_def Let_def)
  with path_requests_refine [OF pre, of 0] show ?thesis by (auto simp: demo_fs_def)
qed

text \<open>Making the root directory makes an entry of the name \<^verbatim>\<open>/\<close>, which no path leads to.\<close>

lemma mkdir_root: "split_path ''/'' = Inr (''/'', ''/'') \<and> ''/'' \<notin> set (path_components p)"
  using path_components_ok [of "''/''" p] by (auto simp: split_path_def is_component_def) (simp add: path_components_def)

section \<open>Stored contents\<close>

text \<open>
  The layout of the disk: the blocks of every node are a run of consecutive sectors behind the metadata, all
  marked used, and no two nodes share one.
\<close>

definition node_sectors :: "VFSNode \<Rightarrow> nat set" where
  "node_sectors n = unat ` set (vn_blocks n)"

definition stored_ok :: "VirtualDisk \<Rightarrow> VFSNode \<Rightarrow> bool" where
  "stored_ok d n \<longleftrightarrow> vn_blocks n = [] \<or>
     (\<exists>st cnt. vn_blocks n = block_list st cnt \<and> 0 < unat cnt \<and> 4 \<le> unat st \<and>
        unat st + unat cnt \<le> unat (total_sectors d) \<and> node_sectors n \<subseteq> used_set (bitmap d))"

definition layout_ok :: "VirtualFileSystem \<Rightarrow> VirtualDisk \<Rightarrow> bool" where
  "layout_ok v d \<longleftrightarrow> disk_wf d \<and> (\<forall>i n. nodes v i = Some n \<longrightarrow> stored_ok d n) \<and>
     (\<forall>i j n m. nodes v i = Some n \<and> nodes v j = Some m \<and> i \<noteq> j \<longrightarrow> node_sectors n \<inter> node_sectors m = {})"

lemma sector64_back: "ucast (ucast (x :: u32) :: u64) = x"
  by (rule bit_word_eqI) (simp add: bit_simps)

lemma block_list_unat:
  assumes "unat st + unat cnt \<le> unat (total_sectors d)"
  shows "unat ` set (block_list st cnt) = {unat st..<unat st + unat cnt}"
proof -
  have lt: "unat (total_sectors d) < 2 ^ LENGTH(32)" by (rule unsigned_less)
  have "unat (ucast (st + of_nat i) :: u64) = unat st + i" if "i < unat cnt" for i
    using that assms lt unat_add_small [of st i] by (simp add: unat_sector64)
  then have "unat ` set (block_list st cnt) = (\<lambda>i. unat st + i) ` {0..<unat cnt}"
    by (auto simp: block_list_def image_image image_iff)
  then show ?thesis by (simp add: add.commute)
qed

text \<open>The object that opening makes of a stored node depends on the sectors of that node only.\<close>

lemma load_object_cong:
  assumes "stored_ok d n" "nodes v i = Some n" "nodes v' i = Some n"
    and "\<And>a. unat a \<in> node_sectors n \<Longrightarrow> read_sector d' a = read_sector d a"
  shows "load_object p path md i v' d' = load_object p path md i v d"
proof (cases "vn_blocks n")
  case Nil
  then show ?thesis using assms(2,3) by (simp add: load_object_def vfs_lookup_def)
next
  case (Cons b bs)
  then obtain st cnt where run: "vn_blocks n = block_list st cnt" "unat st + unat cnt \<le> unat (total_sectors d)" "0 < unat cnt"
    using assms(1) by (auto simp: stored_ok_def)
  have b: "ucast b = st" using run(1,3) Cons by (cases "unat cnt") (simp_all add: block_list_def upt_conv_Cons sector64_back del: upt_Suc)
  have len: "of_nat (length (vn_blocks n)) = cnt" using run(1) by (simp add: block_list_def)
  have sec: "node_sectors n = {unat st..<unat st + unat cnt}"
    unfolding node_sectors_def run(1) by (rule block_list_unat [OF run(2)])
  have lt: "unat (total_sectors d) < 2 ^ LENGTH(32)" by (rule unsigned_less)
  have "read_sector d' (st + of_nat i) = read_sector d (st + of_nat i)" if "i < unat cnt" for i
    using that run(2) lt sec unat_add_small [of st i] by (intro assms(4)) auto
  then have "rd_run read_sector d' st (unat cnt) = rd_run read_sector d st (unat cnt)" by (rule vdisk.rd_run_cong)
  then show ?thesis using assms(2,3) Cons b len
    by (simp add: load_object_def vfs_lookup_def load_from_disk_def Let_def)
qed

text \<open>A successful save: the run that the file gets, read back and recorded.\<close>

lemma sync_success:
  assumes "disk_wf d" "f_dirty f" "f_data f \<noteq> []" "length (f_data f) \<le> 2 ^ 40" "sync_to_disk f d = (Inr u, f', d')"
  defines "k \<equiv> (length (f_data f) + 511) div 512"
  obtains st where "f' = f\<lparr>f_start_sector := Some st, f_sector_count := of_nat k, f_dirty := False\<rparr>" "disk_wf d'"
    "total_sectors d' = total_sectors d" "0 < k" "unat (of_nat k :: u32) = k" "4 \<le> unat st" "unat st + k \<le> unat (total_sectors d)"
    "{unat st..<unat st + k} \<inter> (used_set (bitmap d) - old_run f) = {}"
    "used_set (bitmap d') = used_set (bitmap d) - old_run f \<union> {unat st..<unat st + k}"
    "\<And>a. a \<noteq> 0 \<Longrightarrow> unat a \<notin> {unat st..<unat st + k} \<Longrightarrow> read_sector d' a = read_sector d a"
    "\<And>g. f_start_sector g = Some st \<Longrightarrow> f_sector_count g = of_nat k \<Longrightarrow> meta_size (f_metadata g) = of_nat (length (f_data f)) \<Longrightarrow>
       load_from_disk d' g = (Inr (), g\<lparr>f_data := f_data f, f_dirty := False, f_eof := False, f_position := 0\<rparr>)"
proof -
  have "1 \<le> length (f_data f)" using assms(3) by (cases "f_data f") simp_all
  then have "0 < k" "k < 2 ^ 32" using assms(4) by (auto simp: k_def div_greater_zero_iff)
  then have k: "0 < k" "unat (of_nat k :: u32) = k" by (simp_all add: unat_of_nat)
  have spec: "case sync_to_disk f d of (Inl _, f', d') \<Rightarrow> True
    | (Inr _, f', d') \<Rightarrow> \<exists>st. f' = f\<lparr>f_start_sector := Some st, f_sector_count := of_nat k, f_dirty := False\<rparr> \<and>
        disk_wf d' \<and> total_sectors d' = total_sectors d \<and> {unat st..<unat st + k} \<inter> (used_set (bitmap d) - old_run f) = {} \<and>
        4 \<le> unat st \<and> unat st + k \<le> unat (total_sectors d) \<and>
        used_set (bitmap d') = used_set (bitmap d) - old_run f \<union> {unat st..<unat st + k} \<and>
        (\<forall>a. a \<noteq> 0 \<and> unat a \<notin> {unat st..<unat st + k} \<longrightarrow> read_sector d' a = read_sector d a) \<and>
        (\<forall>g. f_start_sector g = Some st \<and> f_sector_count g = of_nat k \<and>
             meta_size (f_metadata g) = of_nat (length (f_data f)) \<longrightarrow>
           load_from_disk d' g = (Inr (), g\<lparr>f_data := f_data f, f_dirty := False, f_eof := False, f_position := 0\<rparr>))"
    using sync_to_disk_spec [OF assms(1) disjI1 [OF assms(2)] assms(3,4)] unfolding k_def disjoint_eq_subset_Compl
    by (auto split: prod.split sum.split)
  show thesis using spec [unfolded assms(5) prod.case sum.case] k that by blast
qed

text \<open>A write whose file ends up clean was saved and recorded.\<close>

lemma write_fd_saved:
  assumes w: "write_fd p k bs s = Some (Inr n, s')" and fd: "fdm_get p k (fd_manager s) = Some of'"
    and r: "open_file of' < length (fs_files s)" and clean: "\<not> f_dirty (fs_files s' ! open_file of')"
    and len: "f_data (fs_files s' ! open_file of') \<noteq> []" "length (f_data (fs_files s' ! open_file of')) \<le> 2 ^ 40"
    and wf: "disk_wf (fs_disk s)"
  obtains f1 f' u where "file_write bs (fs_files s ! open_file of') = Some (Inr n, f1)" "f_dirty f1"
    "f_inode f1 = f_inode (fs_files s ! open_file of')" "old_run f1 = old_run (fs_files s ! open_file of')"
    "sync_to_disk f1 (fs_disk s) = (Inr u, f', fs_disk s')" "fs_files s' ! open_file of' = f'" "f_data f' = f_data f1"
    "fs_vfs s' = record_blocks (f_inode f1) (of_nat (length (f_data f'))) f' (fs_vfs s)"
proof -
  let ?r = "open_file of'" let ?f = "fs_files s ! ?r"
  obtain f1 where f1: "file_write bs ?f = Some (Inr n, f1)"
    using w fd by (auto simp: write_fd_def openfile_write_def Let_def split: option.splits sum.splits prod.splits)
  obtain res f' d' where sync: "sync_to_disk f1 (fs_disk s) = (res, f', d')" by (cases "sync_to_disk f1 (fs_disk s)")
  have s': "s' = s\<lparr>fs_files := (fs_files s)[?r := f'], fs_disk := d',
      fs_vfs := (if is_ok res then record_blocks (f_inode f1) (of_nat (length (f_data f'))) f' (fs_vfs s) else fs_vfs s)\<rparr>"
    using w fd f1 sync r by (auto simp: write_fd_def openfile_write_def Let_def)
  have at: "fs_files s' ! ?r = f'" using s' r by simp
  have keep: "f_inode f1 = f_inode ?f" "f_start_sector f1 = f_start_sector ?f" "f_sector_count f1 = f_sector_count ?f" "f_dirty f1"
    using f1 by (auto simp: file_write_def Let_def split: if_splits)
  have data: "f_data f' = f_data f1"
    using sync by (auto simp: sync_to_disk_def Let_def split: if_splits sum.splits prod.splits)
  have "is_ok res"
  proof (cases res)
    case (Inl e)
    have "f' = f1" using sync Inl by (auto simp: sync_to_disk_def Let_def split: if_splits sum.splits prod.splits)
    then show ?thesis using keep(4) clean at by simp
  qed simp
  then obtain u where "res = Inr u" by (cases res) auto
  moreover have "old_run f1 = old_run ?f" unfolding old_run_def keep(2,3) ..
  moreover have "fs_disk s' = d'" "fs_vfs s' = record_blocks (f_inode f1) (of_nat (length (f_data f'))) f' (fs_vfs s)"
    using s' \<open>is_ok res\<close> by simp_all
  ultimately show thesis using that [OF f1 keep(4,1)] sync at data by blast
qed

lemma block_list_hd: "0 < unat cnt \<Longrightarrow> \<exists>bs. block_list st cnt = ucast st # bs"
  by (simp add: block_list_def upt_conv_Cons)

lemma stored_ok_sectors:
  assumes "stored_ok d n"
  shows "node_sectors n \<subseteq> used_set (bitmap d) \<and> (\<forall>x \<in> node_sectors n. 4 \<le> x)"
proof (cases "vn_blocks n = []")
  case False
  then obtain st cnt where run: "vn_blocks n = block_list st cnt" "4 \<le> unat st" "unat st + unat cnt \<le> unat (total_sectors d)"
    "node_sectors n \<subseteq> used_set (bitmap d)" using assms unfolding stored_ok_def by blast
  have "node_sectors n = {unat st..<unat st + unat cnt}" unfolding node_sectors_def run(1) by (rule block_list_unat [OF run(3)])
  then show ?thesis using run(2,4) by auto
qed (simp add: node_sectors_def)

text \<open>Replacing one node of a sound layout.\<close>

lemma layout_ok_replace:
  assumes "layout_ok v d" "disk_wf d'" "stored_ok d' m"
    and "\<And>j n. nodes v j = Some n \<Longrightarrow> j \<noteq> i \<Longrightarrow> stored_ok d' n \<and> node_sectors n \<inter> node_sectors m = {}"
  shows "layout_ok (v\<lparr>nodes := (nodes v)(i \<mapsto> m)\<rparr>) d'"
  unfolding layout_ok_def
proof (intro conjI allI impI)
  fix j n
  assume "nodes (v\<lparr>nodes := (nodes v)(i \<mapsto> m)\<rparr>) j = Some n"
  then show "stored_ok d' n" using assms(3,4) by (cases "j = i") simp_all
next
  fix j k n n'
  assume *: "nodes (v\<lparr>nodes := (nodes v)(i \<mapsto> m)\<rparr>) j = Some n \<and> nodes (v\<lparr>nodes := (nodes v)(i \<mapsto> m)\<rparr>) k = Some n' \<and> j \<noteq> k"
  then consider "j = i" "k \<noteq> i" | "j \<noteq> i" "k = i" | "j \<noteq> i" "k \<noteq> i" by blast
  then show "node_sectors n \<inter> node_sectors n' = {}"
  proof cases
    case 1 then show ?thesis using * assms(4) [of k n'] by (simp add: Int_commute)
  next
    case 2 then show ?thesis using * assms(4) [of j n] by simp
  next
    case 3
    then have "nodes v j = Some n" "nodes v k = Some n'" "j \<noteq> k" using * by simp_all
    then show ?thesis using assms(1) unfolding layout_ok_def by blast
  qed
qed (rule assms(2))

lemma stored_ok_other:
  assumes "stored_ok d n" "total_sectors d' = total_sectors d" "node_sectors n \<inter> freed = {}" "used_set (bitmap d) - freed \<subseteq> used_set (bitmap d')"
  shows "stored_ok d' n"
proof -
  have "node_sectors n \<subseteq> used_set (bitmap d')" if "node_sectors n \<subseteq> used_set (bitmap d)" using that assms(3,4) by blast
  then show ?thesis using assms(1,2) unfolding stored_ok_def by metis
qed

text \<open>Opening a stored node loads what its run holds.\<close>

lemma load_object_stored:
  assumes "0 < c" "unat (of_nat c :: u32) = c" "nodes v ino = Some (vn\<lparr>vn_size := sz, vn_blocks := block_list st (of_nat c)\<rparr>)"
    and "\<And>g. f_start_sector g = Some st \<Longrightarrow> f_sector_count g = of_nat c \<Longrightarrow> meta_size (f_metadata g) = sz \<Longrightarrow>
       load_from_disk d g = (Inr (), g\<lparr>f_data := bs, f_dirty := False, f_eof := False, f_position := 0\<rparr>)"
  shows "f_data (load_object p path md ino v d) = bs"
proof -
  obtain bs' where "block_list st (of_nat c) = ucast st # bs'" using block_list_hd [of "of_nat c" st] assms(1,2) by auto
  moreover have "length (block_list st (of_nat c)) = c" using assms(2) by (simp add: block_list_def)
  ultimately show ?thesis using assms(3,4) by (simp add: load_object_def vfs_lookup_def Let_def sector64_back)
qed

text \<open>Where a saved write puts the file: the facts about the run that the proof of persistence needs.\<close>

lemma write_fd_run:
  assumes wf: "disk_wf (fs_disk s)" and fd: "fdm_get p k (fd_manager s) = Some of'" "open_file of' < length (fs_files s)"
    and node: "nodes (fs_vfs s) (f_inode (fs_files s ! open_file of')) = Some vn"
      "node_sectors vn = old_run (fs_files s ! open_file of')"
    and w: "write_fd p k bs s = Some (Inr n, s')" "f' = fs_files s' ! open_file of'"
    and saved: "\<not> f_dirty f'" "f_data f' \<noteq> []" "length (f_data f') \<le> 2 ^ 40"
  obtains st c where "0 < c" "unat (of_nat c :: u32) = c" "4 \<le> unat st" "unat st + c \<le> unat (total_sectors (fs_disk s))"
    "disk_wf (fs_disk s')" "total_sectors (fs_disk s') = total_sectors (fs_disk s)"
    "{unat st..<unat st + c} \<inter> (used_set (bitmap (fs_disk s)) - node_sectors vn) = {}"
    "used_set (bitmap (fs_disk s')) = used_set (bitmap (fs_disk s)) - node_sectors vn \<union> {unat st..<unat st + c}"
    "\<And>a. a \<noteq> 0 \<Longrightarrow> unat a \<notin> {unat st..<unat st + c} \<Longrightarrow> read_sector (fs_disk s') a = read_sector (fs_disk s) a"
    "\<And>g. f_start_sector g = Some st \<Longrightarrow> f_sector_count g = of_nat c \<Longrightarrow> meta_size (f_metadata g) = of_nat (length (f_data f')) \<Longrightarrow>
       load_from_disk (fs_disk s') g = (Inr (), g\<lparr>f_data := f_data f', f_dirty := False, f_eof := False, f_position := 0\<rparr>)"
    "fs_vfs s' = (fs_vfs s)\<lparr>nodes := (nodes (fs_vfs s))(f_inode (fs_files s ! open_file of') \<mapsto>
       vn\<lparr>vn_size := of_nat (length (f_data f')), vn_blocks := block_list st (of_nat c)\<rparr>)\<rparr>"
proof (rule write_fd_saved [OF w(1) fd saved [unfolded w(2)] wf], goal_cases)
  case (1 f1 g u)
  then have g: "g = f'" "old_run f1 = node_sectors vn" "f_data f' = f_data f1" using w(2) node(2) by simp_all
  define c where "c = (length (f_data f1) + 511) div 512"
  note sync = 1(6) [unfolded g(1)]
  show ?case
  proof (rule sync_success [OF wf 1(3) saved(2,3) [unfolded g(3)] sync, folded c_def, unfolded g(2)], goal_cases)
    case st: (1 st)
    show ?case
      by (rule that [OF st(4-7) st(2,3) st(8-10) st(11) [folded g(3)]])
         (use 1 g st(1) node(1) in \<open>simp_all add: record_blocks_def vfs_lookup_def\<close>)
  qed
qed

text \<open>
  C11. Written data is stored, and writing disturbs no other file. On a disk with a sound layout, if a write
  through a descriptor leaves the file clean (it was saved), the layout is sound again; opening the file
  anew from the disk gives exactly the bytes that the file has in memory; and opening any other file
  gives what it gave before.
\<close>

theorem write_persists:
  assumes lay: "layout_ok (fs_vfs s) (fs_disk s)"
    and fd: "fdm_get p k (fd_manager s) = Some of'" "open_file of' < length (fs_files s)"
    and node: "nodes (fs_vfs s) (f_inode (fs_files s ! open_file of')) = Some vn"
      "node_sectors vn = old_run (fs_files s ! open_file of')"
    and w: "write_fd p k bs s = Some (Inr n, s')" "f' = fs_files s' ! open_file of'"
    and saved: "\<not> f_dirty f'" "f_data f' \<noteq> []" "length (f_data f') \<le> 2 ^ 40"
  shows "layout_ok (fs_vfs s') (fs_disk s') \<and>
    f_data (load_object q path md (f_inode (fs_files s ! open_file of')) (fs_vfs s') (fs_disk s')) = f_data f' \<and>
    (\<forall>i. i \<noteq> f_inode (fs_files s ! open_file of') \<longrightarrow>
       load_object q path md i (fs_vfs s') (fs_disk s') = load_object q path md i (fs_vfs s) (fs_disk s))"
proof -
  let ?ino = "f_inode (fs_files s ! open_file of')" and ?d = "fs_disk s" and ?d' = "fs_disk s'" and ?v = "fs_vfs s"
  have wf: "disk_wf ?d" using lay by (simp add: layout_ok_def)
  obtain st c where st: "0 < c" "unat (of_nat c :: u32) = c" "4 \<le> unat st" "unat st + c \<le> unat (total_sectors ?d)" "disk_wf ?d'"
    "total_sectors ?d' = total_sectors ?d" "{unat st..<unat st + c} \<inter> (used_set (bitmap ?d) - node_sectors vn) = {}"
    "used_set (bitmap ?d') = used_set (bitmap ?d) - node_sectors vn \<union> {unat st..<unat st + c}"
    "\<And>a. a \<noteq> 0 \<Longrightarrow> unat a \<notin> {unat st..<unat st + c} \<Longrightarrow> read_sector ?d' a = read_sector ?d a"
    "\<And>g. f_start_sector g = Some st \<Longrightarrow> f_sector_count g = of_nat c \<Longrightarrow> meta_size (f_metadata g) = of_nat (length (f_data f')) \<Longrightarrow>
       load_from_disk ?d' g = (Inr (), g\<lparr>f_data := f_data f', f_dirty := False, f_eof := False, f_position := 0\<rparr>)"
    and v': "fs_vfs s' = ?v\<lparr>nodes := (nodes ?v)(?ino \<mapsto> vn\<lparr>vn_size := of_nat (length (f_data f')), vn_blocks := block_list st (of_nat c)\<rparr>)\<rparr>"
  proof (rule write_fd_run [OF wf fd node w saved], goal_cases)
    case (1 st c)
    show ?case by (rule 1(1) [OF 1(2-)])
  qed
  let ?vn = "vn\<lparr>vn_size := of_nat (length (f_data f')), vn_blocks := block_list st (of_nat c)\<rparr>"
  have new: "node_sectors ?vn = {unat st..<unat st + c}"
    using block_list_unat [of st "of_nat c" ?d] st(2,4) by (simp add: node_sectors_def)
  have other: "stored_ok ?d n" "node_sectors n \<inter> node_sectors vn = {}" if "nodes ?v i = Some n" "i \<noteq> ?ino" for i n
    using lay that node(1) unfolding layout_ok_def by blast+
  have apart: "node_sectors n \<inter> {unat st..<unat st + c} = {}" if "nodes ?v i = Some n" "i \<noteq> ?ino" for i n
    using other [OF that] stored_ok_sectors [where d = ?d] st(7) by blast
  have "stored_ok ?d' ?vn" unfolding stored_ok_def new
    using st(1-4) unfolding st(6,8) by (intro disjI2 exI [of _ st] exI [of _ "of_nat c"]) simp
  moreover have "stored_ok ?d' n" if "nodes ?v i = Some n" "i \<noteq> ?ino" for i n
    using stored_ok_other [OF other(1) [OF that] st(6) other(2) [OF that]] st(8) by blast
  ultimately have "layout_ok (fs_vfs s') ?d'"
    unfolding v' using apart new by (intro layout_ok_replace [OF lay st(5)]) auto
  moreover have "f_data (load_object q path md ?ino (fs_vfs s') ?d') = f_data f'"
    unfolding v' using st(1,2) by (intro load_object_stored) (auto intro: st(10))
  moreover have "load_object q path md i (fs_vfs s') ?d' = load_object q path md i ?v ?d" if i: "i \<noteq> ?ino" for i
  proof (cases "nodes ?v i")
    case None
    then show ?thesis using i by (simp add: load_object_def vfs_lookup_def v')
  next
    case (Some n)
    have "read_sector ?d' a = read_sector ?d a" if "unat a \<in> node_sectors n" for a
      using that stored_ok_sectors [OF other(1) [OF Some i]] apart [OF Some i] by (intro st(9)) auto
    then show ?thesis using Some i by (intro load_object_cong [OF other(1) [OF Some i] Some]) (simp_all add: v')
  qed
  ultimately show ?thesis by blast
qed

text \<open>A file of one process, open as descriptor 3 and not yet on the disk.\<close>

definition demo_open :: FileService where
  "demo_open = demo_fs\<lparr>fs_vfs := snd (create_file 0 ''a'' 0 empty_vfs), fs_files := [File_new 1 ''a'' 0 ModeReadWrite],
     open_files := [1 \<mapsto> 0], fd_manager := snd (fdm_allocate 7 0 0 (FileDescriptorManager_new 8))\<rparr>"

lemma demo_open_nodes:
  "nodes (fs_vfs demo_open) i =
     (if i = 0 then Some ((VFSNode_new 0 ''/'' NodeDirectory None 0)\<lparr>vn_children := [''a'' \<mapsto> 1]\<rparr>)
      else if i = 1 then Some (VFSNode_new 1 ''a'' NodeFile (Some 0) 0) else None)"
  by (auto simp: demo_open_def create_file_def create_node_def empty_vfs_def add_child_def is_directory_def VFSNode_new_def Let_def)

lemma demo_open_fd: "fdm_get 7 3 (fd_manager demo_open) = Some (OpenFile_new 3 7 0 0)"
  using demo_fdm_get by (simp add: demo_open_def demo_fdm_def)

lemma demo_open_files: "fs_files demo_open = [File_new 1 ''a'' 0 ModeReadWrite]" "fs_disk demo_open = demo_disk"
  by (simp_all add: demo_open_def demo_fs_def)

theorem write_persists_witness:
  "\<exists>s'. write_fd 7 3 [1, 2, 3] demo_open = Some (Inr 3, s') \<and>
     f_data (load_object 0 ''a'' ModeRead 1 (fs_vfs s') (fs_disk s')) = [1, 2, 3]"
proof -
  let ?f = "File_new 1 ''a'' 0 ModeReadWrite" and ?o = "OpenFile_new 3 7 0 0"
  have lay: "layout_ok (fs_vfs demo_open) (fs_disk demo_open)"
    using demo_disk_wf(1) by (auto simp: layout_ok_def demo_open_nodes demo_open_files stored_ok_def node_sectors_def VFSNode_new_def)
  have r: "open_file ?o < length (fs_files demo_open)" and f: "fs_files demo_open ! open_file ?o = ?f"
    by (simp_all add: demo_open_files OpenFile_new_def)
  have node: "nodes (fs_vfs demo_open) (f_inode (fs_files demo_open ! open_file ?o)) = Some (VFSNode_new 1 ''a'' NodeFile (Some 0) 0)"
    "node_sectors (VFSNode_new 1 ''a'' NodeFile (Some 0) 0) = old_run (fs_files demo_open ! open_file ?o)"
    by (simp_all add: f demo_open_nodes node_sectors_def old_run_def File_new_def VFSNode_new_def)
  have three: "replicate 3 (0::u8) = [0, 0, 0]" by (simp add: numeral_3_eq_3)
  obtain f1 where f1: "file_write [1, 2, 3] ?f = Some (Inr 3, f1)" "f_dirty f1" "f_data f1 = [1, 2, 3]" "f_start_sector f1 = None"
    by (simp add: file_write_def File_new_def Let_def vec_resize_def overwrite_def three)
  obtain f' d' where sync: "sync_to_disk f1 demo_disk = (Inr (), f', d')" "\<not> f_dirty f'" "f_data f' = [1, 2, 3]"
    using demo_disk_saves [of f1] f1 by auto
  obtain s' where s': "write_fd 7 3 [1, 2, 3] demo_open = Some (Inr 3, s')" "fs_files s' ! open_file ?o = f'"
    using f1 sync(1) r f demo_open_fd by (simp add: write_fd_def openfile_write_def demo_open_files Let_def OpenFile_new_def)
  from write_persists [OF lay demo_open_fd r node s'(1) s'(2) [symmetric] sync(2), of 0 "''a''" ModeRead] sync(3) s'(1) f
  show ?thesis by (auto simp: File_new_def)
qed

text \<open>A disk that is full: saving fails, yet the old sectors have been given back and the node still lists them.\<close>

lemma sync_failure_frees:
  assumes "disk_wf d" "f_dirty f" "f_data f \<noteq> []" "length (f_data f) \<le> 2 ^ 40" "sync_to_disk f d = (Inl e, f', d')"
    "allocate_sectors (release_old f d) (of_nat ((length (f_data f) + 511) div 512)) = Inl e'"
  shows "f' = f \<and> used_set (bitmap d') = used_set (bitmap d) - old_run f"
proof -
  have "of_nat ((length (f_data f) + 511) div 512) \<noteq> (0 :: u32)" using assms(2,5) by (auto simp: sync_to_disk_def Let_def)
  then have "f' = f" "d' = release_old f d" using assms(2,5,6) by (auto simp: sync_to_disk_def Let_def)
  then show ?thesis using release_old_spec [OF assms(1)] by simp
qed

text \<open>Opening a file that is open already rewinds it, and changes its mode, under every descriptor that shares it.\<close>

lemma reopen_rewinds:
  assumes "open_files s ino = Some r" "r < length (fs_files s)" "file_object p path md ino s = (r', s')"
  shows "r' = r \<and> f_position (fs_files s' ! r) = 0 \<and> f_mode (fs_files s' ! r) = md"
  using assms by (auto simp: file_object_def)

section \<open>Every request is answered\<close>

definition fs_answers :: "ChanEnv \<Rightarrow> Envelope \<Rightarrow> FsResult \<Rightarrow> bool" where
  "fs_answers ce env h =
     (case h of
        FsStopped \<Rightarrow> True
      | FsDone r out _ \<Rightarrow>
          (is_ok r \<longrightarrow> (\<forall>c i. asks ce env c i \<longrightarrow> out \<noteq> [])) \<and>
          list_all (\<lambda>(c, resp). asks ce env c (response_request_id resp)) out)"

lemma fs_answers_simps:
  "fs_answers ce env FsStopped"
  "fs_answers ce env (FsDone (Inl e) out s) \<longleftrightarrow> list_all (\<lambda>(c, resp). asks ce env c (response_request_id resp)) out"
  "fs_answers ce env (FsDone (Inr u) out s) \<longleftrightarrow>
     (\<forall>c i. asks ce env c i \<longrightarrow> out \<noteq> []) \<and> list_all (\<lambda>(c, resp). asks ce env c (response_request_id resp)) out"
  by (simp_all add: fs_answers_def)

lemma respond_io_answers: "fs_answers ce env (respond_io ce env known k mk o')"
  by (auto simp: respond_io_def fs_answers_simps ok_asks split: option.split sum.split prod.split)

lemma then_void_answers: "fs_answers ce env (then_void ce env o')"
  by (auto simp: then_void_def fs_answers_simps ok_asks split: option.split sum.split prod.split)

lemma file_request_answers: "fs_answers ce env (handle_file_request_with_response ce fe env req s)"
  by (cases req)
     (auto simp: handle_file_request_with_response_def respond_io_answers then_void_answers handle_read_with_response_def
       handle_write_with_response_def handle_open_with_response_def handle_close_with_response_def fs_answers_simps ok_asks Let_def
       split: sum.split prod.split)

definition is_file_msg :: "KernelMsg \<Rightarrow> bool" where
  "is_file_msg m = (case m of FileMsg _ \<Rightarrow> True | _ \<Rightarrow> False)"

lemma fs_envelope_answers:
  assumes "fs_handle ce fe env s = Some (out, s')"
  shows "((c, resp) \<in> set out \<longrightarrow> is_file_msg (message env) \<and> asks ce env c (response_request_id resp)) \<and>
    (is_file_msg (message env) \<longrightarrow> asks ce env c i \<longrightarrow> out \<noteq> [])"
proof (cases "message env")
  case (FileMsg req)
  show ?thesis
  proof (cases "expects_response env")
    case True
    then show ?thesis
      using file_request_answers [of ce env fe req s] assms FileMsg ok_asks(4) [of ce env]
      by (auto simp: fs_handle_def fs_handle_envelope_def fs_answers_simps is_file_msg_def list_all_iff
          dest: ok_error_addressed split: FsResult.splits sum.splits)
  next
    case False
    then show ?thesis using assms FileMsg
      by (auto simp: fs_handle_def fs_handle_envelope_def expects_response_def asks_def
          split: option.splits prod.splits sum.splits FsResult.splits)
  qed
qed (use assms in \<open>auto simp: fs_handle_def fs_handle_envelope_def is_file_msg_def\<close>)

interpretation file_loop: answering_service ce "fs_handle ce fe" "\<lambda>e. e" is_file_msg
  by standard (use fs_envelope_answers in blast)+

text \<open>
  The file service answers its requesters and nobody else. In every run that ends, each envelope with a
  file request, an id and a connected response channel has at least one response with its id on its
  channel, errors included; and every response sent has the id and the channel of such an envelope.
\<close>

theorem file_service_answers:
  assumes "fs_run ce fe hfs evs s = Some (out, s')"
  shows "(\<forall>env req c i. env \<in> set evs \<longrightarrow> message env = FileMsg req \<longrightarrow> request_id env = Some i \<longrightarrow>
            response_channel env = Some c \<longrightarrow> connected ce c \<longrightarrow>
            (\<exists>resp. (c, resp) \<in> set out \<and> response_request_id resp = i)) \<and>
         (\<forall>c resp. (c, resp) \<in> set out \<longrightarrow>
            (\<exists>env \<in> set evs. is_file_msg (message env) \<and> request_id env = Some (response_request_id resp) \<and>
               response_channel env = Some c \<and> connected ce c))"
proof -
  obtain s1 where run: "serve (fs_handle ce fe) evs s1 = Some (out, s')"
    using assms by (auto simp: fs_run_def split: option.splits)
  show ?thesis
    using file_loop.serve_answers [OF run] file_loop.serve_addressed [OF run]
    by (auto simp: asks_def is_file_msg_def)
qed

definition demo_stat :: Envelope where
  "demo_stat = \<lparr>message = FileMsg (Stat ''/nope''), request_id = Some 1, response_channel = Some 9\<rparr>"

theorem file_service_answers_witness:
  "\<exists>out s' resp. fs_run \<lparr>connected = (\<lambda>_. True), send_error_text = []\<rparr> \<lparr>fd_order = (\<lambda>_. []), name_order = (\<lambda>_. [])\<rparr>
     [] [demo_stat] demo_fs = Some (out, s') \<and> (9, resp) \<in> set out \<and> response_request_id resp = 1"
proof -
  let ?ce = "\<lparr>connected = (\<lambda>_. True), send_error_text = []\<rparr>" and ?fe = "\<lparr>fd_order = (\<lambda>_. []), name_order = (\<lambda>_. [])\<rparr>"
  have "handle_stat 0 ''/nope'' demo_fs = Inl (ServiceE (NotFound ''Path component'' ''nope''))"
    by (simp add: handle_stat_def demo_fs_def demo_vfs_def lookup_path_def path_components_def vfs_lookup_def get_child_def
        create_node_def empty_vfs_def add_child_def is_directory_def VFSNode_new_def Let_def)
  then obtain out s' where run: "fs_run ?ce ?fe [] [demo_stat] demo_fs = Some (out, s')"
    by (simp add: fs_run_def fs_handle_def fs_handle_envelope_def handle_file_request_with_response_def then_void_def
        demo_stat_def expects_response_def)
  from file_service_answers [OF run] have "\<exists>resp. (9, resp) \<in> set out \<and> response_request_id resp = 1"
    by (simp add: demo_stat_def)
  with run show ?thesis by blast
qed

text \<open>A listing is the sorted list of the names, whatever order the hash map has.\<close>

lemma listing_sorted:
  assumes "lookup_path path (fs_vfs s) = Inr n" "is_directory n"
    "distinct (name_order fe (vn_children n))" "set (name_order fe (vn_children n)) = dom (vn_children n)"
  shows "handle_listdir_with_response fe p path s = Inr (sorted_list_of_set (dom (vn_children n)))"
  using assms by (simp add: handle_listdir_with_response_def sorted_list_of_set_sort_remdups distinct_remdups_id flip: assms(4))

end
