(* ===== verification/Hw_Timer.thy ===== *)
theory Hw_Timer
  imports Messages
begin

text \<open>
  The hardware timer (\<^verbatim>\<open>src/hardware/timer.rs\<close>). Starting the timer spawns a thread that sleeps, sends the
  timer interrupt on the bus and counts it, as long as it finds the timer running; the other operations set the
  state that the thread looks at. The model keeps the program counters of all threads that were spawned, and a
  step is either a call of an operation, which holds the lock for its whole duration, or one step of one thread.
  The sleep is a step that the scheduler may take at any time.
\<close>

section \<open>State and operations\<close>

datatype TimerStateInternal = TimerStopped | TimerRunning | TimerPaused

text \<open>Where a thread is in its loop: before the first check, asleep, before the second check, before it sends, before it counts, ended.\<close>

datatype TimerPc = AtCheck | AtSleep | AtRecheck | AtSend | AtCount | Ended

record TimerConfig =
  tick_interval_ms :: u64
  auto_start :: bool

definition TimerConfig_default :: TimerConfig where
  "TimerConfig_default = \<lparr>tick_interval_ms = 10, auto_start = False\<rparr>"

record HwTimer =
  tm_state :: TimerStateInternal
  tm_interval :: u64
  tm_count :: u64
  tm_threads :: "TimerPc list"
  tm_sent :: "KernelMsg list"

text \<open>A thread that is still in its loop when the timer is started again is not joined: it stays.\<close>

definition timer_start :: "HwTimer \<Rightarrow> HwTimer" where
  "timer_start t =
     (if tm_state t = TimerRunning then t
      else t\<lparr>tm_state := TimerRunning, tm_threads := tm_threads t @ [AtCheck]\<rparr>)"

definition Timer_new :: "TimerConfig \<Rightarrow> HwTimer" where
  "Timer_new cfg =
     (let t = \<lparr>tm_state = TimerStopped, tm_interval = tick_interval_ms cfg, tm_count = 0, tm_threads = [], tm_sent = []\<rparr>
      in if auto_start cfg then timer_start t else t)"

definition timer_stop :: "HwTimer \<Rightarrow> HwTimer" where
  "timer_stop t = t\<lparr>tm_state := TimerStopped\<rparr>"

definition timer_pause :: "HwTimer \<Rightarrow> HwTimer" where
  "timer_pause t = (if tm_state t = TimerRunning then t\<lparr>tm_state := TimerPaused\<rparr> else t)"

definition timer_resume :: "HwTimer \<Rightarrow> HwTimer" where
  "timer_resume t = (if tm_state t = TimerPaused then t\<lparr>tm_state := TimerRunning\<rparr> else t)"

definition timer_is_running :: "HwTimer \<Rightarrow> bool" where
  "timer_is_running t \<longleftrightarrow> tm_state t = TimerRunning"

definition timer_reset_counter :: "HwTimer \<Rightarrow> HwTimer" where
  "timer_reset_counter t = t\<lparr>tm_count := 0\<rparr>"

record TimerSnapshot =
  ts_running :: bool
  ts_interval_ms :: u64
  ts_count :: u64

definition timer_dump_state :: "HwTimer \<Rightarrow> TimerSnapshot" where
  "timer_dump_state t = \<lparr>ts_running = timer_is_running t, ts_interval_ms = tm_interval t, ts_count = tm_count t\<rparr>"

text \<open>One step of thread \<open>i\<close>; a thread that has ended, or does not exist, does nothing.\<close>

definition timer_thread_step :: "nat \<Rightarrow> HwTimer \<Rightarrow> HwTimer" where
  "timer_thread_step i t =
     (if i < length (tm_threads t) then
        (case tm_threads t ! i of
           AtCheck \<Rightarrow> t\<lparr>tm_threads := (tm_threads t)[i := if tm_state t = TimerRunning then AtSleep else Ended]\<rparr>
         | AtSleep \<Rightarrow> t\<lparr>tm_threads := (tm_threads t)[i := AtRecheck]\<rparr>
         | AtRecheck \<Rightarrow> t\<lparr>tm_threads := (tm_threads t)[i := if tm_state t = TimerRunning then AtSend else Ended]\<rparr>
         | AtSend \<Rightarrow> t\<lparr>tm_threads := (tm_threads t)[i := AtCount], tm_sent := tm_sent t @ [InterruptMsg TimerInterrupt]\<rparr>
         | AtCount \<Rightarrow> t\<lparr>tm_threads := (tm_threads t)[i := AtCheck], tm_count := tm_count t + 1\<rparr>
         | Ended \<Rightarrow> t)
      else t)"

datatype TimerAct = TStart | TStop | TPause | TResume | TReset | TThread nat

primrec timer_act :: "TimerAct \<Rightarrow> HwTimer \<Rightarrow> HwTimer" where
  "timer_act TStart t = timer_start t"
| "timer_act TStop t = timer_stop t"
| "timer_act TPause t = timer_pause t"
| "timer_act TResume t = timer_resume t"
| "timer_act TReset t = timer_reset_counter t"
| "timer_act (TThread i) t = timer_thread_step i t"

text \<open>Any interleaving of calls and thread steps.\<close>

definition timer_run :: "TimerAct list \<Rightarrow> HwTimer \<Rightarrow> HwTimer" where
  "timer_run as t = fold timer_act as t"

lemma timer_run_simps [simp]:
  "timer_run [] t = t" "timer_run (a # as) t = timer_run as (timer_act a t)" "timer_run (as @ bs) t = timer_run bs (timer_run as t)"
  by (simp_all add: timer_run_def)

lemmas timer_op_defs = timer_start_def timer_stop_def timer_pause_def timer_resume_def timer_reset_counter_def

section \<open>What the threads send and count\<close>

definition at_pc :: "TimerPc \<Rightarrow> HwTimer \<Rightarrow> nat" where
  "at_pc p t = length (filter (\<lambda>q. q = p) (tm_threads t))"

lemma filter_list_update:
  "i < length xs \<Longrightarrow> length (filter P (xs[i := y])) + (if P (xs ! i) then 1 else 0) = length (filter P xs) + (if P y then 1 else 0)"
proof (induction xs arbitrary: i)
  case (Cons x xs)
  then show ?case by (cases i) auto
qed simp

text \<open>The change of a thread's program counter, in one step.\<close>

lemma timer_thread_step_cases:
  obtains (none) "timer_thread_step i t = t" "i < length (tm_threads t) \<longrightarrow> tm_threads t ! i = Ended"
  | (move) p q where "i < length (tm_threads t)" "tm_threads t ! i = p" "timer_thread_step i t = t\<lparr>tm_threads := (tm_threads t)[i := q]\<rparr>"
      "p = AtCheck \<and> q = AtSleep \<and> tm_state t = TimerRunning \<or> p = AtSleep \<and> q = AtRecheck \<or>
       p = AtRecheck \<and> q = AtSend \<and> tm_state t = TimerRunning \<or>
       (p = AtCheck \<or> p = AtRecheck) \<and> q = Ended \<and> tm_state t \<noteq> TimerRunning"
  | (send) "i < length (tm_threads t)" "tm_threads t ! i = AtSend"
      "timer_thread_step i t = t\<lparr>tm_threads := (tm_threads t)[i := AtCount], tm_sent := tm_sent t @ [InterruptMsg TimerInterrupt]\<rparr>"
  | (tick) "i < length (tm_threads t)" "tm_threads t ! i = AtCount"
      "timer_thread_step i t = t\<lparr>tm_threads := (tm_threads t)[i := AtCheck], tm_count := tm_count t + 1\<rparr>"
proof (cases "i < length (tm_threads t)")
  case True
  show thesis
  proof (cases "tm_threads t ! i")
    case AtCheck
    then show ?thesis using True by (cases "tm_state t = TimerRunning") (auto simp: timer_thread_step_def intro: move)
  next
    case AtSleep
    then show ?thesis using True by (intro move) (auto simp: timer_thread_step_def)
  next
    case AtRecheck
    then show ?thesis using True by (cases "tm_state t = TimerRunning") (auto simp: timer_thread_step_def intro: move)
  qed (use True in \<open>auto simp: timer_thread_step_def intro: none send tick\<close>)
qed (auto simp: timer_thread_step_def intro: none)

lemma at_pc_update:
  "i < length (tm_threads t) \<Longrightarrow>
   at_pc r (t\<lparr>tm_threads := (tm_threads t)[i := q]\<rparr>) + (if tm_threads t ! i = r then 1 else 0) = at_pc r t + (if q = r then 1 else 0)"
  unfolding at_pc_def using filter_list_update [of i "tm_threads t" "\<lambda>x. x = r" q] by simp

lemma at_pc_frame [simp]:
  "at_pc p (t\<lparr>tm_state := s\<rparr>) = at_pc p t" "at_pc p (t\<lparr>tm_count := c\<rparr>) = at_pc p t" "at_pc p (t\<lparr>tm_sent := m\<rparr>) = at_pc p t"
  by (simp_all add: at_pc_def)

text \<open>Counted and sent interrupts differ by the threads that have sent one and not counted it yet.\<close>

definition timer_balanced :: "HwTimer \<Rightarrow> bool" where
  "timer_balanced t \<longleftrightarrow> tm_count t + of_nat (at_pc AtCount t) = of_nat (length (tm_sent t)) \<and> set (tm_sent t) \<subseteq> {InterruptMsg TimerInterrupt}"

lemma timer_act_balanced:
  assumes "timer_balanced t" "a \<noteq> TReset"
  shows "timer_balanced (timer_act a t)"
proof (cases a)
  case (TThread i)
  show ?thesis
  proof (cases rule: timer_thread_step_cases [of i t])
    case none
    then show ?thesis using assms TThread by simp
  next
    case (move p q)
    then have "at_pc AtCount (t\<lparr>tm_threads := (tm_threads t)[i := q]\<rparr>) = at_pc AtCount t" using at_pc_update [of i t AtCount q] by auto
    then show ?thesis using assms TThread move(3) by (simp add: timer_balanced_def)
  next
    case send
    then have "at_pc AtCount (t\<lparr>tm_threads := (tm_threads t)[i := AtCount]\<rparr>) = at_pc AtCount t + 1" using at_pc_update [of i t AtCount AtCount] by simp
    then show ?thesis using assms TThread send(3) by (simp add: timer_balanced_def add.assoc [symmetric])
  next
    case tick
    then have "at_pc AtCount t = Suc (at_pc AtCount (t\<lparr>tm_threads := (tm_threads t)[i := AtCheck]\<rparr>))" using at_pc_update [of i t AtCount AtCheck] by simp
    then show ?thesis using assms TThread tick(3) by (simp add: timer_balanced_def add.assoc [symmetric])
  qed
qed (use assms in \<open>auto simp: timer_op_defs timer_balanced_def at_pc_def\<close>)

lemma timer_run_balanced: "timer_balanced t \<Longrightarrow> TReset \<notin> set as \<Longrightarrow> timer_balanced (timer_run as t)"
  by (induction as arbitrary: t) (auto simp: timer_act_balanced)

section \<open>Stopping\<close>

primrec pc_rank :: "TimerPc \<Rightarrow> nat" where
  "pc_rank Ended = 0"
| "pc_rank AtCheck = 1"
| "pc_rank AtRecheck = 1"
| "pc_rank AtSleep = 2"
| "pc_rank AtCount = 2"
| "pc_rank AtSend = 3"

lemma pc_rank_bound: "pc_rank p \<le> 3" "pc_rank p = 0 \<longleftrightarrow> p = Ended"
  by (cases p; simp)+

definition revives :: "TimerAct \<Rightarrow> bool" where
  "revives a \<longleftrightarrow> a = TStart \<or> a = TResume"

text \<open>One step of a timer that is not running: the thread that moves comes closer to its end, and no thread comes to the point of sending.\<close>

lemma stopped_step:
  assumes "tm_state t \<noteq> TimerRunning" "\<not> revives a"
  shows "tm_state (timer_act a t) \<noteq> TimerRunning \<and> length (tm_threads (timer_act a t)) = length (tm_threads t) \<and>
    (\<forall>j < length (tm_threads t). pc_rank (tm_threads (timer_act a t) ! j) = pc_rank (tm_threads t ! j) - (if a = TThread j then 1 else 0)) \<and>
    length (tm_sent (timer_act a t)) + at_pc AtSend (timer_act a t) = length (tm_sent t) + at_pc AtSend t"
proof (cases a)
  case (TThread i)
  show ?thesis
  proof (cases rule: timer_thread_step_cases [of i t])
    case none
    then show ?thesis using assms(1) TThread by auto
  next
    case (move p q)
    then have "at_pc AtSend (t\<lparr>tm_threads := (tm_threads t)[i := q]\<rparr>) = at_pc AtSend t" using at_pc_update [of i t AtSend q] assms(1) by auto
    then show ?thesis using assms(1) TThread move by (auto simp: nth_list_update)
  next
    case send
    then have "at_pc AtSend t = Suc (at_pc AtSend (t\<lparr>tm_threads := (tm_threads t)[i := AtCount]\<rparr>))" using at_pc_update [of i t AtSend AtCount] by simp
    then show ?thesis using assms(1) TThread send by (auto simp: nth_list_update)
  next
    case tick
    then have "at_pc AtSend (t\<lparr>tm_threads := (tm_threads t)[i := AtCheck]\<rparr>) = at_pc AtSend t" using at_pc_update [of i t AtSend AtCheck] by simp
    then show ?thesis using assms(1) TThread tick by (auto simp: nth_list_update)
  qed
qed (use assms in \<open>auto simp: timer_op_defs revives_def\<close>)

lemma stopped_run:
  assumes "tm_state t \<noteq> TimerRunning" "\<forall>a \<in> set as. \<not> revives a"
  shows "tm_state (timer_run as t) \<noteq> TimerRunning \<and> length (tm_threads (timer_run as t)) = length (tm_threads t) \<and>
    (\<forall>j < length (tm_threads t). pc_rank (tm_threads (timer_run as t) ! j) = pc_rank (tm_threads t ! j) - count_list as (TThread j)) \<and>
    length (tm_sent (timer_run as t)) + at_pc AtSend (timer_run as t) = length (tm_sent t) + at_pc AtSend t"
  using assms
proof (induction as arbitrary: t)
  case (Cons a as)
  have a: "\<not> revives a" and as: "\<forall>b \<in> set as. \<not> revives b" using Cons.prems(2) by simp_all
  note st = stopped_step [OF Cons.prems(1) a]
  then have "tm_state (timer_act a t) \<noteq> TimerRunning" by blast
  note ih = Cons.IH [OF this as]
  show ?case using st ih by simp
qed simp

text \<open>
  C35. A timer that is stopped or paused falls silent. Whatever the interleaving, as long as it is neither
  started nor resumed again, at most one more interrupt is sent per thread that had already passed its second
  check, and a thread that is scheduled three more times has left its loop.
\<close>

theorem timer_quiesces:
  assumes "tm_state t \<noteq> TimerRunning" "\<forall>a \<in> set as. \<not> revives a"
  shows "length (tm_sent (timer_run as t)) \<le> length (tm_sent t) + at_pc AtSend t \<and>
    (\<forall>j < length (tm_threads t). 3 \<le> count_list as (TThread j) \<longrightarrow> tm_threads (timer_run as t) ! j = Ended)"
proof -
  note run = stopped_run [OF assms]
  have "tm_threads (timer_run as t) ! j = Ended" if "j < length (tm_threads t)" "3 \<le> count_list as (TThread j)" for j
    using run that pc_rank_bound [of "tm_threads t ! j"] pc_rank_bound(2) [of "tm_threads (timer_run as t) ! j"] by fastforce
  then show ?thesis using run by simp
qed

definition demo_timer :: HwTimer where
  "demo_timer = timer_run [TThread 0, TThread 0, TThread 0, TStop] (Timer_new (TimerConfig_default\<lparr>auto_start := True\<rparr>))"

lemma demo_timer_eq: "demo_timer = \<lparr>tm_state = TimerStopped, tm_interval = 10, tm_count = 0, tm_threads = [AtSend], tm_sent = []\<rparr>"
  by (simp add: demo_timer_def Timer_new_def TimerConfig_default_def timer_op_defs timer_thread_step_def)

theorem timer_quiesces_witness:
  "length (tm_sent (timer_run [TThread 0, TThread 0, TThread 0] demo_timer)) \<le> 1 \<and>
   tm_threads (timer_run [TThread 0, TThread 0, TThread 0] demo_timer) ! 0 = Ended"
  using timer_quiesces [of demo_timer "[TThread 0, TThread 0, TThread 0]"]
  by (simp add: demo_timer_eq revives_def at_pc_def)

text \<open>
  The tick counter is the number of interrupts sent. In every interleaving from a new timer in which the
  counter is not reset, it is that number less the interrupts that a thread has sent and is about to count,
  modulo \<open>2 ^ 64\<close>; nothing but timer interrupts is sent.
\<close>

theorem timer_counts_interrupts:
  assumes "TReset \<notin> set as"
  shows "let t = timer_run as (Timer_new cfg) in
    tm_count t + of_nat (at_pc AtCount t) = of_nat (length (tm_sent t)) \<and> set (tm_sent t) \<subseteq> {InterruptMsg TimerInterrupt}"
proof -
  have "timer_balanced (Timer_new cfg)" by (simp add: timer_balanced_def Timer_new_def timer_start_def at_pc_def Let_def)
  from timer_run_balanced [OF this assms] show ?thesis by (simp add: timer_balanced_def Let_def)
qed

theorem timer_counts_interrupts_witness:
  "tm_count (timer_run (TStart # replicate 10 (TThread 0)) (Timer_new TimerConfig_default)) = 2"
  using timer_counts_interrupts [of "TStart # replicate 10 (TThread 0)" TimerConfig_default]
  by (simp add: Timer_new_def TimerConfig_default_def timer_op_defs timer_thread_step_def at_pc_def eval_nat_numeral)

section \<open>Resuming and restarting\<close>

text \<open>
  Resuming does not spawn a thread. Once the threads have noticed a pause and ended, the resumed timer says
  that it runs, and no interrupt is sent, however often it is started or resumed, until it is stopped or
  paused again.
\<close>

lemma resumed_silent:
  assumes "tm_state t = TimerRunning" "\<forall>p \<in> set (tm_threads t). p = Ended" "TStop \<notin> set as" "TPause \<notin> set as"
  shows "timer_is_running (timer_run as t) \<and> tm_sent (timer_run as t) = tm_sent t"
  using assms
proof (induction as arbitrary: t)
  case (Cons a as)
  have "tm_state (timer_act a t) = TimerRunning \<and> tm_threads (timer_act a t) = tm_threads t \<and> tm_sent (timer_act a t) = tm_sent t"
  proof (cases a)
    case (TThread i)
    then show ?thesis using Cons.prems(1,2) by (auto simp: timer_thread_step_def dest!: nth_mem)
  qed (use Cons.prems in \<open>auto simp: timer_op_defs\<close>)
  then show ?case using Cons.IH [of "timer_act a t"] Cons.prems by simp
qed (simp add: timer_is_running_def)

lemma pause_resume_stops_ticking:
  fixes t :: HwTimer
  defines "t \<equiv> timer_run [TStart, TThread 0, TPause, TThread 0, TThread 0, TResume] (Timer_new TimerConfig_default)"
  assumes "TStop \<notin> set as" "TPause \<notin> set as"
  shows "timer_is_running (timer_run as t) \<and> tm_sent (timer_run as t) = []"
proof -
  have "t = \<lparr>tm_state = TimerRunning, tm_interval = 10, tm_count = 0, tm_threads = [Ended], tm_sent = []\<rparr>"
    by (simp add: t_def Timer_new_def TimerConfig_default_def timer_op_defs timer_thread_step_def)
  then show ?thesis using resumed_silent [of t as] assms(2,3) by simp
qed

text \<open>
  Stopping and starting again while the first thread sleeps leaves two threads in the loop: both send an
  interrupt in every interval.
\<close>

lemma restart_doubles_rate:
  "let t = timer_run [TStart, TThread 0, TStop, TStart, TThread 1] (Timer_new TimerConfig_default) in
   length (tm_sent (timer_run (concat (replicate 3 [TThread 0, TThread 0, TThread 0, TThread 0, TThread 0,
      TThread 1, TThread 1, TThread 1, TThread 1, TThread 1])) t)) = 6"
  by code_simp

end
