(* ===== verification/Hw_Device.thy ===== *)
theory Hw_Device
  imports Error_Format
begin

text \<open>
  The simulated devices and their registry (\<^verbatim>\<open>src/hardware/device.rs\<close>): keyboard, serial port and network
  card, the trait that they implement, and the registry of devices by number. A registry holds references, so
  the devices live in a store and the registry maps numbers to places in it. A \<^verbatim>\<open>char\<close> is its code point.
\<close>

section \<open>Devices\<close>

datatype HwDeviceType = HwBlockDevice | HwCharDevice | HwNetworkDevice | HwTimerDevice | HwGraphicsDevice | HwUnknownDevice

datatype HwDeviceStatus = HwOnline | HwOffline | HwError | HwBusy | HwInitializing

record HwDeviceSnapshot =
  hs_device_id :: u32
  hs_device_type :: HwDeviceType
  hs_name :: string
  hs_status :: HwDeviceStatus
  hs_state_data :: string

text \<open>\<^verbatim>\<open>remove(0)\<close> of a vector that may be empty, as all three devices use it.\<close>

definition take_first :: "'a list \<Rightarrow> 'a option \<times> 'a list" where
  "take_first xs = (case xs of [] \<Rightarrow> (None, []) | x # ys \<Rightarrow> (Some x, ys))"

record KeyboardDevice =
  kb_device_id :: u32
  kb_status :: HwDeviceStatus
  kb_buffer :: "u32 list"

definition KeyboardDevice_new :: "u32 \<Rightarrow> KeyboardDevice" where
  "KeyboardDevice_new i = \<lparr>kb_device_id = i, kb_status = HwOnline, kb_buffer = []\<rparr>"

definition key_press :: "u32 \<Rightarrow> KeyboardDevice \<Rightarrow> KeyboardDevice" where
  "key_press c k = k\<lparr>kb_buffer := kb_buffer k @ [c]\<rparr>"

definition read_char :: "KeyboardDevice \<Rightarrow> u32 option \<times> KeyboardDevice" where
  "read_char k = (case take_first (kb_buffer k) of (r, xs) \<Rightarrow> (r, k\<lparr>kb_buffer := xs\<rparr>))"

definition has_key :: "KeyboardDevice \<Rightarrow> bool" where
  "has_key k \<longleftrightarrow> kb_buffer k \<noteq> []"

record SerialDevice =
  sd_device_id :: u32
  sd_status :: HwDeviceStatus
  tx_buffer :: "u8 list"
  rx_buffer :: "u8 list"
  baud_rate :: u32

definition SerialDevice_new :: "u32 \<Rightarrow> u32 \<Rightarrow> SerialDevice" where
  "SerialDevice_new i baud = \<lparr>sd_device_id = i, sd_status = HwOnline, tx_buffer = [], rx_buffer = [], baud_rate = baud\<rparr>"

definition serial_write_byte :: "u8 \<Rightarrow> SerialDevice \<Rightarrow> (GenshinError, unit) result \<times> SerialDevice" where
  "serial_write_byte b s = (Inr (), s\<lparr>tx_buffer := tx_buffer s @ [b]\<rparr>)"

definition serial_read_byte :: "SerialDevice \<Rightarrow> u8 option \<times> SerialDevice" where
  "serial_read_byte s = (case take_first (rx_buffer s) of (r, xs) \<Rightarrow> (r, s\<lparr>rx_buffer := xs\<rparr>))"

definition serial_receive_data :: "u8 list \<Rightarrow> SerialDevice \<Rightarrow> SerialDevice" where
  "serial_receive_data bs s = s\<lparr>rx_buffer := rx_buffer s @ bs\<rparr>"

definition serial_get_tx_data :: "SerialDevice \<Rightarrow> u8 list" where
  "serial_get_tx_data s = tx_buffer s"

text \<open>The six bytes of the hardware address are a list of length six.\<close>

record NetworkDevice =
  nd_device_id :: u32
  nd_status :: HwDeviceStatus
  nd_mac_address :: "u8 list"
  rx_queue :: "u8 list list"
  tx_queue :: "u8 list list"

definition NetworkDevice_new :: "u32 \<Rightarrow> u8 list \<Rightarrow> NetworkDevice" where
  "NetworkDevice_new i mac = \<lparr>nd_device_id = i, nd_status = HwOnline, nd_mac_address = mac, rx_queue = [], tx_queue = []\<rparr>"

definition send_packet :: "u8 list \<Rightarrow> NetworkDevice \<Rightarrow> (GenshinError, unit) result \<times> NetworkDevice" where
  "send_packet p n =
     (if nd_status n \<noteq> HwOnline then (Inl (HardwareE (DeviceErr (nd_device_id n) ''Device not online'')), n)
      else (Inr (), n\<lparr>tx_queue := tx_queue n @ [p]\<rparr>))"

definition receive_packet :: "NetworkDevice \<Rightarrow> u8 list option \<times> NetworkDevice" where
  "receive_packet n = (case take_first (rx_queue n) of (r, xs) \<Rightarrow> (r, n\<lparr>rx_queue := xs\<rparr>))"

definition inject_packet :: "u8 list \<Rightarrow> NetworkDevice \<Rightarrow> NetworkDevice" where
  "inject_packet p n = n\<lparr>rx_queue := rx_queue n @ [p]\<rparr>"

definition nic_mac_address :: "NetworkDevice \<Rightarrow> u8 list" where
  "nic_mac_address n = nd_mac_address n"

definition has_packet :: "NetworkDevice \<Rightarrow> bool" where
  "has_packet n \<longleftrightarrow> rx_queue n \<noteq> []"

section \<open>The trait\<close>

datatype HwDevice = HwKeyboard KeyboardDevice | HwSerial SerialDevice | HwNetwork NetworkDevice

primrec hw_device_id :: "HwDevice \<Rightarrow> u32" where
  "hw_device_id (HwKeyboard k) = kb_device_id k"
| "hw_device_id (HwSerial s) = sd_device_id s"
| "hw_device_id (HwNetwork n) = nd_device_id n"

primrec hw_device_type :: "HwDevice \<Rightarrow> HwDeviceType" where
  "hw_device_type (HwKeyboard k) = HwCharDevice"
| "hw_device_type (HwSerial s) = HwCharDevice"
| "hw_device_type (HwNetwork n) = HwNetworkDevice"

primrec hw_device_name :: "HwDevice \<Rightarrow> string" where
  "hw_device_name (HwKeyboard k) = ''keyboard''"
| "hw_device_name (HwSerial s) = ''serial''"
| "hw_device_name (HwNetwork n) = ''eth0''"

primrec hw_status :: "HwDevice \<Rightarrow> HwDeviceStatus" where
  "hw_status (HwKeyboard k) = kb_status k"
| "hw_status (HwSerial s) = sd_status s"
| "hw_status (HwNetwork n) = nd_status n"

primrec hw_init :: "HwDevice \<Rightarrow> HwDevice" where
  "hw_init (HwKeyboard k) = HwKeyboard (k\<lparr>kb_status := HwOnline\<rparr>)"
| "hw_init (HwSerial s) = HwSerial (s\<lparr>sd_status := HwOnline\<rparr>)"
| "hw_init (HwNetwork n) = HwNetwork (n\<lparr>nd_status := HwOnline\<rparr>)"

primrec hw_shutdown :: "HwDevice \<Rightarrow> HwDevice" where
  "hw_shutdown (HwKeyboard k) = HwKeyboard (k\<lparr>kb_status := HwOffline\<rparr>)"
| "hw_shutdown (HwSerial s) = HwSerial (s\<lparr>sd_status := HwOffline\<rparr>)"
| "hw_shutdown (HwNetwork n) = HwNetwork (n\<lparr>nd_status := HwOffline\<rparr>)"

primrec hw_reset :: "HwDevice \<Rightarrow> HwDevice" where
  "hw_reset (HwKeyboard k) = HwKeyboard (k\<lparr>kb_buffer := [], kb_status := HwOnline\<rparr>)"
| "hw_reset (HwSerial s) = HwSerial (s\<lparr>tx_buffer := [], rx_buffer := [], sd_status := HwOnline\<rparr>)"
| "hw_reset (HwNetwork n) = HwNetwork (n\<lparr>rx_queue := [], tx_queue := [], nd_status := HwOnline\<rparr>)"

text \<open>\<^verbatim>\<open>{:02X}\<close> of a byte, and the address as it is printed.\<close>

definition show_hex02_upper :: "u8 \<Rightarrow> string" where
  "show_hex02_upper b = (if b < 16 then ''0'' else []) @ to_uppercase (show_hex_digits (unat b))"

fun show_mac :: "u8 list \<Rightarrow> string" where
  "show_mac [] = []"
| "show_mac [b] = show_hex02_upper b"
| "show_mac (b # bs) = show_hex02_upper b @ '':'' @ show_mac bs"

primrec hw_snapshot :: "HwDevice \<Rightarrow> HwDeviceSnapshot" where
  "hw_snapshot (HwKeyboard k) =
     \<lparr>hs_device_id = kb_device_id k, hs_device_type = HwCharDevice, hs_name = ''keyboard'', hs_status = kb_status k,
      hs_state_data = ''buffer_size: '' @ show_dec (length (kb_buffer k))\<rparr>"
| "hw_snapshot (HwSerial s) =
     \<lparr>hs_device_id = sd_device_id s, hs_device_type = HwCharDevice, hs_name = ''serial@'' @ show_dec (unat (baud_rate s)), hs_status = sd_status s,
      hs_state_data = ''tx: '' @ show_dec (length (tx_buffer s)) @ '' bytes, rx: '' @ show_dec (length (rx_buffer s)) @ '' bytes''\<rparr>"
| "hw_snapshot (HwNetwork n) =
     \<lparr>hs_device_id = nd_device_id n, hs_device_type = HwNetworkDevice, hs_name = ''eth0('' @ show_mac (nd_mac_address n) @ '')'', hs_status = nd_status n,
      hs_state_data = ''rx_queue: '' @ show_dec (length (rx_queue n)) @ '' packets, tx_queue: '' @ show_dec (length (tx_queue n)) @ '' packets''\<rparr>"

section \<open>The registry\<close>

record DeviceRegistry =
  reg_devices :: "u32 \<rightharpoonup> nat"
  reg_next_device_id :: u32

definition DeviceRegistry_new :: DeviceRegistry where
  "DeviceRegistry_new = \<lparr>reg_devices = Map.empty, reg_next_device_id = 1\<rparr>"

definition register_device :: "nat \<Rightarrow> DeviceRegistry \<Rightarrow> u32 \<times> DeviceRegistry" where
  "register_device r g =
     (let i = reg_next_device_id g in
      (i, g\<lparr>reg_next_device_id := i + 1, reg_devices := (reg_devices g)(i \<mapsto> r)\<rparr>))"

definition unregister_device :: "u32 \<Rightarrow> DeviceRegistry \<Rightarrow> (GenshinError, unit) result \<times> DeviceRegistry" where
  "unregister_device i g =
     (case reg_devices g i of
        None \<Rightarrow> (Inl (HardwareE (DeviceErr i ''Device not found'')), g)
      | Some _ \<Rightarrow> (Inr (), g\<lparr>reg_devices := (reg_devices g)(i := None)\<rparr>))"

definition get_device :: "u32 \<Rightarrow> DeviceRegistry \<Rightarrow> nat option" where
  "get_device i g = reg_devices g i"

text \<open>\<open>order\<close> is the order in which the map yields its keys.\<close>

definition registry_list_devices :: "u32 list \<Rightarrow> HwDevice list \<Rightarrow> DeviceRegistry \<Rightarrow> HwDeviceSnapshot list" where
  "registry_list_devices order st g = map (\<lambda>r. hw_snapshot (st ! r)) (List.map_filter (reg_devices g) order)"

definition registry_devices_by_type :: "u32 list \<Rightarrow> HwDeviceType \<Rightarrow> HwDevice list \<Rightarrow> DeviceRegistry \<Rightarrow> HwDeviceSnapshot list" where
  "registry_devices_by_type order ty st g =
     map (\<lambda>r. hw_snapshot (st ! r)) (filter (\<lambda>r. hw_device_type (st ! r) = ty) (List.map_filter (reg_devices g) order))"

section \<open>What arrives is read in order\<close>

primrec drain :: "('s \<Rightarrow> 'a option \<times> 's) \<Rightarrow> nat \<Rightarrow> 's \<Rightarrow> 'a option list \<times> 's" where
  "drain get 0 s = ([], s)"
| "drain get (Suc n) s = (case get s of (r, s') \<Rightarrow> map_prod (\<lambda>rs. r # rs) id (drain get n s'))"

lemma drain_Suc: "fst (drain get (Suc n) t) = fst (drain get n t) @ [fst (get (snd (drain get n t)))]"
proof (induction n arbitrary: t)
  case (Suc n)
  obtain r t' where t: "get t = (r, t')" by fastforce
  have "fst (drain get (Suc (Suc n)) t) = r # fst (drain get (Suc n) t')" by (subst drain.simps) (simp only: t, simp)
  also have "\<dots> = fst (drain get (Suc n) t) @ [fst (get (snd (drain get (Suc n) t)))]" unfolding Suc.IH [of t'] by (simp add: t)
  finally show ?case .
qed (simp split: prod.split)

text \<open>
  A port that buffers what arrives: reading takes the oldest element, and says so when there is none.
\<close>

locale fifo_port =
  fixes put :: "'a \<Rightarrow> 's \<Rightarrow> 's"
    and get :: "'s \<Rightarrow> 'a option \<times> 's"
    and pending :: "'s \<Rightarrow> 'a list"
  assumes put_pending: "pending (put x s) = pending s @ [x]"
    and get_empty: "pending s = [] \<Longrightarrow> get s = (None, s)"
    and get_next: "pending s = x # xs \<Longrightarrow> \<exists>s'. get s = (Some x, s') \<and> pending s' = xs"
begin

lemma puts_pending: "pending (fold put xs s) = pending s @ xs"
  by (induction xs arbitrary: s) (simp_all add: put_pending)

lemma drain_pending:
  "n \<le> length (pending s) \<Longrightarrow> fst (drain get n s) = map Some (take n (pending s)) \<and> pending (snd (drain get n s)) = drop n (pending s)"
proof (induction n arbitrary: s)
  case (Suc n)
  then obtain x xs where x: "pending s = x # xs" by (cases "pending s") auto
  then obtain s' where "get s = (Some x, s')" "pending s' = xs" using get_next by blast
  with Suc.IH [of s'] Suc.prems x show ?case by simp
qed simp

text \<open>All that is put is read, in order and once, after what was there before; then the port is empty.\<close>

lemma put_all_get_all:
  assumes "pending s = []"
  shows "fst (drain get (Suc (length xs)) (fold put xs s)) = map Some xs @ [None]"
proof -
  have p: "pending (fold put xs s) = xs" using assms by (simp add: puts_pending)
  have "pending (snd (drain get (length xs) (fold put xs s))) = []" using drain_pending [of "length xs" "fold put xs s"] p by simp
  with drain_Suc [of get "length xs"] drain_pending [of "length xs" "fold put xs s"] p get_empty show ?thesis by simp
qed

end

lemma take_first_simps [simp]: "take_first [] = (None, [])" "take_first (x # xs) = (Some x, xs)"
  by (simp_all add: take_first_def)

interpretation keyboard: fifo_port key_press read_char kb_buffer
  by standard (simp_all add: key_press_def read_char_def)

interpretation serial_rx: fifo_port "\<lambda>b. serial_receive_data [b]" serial_read_byte rx_buffer
  by standard (simp_all add: serial_receive_data_def serial_read_byte_def)

interpretation network_rx: fifo_port inject_packet receive_packet rx_queue
  by standard (simp_all add: inject_packet_def receive_packet_def)

text \<open>The keys pressed are the characters read, for every way of typing on a keyboard that was just reset.\<close>

lemma typed_is_read: "fst (drain read_char (Suc (length cs)) (fold key_press cs (KeyboardDevice_new i))) = map Some cs @ [None]"
  by (rule keyboard.put_all_get_all) (simp add: KeyboardDevice_new_def)

section \<open>The registry hands out fresh numbers\<close>

text \<open>
  The number that a registration returns was not in use, as long as fewer than \<open>2 ^ 32 - 1\<close> devices have been
  registered: numbers are given in increasing order from 1. It is not the number that the device has of itself.
\<close>

definition registry_wf :: "DeviceRegistry \<Rightarrow> bool" where
  "registry_wf g \<longleftrightarrow> 0 < reg_next_device_id g \<and> (\<forall>i \<in> dom (reg_devices g). 0 < i \<and> i < reg_next_device_id g)"

lemma registry_wf_new [inv_intros]: "registry_wf DeviceRegistry_new"
  by (simp add: registry_wf_def DeviceRegistry_new_def)

lemma register_device_fresh:
  assumes "registry_wf g" "reg_next_device_id g \<noteq> - 1" "register_device r g = (i, g')"
  shows "registry_wf g' \<and> get_device i g = None \<and> get_device i g' = Some r \<and> (\<forall>j. j \<noteq> i \<longrightarrow> get_device j g' = get_device j g)"
proof -
  have n: "reg_next_device_id g < reg_next_device_id g + 1" using assms(2) by (simp add: not_le [symmetric] inc_less_eq_self_iff_eq)
  have i: "i = reg_next_device_id g" using assms(3) by (auto simp: register_device_def Let_def)
  then have "get_device i g = None" using assms(1) by (auto simp: registry_wf_def get_device_def)
  moreover have "j < reg_next_device_id g + 1" if "j \<in> dom (reg_devices g)" for j
    using assms(1) that n by (auto simp: registry_wf_def intro: less_trans)
  then have "registry_wf g'" using assms n by (auto simp: registry_wf_def register_device_def Let_def domI split: if_splits)
  ultimately show ?thesis using assms(3) by (auto simp: register_device_def Let_def get_device_def)
qed

lemma unregister_device_spec:
  "registry_wf g \<Longrightarrow> registry_wf (snd (unregister_device i g)) \<and> get_device i (snd (unregister_device i g)) = None"
  by (auto simp: registry_wf_def unregister_device_def get_device_def split: option.splits if_splits)

end
