(* ===== verification/Block_Device.thy ===== *)
theory Block_Device
  imports Virtual_Disk
begin

text \<open>
  Block devices (\<^verbatim>\<open>src/hardware/block.rs\<close>): the trait \<^verbatim>\<open>BlockDevice\<close> as a locale, the device on a virtual
  disk and the partition of a block device as its two implementations. A device holds a shared reference to
  the disk, so its operations take and return the disk.
\<close>

section \<open>The device on a disk\<close>

definition BLOCK_SIZE :: nat where
  "BLOCK_SIZE = 4096"

definition SECTORS_PER_BLOCK :: nat where
  "SECTORS_PER_BLOCK = BLOCK_SIZE div SECTOR_SIZE"

text \<open>\<^verbatim>\<open>chunks(n)\<close> of a slice.\<close>

function (sequential) chunks :: "nat \<Rightarrow> 'a list \<Rightarrow> 'a list list" where
  "chunks n [] = []"
| "chunks n xs = (if n = 0 then [] else take n xs # chunks n (drop n xs))"
  by pat_completeness auto
termination by (relation "measure (length \<circ> snd)") auto

text \<open>The product is taken in 64 bits and cast to 32 bits.\<close>

definition block_start :: "u64 \<Rightarrow> u32" where
  "block_start b = ucast (b * of_nat SECTORS_PER_BLOCK)"

definition disk_err :: "DiskError \<Rightarrow> GenshinError" where
  "disk_err e = HardwareE (DiskErr e)"

definition phys_read_block :: "VirtualDisk \<Rightarrow> u64 \<Rightarrow> (GenshinError, u8 list) result" where
  "phys_read_block d b = map_err disk_err (rbind (rd_run read_sector d (block_start b) SECTORS_PER_BLOCK) (\<lambda>bss. Inr (concat bss)))"

definition phys_write_block :: "VirtualDisk \<Rightarrow> u64 \<Rightarrow> u8 list \<Rightarrow> (GenshinError, unit) result \<times> VirtualDisk" where
  "phys_write_block d b bs =
     (if length bs \<noteq> BLOCK_SIZE then (Inl (disk_err (IoFailed ''write_block'' (ucast b))), d)
      else case wr_run write_sector d (block_start b) (chunks SECTOR_SIZE bs) of (r, d') \<Rightarrow> (map_err disk_err r, d'))"

definition phys_total_blocks :: "VirtualDisk \<Rightarrow> u64" where
  "phys_total_blocks d = ucast (total_sectors d) div of_nat SECTORS_PER_BLOCK"

section \<open>Partitions\<close>

datatype PartitionType = PartEmpty | FAT32 | EXT4 | LinuxSwap | PartUnknown u8

record Partition =
  part_number :: u8
  start_block :: u64
  part_total_blocks :: u64
  partition_type :: PartitionType
  bootable :: bool

record PartitionLayout =
  partitions :: "Partition list"

definition PartitionLayout_new :: PartitionLayout where
  "PartitionLayout_new = \<lparr>partitions = []\<rparr>"

definition add_partition :: "Partition \<Rightarrow> PartitionLayout \<Rightarrow> PartitionLayout" where
  "add_partition p l = l\<lparr>partitions := partitions l @ [p]\<rparr>"

definition get_partition :: "u8 \<Rightarrow> PartitionLayout \<Rightarrow> Partition option" where
  "get_partition n l = find (\<lambda>p. part_number p = n) (partitions l)"

definition outside_partition :: "Partition \<Rightarrow> u64 \<Rightarrow> GenshinError" where
  "outside_partition p b = disk_err (InvalidSector (ucast b) (ucast (part_total_blocks p)))"

text \<open>The operations of a partition over those of the device that it is part of.\<close>

definition partition_read :: "('s \<Rightarrow> u64 \<Rightarrow> (GenshinError, u8 list) result) \<Rightarrow> Partition \<Rightarrow> 's \<Rightarrow> u64 \<Rightarrow> (GenshinError, u8 list) result" where
  "partition_read rd p s b =
     (if part_total_blocks p \<le> b then Inl (outside_partition p b) else rd s (start_block p + b))"

definition partition_write ::
  "('s \<Rightarrow> u64 \<Rightarrow> u8 list \<Rightarrow> (GenshinError, unit) result \<times> 's) \<Rightarrow> Partition \<Rightarrow> 's \<Rightarrow> u64 \<Rightarrow> u8 list \<Rightarrow> (GenshinError, unit) result \<times> 's" where
  "partition_write wr p s b bs =
     (if part_total_blocks p \<le> b then (Inl (outside_partition p b), s) else wr s (start_block p + b) bs)"

section \<open>What a block device promises\<close>

text \<open>
  A block below the device's count can be read and, with data of the block size, written; it then reads as
  written, and every other block as before. Data of another size is refused and changes nothing.
\<close>

locale block_store =
  fixes rd :: "'s \<Rightarrow> u64 \<Rightarrow> (GenshinError, u8 list) result"
    and wr :: "'s \<Rightarrow> u64 \<Rightarrow> u8 list \<Rightarrow> (GenshinError, unit) result \<times> 's"
    and blocks :: "'s \<Rightarrow> u64"
    and inv :: "'s \<Rightarrow> bool"
  assumes rd_block: "inv s \<Longrightarrow> b < blocks s \<Longrightarrow> \<exists>bs. rd s b = Inr bs \<and> length bs = BLOCK_SIZE"
    and wr_block: "inv s \<Longrightarrow> b < blocks s \<Longrightarrow> length bs = BLOCK_SIZE \<Longrightarrow> fst (wr s b bs) = Inr ()"
    and wr_refused: "length bs \<noteq> BLOCK_SIZE \<Longrightarrow> fst (wr s b bs) \<noteq> Inr () \<and> snd (wr s b bs) = s"
    and wr_keeps: "inv s \<Longrightarrow> b < blocks s \<Longrightarrow> wr s b bs = (r, s') \<Longrightarrow> inv s' \<and> blocks s' = blocks s"
    and rd_wr_block: "inv s \<Longrightarrow> b < blocks s \<Longrightarrow> wr s b bs = (Inr (), s') \<Longrightarrow> b' < blocks s \<Longrightarrow>
           rd s' b' = (if b' = b then Inr bs else rd s b')"
begin

lemma wr_cases:
  assumes "inv s" "b < blocks s" "wr s b bs = (r, s')"
  obtains (stored) "length bs = BLOCK_SIZE" "r = Inr ()" | (refused) "length bs \<noteq> BLOCK_SIZE" "r \<noteq> Inr ()" "s' = s"
  using wr_block [OF assms(1,2), of bs] wr_refused [of bs s b] assms(3) by (cases "length bs = BLOCK_SIZE") auto

text \<open>Whatever a write returns, the other blocks read as before.\<close>

lemma wr_other:
  assumes "inv s" "b < blocks s" "wr s b bs = (r, s')" "b' < blocks s" "b' \<noteq> b"
  shows "rd s' b' = rd s b'"
  using assms(1-3)
proof (cases rule: wr_cases)
  case stored
  then show ?thesis using rd_wr_block [OF assms(1,2) _ assms(4)] assms(3,5) by simp
qed simp

end

text \<open>A partition that lies within its device is a block device itself.\<close>

locale partitioned = block_store +
  fixes p :: Partition
  assumes fits: "inv s \<Longrightarrow> unat (start_block p) + unat (part_total_blocks p) \<le> unat (blocks s)"
begin

lemma part_index:
  assumes "inv s" "b < part_total_blocks p"
  shows "unat (start_block p + b) = unat (start_block p) + unat b" "start_block p + b < blocks s"
proof -
  have "unat (start_block p) + unat b < unat (blocks s)" using fits [OF assms(1)] assms(2) by (simp add: word_less_nat_alt)
  moreover have "unat (blocks s) < 2 ^ LENGTH(64)" by (rule unsigned_less)
  ultimately show "unat (start_block p + b) = unat (start_block p) + unat b" "start_block p + b < blocks s"
    by (simp_all add: unat_word_ariths word_less_nat_alt)
qed

end

sublocale partitioned \<subseteq> part: block_store "partition_read rd p" "partition_write wr p" "\<lambda>_. part_total_blocks p" inv
proof (standard, goal_cases)
  case (1 s b)
  then show ?case using rd_block [OF 1(1) part_index(2) [OF 1]] by (simp add: partition_read_def not_le)
next
  case (2 s b bs)
  then show ?case using wr_block [OF 2(1) part_index(2) [OF 2(1,2)] 2(3)] by (simp add: partition_write_def not_le)
next
  case (3 bs s b)
  then show ?case using wr_refused [OF 3] by (simp add: partition_write_def)
next
  case (4 s b bs r s')
  then show ?case using wr_keeps [OF 4(1) part_index(2) [OF 4(1,2)], of bs r s'] by (simp add: partition_write_def not_le [symmetric])
next
  case (5 s b bs s' b')
  then have "\<not> part_total_blocks p \<le> b" "\<not> part_total_blocks p \<le> b'" by simp_all
  with 5 show ?case
    using rd_wr_block [OF 5(1) part_index(2) [OF 5(1,2)] _ part_index(2) [OF 5(1,4)], of bs s']
    by (simp only: partition_read_def partition_write_def if_False) simp
qed

section \<open>The disk as a block device\<close>

lemma SECTORS_PER_BLOCK_eq: "SECTORS_PER_BLOCK = 8" "SECTOR_SIZE = 512" "BLOCK_SIZE = 4096"
  by (simp_all add: SECTORS_PER_BLOCK_def BLOCK_SIZE_def SECTOR_SIZE_def)

lemma chunks_spec:
  "0 < n \<Longrightarrow> length xs = k * n \<Longrightarrow> length (chunks n xs) = k \<and> (\<forall>c \<in> set (chunks n xs). length c = n) \<and> concat (chunks n xs) = xs"
proof (induction k arbitrary: xs)
  case (Suc k)
  then obtain y ys where xs: "xs = y # ys" by (cases xs) auto
  have "length (drop n xs) = k * n" using Suc.prems by simp
  with Suc.IH [OF Suc.prems(1) this] Suc.prems show ?case unfolding xs by simp
qed simp

lemma length_concat_const: "\<forall>x \<in> set xss. length x = n \<Longrightarrow> length (concat xss) = length xss * n"
  by (induction xss) auto

lemma block_chunks:
  assumes "length bs = BLOCK_SIZE"
  shows "length (chunks SECTOR_SIZE bs) = 8" "\<forall>c \<in> set (chunks SECTOR_SIZE bs). length c = SECTOR_SIZE" "concat (chunks SECTOR_SIZE bs) = bs"
  using chunks_spec [of SECTOR_SIZE bs 8] assms by (simp_all add: SECTORS_PER_BLOCK_eq)

lemma block_within:
  assumes "b < phys_total_blocks d"
  shows "unat (block_start b) = unat b * 8" "unat b * 8 + 8 \<le> unat (total_sectors d)"
proof -
  have t: "unat (ucast (total_sectors d) :: u64) = unat (total_sectors d)" 
    by (rule unat_sector64)
  have l: "unat (total_sectors d) < 2 ^ 32" by (rule u32_less)
  have "unat b < unat (total_sectors d) div 8"
    using assms by (simp add: phys_total_blocks_def SECTORS_PER_BLOCK_eq word_less_nat_alt unat_div t)
  then show le: "unat b * 8 + 8 \<le> unat (total_sectors d)" by simp
  have "unat (b * 8) = unat b * 8" using le l by (simp add: unat_word_ariths)
  then have "unat (ucast (b * 8) :: u32) = unat b * 8" using le l by (simp add: unsigned_ucast_eq take_bit_nat_eq_self)
  then show "unat (block_start b) = unat b * 8" by (simp add: block_start_def SECTORS_PER_BLOCK_eq)
qed

lemma block_sector:
  assumes "b < phys_total_blocks d" "i < 8"
  shows "unat (block_start b + of_nat i) = unat b * 8 + i"
proof -
  have i: "unat (of_nat i :: u32) = i" using assms(2) by (simp add: unat_of_nat)
  have l: "unat (total_sectors d) < 2 ^ 32" by (rule u32_less)
  show ?thesis using block_within [OF assms(1)] l assms(2) by (simp add: unat_word_ariths i)
qed

lemma phys_write_spec:
  assumes "disk_wf d" "b < phys_total_blocks d" "length bs = BLOCK_SIZE"
  obtains d' where "phys_write_block d b bs = (Inr (), d')" "disk_wf d'" "total_sectors d' = total_sectors d"
    "\<And>x. read_sector d' x = (if unat b * 8 \<le> unat x \<and> unat x < unat b * 8 + 8
        then Inr (chunks SECTOR_SIZE bs ! (unat x - unat b * 8)) else read_sector d x)"
proof -
  note w = block_within [OF assms(2)] and c = block_chunks [OF assms(3)]
  have l: "unat (total_sectors d) < 2 ^ 32" by (rule u32_less)
  have "unat (block_start b) + length (chunks SECTOR_SIZE bs) \<le> unat (total_sectors d)" using w c by simp
  from vdisk.wr_run_spec [OF assms(1) this l c(2)] c(1) w(1) obtain d' where
    "wr_run write_sector d (block_start b) (chunks SECTOR_SIZE bs) = (Inr (), d')" "disk_wf d'" "total_sectors d' = total_sectors d"
    "\<And>x. read_sector d' x = (if unat b * 8 \<le> unat x \<and> unat x < unat b * 8 + 8
        then Inr (chunks SECTOR_SIZE bs ! (unat x - unat b * 8)) else read_sector d x)"
    by (auto simp: word_unat_eq_iff)
  with assms(3) show thesis by (intro that [of d']) (simp_all add: phys_write_block_def)
qed

lemma disk_run_reads:
  "disk_wf d \<Longrightarrow> unat a + k \<le> unat (total_sectors d) \<Longrightarrow>
   \<exists>bss. rd_run read_sector d a k = Inr bss \<and> length bss = k \<and> (\<forall>x \<in> set bss. length x = SECTOR_SIZE)"
proof (induction k arbitrary: a)
  case (Suc k)
  obtain x where x: "read_sector d a = Inr x" "length x = SECTOR_SIZE"
    using vdisk.rd_ok [OF Suc.prems(1), of a] vdisk.rd_length [OF Suc.prems(1), of a] Suc.prems(2)
    by (cases "read_sector d a") auto
  show ?case
  proof (cases "k = 0")
    case False
    have "unat (a + 1) = unat a + 1"
      using False Suc.prems(2) u32_less [of "total_sectors d"] by (intro unat_plus_one) simp
    with Suc.IH [OF Suc.prems(1), of "a + 1"] Suc.prems(2) x show ?thesis by auto
  qed (use x in simp)
qed simp

lemma phys_read_other:
  assumes "b' < phys_total_blocks d" "b' \<noteq> b"
    and rd: "\<And>x. \<not> (unat b * 8 \<le> unat x \<and> unat x < unat b * 8 + 8) \<Longrightarrow> read_sector d' x = read_sector d x"
  shows "phys_read_block d' b' = phys_read_block d b'"
proof -
  have "unat b' \<noteq> unat b" using assms(2) by (simp add: word_unat_eq_iff)
  then have "read_sector d' (block_start b' + of_nat i) = read_sector d (block_start b' + of_nat i)" if "i < 8" for i
    using block_sector [OF assms(1) that] that by (intro rd) linarith
  then have "rd_run read_sector d' (block_start b') 8 = rd_run read_sector d (block_start b') 8" by (rule vdisk.rd_run_cong)
  then show ?thesis by (simp only: phys_read_block_def SECTORS_PER_BLOCK_eq)
qed

lemma phys_read_stored:
  assumes "disk_wf d'" "b < phys_total_blocks d'" "length bs = BLOCK_SIZE"
    and rd: "\<And>i. i < 8 \<Longrightarrow> read_sector d' (block_start b + of_nat i) = Inr (chunks SECTOR_SIZE bs ! i)"
  shows "phys_read_block d' b = Inr bs"
proof -
  have "rd_run read_sector d' (block_start b) 8 = Inr (chunks SECTOR_SIZE bs)"
    using vdisk.rd_run_spec [OF assms(1), of "block_start b" 8 "chunks SECTOR_SIZE bs", OF _ _ rd] block_within [OF assms(2)]
      u32_less [of "total_sectors d'"] block_chunks [OF assms(3)] by simp
  then show ?thesis using block_chunks(3) [OF assms(3)] by (simp only: phys_read_block_def SECTORS_PER_BLOCK_eq) simp
qed

interpretation phys: block_store phys_read_block phys_write_block phys_total_blocks disk_wf
proof (standard, goal_cases)
  case (1 s b)
  obtain bss where "rd_run read_sector s (block_start b) 8 = Inr bss" "length bss = 8" "\<forall>x \<in> set bss. length x = SECTOR_SIZE"
    using disk_run_reads [OF 1(1), of "block_start b" 8] block_within [OF 1(2)] by auto
  then show ?case using length_concat_const [of bss SECTOR_SIZE] by (simp add: phys_read_block_def SECTORS_PER_BLOCK_eq)
next
  case (2 s b bs)
  then show ?case by (rule phys_write_spec) simp
next
  case (3 bs s b)
  then show ?case by (simp add: phys_write_block_def)
next
  case (4 s b bs r s')
  show ?case
  proof (cases "length bs = BLOCK_SIZE")
    case True
    show ?thesis by (rule phys_write_spec [OF 4(1,2) True]) (use 4(3) in \<open>simp add: phys_total_blocks_def\<close>)
  qed (use 4 in \<open>simp add: phys_write_block_def\<close>)
next
  case (5 s b bs s' b')
  then have len: "length bs = BLOCK_SIZE" by (auto simp: phys_write_block_def split: if_splits)
  from phys_write_spec [OF 5(1,2) len] 5(3) have wf: "disk_wf s'" "total_sectors s' = total_sectors s"
    and rd: "\<And>x. read_sector s' x = (if unat b * 8 \<le> unat x \<and> unat x < unat b * 8 + 8
        then Inr (chunks SECTOR_SIZE bs ! (unat x - unat b * 8)) else read_sector s x)" by (metis Pair_inject)+
  show ?case
  proof (cases "b' = b")
    case True
    have "b < phys_total_blocks s'" using 5(2) wf(2) by (simp add: phys_total_blocks_def)
    from phys_read_stored [OF wf(1) this len] True show ?thesis using rd block_sector [OF 5(2)] by simp
  next
    case False
    have "phys_read_block s' b' = phys_read_block s b'"
      by (rule phys_read_other [OF 5(4) False]) (subst rd, simp only: if_False)
    with False show ?thesis by simp
  qed
qed

section \<open>Partitions of a disk\<close>

definition part_fits :: "Partition \<Rightarrow> VirtualDisk \<Rightarrow> bool" where
  "part_fits p d \<longleftrightarrow> unat (start_block p) + unat (part_total_blocks p) \<le> unat (phys_total_blocks d)"

definition part_disjoint :: "Partition \<Rightarrow> Partition \<Rightarrow> bool" where
  "part_disjoint p q \<longleftrightarrow>
     unat (start_block p) + unat (part_total_blocks p) \<le> unat (start_block q) \<or>
     unat (start_block q) + unat (part_total_blocks q) \<le> unat (start_block p)"

interpretation disk_part: partitioned phys_read_block phys_write_block phys_total_blocks "\<lambda>d. disk_wf d \<and> part_fits p d" p for p
proof (unfold_locales, goal_cases)
  case (4 s b bs r s')
  then show ?case using phys.wr_keeps [of s b bs r s'] by (simp add: part_fits_def)
qed (use phys.rd_block phys.wr_block phys.wr_refused phys.rd_wr_block in \<open>auto simp: part_fits_def\<close>)

text \<open>
  C21. Partitions are isolated. For two partitions that lie within the disk and do not overlap, a write through
  the first, whatever block number and data it is given and whatever it returns, leaves every read through the
  second as it was. A write that succeeds is read back through the first; a write of a block of the partition
  with a full block of data succeeds, and a block number outside the partition is refused.
\<close>

theorem partition_isolated:
  assumes "disk_wf d" "part_fits p d" "part_fits q d" "part_disjoint p q"
    and w: "partition_write phys_write_block p d b bs = (r, d')"
  shows "(\<forall>b'. partition_read phys_read_block q d' b' = partition_read phys_read_block q d b') \<and>
    (r = Inr () \<longleftrightarrow> b < part_total_blocks p \<and> length bs = BLOCK_SIZE) \<and>
    (r = Inr () \<longrightarrow> partition_read phys_read_block p d' b = Inr bs) \<and>
    (b < part_total_blocks p \<or> r = Inl (outside_partition p b) \<and> d' = d)"
proof (cases "b < part_total_blocks p")
  case True
  have p: "disk_wf d \<and> part_fits p d" using assms by simp
  have wr: "phys_write_block d (start_block p + b) bs = (r, d')" using w True by (simp add: partition_write_def not_le [symmetric])
  note ip = disk_part.part_index [OF p True]
  have "partition_read phys_read_block q d' b' = partition_read phys_read_block q d b'" for b'
  proof (cases "b' < part_total_blocks q")
    case q: True
    have "disk_wf d \<and> part_fits q d" using assms by simp
    note iq = disk_part.part_index [OF this q]
    have "unat (start_block q + b') \<noteq> unat (start_block p + b)"
      using assms(4) True q unfolding ip(1) iq(1) by (auto simp: part_disjoint_def word_less_nat_alt)
    then have "start_block q + b' \<noteq> start_block p + b" by auto
    then show ?thesis using phys.wr_other [OF assms(1) ip(2) wr iq(2)] by (simp add: partition_read_def)
  qed (simp add: partition_read_def not_less)
  moreover have "r = Inr () \<longleftrightarrow> length bs = BLOCK_SIZE"
    using disk_part.part.wr_cases [OF p True w] by auto
  moreover have "r = Inr () \<longrightarrow> partition_read phys_read_block p d' b = Inr bs"
    using disk_part.part.rd_wr_block [OF p True _ True, of bs d'] w by simp
  ultimately show ?thesis using True by simp
qed (use w in \<open>auto simp: partition_write_def not_less\<close>)

text \<open>A disk of sixteen sectors, with one block for each of two partitions.\<close>

definition demo_disk2 :: VirtualDisk where
  "demo_disk2 = the (VirtualDisk_new 16 [])"

definition demo_part :: "u8 \<Rightarrow> u64 \<Rightarrow> Partition" where
  "demo_part n s = \<lparr>part_number = n, start_block = s, part_total_blocks = 1, partition_type = EXT4, bootable = False\<rparr>"

theorem partition_isolated_witness:
  "\<exists>d'. partition_write phys_write_block (demo_part 1 0) demo_disk2 0 (replicate 4096 7) = (Inr (), d') \<and>
     partition_read phys_read_block (demo_part 1 0) d' 0 = Inr (replicate 4096 7) \<and>
     partition_read phys_read_block (demo_part 2 1) d' 0 = partition_read phys_read_block (demo_part 2 1) demo_disk2 0"
proof -
  have d: "disk_wf demo_disk2" "total_sectors demo_disk2 = 16"
    by (simp_all add: demo_disk2_def VirtualDisk_new_def disk_wf_def SECTOR_SIZE_def mark_used_range_def)
  have f: "part_fits (demo_part 1 0) demo_disk2" "part_fits (demo_part 2 1) demo_disk2" "part_disjoint (demo_part 1 0) (demo_part 2 1)"
    by (simp_all add: part_fits_def demo_part_def part_disjoint_def phys_total_blocks_def d(2) SECTORS_PER_BLOCK_eq)
  obtain r d' where w: "partition_write phys_write_block (demo_part 1 0) demo_disk2 0 (replicate 4096 7) = (r, d')" by fastforce
  from partition_isolated [OF d(1) f w] have "r = Inr ()" by (simp add: demo_part_def BLOCK_SIZE_def)
  with partition_isolated [OF d(1) f w] w show ?thesis by blast
qed

text \<open>
  The device itself does not check the block number. The sector is computed modulo \<open>2 ^ 32\<close>, so a block number
  beyond the device's count by a multiple of \<open>2 ^ 29\<close> reads and overwrites a block of the device.
\<close>

lemma unat_block_start: "unat (block_start b) = unat b * 8 mod 2 ^ 32"
proof -
  have "unat (block_start b) = unat b * 8 mod 2 ^ 64 mod 2 ^ 32"
    by (simp add: block_start_def SECTORS_PER_BLOCK_eq unsigned_ucast_eq take_bit_eq_mod unat_word_ariths)
  then show ?thesis by (simp add: mod_mod_cancel)
qed

lemma block_number_wraps:
  "phys_read_block d (b + of_nat (k * 2 ^ 29)) = phys_read_block d b"
  "length bs = BLOCK_SIZE \<Longrightarrow> phys_write_block d (b + of_nat (k * 2 ^ 29)) bs = phys_write_block d b bs"
proof -
  have m: "(x mod 2 ^ 64) * 8 mod 2 ^ 32 = x * 8 mod (2 ^ 32 :: nat)" for x
  proof -
    have "x mod 2 ^ 64 mod 2 ^ 32 = x mod (2 ^ 32 :: nat)" by (rule mod_mod_cancel) (simp add: le_imp_power_dvd)
    then show ?thesis by (rule mod_mult_cong) (rule refl)
  qed
  have "unat (b + of_nat (k * 2 ^ 29)) = (unat b + k * 2 ^ 29 mod 2 ^ 64) mod 2 ^ 64"
    by (simp only: unat_word_ariths unat_of_nat) simp
  then have "unat (b + of_nat (k * 2 ^ 29)) = (unat b + k * 2 ^ 29) mod 2 ^ 64" by (simp only: mod_add_right_eq)
  then have "unat (block_start (b + of_nat (k * 2 ^ 29))) = (unat b + k * 2 ^ 29) mod 2 ^ 64 * 8 mod 2 ^ 32"
    by (simp only: unat_block_start)
  also have "\<dots> = (unat b * 8 + k * 2 ^ 32) mod 2 ^ 32" unfolding m by (simp add: algebra_simps)
  also have "\<dots> = unat b * 8 mod 2 ^ 32" by (rule mod_mult_self1)
  finally have "block_start (b + of_nat (k * 2 ^ 29)) = block_start b"
    by (simp add: word_unat_eq_iff unat_block_start)
  then show "phys_read_block d (b + of_nat (k * 2 ^ 29)) = phys_read_block d b"
    "length bs = BLOCK_SIZE \<Longrightarrow> phys_write_block d (b + of_nat (k * 2 ^ 29)) bs = phys_write_block d b bs"
    by (simp_all add: phys_read_block_def phys_write_block_def)
qed

end
