(* ===== verification/Device_Manager.thy ===== *)
theory Device_Manager
  imports Error_Format
begin

text \<open>
  Devices, drivers and their managers (\<^verbatim>\<open>src/services/device/device.rs\<close>, \<^verbatim>\<open>driver.rs\<close>, \<^verbatim>\<open>manager.rs\<close>). No type of
  the repository implements the trait \<^verbatim>\<open>DeviceOperations\<close>, so the operations of a device are a parameter: a record
  of what the calls return. The managers are used through their own methods only, so a device or driver behind
  its mutex is the value of the map.
\<close>

section \<open>Devices\<close>

datatype DeviceType =
    DevCharacter | DevBlock | DevNetwork | DevTerminal | DevGraphics | DevAudio | DevInput | DevClipboard | DevUnknown

datatype DeviceStatus = DevInitializing | DevReady | DevBusy | DevError | DevDisabled | DevRemoved

record DeviceInfo =
  di_name :: string
  di_description :: string
  di_device_type :: DeviceType
  di_major :: u32
  di_minor :: u32
  di_id :: u32
  di_parent :: "u32 option"
  di_status :: DeviceStatus
  io_ports :: "u16 list"
  irq_lines :: "u8 list"
  memory_regions :: "(u64 \<times> nat) list"

definition DeviceInfo_new :: "string \<Rightarrow> string \<Rightarrow> DeviceType \<Rightarrow> u32 \<Rightarrow> u32 \<Rightarrow> u32 \<Rightarrow> DeviceInfo" where
  "DeviceInfo_new nm desc ty mj mn i =
     \<lparr>di_name = nm, di_description = desc, di_device_type = ty, di_major = mj, di_minor = mn, di_id = i, di_parent = None,
      di_status = DevInitializing, io_ports = [], irq_lines = [], memory_regions = []\<rparr>"

definition full_name :: "DeviceInfo \<Rightarrow> string" where
  "full_name i = show_dec (unat (di_major i)) @ '':'' @ show_dec (unat (di_minor i))"

text \<open>Reading fills the buffer that it is given.\<close>

record DeviceOperations =
  ops_read :: "u8 list \<Rightarrow> (GenshinError, nat) result \<times> u8 list"
  ops_write :: "u8 list \<Rightarrow> (GenshinError, nat) result"
  ops_status :: DeviceStatus
  ops_reset :: "(GenshinError, unit) result"
  ops_info :: DeviceInfo

definition ops_is_ready :: "DeviceOperations \<Rightarrow> bool" where
  "ops_is_ready o' \<longleftrightarrow> ops_status o' = DevReady"

record SvcDevice =
  dev_info :: DeviceInfo
  dev_operations :: "DeviceOperations option"
  dev_open_count :: u32
  dev_exclusive :: bool
  dev_exclusive_owner :: "pid option"

definition Device_new :: "DeviceInfo \<Rightarrow> SvcDevice" where
  "Device_new i = \<lparr>dev_info = i, dev_operations = None, dev_open_count = 0, dev_exclusive = False, dev_exclusive_owner = None\<rparr>"

definition set_operations :: "DeviceOperations \<Rightarrow> SvcDevice \<Rightarrow> SvcDevice" where
  "set_operations o' d = d\<lparr>dev_operations := Some o'\<rparr>"

definition not_implemented :: "string \<Rightarrow> GenshinError" where
  "not_implemented f = ServiceE (NotImplemented f)"

definition device_read :: "SvcDevice \<Rightarrow> u8 list \<Rightarrow> (GenshinError, nat) result \<times> u8 list" where
  "device_read d buf =
     (case dev_operations d of Some o' \<Rightarrow> ops_read o' buf | None \<Rightarrow> (Inl (not_implemented ''Device read''), buf))"

definition device_write :: "SvcDevice \<Rightarrow> u8 list \<Rightarrow> (GenshinError, nat) result" where
  "device_write d bs =
     (case dev_operations d of Some o' \<Rightarrow> ops_write o' bs | None \<Rightarrow> Inl (not_implemented ''Device write''))"

definition device_status :: "SvcDevice \<Rightarrow> DeviceStatus" where
  "device_status d = (case dev_operations d of Some o' \<Rightarrow> ops_status o' | None \<Rightarrow> di_status (dev_info d))"

definition device_reset :: "SvcDevice \<Rightarrow> (GenshinError, unit) result" where
  "device_reset d =
     (case dev_operations d of Some o' \<Rightarrow> ops_reset o' | None \<Rightarrow> Inl (not_implemented ''Device reset''))"

definition device_is_ready :: "SvcDevice \<Rightarrow> bool" where
  "device_is_ready d \<longleftrightarrow> device_status d = DevReady"

definition device_open :: "pid \<Rightarrow> bool \<Rightarrow> SvcDevice \<Rightarrow> (GenshinError, unit) result \<times> SvcDevice" where
  "device_open p excl d =
     (if \<not> device_is_ready d then (Inl (ServiceE (InvalidArguments ''device'' ''Device not ready'')), d)
      else if dev_exclusive d then
        (if dev_exclusive_owner d \<noteq> Some p
         then (Inl (ServiceE (PermissionDenied ''open'' ''Device opened exclusively by another process'')), d)
         else (Inr (), d\<lparr>dev_open_count := dev_open_count d + 1\<rparr>))
      else if excl then
        (if 0 < dev_open_count d
         then (Inl (ServiceE (PermissionDenied ''open'' ''Cannot open exclusively, already in use'')), d)
         else (Inr (), d\<lparr>dev_exclusive := True, dev_exclusive_owner := Some p, dev_open_count := dev_open_count d + 1\<rparr>))
      else (Inr (), d\<lparr>dev_open_count := dev_open_count d + 1\<rparr>))"

definition device_close :: "pid \<Rightarrow> SvcDevice \<Rightarrow> (GenshinError, unit) result \<times> SvcDevice" where
  "device_close p d =
     (if dev_open_count d = 0 then (Inl (ServiceE (InvalidArguments ''device'' ''Device not open'')), d)
      else let d1 = d\<lparr>dev_open_count := dev_open_count d - 1\<rparr> in
        (Inr (), if dev_exclusive d1 \<and> dev_exclusive_owner d1 = Some p \<and> dev_open_count d1 = 0
                 then d1\<lparr>dev_exclusive := False, dev_exclusive_owner := None\<rparr> else d1))"

definition device_in_use :: "SvcDevice \<Rightarrow> bool" where
  "device_in_use d \<longleftrightarrow> 0 < dev_open_count d"

section \<open>Drivers\<close>

datatype DriverType = DrvCharacter | DrvBlock | DrvNetwork | DrvGeneric

record DriverInfo =
  drv_name :: string
  drv_version :: string
  drv_type :: DriverType
  supported_types :: "DeviceType list"
  drv_author :: string
  drv_description :: string

record Driver =
  drv_info :: DriverInfo
  drv_loaded :: bool
  drv_ref_count :: u32
  drv_devices :: "u32 list"

definition Driver_new :: "DriverInfo \<Rightarrow> Driver" where
  "Driver_new i = \<lparr>drv_info = i, drv_loaded = False, drv_ref_count = 0, drv_devices = []\<rparr>"

definition driver_supports :: "DeviceType \<Rightarrow> Driver \<Rightarrow> bool" where
  "driver_supports ty d \<longleftrightarrow> ty \<in> set (supported_types (drv_info d))"

definition driver_refused :: "string \<Rightarrow> GenshinError" where
  "driver_refused why = ServiceE (InvalidArguments ''driver'' why)"

definition driver_load :: "Driver \<Rightarrow> (GenshinError, unit) result \<times> Driver" where
  "driver_load d = (if drv_loaded d then (Inl (driver_refused ''Driver already loaded''), d) else (Inr (), d\<lparr>drv_loaded := True\<rparr>))"

definition driver_unload :: "Driver \<Rightarrow> (GenshinError, unit) result \<times> Driver" where
  "driver_unload d =
     (if \<not> drv_loaded d then (Inl (driver_refused ''Driver not loaded''), d)
      else if 0 < drv_ref_count d \<or> drv_devices d \<noteq> [] then (Inl (driver_refused ''Driver in use''), d)
      else (Inr (), d\<lparr>drv_loaded := False\<rparr>))"

definition driver_add_device :: "u32 \<Rightarrow> Driver \<Rightarrow> (GenshinError, unit) result \<times> Driver" where
  "driver_add_device i d =
     (if i \<in> set (drv_devices d)
      then (Inl (ServiceE (InvalidArguments ''device_id'' ''Device already managed by this driver'')), d)
      else (Inr (), d\<lparr>drv_devices := drv_devices d @ [i], drv_ref_count := drv_ref_count d + 1\<rparr>))"

definition driver_remove_device :: "u32 \<Rightarrow> Driver \<Rightarrow> (GenshinError, unit) result \<times> Driver" where
  "driver_remove_device i d =
     (case position (\<lambda>j. j = i) (drv_devices d) of
        Some k \<Rightarrow> (Inr (), d\<lparr>drv_devices := remove_at k (drv_devices d),
                     drv_ref_count := (if 0 < drv_ref_count d then drv_ref_count d - 1 else drv_ref_count d)\<rparr>)
      | None \<Rightarrow> (Inl (ServiceE (NotFound ''Device'' (show_dec (unat i)))), d))"

record DriverManager =
  dm_drivers :: "string \<rightharpoonup> Driver"
  next_driver_id :: u32

definition DriverManager_new :: DriverManager where
  "DriverManager_new = \<lparr>dm_drivers = Map.empty, next_driver_id = 1\<rparr>"

definition driver_not_found :: "string \<Rightarrow> GenshinError" where
  "driver_not_found nm = ServiceE (NotFound ''Driver'' nm)"

definition drm_register :: "Driver \<Rightarrow> DriverManager \<Rightarrow> (GenshinError, string) result \<times> DriverManager" where
  "drm_register d m =
     (let nm = drv_name (drv_info d) in
      if dm_drivers m nm \<noteq> None then (Inl (driver_refused ''Driver already registered''), m)
      else (Inr nm, m\<lparr>dm_drivers := (dm_drivers m)(nm \<mapsto> d)\<rparr>))"

definition drm_unregister :: "string \<Rightarrow> DriverManager \<Rightarrow> (GenshinError, unit) result \<times> DriverManager" where
  "drm_unregister nm m =
     (case dm_drivers m nm of
        None \<Rightarrow> (Inl (driver_not_found nm), m)
      | Some d \<Rightarrow>
          if drv_loaded d then (Inl (driver_refused ''Driver is still loaded''), m)
          else (Inr (), m\<lparr>dm_drivers := (dm_drivers m)(nm := None)\<rparr>))"

definition drm_get :: "string \<Rightarrow> DriverManager \<Rightarrow> Driver option" where
  "drm_get nm m = dm_drivers m nm"

definition drm_load :: "string \<Rightarrow> DriverManager \<Rightarrow> (GenshinError, unit) result \<times> DriverManager" where
  "drm_load nm m =
     (case dm_drivers m nm of
        None \<Rightarrow> (Inl (driver_not_found nm), m)
      | Some d \<Rightarrow> (case driver_load d of (r, d') \<Rightarrow> (r, m\<lparr>dm_drivers := (dm_drivers m)(nm \<mapsto> d')\<rparr>)))"

definition drm_unload :: "string \<Rightarrow> DriverManager \<Rightarrow> (GenshinError, unit) result \<times> DriverManager" where
  "drm_unload nm m =
     (case dm_drivers m nm of
        None \<Rightarrow> (Inl (driver_not_found nm), m)
      | Some d \<Rightarrow> (case driver_unload d of (r, d') \<Rightarrow> (r, m\<lparr>dm_drivers := (dm_drivers m)(nm \<mapsto> d')\<rparr>)))"

text \<open>\<open>order\<close> is the order in which the map yields its names.\<close>

definition find_driver :: "string list \<Rightarrow> DeviceType \<Rightarrow> DriverManager \<Rightarrow> string option" where
  "find_driver order ty m =
     find (\<lambda>nm. case dm_drivers m nm of None \<Rightarrow> False | Some d \<Rightarrow> drv_loaded d \<and> driver_supports ty d) order"

definition loaded_drivers :: "string list \<Rightarrow> DriverManager \<Rightarrow> string list" where
  "loaded_drivers order m = filter (\<lambda>nm. case dm_drivers m nm of None \<Rightarrow> False | Some d \<Rightarrow> drv_loaded d) order"

section \<open>The device manager\<close>

record SvcDeviceSnapshot =
  dsn_device_id :: u32
  dsn_name :: string
  dsn_device_type :: DeviceType
  dsn_status :: DeviceStatus
  dsn_open_count :: u32
  dsn_exclusive :: bool

record DeviceManager =
  mgr_devices :: "u32 \<rightharpoonup> SvcDevice"
  mgr_next_device_id :: u32
  driver_manager :: DriverManager
  name_map :: "string \<rightharpoonup> u32"
  type_map :: "DeviceType \<rightharpoonup> u32 list"

definition DeviceManager_new :: DeviceManager where
  "DeviceManager_new =
     \<lparr>mgr_devices = Map.empty, mgr_next_device_id = 1, driver_manager = DriverManager_new, name_map = Map.empty, type_map = Map.empty\<rparr>"

definition mgr_register :: "SvcDevice \<Rightarrow> DeviceManager \<Rightarrow> (GenshinError, u32) result \<times> DeviceManager" where
  "mgr_register d m =
     (let i = mgr_next_device_id m;
          d1 = d\<lparr>dev_info := (dev_info d)\<lparr>di_id := i\<rparr>\<rparr>;
          nm = di_name (dev_info d1);
          ty = di_device_type (dev_info d1);
          ids = (case type_map m ty of None \<Rightarrow> [] | Some is \<Rightarrow> is)
      in (Inr i, m\<lparr>mgr_next_device_id := i + 1, mgr_devices := (mgr_devices m)(i \<mapsto> d1),
            name_map := (name_map m)(nm \<mapsto> i), type_map := (type_map m)(ty \<mapsto> ids @ [i])\<rparr>))"

definition device_not_found :: "u32 \<Rightarrow> GenshinError" where
  "device_not_found i = ServiceE (NotFound ''Device'' (show_dec (unat i)))"

definition mgr_unregister :: "u32 \<Rightarrow> DeviceManager \<Rightarrow> (GenshinError, unit) result \<times> DeviceManager" where
  "mgr_unregister i m =
     (case mgr_devices m i of
        None \<Rightarrow> (Inl (device_not_found i), m)
      | Some d \<Rightarrow>
          if device_in_use d then (Inl (ServiceE (InvalidArguments ''device'' ''Device is in use'')), m)
          else (Inr (),
            m\<lparr>mgr_devices := (mgr_devices m)(i := None),
              name_map := (name_map m)(di_name (dev_info d) := None),
              type_map := (case type_map m (di_device_type (dev_info d)) of
                             None \<Rightarrow> type_map m
                           | Some is \<Rightarrow> (type_map m)(di_device_type (dev_info d) \<mapsto> filter (\<lambda>j. j \<noteq> i) is))\<rparr>))"

definition mgr_get :: "u32 \<Rightarrow> DeviceManager \<Rightarrow> SvcDevice option" where
  "mgr_get i m = mgr_devices m i"

definition mgr_get_by_name :: "string \<Rightarrow> DeviceManager \<Rightarrow> SvcDevice option" where
  "mgr_get_by_name nm m = (case name_map m nm of Some i \<Rightarrow> mgr_get i m | None \<Rightarrow> None)"

text \<open>A call of a method of the device behind its mutex.\<close>

definition mgr_update :: "u32 \<Rightarrow> (SvcDevice \<Rightarrow> (GenshinError, 'a) result \<times> SvcDevice) \<Rightarrow> DeviceManager \<Rightarrow> (GenshinError, 'a) result \<times> DeviceManager" where
  "mgr_update i f m =
     (case mgr_get i m of
        None \<Rightarrow> (Inl (device_not_found i), m)
      | Some d \<Rightarrow> (case f d of (r, d') \<Rightarrow> (r, m\<lparr>mgr_devices := (mgr_devices m)(i \<mapsto> d')\<rparr>)))"

definition mgr_open :: "u32 \<Rightarrow> pid \<Rightarrow> bool \<Rightarrow> DeviceManager \<Rightarrow> (GenshinError, unit) result \<times> DeviceManager" where
  "mgr_open i p excl m = mgr_update i (device_open p excl) m"

definition mgr_close :: "u32 \<Rightarrow> pid \<Rightarrow> DeviceManager \<Rightarrow> (GenshinError, unit) result \<times> DeviceManager" where
  "mgr_close i p m = mgr_update i (device_close p) m"

definition mgr_read :: "DeviceManager \<Rightarrow> u32 \<Rightarrow> u8 list \<Rightarrow> (GenshinError, nat) result \<times> u8 list" where
  "mgr_read m i buf = (case mgr_get i m of None \<Rightarrow> (Inl (device_not_found i), buf) | Some d \<Rightarrow> device_read d buf)"

definition mgr_write :: "DeviceManager \<Rightarrow> u32 \<Rightarrow> u8 list \<Rightarrow> (GenshinError, nat) result" where
  "mgr_write m i bs = (case mgr_get i m of None \<Rightarrow> Inl (device_not_found i) | Some d \<Rightarrow> device_write d bs)"

definition mgr_status :: "DeviceManager \<Rightarrow> u32 \<Rightarrow> (GenshinError, DeviceStatus) result" where
  "mgr_status m i = (case mgr_get i m of None \<Rightarrow> Inl (device_not_found i) | Some d \<Rightarrow> Inr (device_status d))"

definition mgr_get_by_type :: "DeviceType \<Rightarrow> DeviceManager \<Rightarrow> SvcDevice list" where
  "mgr_get_by_type ty m =
     (case type_map m ty of None \<Rightarrow> [] | Some is \<Rightarrow> List.map_filter (\<lambda>i. mgr_get i m) is)"

definition device_snapshot :: "SvcDevice \<Rightarrow> SvcDeviceSnapshot" where
  "device_snapshot d =
     \<lparr>dsn_device_id = di_id (dev_info d), dsn_name = di_name (dev_info d), dsn_device_type = di_device_type (dev_info d),
      dsn_status = device_status d, dsn_open_count = dev_open_count d, dsn_exclusive = dev_exclusive d\<rparr>"

text \<open>\<open>order\<close> is the order in which the map yields its keys.\<close>

definition mgr_list_devices :: "u32 list \<Rightarrow> DeviceManager \<Rightarrow> SvcDeviceSnapshot list" where
  "mgr_list_devices order m = map device_snapshot (List.map_filter (mgr_devices m) order)"

definition mgr_count :: "DeviceManager \<Rightarrow> nat" where
  "mgr_count m = card (dom (mgr_devices m))"

section \<open>Exclusive use\<close>

text \<open>
  A device together with the processes that have it open, each as often as it opened it. Processes close only
  what they have open.
\<close>

inductive dev_reach :: "SvcDevice \<Rightarrow> SvcDevice \<Rightarrow> pid multiset \<Rightarrow> bool" for d0 where
  fresh: "dev_open_count d0 = 0 \<Longrightarrow> \<not> dev_exclusive d0 \<Longrightarrow> dev_exclusive_owner d0 = None \<Longrightarrow> dev_reach d0 d0 {#}"
| opened: "dev_reach d0 d M \<Longrightarrow> size M < 2 ^ 32 - 1 \<Longrightarrow> device_open p excl d = (Inr (), d') \<Longrightarrow> dev_reach d0 d' (add_mset p M)"
| refused: "dev_reach d0 d M \<Longrightarrow> device_open p excl d = (Inl e, d') \<Longrightarrow> dev_reach d0 d' M"
| closed: "dev_reach d0 d M \<Longrightarrow> p \<in># M \<Longrightarrow> device_close p d = (r, d') \<Longrightarrow> dev_reach d0 d' (M - {#p#})"

definition exclusive_ok :: "SvcDevice \<Rightarrow> pid multiset \<Rightarrow> bool" where
  "exclusive_ok d M \<longleftrightarrow> unat (dev_open_count d) = size M \<and>
     (if dev_exclusive d then \<exists>p. dev_exclusive_owner d = Some p \<and> set_mset M = {p} else dev_exclusive_owner d = None)"

lemma open_count_zero: "exclusive_ok d M \<Longrightarrow> dev_open_count d = 0 \<longleftrightarrow> M = {#}"
  by (metis exclusive_ok_def size_eq_0_iff_empty unat_0 unsigned_eq_0_iff)

lemma open_count_Suc: "exclusive_ok d M \<Longrightarrow> size M < 2 ^ 32 - 1 \<Longrightarrow> unat (dev_open_count d + 1) = Suc (size M)"
  by (simp add: exclusive_ok_def unat_word_ariths)

lemma open_count_pred: "exclusive_ok d M \<Longrightarrow> p \<in># M \<Longrightarrow> unat (dev_open_count d - 1) = size (M - {#p#})"
proof -
  assume ok: "exclusive_ok d M" and p: "p \<in># M"
  have "dev_open_count d \<noteq> 0" using open_count_zero [OF ok] p by auto
  then show ?thesis using ok p by (simp add: exclusive_ok_def size_Diff_singleton unat_minus_one)
qed

lemma device_open_ok:
  assumes ok: "exclusive_ok d M" "size M < 2 ^ 32 - 1" and o: "device_open p excl d = (Inr (), d')"
  shows "exclusive_ok d' (add_mset p M)"
proof (cases "dev_exclusive d")
  case True
  then have "dev_exclusive_owner d = Some p" "d' = d\<lparr>dev_open_count := dev_open_count d + 1\<rparr>"
    using o by (auto simp: device_open_def split: if_splits)
  then show ?thesis using ok(1) True open_count_Suc [OF ok] by (auto simp: exclusive_ok_def)
next
  case False
  show ?thesis
  proof (cases excl)
    case True
    then have "dev_open_count d = 0" "d' = d\<lparr>dev_exclusive := True, dev_exclusive_owner := Some p, dev_open_count := dev_open_count d + 1\<rparr>"
      using o False by (auto simp: device_open_def word_gt_0 split: if_splits)
    then show ?thesis using open_count_zero [OF ok(1)] open_count_Suc [OF ok] by (auto simp: exclusive_ok_def)
  next
    case no: False
    then have "d' = d\<lparr>dev_open_count := dev_open_count d + 1\<rparr>" using o False by (auto simp: device_open_def split: if_splits)
    then show ?thesis using ok(1) False open_count_Suc [OF ok] by (auto simp: exclusive_ok_def)
  qed
qed

lemma device_open_refused: "device_open p excl d = (Inl e, d') \<Longrightarrow> d' = d"
  by (auto simp: device_open_def split: if_splits)

lemma device_close_ok:
  assumes ok: "exclusive_ok d M" and p: "p \<in># M" and c: "device_close p d = (r, d')"
  shows "r = Inr ()" "exclusive_ok d' (M - {#p#})"
proof -
  have n: "dev_open_count d \<noteq> 0" using open_count_zero [OF ok] p by auto
  then show "r = Inr ()" using c by (auto simp: device_close_def Let_def)
  define M' where "M' = M - {#p#}"
  have u: "unat (dev_open_count d - 1) = size M'" using open_count_pred [OF ok p] by (simp add: M'_def)
  have z: "dev_open_count d - 1 = 0 \<longleftrightarrow> M' = {#}" using u by (metis size_eq_0_iff_empty unat_0 unsigned_eq_0_iff)
  have own: "set_mset M' = {q} \<or> M' = {#}" "q = p" if "set_mset M = {q}" for q
    using that p by (auto simp: M'_def dest: in_diffD) (metis multiset_nonemptyE in_diffD singletonD)
  have "exclusive_ok d' M'"
  proof (cases "dev_exclusive d \<and> M' = {#}")
    case True
    then have "d' = d\<lparr>dev_open_count := dev_open_count d - 1, dev_exclusive := False, dev_exclusive_owner := None\<rparr>"
      using c n z own ok by (auto simp: device_close_def Let_def exclusive_ok_def)
    then show ?thesis using u by (simp add: exclusive_ok_def)
  next
    case False
    then have "d' = d\<lparr>dev_open_count := dev_open_count d - 1\<rparr>"
      using c n z by (auto simp: device_close_def Let_def)
    then show ?thesis using u ok own False by (auto simp: exclusive_ok_def)
  qed
  then show "exclusive_ok d' (M - {#p#})" by (simp add: M'_def)
qed

lemma dev_reach_ok: "dev_reach d0 d M \<Longrightarrow> exclusive_ok d M"
proof (induction rule: dev_reach.induct)
  case fresh
  then show ?case by (simp add: exclusive_ok_def)
qed (auto dest: device_open_ok device_open_refused device_close_ok)

text \<open>
  C36. Exclusive use is exclusive. As long as processes close only what they have open, the open count is the
  number of opens that are not closed; a device that is held exclusively has an owner, and all its opens are
  the owner's; it is released with the last of them; an exclusive open that succeeds finds no other process
  with the device open; and no close of a holder fails.
\<close>

theorem device_exclusive_use:
  assumes "dev_reach d0 d M"
  shows "unat (dev_open_count d) = size M \<and>
    (dev_exclusive d \<longrightarrow> (\<exists>p. dev_exclusive_owner d = Some p \<and> set_mset M = {p})) \<and>
    (\<forall>p d'. device_open p True d = (Inr (), d') \<longrightarrow> set_mset M \<subseteq> {p}) \<and>
    (\<forall>p d'. dev_exclusive d \<and> dev_exclusive_owner d \<noteq> Some p \<longrightarrow> fst (device_open p False d) \<noteq> Inr ()) \<and>
    (\<forall>p \<in># M. fst (device_close p d) = Inr ())"
proof -
  note ok = dev_reach_ok [OF assms]
  have "set_mset M \<subseteq> {p}" if "device_open p True d = (Inr (), d')" for p d'
    using that ok open_count_zero [OF ok] by (auto simp: device_open_def exclusive_ok_def word_gt_0 split: if_splits)
  moreover have "fst (device_open p False d) \<noteq> Inr ()" if "dev_exclusive d" "dev_exclusive_owner d \<noteq> Some p" for p
    using that by (simp add: device_open_def)
  moreover have "fst (device_close p d) = Inr ()" if "p \<in># M" for p
    using device_close_ok(1) [OF ok that] by (metis prod.collapse)
  ultimately show ?thesis using ok by (auto simp: exclusive_ok_def)
qed

definition demo_device :: SvcDevice where
  "demo_device = Device_new ((DeviceInfo_new ''tty'' ''Terminal device'' DevTerminal 4 0 1)\<lparr>di_status := DevReady\<rparr>)"

theorem device_exclusive_use_witness:
  "\<exists>d. device_open 7 True demo_device = (Inr (), d) \<and> dev_reach demo_device d {#7#} \<and>
     (\<exists>p. dev_exclusive_owner d = Some p \<and> set_mset {#7#} = {p}) \<and> fst (device_close 7 d) = Inr ()"
proof -
  obtain d where d: "device_open 7 True demo_device = (Inr (), d)" "dev_exclusive d"
    by (simp add: demo_device_def Device_new_def DeviceInfo_new_def device_open_def device_is_ready_def device_status_def)
  have "dev_reach demo_device demo_device {#}" by (rule dev_reach.fresh) (simp_all add: demo_device_def Device_new_def)
  from dev_reach.opened [OF this _ d(1)] have r: "dev_reach demo_device d {#7#}" by simp
  show ?thesis using device_exclusive_use [OF r] d r by auto
qed

text \<open>
  Closing does not ask who closes. When a process closes a device that another holds exclusively, the count
  drops to zero and the device stays reserved for an owner that does not have it open.
\<close>

lemma stranger_close_keeps_exclusive:
  assumes "device_open p True d = (Inr (), d')" "dev_open_count d = 0" "\<not> dev_exclusive d" "q \<noteq> p"
  shows "fst (device_close q d') = Inr () \<and> dev_open_count (snd (device_close q d')) = 0 \<and>
    (\<forall>r excl. r \<noteq> p \<longrightarrow> fst (device_open r excl (snd (device_close q d'))) \<noteq> Inr ())"
proof -
  have d': "d' = d\<lparr>dev_exclusive := True, dev_exclusive_owner := Some p, dev_open_count := 1\<rparr>"
    using assms by (auto simp: device_open_def split: if_splits)
  have "device_close q d' = (Inr (), d'\<lparr>dev_open_count := 0\<rparr>)" using assms(4) by (simp add: d' device_close_def Let_def)
  then show ?thesis by (simp add: d' device_open_def)
qed

section \<open>The indexes of the manager\<close>

text \<open>Every run of the manager's operations from an empty one. A method of a device does not change its description.\<close>

inductive mgr_reach :: "DeviceManager \<Rightarrow> bool" where
  init: "mgr_reach DeviceManager_new"
| register: "mgr_reach m \<Longrightarrow> mgr_next_device_id m \<noteq> - 1 \<Longrightarrow> mgr_register d m = (r, m') \<Longrightarrow> mgr_reach m'"
| unregister: "mgr_reach m \<Longrightarrow> mgr_unregister i m = (r, m') \<Longrightarrow> mgr_reach m'"
| open': "mgr_reach m \<Longrightarrow> mgr_open i p excl m = (r, m') \<Longrightarrow> mgr_reach m'"
| close': "mgr_reach m \<Longrightarrow> mgr_close i p m = (r, m') \<Longrightarrow> mgr_reach m'"

definition ids_of_type :: "DeviceType \<Rightarrow> DeviceManager \<Rightarrow> u32 list" where
  "ids_of_type ty m = (case type_map m ty of None \<Rightarrow> [] | Some is \<Rightarrow> is)"

definition mgr_wf :: "DeviceManager \<Rightarrow> bool" where
  "mgr_wf m \<longleftrightarrow>
     0 < mgr_next_device_id m \<and>
     (\<forall>i d. mgr_devices m i = Some d \<longrightarrow> i < mgr_next_device_id m \<and> di_id (dev_info d) = i) \<and>
     (\<forall>ty. distinct (ids_of_type ty m) \<and>
        set (ids_of_type ty m) = {i. \<exists>d. mgr_devices m i = Some d \<and> di_device_type (dev_info d) = ty}) \<and>
     (\<forall>nm i. name_map m nm = Some i \<longrightarrow> (\<exists>d. mgr_devices m i = Some d \<and> di_name (dev_info d) = nm))"

lemma mgr_wfD:
  assumes "mgr_wf m"
  shows "mgr_devices m i = Some d \<Longrightarrow> i < mgr_next_device_id m" "mgr_devices m i = Some d \<Longrightarrow> di_id (dev_info d) = i"
    "distinct (ids_of_type ty m)" "i \<in> set (ids_of_type ty m) \<longleftrightarrow> (\<exists>d. mgr_devices m i = Some d \<and> di_device_type (dev_info d) = ty)"
    "name_map m nm = Some i \<Longrightarrow> \<exists>d. mgr_devices m i = Some d \<and> di_name (dev_info d) = nm"
  using assms by (simp_all add: mgr_wf_def)

lemma mgr_register_wf [inv_intros]:
  assumes wf: "mgr_wf m" and n: "mgr_next_device_id m \<noteq> - 1" and r: "mgr_register d m = (r, m')"
  shows "mgr_wf m'"
proof -
  define i where "i = mgr_next_device_id m"
  define d1 where "d1 = d\<lparr>dev_info := (dev_info d)\<lparr>di_id := i\<rparr>\<rparr>"
  have i: "i < i + 1" using n by (simp add: i_def not_le [symmetric] inc_less_eq_self_iff_eq)
  have fresh: "mgr_devices m i = None" using mgr_wfD(1) [OF wf, of i] by (cases "mgr_devices m i") (auto simp: i_def)
  have m': "mgr_devices m' = (mgr_devices m)(i \<mapsto> d1)" "mgr_next_device_id m' = i + 1" "name_map m' = (name_map m)(di_name (dev_info d) \<mapsto> i)"
    "ids_of_type ty m' = (if ty = di_device_type (dev_info d) then ids_of_type ty m @ [i] else ids_of_type ty m)" for ty
    using r by (auto simp: mgr_register_def Let_def i_def d1_def ids_of_type_def)
  have d1: "di_id (dev_info d1) = i" "di_device_type (dev_info d1) = di_device_type (dev_info d)" "di_name (dev_info d1) = di_name (dev_info d)"
    by (simp_all add: d1_def)
  have lt: "j < i + 1" if "mgr_devices m j = Some e" for j e
    using mgr_wfD(1) [OF wf that] i unfolding i_def by (rule less_trans)
  have "i \<notin> set (ids_of_type ty m)" for ty using fresh by (simp add: mgr_wfD(4) [OF wf])
  moreover have "0 < i + 1" using i by (metis word_gt_0 word_not_simps(1))
  ultimately show ?thesis
    unfolding mgr_wf_def m' using fresh i d1 lt mgr_wfD(2-5) [OF wf] by (auto split: if_splits) (metis option.distinct(1))+
qed

lemma mgr_unregister_wf [inv_intros]:
  assumes wf: "mgr_wf m" and r: "mgr_unregister i m = (r, m')"
  shows "mgr_wf m'"
proof (cases "\<exists>d. mgr_devices m i = Some d \<and> \<not> device_in_use d")
  case True
  then obtain d where d: "mgr_devices m i = Some d" "\<not> device_in_use d" by blast
  have m': "mgr_devices m' = (mgr_devices m)(i := None)" "mgr_next_device_id m' = mgr_next_device_id m"
    "name_map m' = (name_map m)(di_name (dev_info d) := None)"
    using r d by (auto simp: mgr_unregister_def)
  have ids: "ids_of_type ty m' = filter (\<lambda>j. j \<noteq> i) (ids_of_type ty m)" for ty
  proof (cases "ty = di_device_type (dev_info d)")
    case True
    then show ?thesis using r d by (auto simp: mgr_unregister_def ids_of_type_def split: option.splits)
  next
    case False
    then have "i \<notin> set (ids_of_type ty m)" using d(1) by (simp add: mgr_wfD(4) [OF wf])
    then have "filter (\<lambda>j. j \<noteq> i) (ids_of_type ty m) = ids_of_type ty m" by (auto simp: filter_id_conv)
    then show ?thesis using r d False by (auto simp: mgr_unregister_def ids_of_type_def split: option.splits)
  qed
  have nm: "j \<noteq> i" if "name_map m nm = Some j" "nm \<noteq> di_name (dev_info d)" for nm j
    using mgr_wfD(5) [OF wf that(1)] that(2) d(1) by auto
  have "0 < mgr_next_device_id m" using wf by (simp add: mgr_wf_def)
  then show ?thesis
    unfolding mgr_wf_def m' ids using nm mgr_wfD [OF wf] by (auto split: if_splits)
next
  case False
  then have "m' = m" using r by (auto simp: mgr_unregister_def split: option.splits if_splits)
  then show ?thesis using wf by simp
qed

lemma mgr_update_wf [inv_intros]:
  assumes wf: "mgr_wf m" and f: "\<And>d. dev_info (snd (f d)) = dev_info d" and r: "mgr_update i f m = (r, m')"
  shows "mgr_wf m'"
proof (cases "mgr_devices m i")
  case (Some d)
  then have m': "m' = m\<lparr>mgr_devices := (mgr_devices m)(i \<mapsto> snd (f d))\<rparr>" using r by (auto simp: mgr_update_def mgr_get_def split: prod.splits)
  have "ids_of_type ty m' = ids_of_type ty m" for ty by (simp add: m' ids_of_type_def)
  then show ?thesis using wf Some f [of d] unfolding mgr_wf_def m' by (auto split: if_splits) (metis option.inject)+
qed (use wf r in \<open>auto simp: mgr_update_def mgr_get_def\<close>)

lemma device_open_info: "dev_info (snd (device_open p excl d)) = dev_info d" "dev_info (snd (device_close p d)) = dev_info d"
  by (simp_all add: device_open_def device_close_def Let_def)

lemma mgr_reach_wf: "mgr_reach m \<Longrightarrow> mgr_wf m"
proof (induction rule: mgr_reach.induct)
  case init
  show ?case by (simp add: mgr_wf_def DeviceManager_new_def ids_of_type_def)
next
  case (open' m i p excl r m')
  show ?case by (rule mgr_update_wf [OF open'(3) _ open'(2) [unfolded mgr_open_def]]) (rule device_open_info)
next
  case (close' m i p r m')
  show ?case by (rule mgr_update_wf [OF close'(3) _ close'(2) [unfolded mgr_close_def]]) (rule device_open_info)
next
  case (register m d r m')
  from register(4,2,3) show ?case by (rule mgr_register_wf)
next
  case (unregister m i r m')
  from unregister(3,2) show ?case by (rule mgr_unregister_wf)
qed

text \<open>
  The manager's indexes agree with its devices. After any run of registrations, removals, opens and closes
  that registers fewer than \<open>2 ^ 32 - 1\<close> devices: a new device gets a number that no device has; the devices
  listed for a type are exactly the registered devices of that type, each once; and a device found by name has that
  name and is the one registered under its number.
\<close>

theorem manager_indexes:
  assumes "mgr_reach m"
  shows "(\<forall>d i m'. mgr_register d m = (Inr i, m') \<longrightarrow> mgr_get i m = None) \<and>
    (\<forall>ty d. d \<in> set (mgr_get_by_type ty m) \<longleftrightarrow> mgr_get (di_id (dev_info d)) m = Some d \<and> di_device_type (dev_info d) = ty) \<and>
    (\<forall>ty. distinct (map (di_id \<circ> dev_info) (mgr_get_by_type ty m))) \<and>
    (\<forall>nm d. mgr_get_by_name nm m = Some d \<longrightarrow> di_name (dev_info d) = nm \<and> mgr_get (di_id (dev_info d)) m = Some d)"
proof -
  note wf = mgr_reach_wf [OF assms]
  have by_type: "mgr_get_by_type ty m = List.map_filter (\<lambda>i. mgr_get i m) (ids_of_type ty m)" for ty
    by (simp add: mgr_get_by_type_def ids_of_type_def split: option.split)
  have ids: "map (di_id \<circ> dev_info) (List.map_filter (\<lambda>i. mgr_get i m) is) = filter (\<lambda>i. mgr_get i m \<noteq> None) is" for "is"
    by (induction "is") (auto simp: List.map_filter_simps mgr_get_def mgr_wfD(2) [OF wf] split: option.split)
  have "mgr_get i m = None" if "mgr_register d m = (Inr i, m')" for d i m'
    using that mgr_wfD(1) [OF wf, of i] by (cases "mgr_devices m i") (auto simp: mgr_register_def mgr_get_def Let_def)
  moreover have "d \<in> set (mgr_get_by_type ty m) \<longleftrightarrow> mgr_get (di_id (dev_info d)) m = Some d \<and> di_device_type (dev_info d) = ty" for ty d
    unfolding by_type using mgr_wfD(2,4) [OF wf] by (force simp: List.map_filter_def mgr_get_def)
  moreover have "distinct (map (di_id \<circ> dev_info) (mgr_get_by_type ty m))" for ty
    unfolding by_type ids using mgr_wfD(3) [OF wf] by simp
  moreover have "di_name (dev_info d) = nm \<and> mgr_get (di_id (dev_info d)) m = Some d" if "mgr_get_by_name nm m = Some d" for nm d
    using that mgr_wfD(2,5) [OF wf] by (fastforce simp: mgr_get_by_name_def mgr_get_def split: option.splits)
  ultimately show ?thesis by blast
qed

definition demo_manager :: DeviceManager where
  "demo_manager = snd (mgr_register demo_device DeviceManager_new)"

theorem manager_indexes_witness:
  "\<exists>d. mgr_get_by_name ''tty'' demo_manager = Some d \<and> di_name (dev_info d) = ''tty'' \<and> d \<in> set (mgr_get_by_type DevTerminal demo_manager)"
proof -
  have "mgr_reach demo_manager" unfolding demo_manager_def
    by (rule mgr_reach.register [OF mgr_reach.init, where d = demo_device]) (simp_all add: DeviceManager_new_def prod_eq_iff)
  note idx = manager_indexes [OF this]
  obtain d where d: "mgr_get_by_name ''tty'' demo_manager = Some d" "di_device_type (dev_info d) = DevTerminal"
    by (simp add: demo_manager_def mgr_register_def mgr_get_by_name_def mgr_get_def Let_def demo_device_def Device_new_def DeviceInfo_new_def)
  with idx show ?thesis by blast
qed

text \<open>
  Names are not checked when a device is registered: the newer of two devices with one name takes the entry,
  and when the older is removed the entry goes, so that the newer is no longer found by its name.
\<close>

lemma name_entry_lost:
  assumes "di_name (dev_info d) = di_name (dev_info d')" "dev_open_count d = 0"
  shows "let m1 = snd (mgr_register d DeviceManager_new); m2 = snd (mgr_register d' m1); m3 = snd (mgr_unregister 1 m2) in
    mgr_get 2 m3 \<noteq> None \<and> mgr_get_by_name (di_name (dev_info d')) m2 = mgr_get 2 m2 \<and> mgr_get_by_name (di_name (dev_info d')) m3 = None"
  using assms
  by (simp add: Let_def mgr_register_def DeviceManager_new_def mgr_unregister_def device_in_use_def mgr_get_by_name_def mgr_get_def)

section \<open>Drivers in use stay loaded\<close>

text \<open>A driver's reference count is the number of its devices, and a driver with devices cannot be unloaded.\<close>

definition driver_wf :: "Driver \<Rightarrow> bool" where
  "driver_wf d \<longleftrightarrow> distinct (drv_devices d) \<and> unat (drv_ref_count d) = length (drv_devices d)"

lemma driver_add_wf:
  assumes "driver_wf d" "length (drv_devices d) < 2 ^ 32 - 1" "driver_add_device i d = (r, d')"
  shows "driver_wf d'"
  using assms by (auto simp: driver_wf_def driver_add_device_def unat_word_ariths split: if_splits)

lemma driver_remove_wf:
  assumes "driver_wf d" "driver_remove_device i d = (r, d')"
  shows "driver_wf d' \<and> i \<notin> set (drv_devices d')"
proof (cases "position (\<lambda>j. j = i) (drv_devices d)")
  case None
  have "d' = d" using assms(2) by (simp add: driver_remove_device_def None)
  moreover have "i \<notin> set (drv_devices d)" using None by (auto simp: position_None_iff)
  ultimately show ?thesis using assms(1) by simp
next
  case (Some k)
  have k: "k < length (drv_devices d)" "drv_devices d ! k = i" using position_SomeD [OF Some] by simp_all
  then have "0 < drv_ref_count d" using assms(1) by (auto simp: driver_wf_def word_gt_0)
  then have "d' = d\<lparr>drv_devices := remove_at k (drv_devices d), drv_ref_count := drv_ref_count d - 1\<rparr>"
    using assms(2) by (simp add: driver_remove_device_def Some)
  moreover have "unat (drv_ref_count d - 1) = unat (drv_ref_count d) - 1" using \<open>0 < drv_ref_count d\<close> by (simp add: unat_minus_one word_gt_0)
  ultimately show ?thesis using assms(1) k set_remove_at_distinct [of "drv_devices d" k]
    by (simp add: driver_wf_def distinct_remove_at length_remove_at)
qed

lemma driver_unload_unused: "driver_wf d \<Longrightarrow> driver_unload d = (Inr (), d') \<Longrightarrow> drv_devices d = [] \<and> \<not> drv_loaded d'"
  by (auto simp: driver_unload_def split: if_splits)

end
