(* ===== verification/Utf8.thy ===== *)
theory Utf8
  imports OS_Prelude
begin

text \<open>
  The text encoding of the standard library. A Rust \<^verbatim>\<open>String\<close> is the list of its UTF-8 bytes;
  \<^verbatim>\<open>String::from_utf8_lossy\<close> keeps what is well formed and replaces every maximal ill-formed piece by the
  encoding of U+FFFD. The services use it for the clipboard and for paths and programs read from memory.
\<close>

definition cont_byte :: "u8 \<Rightarrow> bool" where
  "cont_byte b \<longleftrightarrow> 0x80 \<le> b \<and> b \<le> 0xBF"

text \<open>The second byte that may follow a first byte of a sequence of two, three or four bytes.\<close>

definition second_ok :: "u8 \<Rightarrow> u8 \<Rightarrow> bool" where
  "second_ok b c \<longleftrightarrow>
     (if b = 0xE0 then 0xA0 \<le> c \<and> c \<le> 0xBF
      else if b = 0xED then 0x80 \<le> c \<and> c \<le> 0x9F
      else if b = 0xF0 then 0x90 \<le> c \<and> c \<le> 0xBF
      else if b = 0xF4 then 0x80 \<le> c \<and> c \<le> 0x8F
      else cont_byte c)"

definition char_width :: "u8 \<Rightarrow> nat" where
  "char_width b =
     (if b < 0x80 then 1 else if 0xC2 \<le> b \<and> b \<le> 0xDF then 2 else if 0xE0 \<le> b \<and> b \<le> 0xEF then 3
      else if 0xF0 \<le> b \<and> b \<le> 0xF4 then 4 else 0)"

text \<open>
  The piece at the front of a non-empty text: whether it is a whole character, and its length. A byte beyond
  the end counts as zero, which no test accepts.
\<close>

definition byte_at :: "u8 list \<Rightarrow> nat \<Rightarrow> u8" where
  "byte_at bs i = (if i < length bs then bs ! i else 0)"

definition utf8_piece :: "u8 list \<Rightarrow> bool \<times> nat" where
  "utf8_piece bs =
     (let b = byte_at bs 0; w = char_width b in
      if w = 0 then (False, 1)
      else if w = 1 then (True, 1)
      else if \<not> second_ok b (byte_at bs 1) then (False, 1)
      else if w = 2 then (True, 2)
      else if \<not> cont_byte (byte_at bs 2) then (False, 2)
      else if w = 3 then (True, 3)
      else if \<not> cont_byte (byte_at bs 3) then (False, 3)
      else (True, 4))"

definition replacement :: "u8 list" where
  "replacement = [0xEF, 0xBF, 0xBD]"

lemma utf8_piece_pos: "0 < snd (utf8_piece bs)"
  by (simp add: utf8_piece_def Let_def)

function (sequential) from_utf8_lossy :: "u8 list \<Rightarrow> u8 list" where
  "from_utf8_lossy [] = []"
| "from_utf8_lossy bs =
     (case utf8_piece bs of (ok, n) \<Rightarrow> (if ok then take n bs else replacement) @ from_utf8_lossy (drop n bs))"
  by pat_completeness auto
termination
proof (relation "measure length", goal_cases)
  case (2 v va x y)
  then show ?case using utf8_piece_pos [of "v # va"] by (metis diff_less in_measure length_drop length_greater_0_conv list.discI snd_conv)
qed simp

text \<open>Well-formed text, as the standard library checks it.\<close>

function (sequential) utf8_valid :: "u8 list \<Rightarrow> bool" where
  "utf8_valid [] = True"
| "utf8_valid bs = (case utf8_piece bs of (ok, n) \<Rightarrow> ok \<and> utf8_valid (drop n bs))"
  by pat_completeness auto
termination
proof (relation "measure length", goal_cases)
  case (2 v va x y)
  then show ?case using utf8_piece_pos [of "v # va"] by (metis diff_less in_measure length_drop length_greater_0_conv list.discI snd_conv)
qed simp

declare from_utf8_lossy.simps(2) [simp del] utf8_valid.simps(2) [simp del]

lemma cont_byte_0 [simp]: "\<not> cont_byte 0" "\<not> second_ok b 0"
  by (simp_all add: cont_byte_def second_ok_def)

lemma byte_at_append: "i < length bs \<Longrightarrow> byte_at (bs @ cs) i = byte_at bs i"
  by (simp add: byte_at_def nth_append)

text \<open>A whole character is a character whatever follows it, and it is read from its own bytes.\<close>

lemma utf8_piece_within: "bs \<noteq> [] \<Longrightarrow> utf8_piece bs = (ok, n) \<Longrightarrow> n \<le> length bs"
proof -
  assume ne: "bs \<noteq> []" and p: "utf8_piece bs = (ok, n)"
  have 1: "second_ok b (byte_at bs 1) \<Longrightarrow> 1 < length bs" for b by (auto simp: byte_at_def split: if_splits)
  have 2: "cont_byte (byte_at bs k) \<Longrightarrow> k < length bs" for k by (auto simp: byte_at_def split: if_splits)
  have 0: "1 \<le> length bs" using ne by (cases bs) auto
  show "n \<le> length bs"
    using p 0 Suc_leI [OF 1 [of "byte_at bs 0"]] Suc_leI [OF 2 [of 2]] Suc_leI [OF 2 [of 3]]
    by (auto simp: utf8_piece_def Let_def split: if_splits)
qed

lemma utf8_piece_append:
  assumes "bs \<noteq> []" "utf8_piece bs = (True, n)"
  shows "utf8_piece (take n bs @ cs) = (True, n)"
proof -
  have n: "n \<le> length bs" using utf8_piece_within [OF assms] .
  have "byte_at (take n bs @ cs) i = byte_at bs i" if "i < n" for i using that n by (simp add: byte_at_def nth_append)
  then show ?thesis using assms(2) by (auto simp: utf8_piece_def Let_def split: if_splits)
qed

lemma utf8_valid_append_char:
  assumes "bs \<noteq> []" "utf8_piece bs = (True, n)" "utf8_valid cs"
  shows "utf8_valid (take n bs @ cs)"
proof -
  have n: "n \<le> length bs" "0 < n" using utf8_piece_within [OF assms(1,2)] utf8_piece_pos [of bs] assms(2) by auto
  then obtain x xs where x: "take n bs @ cs = x # xs" using assms(1) by (cases bs) (auto simp: take_Cons')
  have "drop n (take n bs @ cs) = cs" using n by simp
  then show ?thesis using utf8_piece_append [OF assms(1,2), of cs] assms(3) unfolding x by (simp add: utf8_valid.simps(2))
qed

lemma replacement_piece: "utf8_piece replacement = (True, 3)"
  by (simp add: utf8_piece_def replacement_def byte_at_def char_width_def second_ok_def cont_byte_def Let_def)

text \<open>The result is always well formed, and well-formed text is left alone.\<close>

lemma from_utf8_lossy_valid: "utf8_valid (from_utf8_lossy bs)"
proof (induction bs rule: from_utf8_lossy.induct)
  case (2 b bs)
  obtain ok n where p: "utf8_piece (b # bs) = (ok, n)" by fastforce
  have ih: "utf8_valid (from_utf8_lossy (drop n (b # bs)))" using 2 [OF p [symmetric]] p by simp
  have "utf8_valid (take 3 replacement @ from_utf8_lossy (drop n (b # bs)))"
    using utf8_valid_append_char [OF _ replacement_piece ih] by (simp add: replacement_def)
  then show ?case using p utf8_valid_append_char [of "b # bs" n, OF _ _ ih]
    by (cases ok) (simp_all add: from_utf8_lossy.simps(2) replacement_def)
qed simp

lemma from_utf8_lossy_id: "utf8_valid bs \<Longrightarrow> from_utf8_lossy bs = bs"
proof (induction bs rule: from_utf8_lossy.induct)
  case (2 b bs)
  obtain ok n where p: "utf8_piece (b # bs) = (ok, n)" by fastforce
  then show ?case using 2(1) [OF p [symmetric]] 2(2) by (simp add: from_utf8_lossy.simps(2) utf8_valid.simps(2))
qed simp

lemma from_utf8_lossy_idem: "from_utf8_lossy (from_utf8_lossy bs) = from_utf8_lossy bs"
  by (rule from_utf8_lossy_id [OF from_utf8_lossy_valid])

lemma ascii_valid: "\<forall>b \<in> set bs. b < 0x80 \<Longrightarrow> utf8_valid bs"
proof (induction bs)
  case (Cons b bs)
  then have "utf8_piece (b # bs) = (True, 1)" by (simp add: utf8_piece_def byte_at_def char_width_def Let_def)
  then show ?case using Cons by (simp add: utf8_valid.simps(2))
qed simp

end
