(* ===== verification/Device_Service.thy ===== *)
theory Device_Service
  imports Service_Loop Device_Manager Utf8
begin

text \<open>
  The device service (\<^verbatim>\<open>src/services/device/service.rs\<close>): registration, queries and input and output of devices,
  and the clipboard, with the loop that serves the bus. The clipboard is the UTF-8 bytes of its string. The
  order in which the device map yields its keys is an argument of the handlers that list devices. Buffers of the
  requested size are taken to be available. Printing to the console is left out.
\<close>

section \<open>State and helpers\<close>

record DeviceService =
  ds_manager :: DeviceManager
  clipboard :: "u8 list"

definition DeviceService_new :: DeviceService where
  "DeviceService_new = \<lparr>ds_manager = DeviceManager_new, clipboard = []\<rparr>"

primrec device_class_to_type :: "DeviceClass \<Rightarrow> DeviceType" where
  "device_class_to_type BlockClass = DevBlock"
| "device_class_to_type CharClass = DevCharacter"
| "device_class_to_type NetworkClass = DevNetwork"
| "device_class_to_type GraphicsClass = DevGraphics"
| "device_class_to_type ClipboardClass = DevClipboard"
| "device_class_to_type TimerClass = DevUnknown"
| "device_class_to_type UnknownClass = DevUnknown"

text \<open>The derived \<^verbatim>\<open>Debug\<close> formats.\<close>

primrec device_type_debug :: "DeviceType \<Rightarrow> string" where
  "device_type_debug DevCharacter = ''Character''"
| "device_type_debug DevBlock = ''Block''"
| "device_type_debug DevNetwork = ''Network''"
| "device_type_debug DevTerminal = ''Terminal''"
| "device_type_debug DevGraphics = ''Graphics''"
| "device_type_debug DevAudio = ''Audio''"
| "device_type_debug DevInput = ''Input''"
| "device_type_debug DevClipboard = ''Clipboard''"
| "device_type_debug DevUnknown = ''Unknown''"

primrec device_status_debug :: "DeviceStatus \<Rightarrow> string" where
  "device_status_debug DevInitializing = ''Initializing''"
| "device_status_debug DevReady = ''Ready''"
| "device_status_debug DevBusy = ''Busy''"
| "device_status_debug DevError = ''Error''"
| "device_status_debug DevDisabled = ''Disabled''"
| "device_status_debug DevRemoved = ''Removed''"

section \<open>Handlers\<close>

definition register_class :: "DeviceClass \<Rightarrow> string \<Rightarrow> DeviceService \<Rightarrow> (GenshinError, u32) result \<times> DeviceService" where
  "register_class cls nm s =
     (let ty = device_class_to_type cls;
          info = DeviceInfo_new nm (device_type_debug ty @ '' device'') ty 0 0 0
      in case mgr_register (Device_new info) (ds_manager s) of (r, m) \<Rightarrow> (r, s\<lparr>ds_manager := m\<rparr>))"

definition handle_register_device :: "DeviceClass \<Rightarrow> string \<Rightarrow> DeviceService \<Rightarrow> (GenshinError, unit) result \<times> DeviceService" where
  "handle_register_device cls nm s = (case register_class cls nm s of (r, s') \<Rightarrow> (rbind r (\<lambda>_. Inr ()), s'))"

definition handle_unregister_device :: "u32 \<Rightarrow> DeviceService \<Rightarrow> (GenshinError, unit) result \<times> DeviceService" where
  "handle_unregister_device i s = (case mgr_unregister i (ds_manager s) of (r, m) \<Rightarrow> (r, s\<lparr>ds_manager := m\<rparr>))"

definition read_bytes :: "u32 \<Rightarrow> nat \<Rightarrow> DeviceService \<Rightarrow> (GenshinError, nat) result" where
  "read_bytes i sz s = fst (mgr_read (ds_manager s) i (replicate sz 0))"

definition handle_read_device :: "u32 \<Rightarrow> nat \<Rightarrow> DeviceService \<Rightarrow> (GenshinError, unit) result" where
  "handle_read_device i sz s = rbind (read_bytes i sz s) (\<lambda>_. Inr ())"

definition write_bytes :: "u32 \<Rightarrow> nat \<Rightarrow> DeviceService \<Rightarrow> (GenshinError, nat) result" where
  "write_bytes i sz s = mgr_write (ds_manager s) i (replicate sz 0)"

definition handle_write_device :: "u32 \<Rightarrow> nat \<Rightarrow> DeviceService \<Rightarrow> (GenshinError, unit) result" where
  "handle_write_device i sz s = rbind (write_bytes i sz s) (\<lambda>_. Inr ())"

definition handle_get_device_status :: "u32 \<Rightarrow> DeviceService \<Rightarrow> (GenshinError, unit) result" where
  "handle_get_device_status i s = rbind (mgr_status (ds_manager s) i) (\<lambda>_. Inr ())"

definition clipboard_set :: "u8 list \<Rightarrow> DeviceService \<Rightarrow> DeviceService" where
  "clipboard_set data s = s\<lparr>clipboard := from_utf8_lossy data\<rparr>"

text \<open>Control, initialisation, shutdown, reset and interrupt requests print a line and change nothing.\<close>

definition handle_device_request :: "DeviceRequest \<Rightarrow> DeviceService \<Rightarrow> (GenshinError, unit) result \<times> DeviceService" where
  "handle_device_request req s =
     (case req of
        ClipboardSet data \<Rightarrow> (Inr (), clipboard_set data s)
      | ClipboardGet _ \<Rightarrow> (Inr (), s)
      | RegisterDevice cls nm \<Rightarrow> handle_register_device cls nm s
      | UnregisterDevice i \<Rightarrow> handle_unregister_device i s
      | ListDevices \<Rightarrow> (Inr (), s)
      | GetDevicesByType _ \<Rightarrow> (Inr (), s)
      | DeviceRead i _ sz \<Rightarrow> (handle_read_device i sz s, s)
      | DeviceWrite i _ sz \<Rightarrow> (handle_write_device i sz s, s)
      | Ioctl _ _ _ \<Rightarrow> (Inr (), s)
      | DeviceInit _ \<Rightarrow> (Inr (), s)
      | Shutdown _ \<Rightarrow> (Inr (), s)
      | DeviceReset _ \<Rightarrow> (Inr (), s)
      | DeviceStatusQuery i \<Rightarrow> (handle_get_device_status i s, s)
      | EnableInterrupt _ _ \<Rightarrow> (Inr (), s)
      | DisableInterrupt _ _ \<Rightarrow> (Inr (), s)
      | _ \<Rightarrow> (Inr (), s))"

section \<open>Requests that are answered\<close>

type_synonym ds_outcome = "(GenshinError, unit) result \<times> responses \<times> DeviceService"

text \<open>The common shape of the answering handlers: an error is returned, a value is sent.\<close>

definition ds_reply :: "ChanEnv \<Rightarrow> Envelope \<Rightarrow> ('a \<Rightarrow> ResponseData) \<Rightarrow> (GenshinError, 'a) result \<times> DeviceService \<Rightarrow> ds_outcome" where
  "ds_reply ce env mk rs =
     (case rs of (Inl e, s) \<Rightarrow> (Inl e, [], s) | (Inr a, s) \<Rightarrow> (Inr (), ok_success ce env (mk a), s))"

definition handle_register_device_with_response :: "ChanEnv \<Rightarrow> Envelope \<Rightarrow> DeviceClass \<Rightarrow> string \<Rightarrow> DeviceService \<Rightarrow> ds_outcome" where
  "handle_register_device_with_response ce env cls nm s = ds_reply ce env (\<lambda>i. RInteger (ucast i)) (register_class cls nm s)"

definition handle_unregister_device_with_response :: "ChanEnv \<Rightarrow> Envelope \<Rightarrow> u32 \<Rightarrow> DeviceService \<Rightarrow> ds_outcome" where
  "handle_unregister_device_with_response ce env i s = ds_reply ce env (\<lambda>_. Void) (handle_unregister_device i s)"

definition handle_list_devices_with_response :: "ChanEnv \<Rightarrow> u32 list \<Rightarrow> Envelope \<Rightarrow> DeviceService \<Rightarrow> ds_outcome" where
  "handle_list_devices_with_response ce order env s =
     ds_reply ce env (\<lambda>ds. RString (''Device count: '' @ show_dec (length ds))) (Inr (mgr_list_devices order (ds_manager s)), s)"

definition handle_get_device_status_with_response :: "ChanEnv \<Rightarrow> Envelope \<Rightarrow> u32 \<Rightarrow> DeviceService \<Rightarrow> ds_outcome" where
  "handle_get_device_status_with_response ce env i s =
     ds_reply ce env (\<lambda>st. RString (device_status_debug st)) (mgr_status (ds_manager s) i, s)"

definition handle_read_device_with_response :: "ChanEnv \<Rightarrow> Envelope \<Rightarrow> u32 \<Rightarrow> nat \<Rightarrow> DeviceService \<Rightarrow> ds_outcome" where
  "handle_read_device_with_response ce env i sz s = ds_reply ce env BytesProcessed (read_bytes i sz s, s)"

definition handle_write_device_with_response :: "ChanEnv \<Rightarrow> Envelope \<Rightarrow> u32 \<Rightarrow> nat \<Rightarrow> DeviceService \<Rightarrow> ds_outcome" where
  "handle_write_device_with_response ce env i sz s = ds_reply ce env BytesProcessed (write_bytes i sz s, s)"

definition handle_device_request_with_response :: "ChanEnv \<Rightarrow> u32 list \<Rightarrow> Envelope \<Rightarrow> DeviceRequest \<Rightarrow> DeviceService \<Rightarrow> ds_outcome" where
  "handle_device_request_with_response ce order env req s =
     (case req of
        ClipboardSet data \<Rightarrow> (Inr (), ok_success ce env Void, clipboard_set data s)
      | ClipboardGet max_size \<Rightarrow>
          (Inr (), ok_success ce env (RBytes (take (min max_size (length (clipboard s))) (clipboard s))), s)
      | RegisterDevice cls nm \<Rightarrow> handle_register_device_with_response ce env cls nm s
      | UnregisterDevice i \<Rightarrow> handle_unregister_device_with_response ce env i s
      | ListDevices \<Rightarrow> handle_list_devices_with_response ce order env s
      | DeviceStatusQuery i \<Rightarrow> handle_get_device_status_with_response ce env i s
      | DeviceRead i _ sz \<Rightarrow> handle_read_device_with_response ce env i sz s
      | DeviceWrite i _ sz \<Rightarrow> handle_write_device_with_response ce env i sz s
      | _ \<Rightarrow> ds_reply ce env (\<lambda>_. Void) (handle_device_request req s))"

text \<open>An interrupt is reported on the console only.\<close>

definition ds_handle_envelope :: "ChanEnv \<Rightarrow> u32 list \<Rightarrow> Envelope \<Rightarrow> DeviceService \<Rightarrow> responses \<times> DeviceService" where
  "ds_handle_envelope ce order env s =
     (case message env of
        DeviceMsg req \<Rightarrow>
          (if expects_response env then
             (case handle_device_request_with_response ce order env req s of
                (Inr _, out, s') \<Rightarrow> (out, s')
              | (Inl e, out, s') \<Rightarrow> (out @ ok_error ce env (MsgOther 1 (genshin_error_fmt e)), s'))
           else ([], snd (handle_device_request req s)))
      | _ \<Rightarrow> ([], s))"

text \<open>The loop, on envelopes with the order of the device map at that moment.\<close>

definition ds_handle :: "ChanEnv \<Rightarrow> Envelope \<times> u32 list \<Rightarrow> DeviceService \<Rightarrow> (responses \<times> DeviceService) option" where
  "ds_handle ce ev s = Some (ds_handle_envelope ce (snd ev) (fst ev) s)"

definition ds_run :: "ChanEnv \<Rightarrow> (Envelope \<times> u32 list) list \<Rightarrow> DeviceService \<Rightarrow> (responses \<times> DeviceService) option" where
  "ds_run ce evs s = serve (ds_handle ce) evs s"

section \<open>Queries from outside\<close>

definition ds_device_count :: "DeviceService \<Rightarrow> nat" where
  "ds_device_count s = mgr_count (ds_manager s)"

definition ds_list_devices :: "u32 list \<Rightarrow> DeviceService \<Rightarrow> SvcDeviceSnapshot list" where
  "ds_list_devices order s = mgr_list_devices order (ds_manager s)"

definition ds_get_devices_by_type :: "DeviceType \<Rightarrow> DeviceService \<Rightarrow> SvcDeviceSnapshot list" where
  "ds_get_devices_by_type ty s = map device_snapshot (mgr_get_by_type ty (ds_manager s))"

section \<open>Every request is answered\<close>

definition is_device_msg :: "KernelMsg \<Rightarrow> bool" where
  "is_device_msg m = (case m of DeviceMsg _ \<Rightarrow> True | _ \<Rightarrow> False)"

definition ds_answers :: "ChanEnv \<Rightarrow> Envelope \<Rightarrow> ds_outcome \<Rightarrow> bool" where
  "ds_answers ce env h =
     (case h of (r, out, _) \<Rightarrow>
        (is_ok r \<longrightarrow> (\<forall>c i. asks ce env c i \<longrightarrow> out \<noteq> [])) \<and>
        list_all (\<lambda>(c, resp). asks ce env c (response_request_id resp)) out)"

lemma ds_reply_answers: "ds_answers ce env (ds_reply ce env mk rs)"
  by (auto simp: ds_reply_def ds_answers_def ok_asks split: sum.split prod.split)

lemma device_request_answers: "ds_answers ce env (handle_device_request_with_response ce order env req s)"
  by (cases req)
     (simp_all add: handle_device_request_with_response_def handle_register_device_with_response_def handle_unregister_device_with_response_def
       handle_list_devices_with_response_def handle_get_device_status_with_response_def handle_read_device_with_response_def
       handle_write_device_with_response_def ds_reply_answers, auto simp: ds_answers_def ok_asks)

lemma ds_envelope_answers:
  assumes "ds_handle_envelope ce order env s = (out, s')"
  shows "((c, resp) \<in> set out \<longrightarrow> is_device_msg (message env) \<and> asks ce env c (response_request_id resp)) \<and>
    (is_device_msg (message env) \<longrightarrow> asks ce env c i \<longrightarrow> out \<noteq> [])"
proof (cases "message env")
  case (DeviceMsg req)
  show ?thesis
  proof (cases "expects_response env")
    case True
    then show ?thesis
      using device_request_answers [of ce env order req s] assms DeviceMsg ok_asks(4) [of ce env]
      by (auto simp: ds_handle_envelope_def ds_answers_def is_device_msg_def list_all_iff
          dest: ok_error_addressed split: sum.splits prod.splits)
  next
    case False
    then show ?thesis using assms DeviceMsg by (auto simp: ds_handle_envelope_def expects_response_def asks_def)
  qed
qed (use assms in \<open>auto simp: ds_handle_envelope_def is_device_msg_def\<close>)

interpretation device_loop: answering_service ce "ds_handle ce" fst is_device_msg
  by standard (use ds_envelope_answers in \<open>auto simp: ds_handle_def\<close>)

lemma ds_run_total: "\<exists>out s'. ds_run ce evs s = Some (out, s')"
  unfolding ds_run_def
proof (induction evs arbitrary: s)
  case (Cons ev evs)
  obtain out s1 where "ds_handle ce ev s = Some (out, s1)" by (metis ds_handle_def prod.collapse)
  with Cons.IH [of s1] show ?case by auto
qed simp

text \<open>
  The device service answers. It never stops on a message; every device request that expects an answer and
  whose requester still listens is answered on its channel with its number, with an error where the request
  failed; and nothing else is ever sent.
\<close>

theorem device_service_answers:
  "\<exists>out s'. ds_run ce evs s = Some (out, s') \<and>
    (\<forall>env order req c i. (env, order) \<in> set evs \<and> message env = DeviceMsg req \<and> asks ce env c i \<longrightarrow>
       (\<exists>resp. (c, resp) \<in> set out \<and> response_request_id resp = i)) \<and>
    (\<forall>(c, resp) \<in> set out. \<exists>(env, order) \<in> set evs. is_device_msg (message env) \<and> asks ce env c (response_request_id resp))"
proof -
  obtain out s' where run: "serve (ds_handle ce) evs s = Some (out, s')" using ds_run_total [of ce evs s] by (auto simp: ds_run_def)
  have "\<exists>resp. (c, resp) \<in> set out \<and> response_request_id resp = i"
    if "(env, order) \<in> set evs" "message env = DeviceMsg req" "asks ce env c i" for env order req c i
    using device_loop.serve_answers [OF run that(1)] that(2,3) by (simp add: is_device_msg_def)
  moreover have "\<exists>(env, order) \<in> set evs. is_device_msg (message env) \<and> asks ce env c (response_request_id resp)"
    if "(c, resp) \<in> set out" for c resp
    using device_loop.serve_addressed [OF run that] by fastforce
  ultimately show ?thesis using run unfolding ds_run_def by blast
qed

definition demo_request :: "DeviceRequest \<Rightarrow> u64 \<Rightarrow> Envelope" where
  "demo_request req i = \<lparr>message = DeviceMsg req, request_id = Some i, response_channel = Some 0\<rparr>"

definition demo_chans :: ChanEnv where
  "demo_chans = \<lparr>connected = (\<lambda>_. True), send_error_text = []\<rparr>"

theorem device_service_answers_witness:
  "\<exists>out s'. ds_run demo_chans [(demo_request (DeviceRead 5 0 8) 3, [])] DeviceService_new = Some (out, s') \<and>
     (\<exists>resp. (0, resp) \<in> set out \<and> response_request_id resp = 3)"
  using device_service_answers [of demo_chans "[(demo_request (DeviceRead 5 0 8) 3, [])]" DeviceService_new]
  by (auto simp: demo_request_def demo_chans_def asks_def)

section \<open>The clipboard\<close>

lemma handle_device_request_clipboard:
  "clipboard (snd (handle_device_request req s)) = (case req of ClipboardSet data \<Rightarrow> from_utf8_lossy data | _ \<Rightarrow> clipboard s)"
  by (cases req)
     (simp_all add: handle_device_request_def clipboard_set_def handle_register_device_def register_class_def handle_unregister_device_def
       Let_def split: prod.split)

lemma ds_reply_state: "snd (snd (ds_reply ce env mk rs)) = snd rs"
  by (auto simp: ds_reply_def split: prod.split sum.split)

lemma with_response_clipboard:
  "clipboard (snd (snd (handle_device_request_with_response ce order env req s))) =
     (case req of ClipboardSet data \<Rightarrow> from_utf8_lossy data | _ \<Rightarrow> clipboard s)"
  by (cases req)
     (simp_all add: handle_device_request_with_response_def handle_register_device_with_response_def handle_unregister_device_with_response_def
       handle_list_devices_with_response_def handle_get_device_status_with_response_def handle_read_device_with_response_def
       handle_write_device_with_response_def ds_reply_state handle_device_request_clipboard clipboard_set_def register_class_def
       handle_unregister_device_def Let_def split: prod.split)

definition sets_clipboard :: "Envelope \<Rightarrow> bool" where
  "sets_clipboard env \<longleftrightarrow> (\<exists>data. message env = DeviceMsg (ClipboardSet data))"

lemma ds_envelope_clipboard:
  "clipboard (snd (ds_handle_envelope ce order env s)) =
     (case message env of DeviceMsg (ClipboardSet data) \<Rightarrow> from_utf8_lossy data | _ \<Rightarrow> clipboard s)"
proof (cases "message env")
  case (DeviceMsg req)
  obtain r out s' where h: "handle_device_request_with_response ce order env req s = (r, out, s')" by (cases "handle_device_request_with_response ce order env req s")
  have "clipboard (snd (ds_handle_envelope ce order env s)) =
    (if expects_response env then clipboard s' else clipboard (snd (handle_device_request req s)))"
    using DeviceMsg h by (cases r) (simp_all add: ds_handle_envelope_def)
  then show ?thesis
    using DeviceMsg h with_response_clipboard [of ce order env req s] by (simp add: handle_device_request_clipboard split: DeviceRequest.split)
qed (simp_all add: ds_handle_envelope_def)

lemma ds_run_clipboard:
  "ds_run ce evs s = Some (out, t) \<Longrightarrow> \<forall>(env, order) \<in> set evs. \<not> sets_clipboard env \<Longrightarrow> clipboard t = clipboard s"
proof (induction evs arbitrary: s out)
  case (Cons ev evs)
  obtain env order where ev: "ev = (env, order)" by fastforce
  define s1 where "s1 = snd (ds_handle_envelope ce order env s)"
  obtain out1 where h: "ds_handle ce ev s = Some (out1, s1)" by (metis ds_handle_def ev fst_conv prod.collapse s1_def snd_conv)
  then obtain out2 where run: "ds_run ce evs s1 = Some (out2, t)" using Cons.prems(1) by (auto simp: ds_run_def)
  have "\<not> sets_clipboard env" using Cons.prems(2) ev by auto
  then have "clipboard s1 = clipboard s"
    unfolding s1_def by (auto simp: ds_envelope_clipboard sets_clipboard_def split: KernelMsg.split DeviceRequest.split)
  then show ?case using Cons.IH [OF run] Cons.prems(2) by simp
qed (simp add: ds_run_def)

text \<open>
  C37. What is put on the clipboard is read from it. After a request that sets it, and any further messages that do not set it
  again, a request to read it is answered with the text's bytes, cut to the size that the
  requester allows: the bytes that were set if they are well-formed UTF-8, and otherwise with every ill-formed
  piece replaced, so that the clipboard always holds well-formed text.
\<close>

theorem clipboard_round_trip:
  assumes set: "message env = DeviceMsg (ClipboardSet data)"
    and run: "ds_run ce ((env, o1) # evs) s = Some (out, t)" "\<forall>(e, or) \<in> set evs. \<not> sets_clipboard e"
    and get: "message env' = DeviceMsg (ClipboardGet n)" "asks ce env' c i"
  shows "ds_handle ce (env', o2) t = Some ([(c, ResponseSuccess i (RBytes (take n (from_utf8_lossy data))))], t) \<and>
    (utf8_valid data \<longrightarrow> from_utf8_lossy data = data) \<and> utf8_valid (clipboard t)"
proof -
  define s1 where "s1 = snd (ds_handle_envelope ce o1 env s)"
  obtain out1 where "ds_handle ce (env, o1) s = Some (out1, s1)" by (metis ds_handle_def fst_conv prod.collapse s1_def snd_conv)
  then obtain out2 where "ds_run ce evs s1 = Some (out2, t)" using run(1) by (auto simp: ds_run_def)
  from ds_run_clipboard [OF this run(2)] have clip: "clipboard t = from_utf8_lossy data"
    by (simp add: s1_def ds_envelope_clipboard set)
  have "ok_success ce env' d = [(c, ResponseSuccess i d)]" for d
    using get(2) by (simp add: ok_success_def respond_success_def send_response_def asks_def)
  then have "ds_handle ce (env', o2) t = Some ([(c, ResponseSuccess i (RBytes (take n (from_utf8_lossy data))))], t)"
    using get clip by (simp add: ds_handle_def ds_handle_envelope_def handle_device_request_with_response_def expects_response_def asks_def min_def)
  then show ?thesis by (simp add: clip from_utf8_lossy_id from_utf8_lossy_valid)
qed

theorem clipboard_round_trip_witness:
  "\<exists>out t. ds_run demo_chans [(demo_request (ClipboardSet [72, 105]) 1, [])] DeviceService_new = Some (out, t) \<and>
     ds_handle demo_chans (demo_request (ClipboardGet 10) 2, []) t = Some ([(0, ResponseSuccess 2 (RBytes [72, 105]))], t)"
proof -
  obtain out t where run: "ds_run demo_chans [(demo_request (ClipboardSet [72, 105]) 1, [])] DeviceService_new = Some (out, t)"
    using ds_run_total by blast
  have v: "from_utf8_lossy [72, 105] = [72, 105]" by (intro from_utf8_lossy_id ascii_valid) simp
  have a: "asks demo_chans (demo_request (ClipboardGet 10) 2) 0 2" by (simp add: asks_def demo_request_def demo_chans_def)
  from clipboard_round_trip [OF _ run _ _ a, of "[72, 105]" 10 "[]"] run v show ?thesis
    by (auto simp: demo_request_def)
qed

section \<open>Devices of the service stay unusable\<close>

text \<open>
  A device registered by a request has no operations and the status \<open>DevInitializing\<close>, and no request changes
  either: every read and every write fails, and the device cannot be opened.
\<close>

definition inert :: "DeviceManager \<Rightarrow> bool" where
  "inert m \<longleftrightarrow> (\<forall>i d. mgr_devices m i = Some d \<longrightarrow> dev_operations d = None \<and> di_status (dev_info d) = DevInitializing)"

lemma handle_device_request_inert: "inert (ds_manager s) \<Longrightarrow> inert (ds_manager (snd (handle_device_request req s)))"
  by (cases req)
     (auto simp: handle_device_request_def clipboard_set_def handle_register_device_def register_class_def handle_unregister_device_def
       inert_def mgr_register_def mgr_unregister_def Device_new_def DeviceInfo_new_def Let_def split: prod.split option.splits if_splits)

lemma inert_fails:
  assumes "inert (ds_manager s)"
  shows "\<not> is_ok (handle_read_device i n s)" "\<not> is_ok (handle_write_device i n s)" "\<not> is_ok (fst (mgr_open i p excl (ds_manager s)))"
  using assms
  by (auto simp: inert_def handle_read_device_def read_bytes_def mgr_read_def mgr_get_def device_read_def handle_write_device_def
      write_bytes_def mgr_write_def device_write_def mgr_open_def mgr_update_def device_open_def device_is_ready_def device_status_def
      split: option.split prod.split)

end
