(* ===== verification/Scheduler.thy ===== *)
theory Scheduler
  imports Messages
begin

text \<open>
  The process scheduler (\<^verbatim>\<open>src/services/process/scheduler.rs\<close>): one ready queue, a priority queue,
  and for each processor the running thread and the ticks of its quantum. The clock reading that an entry
  records is an argument. An index outside the processors, which the source answers with a panic, gives
  \<open>None\<close>; the counters wrap at 64 bits.
\<close>

section \<open>State\<close>

datatype SchedulingPolicy = FIFO | RoundRobin u64 | Priority | SJF | MLFQ

definition SchedulingPolicy_default :: SchedulingPolicy where
  "SchedulingPolicy_default = RoundRobin 10"

datatype SchedulingDecision = Run pid tid | Idle | HaltDecision

record ReadyQueueEntry =
  en_pid :: pid
  en_tid :: tid
  en_priority :: u8
  ready_since :: nat

definition ReadyQueueEntry_new :: "pid \<Rightarrow> tid \<Rightarrow> u8 \<Rightarrow> nat \<Rightarrow> ReadyQueueEntry" where
  "ReadyQueueEntry_new p t prio now = \<lparr>en_pid = p, en_tid = t, en_priority = prio, ready_since = now\<rparr>"

record Scheduler =
  policy :: SchedulingPolicy
  ready_queue :: "ReadyQueueEntry list"
  priority_queue :: "ReadyQueueEntry list"
  cpu_current :: "(pid \<times> tid) option list"
  cpu_ticks :: "u64 list"
  time_slice :: u64
  total_scheduled :: u64
  context_switches :: u64

definition Scheduler_new :: "SchedulingPolicy \<Rightarrow> nat \<Rightarrow> Scheduler" where
  "Scheduler_new pol n =
     \<lparr>policy = pol, ready_queue = [], priority_queue = [], cpu_current = replicate n None,
      cpu_ticks = replicate n 0, time_slice = (case pol of RoundRobin q \<Rightarrow> q | _ \<Rightarrow> 10),
      total_scheduled = 0, context_switches = 0\<rparr>"

definition sched_fifo :: Scheduler where
  "sched_fifo = Scheduler_new FIFO 1"

definition sched_round_robin :: "u64 \<Rightarrow> Scheduler" where
  "sched_round_robin q = Scheduler_new (RoundRobin q) 1"

definition sched_priority :: Scheduler where
  "sched_priority = Scheduler_new Priority 1"

section \<open>Operations\<close>

definition priority_insert :: "ReadyQueueEntry \<Rightarrow> ReadyQueueEntry list \<Rightarrow> ReadyQueueEntry list" where
  "priority_insert e q =
     insert_at (case position (\<lambda>x. en_priority x < en_priority e) q of Some i \<Rightarrow> i | None \<Rightarrow> length q) e q"

definition sched_ready :: "nat \<Rightarrow> pid \<Rightarrow> tid \<Rightarrow> u8 \<Rightarrow> Scheduler \<Rightarrow> Scheduler" where
  "sched_ready now p t prio s =
     (let e = ReadyQueueEntry_new p t prio now in
      case policy s of
        FIFO \<Rightarrow> s\<lparr>ready_queue := ready_queue s @ [e]\<rparr>
      | RoundRobin _ \<Rightarrow> s\<lparr>ready_queue := ready_queue s @ [e]\<rparr>
      | Priority \<Rightarrow> s\<lparr>priority_queue := priority_insert e (priority_queue s)\<rparr>
      | SJF \<Rightarrow> s\<lparr>priority_queue := priority_insert e (priority_queue s)\<rparr>
      | MLFQ \<Rightarrow> s\<lparr>ready_queue := ready_queue s @ [e]\<rparr>)"

definition clear_current :: "pid \<Rightarrow> tid \<Rightarrow> Scheduler \<Rightarrow> Scheduler" where
  "clear_current p t s =
     s\<lparr>cpu_current := map (\<lambda>c. if c = Some (p, t) then None else c) (cpu_current s),
       cpu_ticks := map2 (\<lambda>c k. if c = Some (p, t) then 0 else k) (cpu_current s) (cpu_ticks s)\<rparr>"

definition sched_remove :: "pid \<Rightarrow> tid \<Rightarrow> Scheduler \<Rightarrow> bool \<times> Scheduler" where
  "sched_remove p t s =
     (let s1 = clear_current p t s in
      case position (\<lambda>e. en_pid e = p \<and> en_tid e = t) (ready_queue s1) of
        Some i \<Rightarrow> (True, s1\<lparr>ready_queue := remove_at i (ready_queue s1)\<rparr>)
      | None \<Rightarrow> (False, s1))"

definition sched_block :: "pid \<Rightarrow> tid \<Rightarrow> Scheduler \<Rightarrow> bool \<times> Scheduler" where
  "sched_block p t s = sched_remove p t s"

text \<open>The processes that run on other processors.\<close>

definition busy_pids :: "nat \<Rightarrow> Scheduler \<Rightarrow> pid list" where
  "busy_pids cpu s =
     List.map_filter (\<lambda>(i, c). if i \<noteq> cpu then map_option fst c else None) (enumerate 0 (cpu_current s))"

text \<open>The rotation: at most \<open>n\<close> entries are taken from the front, and busy ones go to the back.\<close>

fun dequeue_loop :: "pid list \<Rightarrow> nat \<Rightarrow> ReadyQueueEntry list \<Rightarrow> ReadyQueueEntry option \<times> ReadyQueueEntry list" where
  "dequeue_loop busy 0 q = (None, q)"
| "dequeue_loop busy (Suc n) q =
     (case q of
        [] \<Rightarrow> dequeue_loop busy n q
      | e # q' \<Rightarrow> if en_pid e \<in> set busy then dequeue_loop busy n (q' @ [e]) else (Some e, q'))"

definition dequeue_next :: "nat \<Rightarrow> Scheduler \<Rightarrow> SchedulingDecision \<times> Scheduler" where
  "dequeue_next cpu s =
     (case dequeue_loop (busy_pids cpu s) (length (ready_queue s)) (ready_queue s) of
        (Some e, q) \<Rightarrow>
          (Run (en_pid e) (en_tid e),
           s\<lparr>ready_queue := q, cpu_current := (cpu_current s)[cpu := Some (en_pid e, en_tid e)],
             cpu_ticks := (cpu_ticks s)[cpu := 0], total_scheduled := total_scheduled s + 1,
             context_switches := context_switches s + 1\<rparr>)
      | (None, q) \<Rightarrow> (Idle, s\<lparr>ready_queue := q, cpu_current := (cpu_current s)[cpu := None]\<rparr>))"

text \<open>Putting the running thread back into its queue.\<close>

definition requeue :: "nat \<Rightarrow> nat \<Rightarrow> pid \<Rightarrow> tid \<Rightarrow> Scheduler \<Rightarrow> Scheduler" where
  "requeue now cpu p t s =
     (sched_ready now p t 128 s)\<lparr>cpu_current := (cpu_current s)[cpu := None], cpu_ticks := (cpu_ticks s)[cpu := 0]\<rparr>"

definition schedule :: "nat \<Rightarrow> nat \<Rightarrow> Scheduler \<Rightarrow> (SchedulingDecision \<times> Scheduler) option" where
  "schedule now cpu s =
     (if cpu \<ge> length (cpu_current s) then None
      else case cpu_current s ! cpu of
             Some (p, t) \<Rightarrow>
               (let s1 = s\<lparr>cpu_ticks := (cpu_ticks s)[cpu := cpu_ticks s ! cpu + 1]\<rparr> in
                if cpu_ticks s1 ! cpu < time_slice s then Some (Run p t, s1)
                else Some (dequeue_next cpu (requeue now cpu p t s1)))
           | None \<Rightarrow> Some (dequeue_next cpu s))"

definition yield_current :: "nat \<Rightarrow> nat \<Rightarrow> Scheduler \<Rightarrow> (SchedulingDecision \<times> Scheduler) option" where
  "yield_current now cpu s =
     (if cpu \<ge> length (cpu_current s) then None
      else case cpu_current s ! cpu of
             Some (p, t) \<Rightarrow> Some (dequeue_next cpu (requeue now cpu p t s))
           | None \<Rightarrow> Some (dequeue_next cpu s))"

definition ready_count :: "Scheduler \<Rightarrow> nat" where
  "ready_count s = length (ready_queue s) + length (priority_queue s)"

definition queue_pids :: "Scheduler \<Rightarrow> pid list" where
  "queue_pids s = map en_pid (ready_queue s)"

definition current_on :: "nat \<Rightarrow> Scheduler \<Rightarrow> (pid \<times> tid) option" where
  "current_on cpu s = (if cpu < length (cpu_current s) then cpu_current s ! cpu else None)"

section \<open>Runs\<close>

text \<open>The calls a client can make, and the states they reach from a new scheduler.\<close>

inductive sched_step :: "Scheduler \<Rightarrow> Scheduler \<Rightarrow> bool" where
  ready: "sched_step s (sched_ready now p t prio s)"
| remove: "sched_step s (snd (sched_remove p t s))"
| sched: "schedule now cpu s = Some (d, s') \<Longrightarrow> sched_step s s'"
| yield: "yield_current now cpu s = Some (d, s') \<Longrightarrow> sched_step s s'"

inductive sched_reach :: "SchedulingPolicy \<Rightarrow> nat \<Rightarrow> Scheduler \<Rightarrow> bool" where
  init: "sched_reach pol n (Scheduler_new pol n)"
| step: "sched_reach pol n s \<Longrightarrow> sched_step s s' \<Longrightarrow> sched_reach pol n s'"

text \<open>The threads that wait in a queue, and those that run.\<close>

definition key :: "ReadyQueueEntry \<Rightarrow> pid \<times> tid" where
  "key e = (en_pid e, en_tid e)"

definition waiting :: "Scheduler \<Rightarrow> (pid \<times> tid) multiset" where
  "waiting s = image_mset key (mset (ready_queue s) + mset (priority_queue s))"

definition running :: "Scheduler \<Rightarrow> (pid \<times> tid) multiset" where
  "running s = mset (List.map_filter id (cpu_current s))"

definition sched_wf :: "Scheduler \<Rightarrow> bool" where
  "sched_wf s \<longleftrightarrow> length (cpu_ticks s) = length (cpu_current s) \<and>
     (\<forall>i < length (cpu_current s). \<forall>j < length (cpu_current s). \<forall>p t u.
        cpu_current s ! i = Some (p, t) \<longrightarrow> cpu_current s ! j = Some (p, u) \<longrightarrow> i = j)"

section \<open>The rotation\<close>

lemma dequeue_loop_rotate:
  "list_all (\<lambda>e. en_pid e \<in> set busy) xs \<Longrightarrow>
   dequeue_loop busy (length xs + m) (xs @ ys) = dequeue_loop busy m (ys @ xs)"
  by (induction xs arbitrary: ys) simp_all

lemma dequeue_loop_full:
  "dequeue_loop busy (length q) q =
     (case dropWhile (\<lambda>e. en_pid e \<in> set busy) q of
        [] \<Rightarrow> (None, q)
      | e # ys \<Rightarrow> (Some e, ys @ takeWhile (\<lambda>e. en_pid e \<in> set busy) q))"
proof -
  let ?P = "\<lambda>e. en_pid e \<in> set busy"
  let ?xs = "takeWhile ?P q" and ?d = "dropWhile ?P q"
  have busy: "list_all ?P ?xs" by (auto simp: list_all_iff dest: set_takeWhileD)
  have q: "q = ?xs @ ?d" by simp
  have loop: "dequeue_loop busy (length q) q = dequeue_loop busy (length ?d) (?d @ ?xs)"
    using dequeue_loop_rotate [OF busy, of "length ?d" ?d] by (metis length_append q)
  show ?thesis
  proof (cases ?d)
    case Nil
    then have "?xs = q" using q by simp
    then show ?thesis unfolding loop Nil by simp
  next
    case (Cons e ys)
    then have "\<not> ?P e" by (metis hd_dropWhile list.discI list.sel(1))
    then show ?thesis using loop Cons by simp
  qed
qed

lemma set_busy_pids:
  "set (busy_pids cpu s) = {p. \<exists>i < length (cpu_current s). i \<noteq> cpu \<and> (\<exists>t. cpu_current s ! i = Some (p, t))}"
proof -
  define f where "f = (\<lambda>(i, c). if i \<noteq> cpu then map_option fst (c :: (pid \<times> tid) option) else None)"
  have f: "f (i, c) = Some p \<longleftrightarrow> i \<noteq> cpu \<and> (\<exists>t. c = Some (p, t))" for i c p by (auto simp: f_def)
  have "p \<in> set (busy_pids cpu s) \<longleftrightarrow> (\<exists>i < length (cpu_current s). f (i, cpu_current s ! i) = Some p)" for p
    unfolding busy_pids_def f_def [symmetric]
    by (simp add: map_filter_def image_iff in_set_enumerate_eq Bex_def) force
  then show ?thesis by (simp add: f set_eq_iff)
qed

text \<open>What one call of the dispatcher does, by whether an eligible entry waits.\<close>

lemma dequeue_next_cases:
  obtains (idle) "\<forall>e \<in> set (ready_queue s). en_pid e \<in> set (busy_pids cpu s)"
      "dequeue_next cpu s = (Idle, s\<lparr>cpu_current := (cpu_current s)[cpu := None]\<rparr>)"
    | (run) xs e ys where "ready_queue s = xs @ e # ys" "\<forall>x \<in> set xs. en_pid x \<in> set (busy_pids cpu s)"
      "en_pid e \<notin> set (busy_pids cpu s)"
      "dequeue_next cpu s = (Run (en_pid e) (en_tid e),
         s\<lparr>ready_queue := ys @ xs, cpu_current := (cpu_current s)[cpu := Some (en_pid e, en_tid e)],
           cpu_ticks := (cpu_ticks s)[cpu := 0], total_scheduled := total_scheduled s + 1,
           context_switches := context_switches s + 1\<rparr>)"
proof -
  let ?P = "\<lambda>e. en_pid e \<in> set (busy_pids cpu s)"
  show thesis
  proof (cases "dropWhile ?P (ready_queue s)")
    case Nil
    show ?thesis
    proof (rule idle)
      show "\<forall>e \<in> set (ready_queue s). ?P e" using Nil by (simp add: dropWhile_eq_Nil_conv)
    qed (simp add: dequeue_next_def dequeue_loop_full Nil del: dropWhile_eq_Nil_conv)
  next
    case (Cons e ys)
    show ?thesis
    proof (rule run)
      show "ready_queue s = takeWhile ?P (ready_queue s) @ e # ys"
        using takeWhile_dropWhile_id [of ?P "ready_queue s"] Cons by simp
      show "\<forall>x \<in> set (takeWhile ?P (ready_queue s)). ?P x" by (auto dest: set_takeWhileD)
      show "\<not> ?P e" using Cons by (metis hd_dropWhile list.discI list.sel(1))
    qed (simp add: dequeue_next_def dequeue_loop_full Cons)
  qed
qed

section \<open>Conservation\<close>

definition one :: "'a option \<Rightarrow> 'a multiset" where
  "one x = (case x of None \<Rightarrow> {#} | Some y \<Rightarrow> {#y#})"

lemma one_simps [simp]: "one None = {#}" "one (Some y) = {#y#}"
  by (simp_all add: one_def)

lemma map_filter_one: "mset (List.map_filter id xs) = (\<Sum>x\<leftarrow>xs. one x)"
  by (induction xs) (auto simp: map_filter_simps split: option.split)

lemma running_update:
  assumes "cpu < length xs"
  shows "mset (List.map_filter id (xs[cpu := v])) + one (xs ! cpu) = mset (List.map_filter id xs) + one v"
  using assms unfolding map_filter_one
  by (subst (3) id_take_nth_drop [OF assms]) (simp add: upd_conv_take_nth_drop ac_simps)

lemma waiting_ready [simp]: "waiting (sched_ready now p t prio s) = add_mset (p, t) (waiting s)"
  by (cases "policy s")
     (simp_all add: waiting_def sched_ready_def Let_def key_def ReadyQueueEntry_new_def priority_insert_def mset_insert_at)

lemma sched_ready_frame [simp]:
  "cpu_current (sched_ready now p t prio s) = cpu_current s" "cpu_ticks (sched_ready now p t prio s) = cpu_ticks s"
  "time_slice (sched_ready now p t prio s) = time_slice s" "policy (sched_ready now p t prio s) = policy s"
  by (cases "policy s"; simp add: sched_ready_def Let_def)+

lemma waiting_cong: "ready_queue s' = ready_queue s \<Longrightarrow> priority_queue s' = priority_queue s \<Longrightarrow> waiting s' = waiting s"
  by (simp add: waiting_def)

lemma dequeue_next_conserves:
  assumes "cpu < length (cpu_current s)" "cpu_current s ! cpu = None" "dequeue_next cpu s = (d, s')"
  shows "waiting s' + running s' = waiting s + running s \<and>
         cpu_current s' = (cpu_current s)[cpu := (case d of Run p t \<Rightarrow> Some (p, t) | _ \<Rightarrow> None)]"
proof (cases rule: dequeue_next_cases [of s cpu])
  case idle
  then have "(cpu_current s)[cpu := None] = cpu_current s" using assms(2) by (metis list_update_id)
  then show ?thesis using idle assms(3) by (auto simp: waiting_def running_def)
next
  case (run xs e ys)
  then show ?thesis
    using assms running_update [OF assms(1), of "Some (en_pid e, en_tid e)"]
    by (auto simp: waiting_def running_def key_def)
qed

lemma requeue_frame:
  assumes "cpu < length (cpu_current s)" "cpu_current s ! cpu = Some (p, t)"
  shows "waiting (requeue now cpu p t s) + running (requeue now cpu p t s) = waiting s + running s"
    "cpu_current (requeue now cpu p t s) = (cpu_current s)[cpu := None]"
proof -
  have "waiting (requeue now cpu p t s) = add_mset (p, t) (waiting s)"
    using waiting_ready [of now p t 128 s] by (simp add: requeue_def waiting_def)
  moreover have run: "running s = running (requeue now cpu p t s) + {#(p, t)#}"
    using running_update [OF assms(1), of None] assms(2) by (simp add: running_def requeue_def)
  ultimately show "waiting (requeue now cpu p t s) + running (requeue now cpu p t s) = waiting s + running s"
    unfolding run by simp
  show "cpu_current (requeue now cpu p t s) = (cpu_current s)[cpu := None]" by (simp add: requeue_def)
qed

lemma schedule_idle:
  "cpu < length (cpu_current s) \<Longrightarrow> cpu_current s ! cpu = None \<Longrightarrow> schedule now cpu s = Some (dequeue_next cpu s)"
  by (simp add: schedule_def)

lemma schedule_running:
  "cpu < length (cpu_current s) \<Longrightarrow> length (cpu_ticks s) = length (cpu_current s) \<Longrightarrow> cpu_current s ! cpu = Some (p, t) \<Longrightarrow>
   schedule now cpu s =
     (let s1 = s\<lparr>cpu_ticks := (cpu_ticks s)[cpu := cpu_ticks s ! cpu + 1]\<rparr> in
      if cpu_ticks s ! cpu + 1 < time_slice s then Some (Run p t, s1)
      else Some (dequeue_next cpu (requeue now cpu p t s1)))"
  by (simp add: schedule_def Let_def)

text \<open>The two calls that pick a thread either keep the running one or dispatch on a free processor.\<close>

lemma pick_cases:
  assumes "schedule now cpu s = Some (d, s') \<or> yield_current now cpu s = Some (d, s')"
  obtains (keep) p t k where "cpu < length (cpu_current s)" "cpu_current s ! cpu = Some (p, t)" "d = Run p t"
      "s' = s\<lparr>cpu_ticks := (cpu_ticks s)[cpu := k]\<rparr>"
    | (dispatch) s0 where "cpu < length (cpu_current s)" "cpu_current s0 = (cpu_current s)[cpu := None]"
      "waiting s0 + running s0 = waiting s + running s" "length (cpu_ticks s0) = length (cpu_ticks s)"
      "policy s0 = policy s" "dequeue_next cpu s0 = (d, s')"
proof -
  have cpu: "cpu < length (cpu_current s)"
    using assms by (auto simp: schedule_def yield_current_def split: if_splits)
  show thesis
  proof (cases "cpu_current s ! cpu")
    case None
    then have "dequeue_next cpu s = (d, s')" using assms cpu by (auto simp: schedule_def yield_current_def)
    moreover have "cpu_current s = (cpu_current s)[cpu := None]" by (metis None list_update_id)
    ultimately show ?thesis using cpu by (intro dispatch [of s]) auto
  next
    case (Some c)
    then obtain p t where c: "cpu_current s ! cpu = Some (p, t)" by (cases c) simp
    define s1 where "s1 = s\<lparr>cpu_ticks := (cpu_ticks s)[cpu := cpu_ticks s ! cpu + 1]\<rparr>"
    have s1: "cpu_current s1 = cpu_current s" "waiting s1 = waiting s" "running s1 = running s"
      by (simp_all add: s1_def waiting_def running_def)
    have yl: "yield_current now cpu s = Some (dequeue_next cpu (requeue now cpu p t s))"
      using cpu c by (simp add: yield_current_def)
    have sc: "schedule now cpu s =
        (if cpu_ticks s1 ! cpu < time_slice s then Some (Run p t, s1) else Some (dequeue_next cpu (requeue now cpu p t s1)))"
      using cpu c by (simp add: schedule_def s1_def Let_def)
    consider "d = Run p t" "s' = s1" | "dequeue_next cpu (requeue now cpu p t s1) = (d, s')"
      | "dequeue_next cpu (requeue now cpu p t s) = (d, s')"
      using assms unfolding yl sc by (metis Pair_inject option.inject)
    then show ?thesis
    proof cases
      case 1
      then show ?thesis using cpu c by (intro keep) (auto simp: s1_def)
    next
      case 2
      with requeue_frame [of cpu s1 p t now] cpu c s1 show ?thesis
        by (intro dispatch [of "requeue now cpu p t s1"]) (auto simp: requeue_def s1_def)
    next
      case 3
      with requeue_frame [OF cpu c, of now] cpu show ?thesis
        by (intro dispatch [of "requeue now cpu p t s"]) (auto simp: requeue_def)
    qed
  qed
qed

lemma running_ticks [simp]: "waiting (s\<lparr>cpu_ticks := ks\<rparr>) = waiting s" "running (s\<lparr>cpu_ticks := ks\<rparr>) = running s"
  by (simp_all add: waiting_def running_def)

section \<open>Exclusion\<close>

lemma sched_wfD:
  assumes "sched_wf s" "i < length (cpu_current s)" "j < length (cpu_current s)"
    and "cpu_current s ! i = Some (p, t)" "cpu_current s ! j = Some (p, u)"
  shows "i = j"
  using assms by (auto simp: sched_wf_def)

lemma sched_wf_mono:
  assumes "sched_wf s" "length (cpu_ticks s') = length (cpu_ticks s)" "length (cpu_current s') = length (cpu_current s)"
    and "\<And>i. i < length (cpu_current s) \<Longrightarrow> cpu_current s' ! i = cpu_current s ! i \<or> cpu_current s' ! i = None"
  shows "sched_wf s'"
  unfolding sched_wf_def
proof (intro conjI allI impI)
  show "length (cpu_ticks s') = length (cpu_current s')" using assms(1-3) by (simp add: sched_wf_def)
  fix i j p t u
  assume "i < length (cpu_current s')" "j < length (cpu_current s')" "cpu_current s' ! i = Some (p, t)"
    "cpu_current s' ! j = Some (p, u)"
  then show "i = j" using assms(3) assms(4) [of i] assms(4) [of j] sched_wfD [OF assms(1), of i j p t u] by simp
qed

lemma sched_wf_release:
  assumes "sched_wf s" "cpu_current s' = (cpu_current s)[cpu := None]" "length (cpu_ticks s') = length (cpu_ticks s)"
  shows "sched_wf s'"
proof (rule sched_wf_mono [OF assms(1,3)])
  show "cpu_current s' ! i = cpu_current s ! i \<or> cpu_current s' ! i = None" if "i < length (cpu_current s)" for i
    using assms(2) that by (cases "i = cpu") simp_all
qed (simp add: assms(2))

lemma dequeue_next_wf:
  assumes "sched_wf s" "dequeue_next cpu s = (d, s')"
  shows "sched_wf s'"
proof (cases rule: dequeue_next_cases [of s cpu])
  case idle
  then show ?thesis using assms by (intro sched_wf_release [OF assms(1)]) auto
next
  case (run xs e ys)
  let ?cs = "(cpu_current s)[cpu := Some (en_pid e, en_tid e)]"
  have free: "cpu_current s ! i \<noteq> Some (en_pid e, t)" if "i < length (cpu_current s)" "i \<noteq> cpu" for i t
    using run(3) that by (auto simp: set_busy_pids)
  have "i = j" if "i < length (cpu_current s)" "j < length (cpu_current s)" "?cs ! i = Some (p, t)" "?cs ! j = Some (p, u)" for i j p t u
    using that free [of i] free [of j] sched_wfD [OF assms(1), of i j p t u]
    by (cases "i = cpu"; cases "j = cpu"; auto)
  then show ?thesis using run(4) assms by (auto simp: sched_wf_def)
qed

lemma clear_current_frame:
  assumes "length (cpu_ticks s) = length (cpu_current s)"
  shows "length (cpu_ticks (clear_current p t s)) = length (cpu_ticks s)"
    "length (cpu_current (clear_current p t s)) = length (cpu_current s)"
    "i < length (cpu_current s) \<Longrightarrow>
     cpu_current (clear_current p t s) ! i = (if cpu_current s ! i = Some (p, t) then None else cpu_current s ! i)"
  using assms by (simp_all add: clear_current_def)

lemma dequeue_next_frame:
  assumes "dequeue_next cpu s = (d, s')"
  shows "policy s' = policy s" "length (cpu_current s') = length (cpu_current s)" "priority_queue s' = priority_queue s"
  using assms by (cases rule: dequeue_next_cases [of s cpu]; auto)+

lemma pick_wf:
  assumes "schedule now cpu s = Some (d, s') \<or> yield_current now cpu s = Some (d, s')" "sched_wf s"
  shows "sched_wf s' \<and> length (cpu_current s') = length (cpu_current s) \<and> policy s' = policy s"
  using assms(1)
proof (cases rule: pick_cases)
  case (keep p t k)
  then show ?thesis using assms(2) by (simp add: sched_wf_def)
next
  case (dispatch s0)
  have "sched_wf s0" by (rule sched_wf_release [OF assms(2) dispatch(2,4)])
  then show ?thesis
    using dequeue_next_wf [OF _ dispatch(6)] dequeue_next_frame [OF dispatch(6)] dispatch(2,5) by simp
qed

lemma sched_remove_current:
  "cpu_current (snd (sched_remove p t s)) = cpu_current (clear_current p t s)"
  "cpu_ticks (snd (sched_remove p t s)) = cpu_ticks (clear_current p t s)" "policy (snd (sched_remove p t s)) = policy s"
  by (simp_all add: sched_remove_def clear_current_def Let_def split: option.split)

lemma sched_step_wf [inv_intros]:
  assumes "sched_step s s'" "sched_wf s"
  shows "sched_wf s' \<and> length (cpu_current s') = length (cpu_current s) \<and> policy s' = policy s"
  using assms(1)
proof cases
  case ready
  then show ?thesis using assms(2) by (simp add: sched_wf_def)
next
  case (remove p t)
  have len: "length (cpu_ticks s) = length (cpu_current s)" using assms(2) by (simp add: sched_wf_def)
  have "sched_wf s'"
    unfolding remove by (rule sched_wf_mono [OF assms(2)]) (simp_all add: sched_remove_current clear_current_frame [OF len])
  then show ?thesis by (simp add: remove sched_remove_current clear_current_frame [OF len])
qed (use pick_wf assms(2) in blast)+

lemma sched_reach_wf: "sched_reach pol n s \<Longrightarrow> sched_wf s \<and> length (cpu_current s) = n \<and> policy s = pol"
proof (induction rule: sched_reach.induct)
  case (init pol n)
  then show ?case by (simp add: sched_wf_def Scheduler_new_def)
next
  case (step pol n s s')
  then show ?case using sched_step_wf by metis
qed

section \<open>Properties\<close>

text \<open>
  C18. No process runs on two processors. In every state that calls of ready, remove, schedule and yield
  reach from a new scheduler, of any policy and any number of processors, two different processors never run
  threads of the same process.
\<close>

theorem sched_smp_exclusion:
  assumes "sched_reach pol n s" "i \<noteq> j" "current_on i s = Some (p, t)"
  shows "current_on j s \<noteq> Some (p, u)"
  using sched_reach_wf [OF assms(1)] sched_wfD [of s i j p t u] assms(2,3)
  by (auto simp: current_on_def split: if_splits)

text \<open>
  Picking a thread loses none. A call of schedule or of yield on a processor of the machine returns,
  keeps the collection of all threads that wait or run, reports exactly the thread that runs on that
  processor afterwards, and does not change what other processors run.
\<close>

theorem sched_conservation:
  assumes "cpu < length (cpu_current s)" "f = schedule \<or> f = yield_current"
  shows "\<exists>d s'. f now cpu s = Some (d, s') \<and> waiting s' + running s' = waiting s + running s \<and>
           current_on cpu s' = (case d of Run p t \<Rightarrow> Some (p, t) | _ \<Rightarrow> None) \<and>
           (\<forall>i. i \<noteq> cpu \<longrightarrow> current_on i s' = current_on i s)"
proof -
  have "f now cpu s \<noteq> None" using assms by (auto simp: schedule_def yield_current_def Let_def split: option.split)
  then obtain d s' where f: "f now cpu s = Some (d, s')" by auto
  then have "schedule now cpu s = Some (d, s') \<or> yield_current now cpu s = Some (d, s')" using assms(2) by auto
  then show ?thesis
  proof (cases rule: pick_cases)
    case (keep p t k)
    then show ?thesis using f by (auto simp: current_on_def waiting_def running_def)
  next
    case (dispatch s0)
    have "cpu < length (cpu_current s0)" "cpu_current s0 ! cpu = None" using dispatch(1,2) by simp_all
    note c = dequeue_next_conserves [OF this dispatch(6)]
    then show ?thesis using f dispatch(1-3) by (auto simp: current_on_def nth_list_update)
  qed
qed

theorem sched_conservation_witness:
  "\<exists>d s'. schedule 0 1 (Scheduler_new FIFO 2) = Some (d, s') \<and> waiting s' + running s' = {#}"
  using sched_conservation [of 1 "Scheduler_new FIFO 2" schedule 0]
  by (auto simp: Scheduler_new_def waiting_def running_def map_filter_def)

theorem sched_smp_exclusion_witness:
  "current_on 1 (snd (the (schedule 0 0 (sched_ready 0 7 1 128 (Scheduler_new FIFO 2))))) \<noteq> Some (7, 1)"
proof (rule sched_smp_exclusion)
  let ?s = "sched_ready 0 7 1 128 (Scheduler_new FIFO 2)"
  obtain d s' where s': "schedule 0 0 ?s = Some (d, s')"
    by (cases "schedule 0 0 ?s") (auto simp: schedule_def Scheduler_new_def)
  have "sched_reach FIFO 2 ?s" by (intro sched_reach.step [OF sched_reach.init] sched_step.ready)
  from sched_reach.step [OF this sched_step.sched [OF s']] s'
  show "sched_reach FIFO 2 (snd (the (schedule 0 0 ?s)))" by simp
  show "current_on 0 (snd (the (schedule 0 0 ?s))) = Some (7, 1)"
    by (simp add: schedule_def Scheduler_new_def sched_ready_def ReadyQueueEntry_new_def dequeue_next_def busy_pids_def
        map_filter_def current_on_def eval_nat_numeral)
qed simp

text \<open>
  The dispatcher is first-come first-served among eligible threads and idles only when it must. On a
  free processor it picks the first waiting entry whose process does not run elsewhere, moves the busy
  ones in front of it to the back in their order, and idles exactly when every waiting process runs on
  another processor.
\<close>

theorem dispatch_first_eligible:
  fixes cpu s
  defines "busy p \<equiv> \<exists>i t. i \<noteq> cpu \<and> current_on i s = Some (p, t)"
  assumes "cpu < length (cpu_current s)" "current_on cpu s = None"
  shows "\<exists>d s'. schedule now cpu s = Some (d, s') \<and>
           (d = Idle \<longleftrightarrow> (\<forall>e \<in> set (ready_queue s). busy (en_pid e))) \<and>
           (d = Idle \<longrightarrow> ready_queue s' = ready_queue s) \<and>
           (\<forall>p t. d = Run p t \<longrightarrow> (\<exists>xs e ys. ready_queue s = xs @ e # ys \<and> (\<forall>x \<in> set xs. busy (en_pid x)) \<and>
              \<not> busy p \<and> en_pid e = p \<and> en_tid e = t \<and> ready_queue s' = ys @ xs))"
proof -
  have busy: "busy p \<longleftrightarrow> p \<in> set (busy_pids cpu s)" for p
    by (auto simp: busy_def current_on_def set_busy_pids)
  have sch: "schedule now cpu s = Some (dequeue_next cpu s)"
    using assms(2,3) by (intro schedule_idle) (simp_all add: current_on_def)
  show ?thesis
  proof (cases rule: dequeue_next_cases [of s cpu])
    case idle
    then show ?thesis using sch busy by auto
  next
    case (run xs e ys)
    then show ?thesis using sch busy by auto
  qed
qed

theorem dispatch_first_eligible_witness:
  "\<exists>d s'. schedule 0 0 (sched_ready 0 7 1 128 (Scheduler_new FIFO 1)) = Some (d, s') \<and> d \<noteq> Idle"
  using dispatch_first_eligible [of 0 "sched_ready 0 7 1 128 (Scheduler_new FIFO 1)" 0]
  by (auto simp: Scheduler_new_def sched_ready_def current_on_def)

section \<open>Round robin\<close>

text \<open>A sequence of timer ticks on one processor, with the clock readings.\<close>

fun schedule_all :: "nat \<Rightarrow> nat list \<Rightarrow> Scheduler \<Rightarrow> (SchedulingDecision list \<times> Scheduler) option" where
  "schedule_all cpu [] s = Some ([], s)"
| "schedule_all cpu (now # nows) s =
     (case schedule now cpu s of
        None \<Rightarrow> None
      | Some (d, s') \<Rightarrow> map_option (\<lambda>(ds, s''). (d # ds, s'')) (schedule_all cpu nows s'))"

definition run_key :: "pid \<times> tid \<Rightarrow> SchedulingDecision" where
  "run_key k = (case k of (p, t) \<Rightarrow> Run p t)"

definition uses_queue :: "SchedulingPolicy \<Rightarrow> bool" where
  "uses_queue pol = (case pol of Priority \<Rightarrow> False | SJF \<Rightarrow> False | _ \<Rightarrow> True)"

text \<open>After \<open>k\<close> dispatches the queue is the initial one rotated, and the current thread has \<open>j\<close> ticks.\<close>

definition rr_state :: "(pid \<times> tid) list \<Rightarrow> nat \<Rightarrow> nat \<Rightarrow> Scheduler \<Rightarrow> bool" where
  "rr_state ks k j s \<longleftrightarrow> uses_queue (policy s) \<and> cpu_current s = [Some (hd (rotate k ks))] \<and>
     cpu_ticks s = [of_nat j] \<and> map key (ready_queue s) = tl (rotate k ks)"

lemma busy_single: "length (cpu_current s) = 1 \<Longrightarrow> busy_pids 0 s = []"
  by (auto simp: busy_pids_def map_filter_def length_Suc_conv)

lemma dispatch_single:
  assumes "uses_queue (policy s)" "cpu_current s = [None]" "length (cpu_ticks s) = 1" "map key (ready_queue s) = rotate k ks" "ks \<noteq> []"
  shows "\<exists>s'. dequeue_next 0 s = (run_key (ks ! (k mod length ks)), s') \<and> rr_state ks k 0 s' \<and> time_slice s' = time_slice s"
proof -
  have ne: "rotate k ks \<noteq> []" using assms(5) by simp
  then obtain e q where q: "ready_queue s = e # q" using assms(4) by (metis list.exhaust map_is_Nil_conv)
  then have "key e = hd (rotate k ks)" "map key q = tl (rotate k ks)" using assms(4) by (metis list.map_sel(1) list.sel list.discI list.simps(9))+
  moreover from this have "run_key (ks ! (k mod length ks)) = run_key (key e)"
    using assms(5) hd_rotate_conv_nth [of ks k] by simp
  moreover have "run_key (key e) = Run (en_pid e) (en_tid e)" by (simp add: run_key_def key_def)
  ultimately show ?thesis
    using assms(1-3) q busy_single [of s]
    by (auto simp: dequeue_next_def rr_state_def key_def length_Suc_conv)
qed

lemma ready_queue_requeue:
  assumes "uses_queue (policy s)"
  shows "map key (ready_queue (requeue now cpu p t s)) = map key (ready_queue s) @ [(p, t)]"
  using assms
  by (cases "policy s") (simp_all add: uses_queue_def requeue_def sched_ready_def Let_def key_def ReadyQueueEntry_new_def)

lemma schedule_rr:
  assumes "rr_state ks k j s" "ks \<noteq> []" "j < Q" and Q_def: "Q = max 1 (unat (time_slice s))"
    and k'_def: "k' = (if Suc j < Q then k else Suc k)"
  shows "\<exists>s'. schedule now 0 s = Some (run_key (ks ! (k' mod length ks)), s') \<and> time_slice s' = time_slice s \<and>
           rr_state ks k' (if Suc j < Q then Suc j else 0) s'"
proof -
  obtain p t where c: "hd (rotate k ks) = (p, t)" by fastforce
  have st: "uses_queue (policy s)" "cpu_current s = [Some (p, t)]" "cpu_ticks s = [of_nat j]"
    "map key (ready_queue s) = tl (rotate k ks)"
    using assms(1) c by (auto simp: rr_state_def)
  define s1 where "s1 = s\<lparr>cpu_ticks := [of_nat j + 1]\<rparr>"
  have sch: "schedule now 0 s = (if of_nat j + 1 < time_slice s then Some (Run p t, s1)
      else Some (dequeue_next 0 (requeue now 0 p t s1)))"
    using schedule_running [of 0 s p t now] st by (simp add: s1_def Let_def)
  have hd: "ks ! (k mod length ks) = (p, t)" using c assms(2) hd_rotate_conv_nth [of ks k] by simp
  have lt: "of_nat j + 1 < time_slice s \<longleftrightarrow> Suc j < Q"
  proof -
    have "unat (time_slice s) < 2 ^ 64" using unsigned_less [of "time_slice s"] by simp
    then have "Suc j < 2 ^ 64" using assms(3) by (auto simp: Q_def max_def split: if_splits)
    then have "unat (of_nat (Suc j) :: u64) = Suc j" by (simp only: unat_of_nat) simp
    then show ?thesis using assms(3) by (auto simp: Q_def word_less_nat_alt max_def add.commute split: if_splits)
  qed
  show ?thesis
  proof (cases "Suc j < Q")
    case True
    then have "rr_state ks k (Suc j) s1" using assms(1) by (simp add: rr_state_def s1_def)
    then show ?thesis using True sch lt hd by (simp add: k'_def run_key_def s1_def del: One_nat_def)
  next
    case False
    let ?s0 = "requeue now 0 p t s1"
    have ne: "rotate k ks \<noteq> []" using assms(2) by simp
    have "map key (ready_queue ?s0) = tl (rotate k ks) @ [hd (rotate k ks)]"
      using ready_queue_requeue [of s1 now 0 p t] st c by (simp add: s1_def)
    also have "\<dots> = rotate (Suc k) ks" using ne by (simp add: rotate_Suc rotate1_hd_tl)
    finally have q: "map key (ready_queue ?s0) = rotate (Suc k) ks" .
    have "uses_queue (policy ?s0)" "cpu_current ?s0 = [None]" "length (cpu_ticks ?s0) = 1" "time_slice ?s0 = time_slice s"
      using st by (simp_all add: requeue_def s1_def)
    with dispatch_single [OF this(1-3) q assms(2)] show ?thesis
      using False sch lt by (auto simp: k'_def)
  qed
qed

lemma upt_0_Suc: "[0..<Suc n] = 0 # map Suc [0..<n]"
  by (simp add: upt_conv_Cons map_Suc_upt del: upt_Suc)

lemma schedule_all_rr:
  assumes "rr_state ks k j s" "ks \<noteq> []" "j < Q" "Q = max 1 (unat (time_slice s))"
  shows "\<exists>s'. schedule_all 0 nows s =
           Some (map (\<lambda>i. run_key (ks ! (((k * Q + Suc j + i) div Q) mod length ks))) [0..<length nows], s')"
  using assms
proof (induction nows arbitrary: k j s)
  case (Cons now nows)
  define k' where "k' = (if Suc j < Q then k else Suc k)"
  define j' where "j' = (if Suc j < Q then Suc j else 0)"
  from schedule_rr [OF Cons.prems k'_def, of now]
  obtain s1 where s1: "schedule now 0 s = Some (run_key (ks ! (k' mod length ks)), s1)" "time_slice s1 = time_slice s"
    "rr_state ks k' j' s1" by (auto simp: k'_def j'_def)
  have pos: "k * Q + Suc j = k' * Q + j'" "j' < Q" using Cons.prems(3) by (auto simp: k'_def j'_def)
  then have k': "(k * Q + Suc j) div Q = k'" by simp
  obtain s2 where s2: "schedule_all 0 nows s1 =
      Some (map (\<lambda>i. run_key (ks ! (((k' * Q + Suc j' + i) div Q) mod length ks))) [0..<length nows], s2)"
    using Cons.IH [OF s1(3) Cons.prems(2) pos(2)] s1(2) Cons.prems(4) by auto
  have "[0..<length (now # nows)] = 0 # map Suc [0..<length nows]" by (simp add: upt_0_Suc del: upt_Suc)
  then show ?case using s1(1) s2 k' pos(1) by (simp add: o_def)
qed simp

text \<open>
  C32. Round robin is exact. Under the policy RoundRobin, on one processor with a non-empty ready queue, any sequence of timer ticks
  gives each waiting thread in turn exactly one quantum: the decision of tick \<open>i\<close> is the thread at
  position \<open>i div Q\<close> of the initial queue, read cyclically, for a time slice of \<open>Q\<close> ticks (a slice of zero
  acts as one). So no thread starves, and a thread at position \<open>m\<close> runs from tick \<open>m * Q\<close> on.
\<close>

theorem round_robin_exact:
  assumes "policy s = RoundRobin q" "cpu_current s = [None]" "length (cpu_ticks s) = 1" "ready_queue s \<noteq> []"
  defines "Q \<equiv> max 1 (unat (time_slice s))"
  shows "\<exists>s'. schedule_all 0 nows s =
           Some (map (\<lambda>i. case ready_queue s ! ((i div Q) mod length (ready_queue s)) of e \<Rightarrow> Run (en_pid e) (en_tid e))
                   [0..<length nows], s')"
proof (cases nows)
  case (Cons now rest)
  have queue: "uses_queue (policy s)" by (simp add: assms(1) uses_queue_def)
  define ks where "ks = map key (ready_queue s)"
  have ks: "ks \<noteq> []" "length ks = length (ready_queue s)" "map key (ready_queue s) = rotate 0 ks"
    using assms(4) by (simp_all add: ks_def)
  obtain s1 where s1: "dequeue_next 0 s = (run_key (ks ! (0 mod length ks)), s1)" "rr_state ks 0 0 s1" "time_slice s1 = time_slice s"
    using dispatch_single [OF queue assms(2,3) ks(3,1)] by blast
  have pos: "0 < Q" "Q = max 1 (unat (time_slice s1))" using s1(3) by (simp_all add: Q_def)
  obtain s2 where s2: "schedule_all 0 rest s1 =
      Some (map (\<lambda>i. run_key (ks ! (((0 * Q + Suc 0 + i) div Q) mod length ks))) [0..<length rest], s2)"
    using schedule_all_rr [OF s1(2) ks(1) pos] by blast
  have nth: "run_key (ks ! (i mod length ks)) = (case ready_queue s ! (i mod length (ready_queue s)) of e \<Rightarrow> Run (en_pid e) (en_tid e))" for i
    using assms(4) by (simp add: ks_def run_key_def key_def)
  have up: "[0..<length nows] = 0 # map Suc [0..<length rest]" using Cons by (simp add: upt_0_Suc del: upt_Suc)
  have "schedule now 0 s = Some (dequeue_next 0 s)" using schedule_idle [of 0 s now] assms(2) by simp
  then show ?thesis
    unfolding nth [symmetric] up using Cons s1(1) s2 by (simp add: o_def)
qed simp

theorem round_robin_exact_witness:
  "\<exists>s'. schedule_all 0 [0, 0, 0, 0, 0] (sched_ready 0 2 1 128 (sched_ready 0 1 1 128 (sched_round_robin 2))) =
     Some ([Run 1 1, Run 1 1, Run 2 1, Run 2 1, Run 1 1], s')"
proof -
  let ?s = "sched_ready 0 2 1 128 (sched_ready 0 1 1 128 (sched_round_robin 2))"
  have s: "policy ?s = RoundRobin 2" "cpu_current ?s = [None]" "length (cpu_ticks ?s) = 1"
    "map key (ready_queue ?s) = [(1, 1), (2, 1)]" "max 1 (unat (time_slice ?s)) = 2"
    by (simp_all add: sched_round_robin_def Scheduler_new_def sched_ready_def ReadyQueueEntry_new_def key_def)
  then obtain x y where q: "ready_queue ?s = [x, y]" "key x = (1, 1)" "key y = (2, 1)" by auto
  have "[0..<length [0, 0, 0, 0, 0 :: nat]] = [0, 1, 2, 3, 4]" by (simp add: upt_rec)
  with round_robin_exact [OF s(1-3), of "[0, 0, 0, 0, 0]"] s(5) q show ?thesis
    by (simp add: key_def del: schedule_all.simps)
qed

section \<open>The priority policies\<close>

lemma priority_insert_sorted:
  assumes "sorted_wrt (\<lambda>x y. en_priority y \<le> en_priority x) q"
  shows "sorted_wrt (\<lambda>x y. en_priority y \<le> en_priority x) (priority_insert e q)"
proof (cases "position (\<lambda>x. en_priority x < en_priority e) q")
  case None
  then have "\<forall>x \<in> set q. en_priority e \<le> en_priority x" by (auto simp: position_None_iff)
  then show ?thesis using assms None by (simp add: priority_insert_def insert_at_def sorted_wrt_append)
next
  case (Some i)
  note pos = position_SomeD [OF Some]
  have le: "en_priority e \<le> en_priority x" if "x \<in> set (take i q)" for x
    using that pos by (auto simp: in_set_conv_nth linorder_not_less)
  have split: "sorted_wrt (\<lambda>x y. en_priority y \<le> en_priority x) (take i q @ drop i q)" using assms by simp
  have ge: "en_priority x \<le> en_priority e" if "x \<in> set (drop i q)" for x
  proof -
    obtain r where "drop i q = q ! i # r" using pos by (metis Cons_nth_drop_Suc)
    then have "en_priority x \<le> en_priority (q ! i)" using that split by (auto simp: sorted_wrt_append)
    then show ?thesis using pos by auto
  qed
  show ?thesis
    using split le ge Some by (auto simp: priority_insert_def insert_at_def sorted_wrt_append intro: order_trans)
qed

definition starved :: "Scheduler \<Rightarrow> bool" where
  "starved s \<longleftrightarrow> ready_queue s = [] \<and> (\<forall>c \<in> set (cpu_current s). c = None)"

lemma dequeue_next_starved:
  assumes "starved s" "dequeue_next cpu s = (d, s')"
  shows "d = Idle \<and> starved s' \<and> priority_queue s' = priority_queue s"
  using assms by (cases rule: dequeue_next_cases [of s cpu]) (auto simp: starved_def dest!: set_update_subset_insert [THEN subsetD])

lemma starved_pick:
  assumes "starved s" "schedule now cpu s = Some (d, s') \<or> yield_current now cpu s = Some (d, s')"
  shows "d = Idle \<and> starved s' \<and> priority_queue s' = priority_queue s"
proof -
  have "cpu < length (cpu_current s)" using assms(2) by (auto simp: schedule_def yield_current_def split: if_splits)
  then have "cpu_current s ! cpu = None" using assms(1) by (auto simp: starved_def)
  then have "dequeue_next cpu s = (d, s')"
    using assms(2) \<open>cpu < length (cpu_current s)\<close> by (auto simp: schedule_def yield_current_def)
  then show ?thesis using dequeue_next_starved [OF assms(1)] by blast
qed

lemma priority_reach:
  assumes "sched_reach pol n s" "\<not> uses_queue pol"
  shows "starved s \<and> sorted_wrt (\<lambda>x y. en_priority y \<le> en_priority x) (priority_queue s)"
  using assms
proof (induction rule: sched_reach.induct)
  case (init pol n)
  then show ?case by (simp add: starved_def Scheduler_new_def)
next
  case (step pol n s s')
  have pol: "policy s = Priority \<or> policy s = SJF"
    using sched_reach_wf [OF step(1)] step(4) by (auto simp: uses_queue_def split: SchedulingPolicy.splits)
  note IH = step(3) [OF step(4)]
  from step(2) show ?case
  proof cases
    case (ready now p t prio)
    then show ?thesis
      using IH pol by (auto simp: starved_def sched_ready_def Let_def intro: priority_insert_sorted)
  next
    case (remove p t)
    then show ?thesis
      using IH by (auto simp: starved_def sched_remove_def clear_current_def Let_def)
  qed (use starved_pick IH in \<open>metis\<close>)+
qed

text \<open>
  The priority policies starve everybody. Under the policies Priority and SJF a ready thread is kept
  in a queue ordered by decreasing priority, but the dispatcher never reads that queue: in every reachable
  state every call of schedule and of yield answers that the processor is idle, however many threads are
  ready.
\<close>

theorem priority_never_dispatched:
  assumes "sched_reach pol n s" "pol = Priority \<or> pol = SJF" "cpu < n"
  shows "sorted_wrt (\<lambda>x y. en_priority y \<le> en_priority x) (priority_queue s) \<and>
         (\<exists>s'. schedule now cpu s = Some (Idle, s')) \<and> (\<exists>s'. yield_current now cpu s = Some (Idle, s'))"
proof -
  have st: "starved s" "sorted_wrt (\<lambda>x y. en_priority y \<le> en_priority x) (priority_queue s)"
    using priority_reach [OF assms(1)] assms(2) by (auto simp: uses_queue_def)
  have cpu: "cpu < length (cpu_current s)" using sched_reach_wf [OF assms(1)] assms(3) by simp
  then obtain d s1 d2 s2 where "schedule now cpu s = Some (d, s1)" "yield_current now cpu s = Some (d2, s2)"
    by (cases "schedule now cpu s"; cases "yield_current now cpu s")
       (auto simp: schedule_def yield_current_def Let_def split: option.splits if_splits)
  then show ?thesis using starved_pick [OF st(1)] st(2) by metis
qed

theorem priority_never_dispatched_witness:
  "\<exists>s'. schedule 0 0 (sched_ready 0 7 1 255 (Scheduler_new Priority 1)) = Some (Idle, s')"
proof -
  have "sched_reach Priority 1 (sched_ready 0 7 1 255 (Scheduler_new Priority 1))"
    by (intro sched_reach.step [OF sched_reach.init] sched_step.ready)
  from priority_never_dispatched [OF this, of 0 0] show ?thesis by simp
qed

end
