(* ===== verification/Sync.thy ===== *)
theory Sync
  imports Messages
begin

text \<open>
  Semaphores, mutex locks and their manager (\<^verbatim>\<open>src/services/process/sync.rs\<close>). The objects are shared
  between threads through reference counting and their fields are atomic. Each method is given twice: as
  a function, its effect when no other thread interferes, and as a sequence of its atomic accesses, a step
  relation whose steps of several threads interleave. A weak compare-exchange may fail at any time.
  Accesses are interleaved in one order, as the acquire and release orderings on a single object allow;
  counters wrap at 32 bits as atomic additions do.
\<close>

section \<open>Semaphores\<close>

datatype SemaphoreResult = SemAcquired | SemReleased | SemWouldBlock | SemInvalid | SemOverflow | SemReset

record Semaphore =
  sem_id :: u64
  sem_value :: u32
  initial_value :: u32
  max_value :: u32
  sem_owner_pid :: pid
  sem_wait_count :: u32
  sem_valid :: bool

definition Semaphore_new :: "u64 \<Rightarrow> pid \<Rightarrow> u32 \<Rightarrow> Semaphore" where
  "Semaphore_new i p v =
     \<lparr>sem_id = i, sem_value = v, initial_value = v, max_value = - 1, sem_owner_pid = p, sem_wait_count = 0, sem_valid = True\<rparr>"

definition with_max :: "u64 \<Rightarrow> pid \<Rightarrow> u32 \<Rightarrow> u32 \<Rightarrow> Semaphore" where
  "with_max i p v mx =
     \<lparr>sem_id = i, sem_value = min v mx, initial_value = v, max_value = mx, sem_owner_pid = p, sem_wait_count = 0,
      sem_valid = True\<rparr>"

definition saturating_inc :: "u32 \<Rightarrow> u32" where
  "saturating_inc v = (if v = - 1 then - 1 else v + 1)"

definition sem_wait :: "Semaphore \<Rightarrow> SemaphoreResult \<times> Semaphore" where
  "sem_wait s =
     (if \<not> sem_valid s then (SemInvalid, s)
      else if sem_value s = 0 then (SemWouldBlock, s\<lparr>sem_wait_count := sem_wait_count s + 1\<rparr>)
      else (SemAcquired, s\<lparr>sem_value := sem_value s - 1\<rparr>))"

definition sem_try_wait :: "Semaphore \<Rightarrow> SemaphoreResult \<times> Semaphore" where
  "sem_try_wait s =
     (if \<not> sem_valid s then (SemInvalid, s)
      else if sem_value s = 0 then (SemWouldBlock, s)
      else (SemAcquired, s\<lparr>sem_value := sem_value s - 1\<rparr>))"

definition sem_signal :: "Semaphore \<Rightarrow> SemaphoreResult \<times> Semaphore" where
  "sem_signal s =
     (if \<not> sem_valid s then (SemInvalid, s)
      else if saturating_inc (sem_value s) > max_value s then (SemOverflow, s)
      else (SemReleased, s\<lparr>sem_value := saturating_inc (sem_value s), sem_wait_count := sem_wait_count s - 1\<rparr>))"

definition sem_reset :: "Semaphore \<Rightarrow> SemaphoreResult \<times> Semaphore" where
  "sem_reset s =
     (if \<not> sem_valid s then (SemInvalid, s) else (SemReset, s\<lparr>sem_value := initial_value s\<rparr>))"

definition sem_invalidate :: "Semaphore \<Rightarrow> Semaphore" where
  "sem_invalidate s = s\<lparr>sem_valid := False\<rparr>"

section \<open>The atomic steps of the semaphore methods\<close>

datatype SemOp = OpWait | OpTryWait | OpSignal | OpReset

text \<open>
  Where a thread is in a method: before the validity check, before the first load, in the loop with the
  value it last saw, before the update of the waiting counter, before the store of a reset, or out.
\<close>

datatype SemPC =
    Enter SemOp
  | LoadValue SemOp
  | Loop SemOp u32
  | AddWaiter
  | DropWaiter
  | StoreInitial
  | Returned SemaphoreResult

text \<open>One atomic access; the label is the result whose effect on the value the step commits.\<close>

inductive sem_step :: "Semaphore \<Rightarrow> SemPC \<Rightarrow> SemaphoreResult option \<Rightarrow> Semaphore \<Rightarrow> SemPC \<Rightarrow> bool" where
  invalid: "\<not> sem_valid s \<Longrightarrow> sem_step s (Enter op) None s (Returned SemInvalid)"
| enter: "sem_valid s \<Longrightarrow> op \<noteq> OpReset \<Longrightarrow> sem_step s (Enter op) None s (LoadValue op)"
| enter_reset: "sem_valid s \<Longrightarrow> sem_step s (Enter OpReset) None s StoreInitial"
| load: "sem_step s (LoadValue op) None s (Loop op (sem_value s))"
| wait_zero: "sem_step s (Loop OpWait 0) None s AddWaiter"
| try_zero: "sem_step s (Loop OpTryWait 0) None s (Returned SemWouldBlock)"
| take: "op = OpWait \<or> op = OpTryWait \<Longrightarrow> cur \<noteq> 0 \<Longrightarrow> sem_value s = cur \<Longrightarrow>
    sem_step s (Loop op cur) (Some SemAcquired) (s\<lparr>sem_value := cur - 1\<rparr>) (Returned SemAcquired)"
| take_fail: "op = OpWait \<or> op = OpTryWait \<Longrightarrow> cur \<noteq> 0 \<Longrightarrow> sem_step s (Loop op cur) None s (Loop op (sem_value s))"
| overflow: "saturating_inc cur > max_value s \<Longrightarrow> sem_step s (Loop OpSignal cur) None s (Returned SemOverflow)"
| give: "\<not> saturating_inc cur > max_value s \<Longrightarrow> sem_value s = cur \<Longrightarrow>
    sem_step s (Loop OpSignal cur) (Some SemReleased) (s\<lparr>sem_value := saturating_inc cur\<rparr>) DropWaiter"
| give_fail: "\<not> saturating_inc cur > max_value s \<Longrightarrow> sem_step s (Loop OpSignal cur) None s (Loop OpSignal (sem_value s))"
| add_waiter: "sem_step s AddWaiter None (s\<lparr>sem_wait_count := sem_wait_count s + 1\<rparr>) (Returned SemWouldBlock)"
| drop_waiter: "sem_step s DropWaiter None (s\<lparr>sem_wait_count := sem_wait_count s - 1\<rparr>) (Returned SemReleased)"
| store: "sem_step s StoreInitial (Some SemReset) (s\<lparr>sem_value := initial_value s\<rparr>) (Returned SemReset)"

inductive_cases sem_step_cases: "sem_step s pc lab s' pc'"

inductive_simps sem_step_simps:
  "sem_step s (Enter op) lab s' pc'" "sem_step s (LoadValue op) lab s' pc'" "sem_step s (Loop op cur) lab s' pc'"
  "sem_step s AddWaiter lab s' pc'" "sem_step s DropWaiter lab s' pc'" "sem_step s StoreInitial lab s' pc'"
  "sem_step s (Returned r) lab s' pc'"

text \<open>
  The system: any number of threads, each in a method or between calls, with the log of committed effects.
  A thread that has returned may call any method again, and the semaphore may be invalidated.
\<close>

inductive sem_reach :: "Semaphore \<Rightarrow> Semaphore \<Rightarrow> (nat \<Rightarrow> SemPC) \<Rightarrow> SemaphoreResult list \<Rightarrow> bool" for s0 where
  start: "(\<And>i. \<exists>op. ths i = Enter op) \<Longrightarrow> sem_reach s0 s0 ths []"
| step: "sem_reach s0 s ths log \<Longrightarrow> sem_step s (ths i) lab s' pc' \<Longrightarrow>
    sem_reach s0 s' (ths(i := pc')) (log @ (case lab of None \<Rightarrow> [] | Some r \<Rightarrow> [r]))"
| call: "sem_reach s0 s ths log \<Longrightarrow> ths i = Returned r \<Longrightarrow> sem_reach s0 s (ths(i := Enter op)) log"
| destroy: "sem_reach s0 s ths log \<Longrightarrow> sem_reach s0 (sem_invalidate s) ths log"

section \<open>A method run alone is its function\<close>

definition sem_seq :: "SemOp \<Rightarrow> Semaphore \<Rightarrow> SemaphoreResult \<times> Semaphore" where
  "sem_seq op = (case op of OpWait \<Rightarrow> sem_wait | OpTryWait \<Rightarrow> sem_try_wait | OpSignal \<Rightarrow> sem_signal | OpReset \<Rightarrow> sem_reset)"

inductive solo :: "Semaphore \<Rightarrow> SemPC \<Rightarrow> Semaphore \<Rightarrow> SemPC \<Rightarrow> bool" where
  stop: "solo s pc s pc"
| step: "sem_step s pc lab s1 pc1 \<Longrightarrow> solo s1 pc1 s2 pc2 \<Longrightarrow> solo s pc s2 pc2"

text \<open>The function that a thread at a given place still has to apply, undisturbed.\<close>

fun rest_of :: "SemPC \<Rightarrow> Semaphore \<Rightarrow> SemaphoreResult \<times> Semaphore" where
  "rest_of (Enter op) s = sem_seq op s"
| "rest_of (LoadValue op) s = map_prod id (\<lambda>t. t\<lparr>sem_valid := sem_valid s\<rparr>) (sem_seq op (s\<lparr>sem_valid := True\<rparr>))"
| "rest_of (Loop op cur) s = map_prod id (\<lambda>t. t\<lparr>sem_valid := sem_valid s\<rparr>) (sem_seq op (s\<lparr>sem_valid := True\<rparr>))"
| "rest_of AddWaiter s = (SemWouldBlock, s\<lparr>sem_wait_count := sem_wait_count s + 1\<rparr>)"
| "rest_of DropWaiter s = (SemReleased, s\<lparr>sem_wait_count := sem_wait_count s - 1\<rparr>)"
| "rest_of StoreInitial s = (SemReset, s\<lparr>sem_value := initial_value s\<rparr>)"
| "rest_of (Returned r) s = (r, s)"

definition current_ok :: "SemPC \<Rightarrow> Semaphore \<Rightarrow> bool" where
  "current_ok pc s = (case pc of Loop op cur \<Rightarrow> cur = sem_value s \<and> op \<noteq> OpReset | LoadValue op \<Rightarrow> op \<noteq> OpReset | _ \<Rightarrow> True)"

lemmas sem_defs = sem_seq_def sem_wait_def sem_try_wait_def sem_signal_def sem_reset_def

lemma valid_update [simp]: "sem_valid s \<Longrightarrow> s\<lparr>sem_valid := True\<rparr> = s"
  by (cases s) simp

lemma valid_restore [simp]: "s\<lparr>sem_valid := sem_valid s\<rparr> = s"
  by (cases s) simp

lemma sem_step_rest:
  assumes "sem_step s pc lab s' pc'" "current_ok pc s"
  shows "rest_of pc' s' = rest_of pc s \<and> current_ok pc' s'"
  using assms
  by (cases rule: sem_step_cases) (auto simp: current_ok_def sem_defs split: SemOp.splits)

lemma solo_rest: "solo s pc s' pc' \<Longrightarrow> current_ok pc s \<Longrightarrow> rest_of pc' s' = rest_of pc s"
proof (induction rule: solo.induct)
  case (step s pc lab s1 pc1 s2 pc2)
  then show ?case using sem_step_rest by metis
qed simp

lemma solo_one: "sem_step s pc lab s' pc' \<Longrightarrow> solo s pc s' pc'"
  using solo.step solo.stop by blast

lemma solo_loop:
  assumes "op \<noteq> OpReset"
  shows "\<exists>r s'. solo s (Loop op (sem_value s)) s' (Returned r)"
proof (cases op)
  case OpWait
  show ?thesis
  proof (cases "sem_value s = 0")
    case True
    then show ?thesis using OpWait solo.step [OF sem_step.wait_zero solo_one [OF sem_step.add_waiter]] by auto
  next
    case False
    then show ?thesis using OpWait solo_one [OF sem_step.take [of op "sem_value s" s]] by auto
  qed
next
  case OpTryWait
  show ?thesis
  proof (cases "sem_value s = 0")
    case True
    then show ?thesis using OpTryWait solo_one [OF sem_step.try_zero] by auto
  next
    case False
    then show ?thesis using OpTryWait solo_one [OF sem_step.take [of op "sem_value s" s]] by auto
  qed
next
  case OpSignal
  show ?thesis
  proof (cases "saturating_inc (sem_value s) > max_value s")
    case True
    then show ?thesis using OpSignal solo_one [OF sem_step.overflow] by blast
  next
    case False
    then show ?thesis
      using OpSignal solo.step [OF sem_step.give [OF False refl] solo_one [OF sem_step.drop_waiter]] by blast
  qed
qed (use assms in simp)

lemma solo_returns: "\<exists>r s'. solo s (Enter op) s' (Returned r)"
proof (cases "sem_valid s \<and> op \<noteq> OpReset")
  case True
  then obtain r s' where "solo s (Loop op (sem_value s)) s' (Returned r)" using solo_loop by blast
  with True show ?thesis using solo.step [OF sem_step.enter solo.step [OF sem_step.load]] by blast
next
  case False
  then show ?thesis
    using solo_one [OF sem_step.invalid] solo.step [OF sem_step.enter_reset solo_one [OF sem_step.store]] by blast
qed

section \<open>What concurrent use keeps\<close>

lemma sem_step_frame:
  "sem_step s pc lab s' pc' \<Longrightarrow> max_value s' = max_value s \<and> initial_value s' = initial_value s \<and> sem_valid s' = sem_valid s"
  by (cases rule: sem_step_cases) auto

lemma unat_not_max: "v \<noteq> - 1 \<longleftrightarrow> unat v + 1 < 2 ^ 32" for v :: u32
proof -
  have "unat v < 2 ^ 32" using unsigned_less [of v] by simp
  then show ?thesis by (auto simp: word_unat_eq_iff unsigned_minus_1_eq_mask mask_eq_exp_minus_1)
qed

lemma sem_step_value:
  assumes "sem_step s pc lab s' pc'"
  shows "case lab of
           None \<Rightarrow> sem_value s' = sem_value s
         | Some SemAcquired \<Rightarrow> sem_value s \<noteq> 0 \<and> sem_value s' = sem_value s - 1
         | Some SemReleased \<Rightarrow> sem_value s' = saturating_inc (sem_value s) \<and> sem_value s' \<le> max_value s
         | Some SemReset \<Rightarrow> sem_value s' = initial_value s
         | _ \<Rightarrow> False"
  using assms by (cases rule: sem_step_cases) (auto simp: linorder_not_less)

lemma unat_saturating_inc: "unat v + 1 < 2 ^ 32 \<Longrightarrow> unat (saturating_inc v) = unat v + 1"
  using unat_not_max [of v] by (auto simp: saturating_inc_def unat_word_ariths)

lemma unat_minus_one_nz: "v \<noteq> 0 \<Longrightarrow> unat (v - 1) = unat v - 1" for v :: u32
  by (metis One_nat_def unat_minus_one)

lemma sem_reach_conserves:
  assumes "sem_reach s0 s ths log" "SemReset \<notin> set log" "unat (sem_value s0) + count_list log SemReleased < 2 ^ 32"
  shows "unat (sem_value s) + count_list log SemAcquired = unat (sem_value s0) + count_list log SemReleased"
  using assms
proof (induction rule: sem_reach.induct)
  case (step s ths log i lab s' pc')
  have IH: "unat (sem_value s) + count_list log SemAcquired = unat (sem_value s0) + count_list log SemReleased"
    using step by (auto split: option.splits if_splits)
  note v = sem_step_value [OF step(2)]
  show ?case
  proof (cases lab)
    case None
    then show ?thesis using IH v by simp
  next
    case (Some r)
    show ?thesis
    proof (cases r)
      case SemAcquired
      then have "sem_value s \<noteq> 0" "sem_value s' = sem_value s - 1" using v Some by simp_all
      moreover have "unat (sem_value s) \<noteq> 0" using \<open>sem_value s \<noteq> 0\<close> by (simp add: unat_eq_0)
      ultimately show ?thesis using IH Some SemAcquired by (simp add: unat_minus_one_nz)
    next
      case SemReleased
      then have "unat (sem_value s) + 1 < 2 ^ 32" using IH step(5) Some by simp
      then show ?thesis using IH v Some SemReleased unat_saturating_inc by simp
    qed (use v Some step(4) in auto)
  qed
qed (auto simp: sem_invalidate_def)

lemma sem_reach_bounded:
  assumes "sem_reach s0 s ths log" "sem_value s0 \<le> max_value s0" "initial_value s0 \<le> max_value s0"
  shows "sem_value s \<le> max_value s \<and> max_value s = max_value s0 \<and> initial_value s = initial_value s0"
  using assms(1)
proof (induction rule: sem_reach.induct)
  case (step s ths log i lab s' pc')
  have dec: "sem_value s - 1 \<le> sem_value s" if "sem_value s \<noteq> 0"
    using that by (simp add: word_le_nat_alt unat_minus_one_nz)
  show ?case
    using sem_step_value [OF step(2)] sem_step_frame [OF step(2)] step(3) assms(3) dec
    by (auto split: option.splits SemaphoreResult.splits intro: order_trans)
qed (use assms in \<open>auto simp: sem_invalidate_def\<close>)

section \<open>Properties of semaphores\<close>

text \<open>
  Semaphore operations are atomic when alone: from any state, the loop of compare-exchanges of wait,
  try_wait and signal, and reset, can run to its return, and every way to do so without another thread,
  however often the weak compare-exchange fails, has the result and the final state of the function.
\<close>

theorem semaphore_solo:
  "(\<exists>r s'. solo s (Enter op) s' (Returned r)) \<and>
   (solo s (Enter op) s' (Returned r) \<longrightarrow> (r, s') = sem_seq op s)"
  using solo_returns solo_rest [of s "Enter op" s' "Returned r"] by (auto simp: current_ok_def)

text \<open>
  C33. Semaphores count correctly under every interleaving. Whatever the threads do, with failed
  compare-exchanges, concurrent invalidation and any number of calls, as long as nobody resets and the count
  stays in 32 bits: initial value plus releases equals current value plus acquisitions. So at most the
  initial number of acquisitions is outstanding, and for an initial value of one two threads are never
  both past a wait without a signal between.
\<close>

theorem semaphore_conservation:
  assumes "sem_reach s0 s ths log" "SemReset \<notin> set log" "unat (sem_value s0) + count_list log SemReleased < 2 ^ 32"
  shows "unat (sem_value s) + count_list log SemAcquired = unat (sem_value s0) + count_list log SemReleased \<and>
         count_list log SemAcquired \<le> unat (sem_value s0) + count_list log SemReleased"
  using sem_reach_conserves [OF assms] by linarith

text \<open>
  A bounded semaphore never exceeds its bound, under every interleaving of its operations, resets
  included, when it is created with an initial value within the bound; and a signal at the bound reports
  the overflow and changes nothing.
\<close>

theorem semaphore_bounded:
  assumes "v \<le> mx" "sem_reach (with_max i p v mx) s ths log"
  shows "sem_value s \<le> mx \<and>
         (sem_valid s \<longrightarrow> sem_value s = mx \<longrightarrow> mx \<noteq> - 1 \<longrightarrow> sem_signal s = (SemOverflow, s))"
proof -
  have b: "sem_value s \<le> mx" "max_value s = mx" using sem_reach_bounded [OF assms(2)] assms(1) by (auto simp: with_max_def)
  have "mx < saturating_inc mx" if "mx \<noteq> - 1"
    using unat_saturating_inc that by (simp add: unat_not_max word_less_nat_alt)
  then show ?thesis using b by (auto simp: sem_signal_def)
qed

text \<open>A signal with nobody waiting wraps the counter of waiters.\<close>

lemma sem_signal_wraps: "v < - 1 \<Longrightarrow> sem_wait_count (snd (sem_signal (Semaphore_new i p v))) = - 1"
  by (simp add: sem_signal_def Semaphore_new_def)

text \<open>A run of two threads on a semaphore of value one: the first takes it.\<close>

lemma demo_sem_run:
  "sem_reach (with_max 1 5 1 3) ((with_max 1 5 1 3)\<lparr>sem_value := 0\<rparr>) ((\<lambda>_. Enter OpWait)(0 := Returned SemAcquired)) [SemAcquired]"
proof -
  let ?s = "with_max 1 5 1 3" and ?t = "\<lambda>pc. (\<lambda>_. Enter OpWait)(0 := pc)"
  have v: "sem_valid ?s" "sem_value ?s = 1" by (simp_all add: with_max_def)
  have "sem_reach ?s ?s (\<lambda>_. Enter OpWait) []" by (rule sem_reach.start) blast
  from sem_reach.step [OF this, where i = 0 and lab = None and s' = ?s and pc' = "LoadValue OpWait"] v(1)
  have "sem_reach ?s ?s (?t (LoadValue OpWait)) []" by (simp add: sem_step_simps)
  from sem_reach.step [OF this, where i = 0 and lab = None and s' = ?s and pc' = "Loop OpWait 1"] v(2)
  have "sem_reach ?s ?s (?t (Loop OpWait 1)) []" by (simp add: sem_step_simps)
  from sem_reach.step [OF this, where i = 0 and lab = "Some SemAcquired" and s' = "?s\<lparr>sem_value := 0\<rparr>"
    and pc' = "Returned SemAcquired"] v(2)
  show ?thesis by (simp add: sem_step_simps)
qed

theorem semaphore_solo_witness:
  "\<exists>r s'. solo (Semaphore_new 1 5 0) (Enter OpWait) s' (Returned r) \<and> r = SemWouldBlock"
proof -
  obtain r s' where run: "solo (Semaphore_new 1 5 0) (Enter OpWait) s' (Returned r)"
    using semaphore_solo [of "Semaphore_new 1 5 0" OpWait] by blast
  then have "(r, s') = sem_seq OpWait (Semaphore_new 1 5 0)" using semaphore_solo by blast
  then have "r = SemWouldBlock" by (simp add: sem_seq_def sem_wait_def Semaphore_new_def)
  with run show ?thesis by blast
qed

theorem semaphore_conservation_witness:
  "unat (sem_value ((with_max 1 5 1 3)\<lparr>sem_value := 0\<rparr>)) + count_list [SemAcquired] SemAcquired = 1"
  using semaphore_conservation [OF demo_sem_run] by (simp add: with_max_def)

theorem semaphore_bounded_witness: "sem_value ((with_max 1 5 1 3)\<lparr>sem_value := 0\<rparr>) \<le> 3"
  using semaphore_bounded [OF _ demo_sem_run] by simp

section \<open>Mutex locks\<close>

datatype MutexResult = MxAcquired | MxReleased | MxWouldBlock | MxNotOwner | MxDeadlock | MxInvalid

text \<open>The owner \<open>- 1\<close> (all bits set) stands for an unlocked mutex.\<close>

record MutexLock =
  mx_id :: u64
  mx_owner :: u64
  mx_count :: u32
  creator_pid :: pid
  recursive :: bool
  mx_wait_count :: u32
  mx_valid :: bool

definition MutexLock_new :: "u64 \<Rightarrow> pid \<Rightarrow> bool \<Rightarrow> MutexLock" where
  "MutexLock_new i p r =
     \<lparr>mx_id = i, mx_owner = - 1, mx_count = 0, creator_pid = p, recursive = r, mx_wait_count = 0, mx_valid = True\<rparr>"

definition mutex_owner :: "MutexLock \<Rightarrow> pid option" where
  "mutex_owner m = (if mx_owner m = - 1 then None else Some (mx_owner m))"

definition set_owner :: "pid \<Rightarrow> MutexLock \<Rightarrow> MutexLock" where
  "set_owner p m = m\<lparr>mx_owner := p\<rparr>"

definition is_locked :: "MutexLock \<Rightarrow> bool" where
  "is_locked m \<longleftrightarrow> mx_owner m \<noteq> - 1"

definition try_acquire :: "pid \<Rightarrow> MutexLock \<Rightarrow> MutexResult \<times> MutexLock" where
  "try_acquire p m =
     (if \<not> mx_valid m then (MxInvalid, m)
      else if mx_owner m = - 1 then (MxAcquired, m\<lparr>mx_owner := p, mx_count := 1\<rparr>)
      else if mx_owner m = p then
        (if recursive m then (MxAcquired, m\<lparr>mx_count := mx_count m + 1\<rparr>) else (MxDeadlock, m))
      else (MxWouldBlock, m))"

definition acquire :: "pid \<Rightarrow> MutexLock \<Rightarrow> MutexResult \<times> MutexLock" where
  "acquire p m =
     (if \<not> mx_valid m then (MxInvalid, m)
      else case try_acquire p m of
             (MxWouldBlock, m') \<Rightarrow> (MxWouldBlock, m'\<lparr>mx_wait_count := mx_wait_count m' + 1\<rparr>)
           | r \<Rightarrow> r)"

definition release :: "pid \<Rightarrow> MutexLock \<Rightarrow> MutexResult \<times> MutexLock" where
  "release p m =
     (if \<not> mx_valid m then (MxInvalid, m)
      else if mx_owner m \<noteq> p then (MxNotOwner, m)
      else let m1 = m\<lparr>mx_count := mx_count m - 1\<rparr> in
           (MxReleased,
            if mx_count m = 1
            then m1\<lparr>mx_owner := - 1, mx_wait_count := (if mx_wait_count m > 0 then mx_wait_count m - 1 else mx_wait_count m)\<rparr>
            else m1))"

definition mutex_invalidate :: "MutexLock \<Rightarrow> MutexLock" where
  "mutex_invalidate m = m\<lparr>mx_valid := False\<rparr>"

section \<open>The atomic steps of taking a mutex\<close>

datatype MutexPC =
    MxEnter pid
  | MxLoad pid
  | MxSaw pid u64
  | MxStoreCount pid
  | MxReturned pid MutexResult

text \<open>The result of the compare-exchange is dropped by the source: the next step is the same either way.\<close>

inductive mx_step :: "MutexLock \<Rightarrow> MutexPC \<Rightarrow> MutexLock \<Rightarrow> MutexPC \<Rightarrow> bool" where
  invalid: "\<not> mx_valid m \<Longrightarrow> mx_step m (MxEnter p) m (MxReturned p MxInvalid)"
| enter: "mx_valid m \<Longrightarrow> mx_step m (MxEnter p) m (MxLoad p)"
| load: "mx_step m (MxLoad p) m (MxSaw p (mx_owner m))"
| exchange: "mx_step m (MxSaw p (- 1)) (m\<lparr>mx_owner := (if mx_owner m = - 1 then p else mx_owner m)\<rparr>) (MxStoreCount p)"
| store: "mx_step m (MxStoreCount p) (m\<lparr>mx_count := 1\<rparr>) (MxReturned p MxAcquired)"
| again: "p \<noteq> - 1 \<Longrightarrow> recursive m \<Longrightarrow> mx_step m (MxSaw p p) (m\<lparr>mx_count := mx_count m + 1\<rparr>) (MxReturned p MxAcquired)"
| deadlock: "p \<noteq> - 1 \<Longrightarrow> \<not> recursive m \<Longrightarrow> mx_step m (MxSaw p p) m (MxReturned p MxDeadlock)"
| block: "q \<noteq> - 1 \<Longrightarrow> q \<noteq> p \<Longrightarrow> mx_step m (MxSaw p q) m (MxReturned p MxWouldBlock)"

inductive_cases mx_step_cases: "mx_step m pc m' pc'"

inductive_simps mx_step_simps:
  "mx_step m (MxEnter p) m' pc'" "mx_step m (MxLoad p) m' pc'" "mx_step m (MxSaw p q) m' pc'"
  "mx_step m (MxStoreCount p) m' pc'" "mx_step m (MxReturned p r) m' pc'"

inductive mx_reach :: "MutexLock \<Rightarrow> MutexLock \<Rightarrow> (nat \<Rightarrow> MutexPC) \<Rightarrow> bool" for m0 where
  start: "mx_reach m0 m0 (\<lambda>i. MxEnter (of_nat i))"
| step: "mx_reach m0 m ths \<Longrightarrow> mx_step m (ths i) m' pc' \<Longrightarrow> mx_reach m0 m' (ths(i := pc'))"

text \<open>What a lock means: who holds it and how many times.\<close>

definition mutex_abs :: "MutexLock \<Rightarrow> (pid \<times> nat) option" where
  "mutex_abs m = (if mx_owner m = - 1 then None else Some (mx_owner m, unat (mx_count m)))"

definition mutex_wf :: "MutexLock \<Rightarrow> bool" where
  "mutex_wf m \<longleftrightarrow> mx_valid m \<and> (mx_owner m = - 1 \<longleftrightarrow> mx_count m = 0)"

definition mutex_take :: "bool \<Rightarrow> pid \<Rightarrow> (pid \<times> nat) option \<Rightarrow> MutexResult \<times> (pid \<times> nat) option" where
  "mutex_take rec p st =
     (case st of
        None \<Rightarrow> (MxAcquired, Some (p, 1))
      | Some (q, n) \<Rightarrow>
          if q \<noteq> p then (MxWouldBlock, st)
          else if rec then (MxAcquired, Some (p, n + 1)) else (MxDeadlock, st))"

definition mutex_give :: "pid \<Rightarrow> (pid \<times> nat) option \<Rightarrow> MutexResult \<times> (pid \<times> nat) option" where
  "mutex_give p st =
     (case st of
        None \<Rightarrow> (MxNotOwner, st)
      | Some (q, n) \<Rightarrow>
          if q \<noteq> p then (MxNotOwner, st) else (MxReleased, if n = 1 then None else Some (p, n - 1)))"

lemma unat_one_iff: "v = 1 \<longleftrightarrow> unat v = 1" for v :: u32
  by (metis unat_1 word_unat_eq_iff)

lemma mutex_take_refines:
  assumes "mutex_wf m" "p \<noteq> - 1" "unat (mx_count m) + 1 < 2 ^ 32" "try_acquire p m = (r, m')"
  shows "mutex_take (recursive m) p (mutex_abs m) = (r, mutex_abs m') \<and> mutex_wf m' \<and> recursive m' = recursive m"
proof -
  have inc: "unat (mx_count m + 1) = unat (mx_count m) + 1" using assms(3) by (simp add: unat_word_ariths)
  then have "mx_count m + 1 \<noteq> 0" by (metis add_is_0 unat_0 zero_neq_one)
  then show ?thesis
    using assms(1,2,4) inc
    by (auto simp: try_acquire_def mutex_take_def mutex_abs_def mutex_wf_def split: if_splits)
qed

lemma mutex_give_refines:
  assumes "mutex_wf m" "p \<noteq> - 1" "release p m = (r, m')"
  shows "mutex_give p (mutex_abs m) = (r, mutex_abs m') \<and> mutex_wf m' \<and> recursive m' = recursive m"
proof (cases "mx_owner m = p \<and> mx_count m \<noteq> 1")
  case True
  then have nz: "mx_count m \<noteq> 0" using assms(1,2) by (auto simp: mutex_wf_def)
  then have "unat (mx_count m - 1) = unat (mx_count m) - 1" by (rule unat_minus_one_nz)
  moreover have "mx_count m - 1 \<noteq> 0" using True by simp
  ultimately show ?thesis
    using True assms unat_one_iff [of "mx_count m"]
    by (auto simp: release_def mutex_give_def mutex_abs_def mutex_wf_def Let_def)
next
  case False
  then show ?thesis
    using assms
    by (auto simp: release_def mutex_give_def mutex_abs_def mutex_wf_def Let_def split: if_splits)
qed

section \<open>The manager\<close>

text \<open>
  The manager maps ids to shared objects. An object lives at an address of the store as long as somebody
  refers to it, so a holder can still use a semaphore the manager has dropped.
\<close>

record SyncStore =
  sem_objs :: "nat \<rightharpoonup> Semaphore"
  mutex_objs :: "nat \<rightharpoonup> MutexLock"
  next_obj :: nat

record SyncManager =
  semaphores :: "u64 \<rightharpoonup> nat"
  mutexes :: "u64 \<rightharpoonup> nat"
  next_sem_id :: u64
  next_mutex_id :: u64

definition insert_semaphore :: "(u64 \<Rightarrow> Semaphore) \<Rightarrow> SyncManager \<times> SyncStore \<Rightarrow> u64 \<times> SyncManager \<times> SyncStore" where
  "insert_semaphore mk st =
     (case st of (sm, h) \<Rightarrow>
        let i = next_sem_id sm in
        (i, sm\<lparr>next_sem_id := i + 1, semaphores := (semaphores sm)(i \<mapsto> next_obj h)\<rparr>,
         h\<lparr>sem_objs := (sem_objs h)(next_obj h \<mapsto> mk i), next_obj := next_obj h + 1\<rparr>))"

definition create_semaphore :: "pid \<Rightarrow> u32 \<Rightarrow> SyncManager \<times> SyncStore \<Rightarrow> u64 \<times> SyncManager \<times> SyncStore" where
  "create_semaphore p v = insert_semaphore (\<lambda>i. Semaphore_new i p v)"

definition create_bounded_semaphore :: "pid \<Rightarrow> u32 \<Rightarrow> u32 \<Rightarrow> SyncManager \<times> SyncStore \<Rightarrow> u64 \<times> SyncManager \<times> SyncStore" where
  "create_bounded_semaphore p v mx = insert_semaphore (\<lambda>i. with_max i p v mx)"

definition get_semaphore :: "u64 \<Rightarrow> SyncManager \<times> SyncStore \<Rightarrow> nat option" where
  "get_semaphore i st = semaphores (fst st) i"

definition destroy_semaphore :: "u64 \<Rightarrow> SyncManager \<times> SyncStore \<Rightarrow> bool \<times> SyncManager \<times> SyncStore" where
  "destroy_semaphore i st =
     (case st of (sm, h) \<Rightarrow>
        (case semaphores sm i of
           None \<Rightarrow> (False, sm, h)
         | Some a \<Rightarrow> (True, sm\<lparr>semaphores := (semaphores sm)(i := None)\<rparr>,
                      h\<lparr>sem_objs := (sem_objs h)(a := map_option sem_invalidate (sem_objs h a))\<rparr>)))"

definition create_mutex :: "pid \<Rightarrow> bool \<Rightarrow> SyncManager \<times> SyncStore \<Rightarrow> u64 \<times> SyncManager \<times> SyncStore" where
  "create_mutex p r st =
     (case st of (sm, h) \<Rightarrow>
        let i = next_mutex_id sm in
        (i, sm\<lparr>next_mutex_id := i + 1, mutexes := (mutexes sm)(i \<mapsto> next_obj h)\<rparr>,
         h\<lparr>mutex_objs := (mutex_objs h)(next_obj h \<mapsto> MutexLock_new i p r), next_obj := next_obj h + 1\<rparr>))"

definition get_mutex :: "u64 \<Rightarrow> SyncManager \<times> SyncStore \<Rightarrow> nat option" where
  "get_mutex i st = mutexes (fst st) i"

definition destroy_mutex :: "u64 \<Rightarrow> SyncManager \<times> SyncStore \<Rightarrow> bool \<times> SyncManager \<times> SyncStore" where
  "destroy_mutex i st =
     (case st of (sm, h) \<Rightarrow>
        (case mutexes sm i of
           None \<Rightarrow> (False, sm, h)
         | Some a \<Rightarrow> (True, sm\<lparr>mutexes := (mutexes sm)(i := None)\<rparr>,
                      h\<lparr>mutex_objs := (mutex_objs h)(a := map_option mutex_invalidate (mutex_objs h a))\<rparr>)))"

text \<open>The manager of a new process service has a binary semaphore and a mutex with id 0.\<close>

definition SyncManager_new :: "SyncStore \<Rightarrow> SyncManager \<times> SyncStore" where
  "SyncManager_new h =
     snd (create_mutex 0 False (snd (create_semaphore 0 1
       (\<lparr>semaphores = (\<lambda>_. None), mutexes = (\<lambda>_. None), next_sem_id = 0, next_mutex_id = 0\<rparr>, h))))"

definition sync_cleanup :: "SyncManager \<times> SyncStore \<Rightarrow> (nat \<times> nat) \<times> SyncManager \<times> SyncStore" where
  "sync_cleanup st =
     (case st of (sm, h) \<Rightarrow>
        let dead_sem = {i. \<exists>a s. semaphores sm i = Some a \<and> sem_objs h a = Some s \<and> \<not> sem_valid s};
            dead_mx = {i. \<exists>a m. mutexes sm i = Some a \<and> mutex_objs h a = Some m \<and> \<not> mx_valid m} in
        ((card dead_sem, card dead_mx),
         sm\<lparr>semaphores := (semaphores sm) |` (- dead_sem), mutexes := (mutexes sm) |` (- dead_mx)\<rparr>, h))"

text \<open>Every id in the table is below the counter and refers to a valid object of its own.\<close>

definition sems_wf :: "SyncManager \<times> SyncStore \<Rightarrow> bool" where
  "sems_wf st \<longleftrightarrow>
     (\<forall>i a. semaphores (fst st) i = Some a \<longrightarrow>
        i < next_sem_id (fst st) \<and> a < next_obj (snd st) \<and>
        (\<exists>s. sem_objs (snd st) a = Some s \<and> sem_valid s \<and> sem_id s = i))"

lemma sems_wf_new: "sems_wf (SyncManager_new h)"
  by (auto simp: sems_wf_def SyncManager_new_def create_mutex_def create_semaphore_def insert_semaphore_def Let_def
      Semaphore_new_def split: if_splits)

lemma insert_semaphore_wf:
  assumes "sems_wf st" "next_sem_id (fst st) \<noteq> - 1" "\<And>i. sem_valid (mk i) \<and> sem_id (mk i) = i"
    and "insert_semaphore mk st = (i, st')"
  shows "sems_wf st' \<and> get_semaphore i st = None \<and> get_semaphore i st' = Some (next_obj (snd st)) \<and>
         sem_objs (snd st') (next_obj (snd st)) = Some (mk i) \<and> (\<forall>j. j \<noteq> i \<longrightarrow> get_semaphore j st' = get_semaphore j st)"
proof -
  obtain sm h where st: "st = (sm, h)" by (cases st)
  define n where "n = next_sem_id sm"
  have lt: "j < n + 1" if "j \<le> n" for j :: u64
  proof -
    have "unat n \<noteq> unat (- 1 :: u64)" using assms(2) st by (simp add: n_def word_unat_eq_iff)
    moreover have "unat n < 2 ^ 64" using unsigned_less [of n] by simp
    ultimately have "unat n + 1 < 2 ^ 64" by (simp add: unsigned_minus_1_eq_mask mask_eq_exp_minus_1)
    then have "unat (n + 1) = unat n + 1" by (simp add: unat_word_ariths)
    then show ?thesis using that by (simp add: word_less_nat_alt word_le_nat_alt)
  qed
  have old: "semaphores sm j = Some a \<Longrightarrow> j < n \<and> a < next_obj h \<and> (\<exists>s. sem_objs h a = Some s \<and> sem_valid s \<and> sem_id s = j)" for j a
    using assms(1) st by (auto simp: sems_wf_def n_def)
  have i: "i = n" "st' = (sm\<lparr>next_sem_id := n + 1, semaphores := (semaphores sm)(n \<mapsto> next_obj h)\<rparr>,
      h\<lparr>sem_objs := (sem_objs h)(next_obj h \<mapsto> mk n), next_obj := next_obj h + 1\<rparr>)"
    using assms(4) st by (auto simp: insert_semaphore_def Let_def n_def)
  have "semaphores sm n = None" using old [of n] by (cases "semaphores sm n") auto
  then show ?thesis
    using old lt assms(3) unfolding i st
    by (auto simp: sems_wf_def get_semaphore_def less_imp_le dest!: old split: if_splits)
qed

lemma destroy_semaphore_wf:
  assumes "sems_wf st" "get_semaphore i st = Some a" "destroy_semaphore i st = (b, st')"
  shows "b \<and> get_semaphore i st' = None \<and> (\<forall>j. j \<noteq> i \<longrightarrow> get_semaphore j st' = get_semaphore j st) \<and>
         sem_objs (snd st') a = map_option sem_invalidate (sem_objs (snd st) a) \<and> sems_wf st'"
proof -
  obtain sm h where st: "st = (sm, h)" by (cases st)
  have a: "semaphores sm i = Some a" using assms(2) st by (simp add: get_semaphore_def)
  then obtain s where s: "sem_objs h a = Some s" "sem_id s = i" using assms(1) st by (auto simp: sems_wf_def)
  have other: "c \<noteq> a" if jc: "semaphores sm j = Some c" "j \<noteq> i" for j c
  proof -
    obtain t where "sem_objs h c = Some t" "sem_id t = j" using jc(1) assms(1) unfolding sems_wf_def st fst_conv snd_conv by blast
    then show ?thesis using s jc(2) by auto
  qed
  have st': "b" "st' = (sm\<lparr>semaphores := (semaphores sm)(i := None)\<rparr>,
      h\<lparr>sem_objs := (sem_objs h)(a := map_option sem_invalidate (sem_objs h a))\<rparr>)"
    using assms(3) st a by (auto simp: destroy_semaphore_def)
  have "sems_wf st'"
    using assms(1) other unfolding st st' by (auto simp: sems_wf_def)
  then show ?thesis using st' st by (auto simp: get_semaphore_def)
qed

section \<open>Properties of mutexes and the manager\<close>

text \<open>
  Concurrent callers can both take a mutex. The compare-exchange of try_acquire is ignored, so from a
  new lock two threads of different processes that both saw it free are both told that they acquired it,
  although only one of them is recorded as the owner.
\<close>

theorem mutex_race:
  "\<exists>m ths. mx_reach (MutexLock_new i c rc) m ths \<and> ths 1 = MxReturned 1 MxAcquired \<and> ths 2 = MxReturned 2 MxAcquired \<and>
     mutex_owner m = Some 1"
proof -
  let ?m = "MutexLock_new i c rc"
  define ts where "ts a b = ((\<lambda>i. MxEnter (of_nat i))(1 := a, 2 := b))" for a b
  have upd: "(ts a b)(1 := a') = ts a' b" "(ts a b)(2 := b') = ts a b'" "ts a b 1 = a" "ts a b 2 = b" for a b a' b'
    by (auto simp: ts_def)
  have one: "mx_reach ?m m (ts a b) \<Longrightarrow> mx_step m a m' a' \<Longrightarrow> mx_reach ?m m' (ts a' b)" for m a b m' a'
    using mx_reach.step [of ?m m "ts a b" 1 m' a'] by (simp only: upd)
  have two: "mx_reach ?m m (ts a b) \<Longrightarrow> mx_step m b m' b' \<Longrightarrow> mx_reach ?m m' (ts a b')" for m a b m' b'
    using mx_reach.step [of ?m m "ts a b" 2 m' b'] by (simp only: upd)
  have v: "mx_valid ?m" "mx_owner ?m = - 1" by (simp_all add: MutexLock_new_def)
  have "mx_reach ?m ?m (ts (MxEnter 1) (MxEnter 2))"
    using mx_reach.start [of ?m] by (simp add: ts_def fun_upd_idem)
  then have "mx_reach ?m ?m (ts (MxLoad 1) (MxEnter 2))" by (rule one) (rule mx_step.enter [OF v(1)])
  then have "mx_reach ?m ?m (ts (MxSaw 1 (- 1)) (MxEnter 2))" by (rule one) (simp add: mx_step_simps v(2))
  then have "mx_reach ?m ?m (ts (MxSaw 1 (- 1)) (MxLoad 2))" by (rule two) (rule mx_step.enter [OF v(1)])
  then have "mx_reach ?m ?m (ts (MxSaw 1 (- 1)) (MxSaw 2 (- 1)))" by (rule two) (simp add: mx_step_simps v(2))
  then have "mx_reach ?m (?m\<lparr>mx_owner := 1\<rparr>) (ts (MxStoreCount 1) (MxSaw 2 (- 1)))"
    by (rule one) (simp add: mx_step_simps v(2))
  then have "mx_reach ?m (?m\<lparr>mx_owner := 1\<rparr>) (ts (MxStoreCount 1) (MxStoreCount 2))"
    by (rule two) (simp add: mx_step_simps)
  then have "mx_reach ?m (?m\<lparr>mx_owner := 1, mx_count := 1\<rparr>) (ts (MxReturned 1 MxAcquired) (MxStoreCount 2))"
    by (rule one) (simp add: mx_step_simps)
  then have "mx_reach ?m (?m\<lparr>mx_owner := 1, mx_count := 1\<rparr>) (ts (MxReturned 1 MxAcquired) (MxReturned 2 MxAcquired))"
    by (rule two) (simp add: mx_step_simps)
  then show ?thesis
    by (intro exI conjI, assumption) (simp_all only: upd, simp add: mutex_owner_def)
qed

text \<open>
  The life of a semaphore. A new semaphore gets an id that no live semaphore has and the requested
  initial value, and creating and destroying it leave all other ids alone; once destroyed, it can no longer be
  found, and whoever still holds it is told that it is invalid by every operation, without effect.
\<close>

theorem semaphore_lifecycle:
  assumes "sems_wf st" "next_sem_id (fst st) \<noteq> - 1" "create_semaphore p v st = (i, st1)" "destroy_semaphore i st1 = (b, st2)"
  shows "get_semaphore i st = None \<and> b \<and> get_semaphore i st2 = None \<and> sems_wf st1 \<and> sems_wf st2 \<and>
         (\<exists>a. get_semaphore i st1 = Some a \<and> sem_objs (snd st1) a = Some (Semaphore_new i p v) \<and>
              (\<forall>s op. sem_objs (snd st2) a = Some s \<longrightarrow> sem_seq op s = (SemInvalid, s))) \<and>
         (\<forall>j. j \<noteq> i \<longrightarrow> get_semaphore j st1 = get_semaphore j st \<and> get_semaphore j st2 = get_semaphore j st)"
proof -
  have "sem_valid (Semaphore_new i p v) \<and> sem_id (Semaphore_new i p v) = i" for i by (simp add: Semaphore_new_def)
  note c = insert_semaphore_wf [OF assms(1,2) this assms(3) [unfolded create_semaphore_def]]
  then have c1: "sems_wf st1" "get_semaphore i st1 = Some (next_obj (snd st))" by simp_all
  note d = destroy_semaphore_wf [OF c1 assms(4)]
  have "sem_seq op (sem_invalidate s) = (SemInvalid, sem_invalidate s)" for op s
    by (cases op) (simp_all add: sem_defs sem_invalidate_def)
  with c d show ?thesis by (auto intro!: exI [of _ "next_obj (snd st)"])
qed

theorem semaphore_lifecycle_witness:
  "\<exists>i st1 b st2. create_semaphore 7 5 (SyncManager_new \<lparr>sem_objs = (\<lambda>_. None), mutex_objs = (\<lambda>_. None), next_obj = 0\<rparr>) = (i, st1) \<and>
     destroy_semaphore i st1 = (b, st2) \<and> b"
proof -
  let ?st = "SyncManager_new \<lparr>sem_objs = (\<lambda>_. None), mutex_objs = (\<lambda>_. None), next_obj = 0\<rparr>"
  obtain i st1 where c: "create_semaphore 7 5 ?st = (i, st1)" by (cases "create_semaphore 7 5 ?st")
  obtain b st2 where d: "destroy_semaphore i st1 = (b, st2)" by (cases "destroy_semaphore i st1")
  have "next_sem_id (fst ?st) \<noteq> - 1"
    by (simp add: SyncManager_new_def create_mutex_def create_semaphore_def insert_semaphore_def Let_def)
  from semaphore_lifecycle [OF sems_wf_new this c d] c d show ?thesis by blast
qed

end
