(* ===== verification/PCB.thy ===== *)
theory PCB
  imports CPU
begin

text \<open>
  Process and thread control blocks (\<^verbatim>\<open>src/services/process/pcb.rs\<close>): the states of processes and threads,
  the thread table of a process, its message queue, pending signals and file descriptors. Where the source
  takes the first key of a hash map, the order in which the map delivers its keys is an argument. Exit codes
  are 32-bit words; the page tables a control block can hold are never filled in and are left out.
\<close>

section \<open>States\<close>

datatype ProcessState =
    PCreating | PReady | PRunning | PBlocked BlockReason | PTerminated u32 | PZombie u32

definition state_is_alive :: "ProcessState \<Rightarrow> bool" where
  "state_is_alive s = (case s of PCreating \<Rightarrow> True | PReady \<Rightarrow> True | PRunning \<Rightarrow> True | PBlocked _ \<Rightarrow> True | _ \<Rightarrow> False)"

definition state_is_runnable :: "ProcessState \<Rightarrow> bool" where
  "state_is_runnable s = (case s of PReady \<Rightarrow> True | _ \<Rightarrow> False)"

definition state_is_blocked :: "ProcessState \<Rightarrow> bool" where
  "state_is_blocked s = (case s of PBlocked _ \<Rightarrow> True | _ \<Rightarrow> False)"

definition state_is_terminated :: "ProcessState \<Rightarrow> bool" where
  "state_is_terminated s = (case s of PTerminated _ \<Rightarrow> True | PZombie _ \<Rightarrow> True | _ \<Rightarrow> False)"

datatype ThreadState = TCreating | TReady | TRunning | TBlocked BlockReason | TTerminated

section \<open>Threads\<close>

record ThreadStats =
  th_cpu_time :: u64
  th_schedule_count :: u64
  th_context_switches :: u64

definition ThreadStats_default :: ThreadStats where
  "ThreadStats_default = \<lparr>th_cpu_time = 0, th_schedule_count = 0, th_context_switches = 0\<rparr>"

record TCB =
  tcb_tid :: tid
  tcb_state :: ThreadState
  tcb_cpu_state :: "CPUState option"
  tcb_priority :: u8
  tcb_block_reason :: "BlockReason option"
  tcb_stats :: ThreadStats
  tcb_stack_pointer :: virt_addr
  tcb_entry_point :: virt_addr

definition TCB_new :: "tid \<Rightarrow> virt_addr \<Rightarrow> virt_addr \<Rightarrow> TCB" where
  "TCB_new t entry stack =
     \<lparr>tcb_tid = t, tcb_state = TCreating, tcb_cpu_state = None, tcb_priority = 128, tcb_block_reason = None,
      tcb_stats = ThreadStats_default, tcb_stack_pointer = stack, tcb_entry_point = entry\<rparr>"

definition tcb_set_state :: "ThreadState \<Rightarrow> TCB \<Rightarrow> TCB" where
  "tcb_set_state st t = t\<lparr>tcb_state := st\<rparr>"

definition tcb_block :: "BlockReason \<Rightarrow> TCB \<Rightarrow> TCB" where
  "tcb_block r t = t\<lparr>tcb_state := TBlocked r, tcb_block_reason := Some r\<rparr>"

definition tcb_is_blocked :: "TCB \<Rightarrow> bool" where
  "tcb_is_blocked t = (case tcb_state t of TBlocked _ \<Rightarrow> True | _ \<Rightarrow> False)"

definition tcb_unblock :: "TCB \<Rightarrow> TCB" where
  "tcb_unblock t = (if tcb_is_blocked t then t\<lparr>tcb_state := TReady, tcb_block_reason := None\<rparr> else t)"

definition save_cpu_state :: "CPUState \<Rightarrow> TCB \<Rightarrow> TCB" where
  "save_cpu_state st t = t\<lparr>tcb_cpu_state := Some st\<rparr>"

definition take_cpu_state :: "TCB \<Rightarrow> CPUState option \<times> TCB" where
  "take_cpu_state t = (tcb_cpu_state t, t\<lparr>tcb_cpu_state := None\<rparr>)"

definition tcb_is_runnable :: "TCB \<Rightarrow> bool" where
  "tcb_is_runnable t \<longleftrightarrow> tcb_state t = TReady"

section \<open>Processes\<close>

datatype FDType = RegularFileFD | DirectoryFD | CharDeviceFD | BlockDeviceFD | PipeFD | SocketFD

record ProcFileDescriptor =
  pfd_path :: string
  pfd_flags :: u32
  pfd_offset :: u64
  pfd_read :: bool
  pfd_write :: bool
  pfd_type :: FDType

record ProcessStats =
  ps_cpu_time :: u64
  ps_schedule_count :: u64
  ps_voluntary :: u64
  ps_involuntary :: u64
  ps_max_rss :: nat
  ps_peak_memory :: nat
  ps_page_faults :: u64
  ps_signals_received :: u64

definition ProcessStats_default :: ProcessStats where
  "ProcessStats_default =
     \<lparr>ps_cpu_time = 0, ps_schedule_count = 0, ps_voluntary = 0, ps_involuntary = 0, ps_max_rss = 0,
      ps_peak_memory = 0, ps_page_faults = 0, ps_signals_received = 0\<rparr>"

record PCB =
  pcb_pid :: pid
  parent_pid :: "pid option"
  pcb_state :: ProcessState
  pcb_priority :: u8
  threads :: "tid \<rightharpoonup> TCB"
  main_tid :: "tid option"
  current_tid :: "tid option"
  pcb_messages :: "IPCMessage list"
  pcb_shared_memory :: "u64 \<rightharpoonup> virt_addr"
  pending_signals :: "SignalType list"
  signal_mask :: u64
  pcb_exit_code :: "u32 option"
  pcb_stats :: ProcessStats
  pcb_name :: string
  pcb_args :: "string list"
  working_dir :: string
  pcb_env :: "string \<rightharpoonup> string"
  pcb_fds :: "u32 \<rightharpoonup> ProcFileDescriptor"
  next_fd :: u32
  created_at :: nat

definition PCB_new :: "nat \<Rightarrow> pid \<Rightarrow> string \<Rightarrow> pid option \<Rightarrow> PCB" where
  "PCB_new now p nm parent =
     \<lparr>pcb_pid = p, parent_pid = parent, pcb_state = PCreating, pcb_priority = 128, threads = (\<lambda>_. None), main_tid = None,
      current_tid = None, pcb_messages = [], pcb_shared_memory = (\<lambda>_. None), pending_signals = [], signal_mask = 0,
      pcb_exit_code = None, pcb_stats = ProcessStats_default, pcb_name = nm, pcb_args = [], working_dir = ''/'',
      pcb_env = (\<lambda>_. None), pcb_fds = (\<lambda>_. None), next_fd = 3, created_at = now\<rparr>"

definition add_thread :: "TCB \<Rightarrow> PCB \<Rightarrow> tid \<times> PCB" where
  "add_thread t p =
     (let i = tcb_tid t; p1 = p\<lparr>threads := (threads p)(i \<mapsto> t)\<rparr>;
          p2 = (if main_tid p1 = None then p1\<lparr>main_tid := Some i\<rparr> else p1);
          p3 = (if current_tid p2 = None \<and> pcb_state p2 = PReady then p2\<lparr>current_tid := Some i\<rparr> else p2) in
      (i, p3))"

definition get_thread :: "tid \<Rightarrow> PCB \<Rightarrow> TCB option" where
  "get_thread i p = threads p i"

definition update_thread :: "tid \<Rightarrow> (TCB \<Rightarrow> TCB) \<Rightarrow> PCB \<Rightarrow> PCB" where
  "update_thread i f p = p\<lparr>threads := (threads p)(i := map_option f (threads p i))\<rparr>"

text \<open>The keys left after the removal, in the order the map delivers them, are an argument.\<close>

definition first_key :: "tid list \<Rightarrow> tid option" where
  "first_key ks = (case ks of [] \<Rightarrow> None | k # _ \<Rightarrow> Some k)"

definition remove_thread :: "tid list \<Rightarrow> tid \<Rightarrow> PCB \<Rightarrow> TCB option \<times> PCB" where
  "remove_thread ks i p =
     (let p1 = p\<lparr>threads := (threads p)(i := None)\<rparr>;
          p2 = (if current_tid p1 = Some i then p1\<lparr>current_tid := first_key ks\<rparr> else p1);
          p3 = (if main_tid p2 = Some i then p2\<lparr>main_tid := first_key ks\<rparr> else p2) in
      (threads p i, p3))"

definition current_thread :: "PCB \<Rightarrow> TCB option" where
  "current_thread p = (case current_tid p of None \<Rightarrow> None | Some i \<Rightarrow> get_thread i p)"

definition pcb_set_state :: "ProcessState \<Rightarrow> PCB \<Rightarrow> PCB" where
  "pcb_set_state st p = p\<lparr>pcb_state := st\<rparr>"

definition pcb_block :: "BlockReason \<Rightarrow> PCB \<Rightarrow> PCB" where
  "pcb_block r p = p\<lparr>pcb_state := PBlocked r, threads := (\<lambda>i. map_option (tcb_block r) (threads p i))\<rparr>"

definition pcb_unblock :: "PCB \<Rightarrow> PCB" where
  "pcb_unblock p =
     (if state_is_blocked (pcb_state p)
      then p\<lparr>pcb_state := PReady, threads := (\<lambda>i. map_option tcb_unblock (threads p i))\<rparr> else p)"

definition pcb_terminate :: "u32 \<Rightarrow> PCB \<Rightarrow> PCB" where
  "pcb_terminate code p =
     p\<lparr>pcb_state := PTerminated code, pcb_exit_code := Some code,
       threads := (\<lambda>i. map_option (\<lambda>t. t\<lparr>tcb_state := TTerminated\<rparr>) (threads p i))\<rparr>"

definition pcb_is_alive :: "PCB \<Rightarrow> bool" where
  "pcb_is_alive p = state_is_alive (pcb_state p)"

definition pcb_is_runnable :: "PCB \<Rightarrow> bool" where
  "pcb_is_runnable p \<longleftrightarrow> pcb_state p = PReady \<and> threads p \<noteq> Map.empty"

definition pcb_is_blocked :: "PCB \<Rightarrow> bool" where
  "pcb_is_blocked p = state_is_blocked (pcb_state p)"

definition pcb_is_terminated :: "PCB \<Rightarrow> bool" where
  "pcb_is_terminated p = state_is_terminated (pcb_state p)"

definition enqueue_message :: "IPCMessage \<Rightarrow> PCB \<Rightarrow> PCB" where
  "enqueue_message msg p = p\<lparr>pcb_messages := pcb_messages p @ [msg]\<rparr>"

definition dequeue_message :: "PCB \<Rightarrow> IPCMessage option \<times> PCB" where
  "dequeue_message p = (case pcb_messages p of [] \<Rightarrow> (None, p) | x # xs \<Rightarrow> (Some x, p\<lparr>pcb_messages := xs\<rparr>))"

definition peek_message :: "PCB \<Rightarrow> IPCMessage option" where
  "peek_message p = (case pcb_messages p of [] \<Rightarrow> None | x # _ \<Rightarrow> Some x)"

definition message_count :: "PCB \<Rightarrow> nat" where
  "message_count p = length (pcb_messages p)"

text \<open>Signals are pushed at the end and popped from the end.\<close>

definition add_signal :: "SignalType \<Rightarrow> PCB \<Rightarrow> PCB" where
  "add_signal sig p = p\<lparr>pending_signals := pending_signals p @ [sig]\<rparr>"

definition take_signal :: "PCB \<Rightarrow> SignalType option \<times> PCB" where
  "take_signal p =
     (if pending_signals p = [] then (None, p)
      else (Some (last (pending_signals p)), p\<lparr>pending_signals := butlast (pending_signals p)\<rparr>))"

definition allocate_fd :: "PCB \<Rightarrow> u32 \<times> PCB" where
  "allocate_fd p = (next_fd p, p\<lparr>next_fd := next_fd p + 1\<rparr>)"

definition add_fd :: "u32 \<Rightarrow> ProcFileDescriptor \<Rightarrow> PCB \<Rightarrow> PCB" where
  "add_fd fd d p = p\<lparr>pcb_fds := (pcb_fds p)(fd \<mapsto> d)\<rparr>"

definition get_fd :: "u32 \<Rightarrow> PCB \<Rightarrow> ProcFileDescriptor option" where
  "get_fd fd p = pcb_fds p fd"

definition remove_fd :: "u32 \<Rightarrow> PCB \<Rightarrow> ProcFileDescriptor option \<times> PCB" where
  "remove_fd fd p = (pcb_fds p fd, p\<lparr>pcb_fds := (pcb_fds p)(fd := None)\<rparr>)"

text \<open>A clock set back gives an uptime of zero.\<close>

definition uptime :: "nat \<Rightarrow> PCB \<Rightarrow> nat" where
  "uptime now p = now - created_at p"

definition thread_count :: "PCB \<Rightarrow> nat" where
  "thread_count p = card (dom (threads p))"

definition active_thread_count :: "PCB \<Rightarrow> nat" where
  "active_thread_count p = card {i. \<exists>t. threads p i = Some t \<and> tcb_state t \<noteq> TTerminated}"

section \<open>The thread table\<close>

text \<open>
  Threads are filed under their own id, there is a main thread exactly when there is any thread, and the
  main and the current thread are in the table.
\<close>

definition pcb_wf :: "PCB \<Rightarrow> bool" where
  "pcb_wf p \<longleftrightarrow> finite (dom (threads p)) \<and> (\<forall>i t. threads p i = Some t \<longrightarrow> tcb_tid t = i) \<and>
     (main_tid p = None \<longleftrightarrow> threads p = Map.empty) \<and>
     (\<forall>i. main_tid p = Some i \<longrightarrow> i \<in> dom (threads p)) \<and> (\<forall>i. current_tid p = Some i \<longrightarrow> i \<in> dom (threads p))"

lemma pcb_wf_new: "pcb_wf (PCB_new now p nm parent)"
  by (simp add: pcb_wf_def PCB_new_def)

lemma pcb_wf_add [inv_intros]: "pcb_wf p \<Longrightarrow> pcb_wf (snd (add_thread t p))"
  by (auto simp: pcb_wf_def add_thread_def Let_def)

lemma first_key_None: "first_key ks = None \<longleftrightarrow> ks = []"
  by (cases ks) (simp_all add: first_key_def)

lemma first_key_Some: "first_key ks = Some k \<Longrightarrow> k \<in> set ks"
  by (cases ks) (simp_all add: first_key_def)

lemma pcb_wf_remove [inv_intros]:
  assumes "pcb_wf p" "set ks = dom (threads p) - {i}"
  shows "pcb_wf (snd (remove_thread ks i p))"
proof -
  have ks: "ks = [] \<longleftrightarrow> (threads p)(i := None) = Map.empty"
    using assms(2) by (metis dom_eq_empty_conv dom_fun_upd set_empty2 fun_upd_same)
  have mem: "k \<in> dom (threads p) \<and> k \<noteq> i" if "first_key ks = Some k" for k
    using first_key_Some [OF that] assms(2) by auto
  have all: "(threads p)(i := None) = Map.empty \<Longrightarrow> main_tid p = None \<or> main_tid p = Some i"
    using assms(1) by (cases "main_tid p") (auto simp: pcb_wf_def fun_eq_iff split: if_splits)
  show ?thesis
    using assms(1) ks mem all
    by (auto simp: pcb_wf_def remove_thread_def Let_def first_key_None dom_def)
qed

lemma pcb_wf_map [inv_intros]:
  "pcb_wf p \<Longrightarrow> (\<And>t. tcb_tid (f t) = tcb_tid t) \<Longrightarrow> pcb_wf (p\<lparr>pcb_state := st, threads := (\<lambda>i. map_option f (threads p i))\<rparr>)"
  by (auto simp: pcb_wf_def dom_def fun_eq_iff)

section \<open>The life of a process\<close>

text \<open>The operations on the threads and the state, from the creation of the block.\<close>

inductive pcb_reach :: "PCB \<Rightarrow> bool" where
  new: "pcb_reach (PCB_new now p nm parent)"
| add: "pcb_reach p \<Longrightarrow> pcb_reach (snd (add_thread t p))"
| remove: "pcb_reach p \<Longrightarrow> set ks = dom (threads p) - {i} \<Longrightarrow> pcb_reach (snd (remove_thread ks i p))"
| set_state: "pcb_reach p \<Longrightarrow> pcb_reach (pcb_set_state st p)"
| block: "pcb_reach p \<Longrightarrow> pcb_reach (pcb_block r p)"
| unblock: "pcb_reach p \<Longrightarrow> pcb_reach (pcb_unblock p)"
| terminate: "pcb_reach p \<Longrightarrow> pcb_reach (pcb_terminate code p)"
| thread: "pcb_reach p \<Longrightarrow> (\<And>t. tcb_tid (f t) = tcb_tid t) \<Longrightarrow> pcb_reach (update_thread i f p)"

lemma tcb_tid_kept [simp]: "tcb_tid (tcb_block r t) = tcb_tid t" "tcb_tid (tcb_unblock t) = tcb_tid t"
  by (simp_all add: tcb_block_def tcb_unblock_def)

lemma pcb_wf_update: "pcb_wf p \<Longrightarrow> (\<And>t. tcb_tid (f t) = tcb_tid t) \<Longrightarrow> pcb_wf (update_thread i f p)"
proof -
  assume wf: "pcb_wf p" and f: "\<And>t. tcb_tid (f t) = tcb_tid t"
  have d: "dom (threads (update_thread i f p)) = dom (threads p)" by (auto simp: update_thread_def split: if_splits)
  then have "threads (update_thread i f p) = Map.empty \<longleftrightarrow> threads p = Map.empty" by (metis dom_eq_empty_conv)
  then show ?thesis using wf f d unfolding pcb_wf_def by (auto simp: update_thread_def split: if_splits)
qed

lemma pcb_wf_threads:
  "pcb_wf p \<longleftrightarrow> pcb_wf q" if "threads p = threads q" "main_tid p = main_tid q" "current_tid p = current_tid q"
  using that by (simp add: pcb_wf_def)

lemma pcb_wf_set_state [inv_intros]: "pcb_wf p \<Longrightarrow> pcb_wf (pcb_set_state st p)"
  by (subst pcb_wf_threads [of _ p]) (simp_all add: pcb_set_state_def)

lemma pcb_wf_block [inv_intros]: "pcb_wf p \<Longrightarrow> pcb_wf (pcb_block r p)"
  unfolding pcb_block_def by (rule pcb_wf_map) simp_all

lemma pcb_wf_unblock [inv_intros]: "pcb_wf p \<Longrightarrow> pcb_wf (pcb_unblock p)"
  unfolding pcb_unblock_def by (simp add: pcb_wf_map)

lemma pcb_wf_terminate [inv_intros]: "pcb_wf p \<Longrightarrow> pcb_wf (pcb_terminate code p)"
  by (subst pcb_wf_threads [of _ "p\<lparr>pcb_state := PTerminated code, threads := (\<lambda>i. map_option (\<lambda>t. t\<lparr>tcb_state := TTerminated\<rparr>) (threads p i))\<rparr>"])
     (simp_all add: pcb_terminate_def pcb_wf_map)

lemma pcb_reach_wf: "pcb_reach p \<Longrightarrow> pcb_wf p"
  by (induction rule: pcb_reach.induct)
     (rule pcb_wf_new pcb_wf_add pcb_wf_remove pcb_wf_set_state pcb_wf_block pcb_wf_unblock pcb_wf_terminate pcb_wf_update; assumption)+

text \<open>
  C38. Control blocks stay consistent. After any sequence of operations on its threads and its state, a
  process has a main thread exactly when it has threads, a recorded main and a recorded current thread exist in its table
  (the first of the remaining threads takes over when one of them is removed, in whatever order the map
  lists them), and every thread is filed under its own id.
\<close>

theorem pcb_threads_consistent:
  assumes "pcb_reach p"
  shows "(main_tid p = None \<longleftrightarrow> thread_count p = 0) \<and>
         (\<forall>i. main_tid p = Some i \<longrightarrow> get_thread i p \<noteq> None) \<and>
         (current_tid p \<noteq> None \<longrightarrow> current_thread p \<noteq> None) \<and>
         (\<forall>i t. get_thread i p = Some t \<longrightarrow> tcb_tid t = i)"
proof -
  note wf = pcb_reach_wf [OF assms, unfolded pcb_wf_def]
  have "thread_count p = 0 \<longleftrightarrow> threads p = Map.empty" using wf by (simp add: thread_count_def)
  then show ?thesis using wf by (auto simp: current_thread_def get_thread_def)
qed

theorem pcb_threads_consistent_witness:
  "main_tid (snd (add_thread (TCB_new 1 0 0) (PCB_new 0 7 ''init'' None))) = Some 1 \<and>
   get_thread 1 (snd (add_thread (TCB_new 1 0 0) (PCB_new 0 7 ''init'' None))) \<noteq> None"
proof -
  have "pcb_reach (snd (add_thread (TCB_new 1 0 0) (PCB_new 0 7 ''init'' None)))"
    by (intro pcb_reach.add pcb_reach.new)
  from pcb_threads_consistent [OF this]
  show ?thesis by (simp add: add_thread_def TCB_new_def PCB_new_def get_thread_def)
qed

text \<open>
  Blocking and unblocking is not conditional on the state: a terminated process that is blocked and unblocked
  is ready again, with all its threads.
\<close>

lemma pcb_unblock_block:
  "pcb_unblock (pcb_block r p) =
     p\<lparr>pcb_state := PReady, threads := (\<lambda>i. map_option (\<lambda>t. t\<lparr>tcb_state := TReady, tcb_block_reason := None\<rparr>) (threads p i))\<rparr>"
  by (auto simp: pcb_unblock_def pcb_block_def state_is_blocked_def tcb_unblock_def tcb_block_def tcb_is_blocked_def
      option.map_comp o_def fun_eq_iff)

lemma terminated_revives: "pcb_is_runnable (pcb_unblock (pcb_block r (pcb_terminate code p))) \<longleftrightarrow> threads p \<noteq> Map.empty"
  by (auto simp: pcb_unblock_block pcb_is_runnable_def pcb_terminate_def fun_eq_iff)

text \<open>Messages come out in the order they went in, signals in the opposite order.\<close>

lemma messages_fifo: "pcb_messages p = [] \<Longrightarrow> fst (dequeue_message (enqueue_message y (enqueue_message x p))) = Some x"
  by (simp add: dequeue_message_def enqueue_message_def)

lemma signals_lifo: "fst (take_signal (add_signal y (add_signal x p))) = Some y"
  by (simp add: take_signal_def add_signal_def)

end
