(* ===== verification/IPC.thy ===== *)
theory IPC
  imports Error_Format
begin

text \<open>
  Message queues and shared memory (\<^verbatim>\<open>src/services/process/ipc.rs\<close>). Queues and regions are shared by
  reference; the manager holds them by key, and an update through a reference writes the entry back. Where a
  hash map is listed, the order of its keys is an argument.
\<close>

section \<open>Message queues\<close>

record QueuedMessage =
  qm_message :: IPCMessage
  qm_from_pid :: pid
  qm_from_tid :: tid

record MessageQueue =
  mq_owner :: pid
  capacity :: nat
  messages :: "QueuedMessage list"
  total_sent :: u64
  total_received :: u64

datatype QueueError = QueueFull | QueueNotFound | QueuePermissionDenied | QueueClosed

definition MessageQueue_new :: "pid \<Rightarrow> nat \<Rightarrow> MessageQueue" where
  "MessageQueue_new p cap = \<lparr>mq_owner = p, capacity = cap, messages = [], total_sent = 0, total_received = 0\<rparr>"

definition mq_is_full :: "MessageQueue \<Rightarrow> bool" where
  "mq_is_full q \<longleftrightarrow> capacity q > 0 \<and> length (messages q) \<ge> capacity q"

definition mq_send :: "pid \<Rightarrow> tid \<Rightarrow> IPCMessage \<Rightarrow> MessageQueue \<Rightarrow> (QueueError, unit) result \<times> MessageQueue" where
  "mq_send p t msg q =
     (if capacity q > 0 \<and> length (messages q) \<ge> capacity q then (Inl QueueFull, q)
      else (Inr (), q\<lparr>messages := messages q @ [\<lparr>qm_message = msg, qm_from_pid = p, qm_from_tid = t\<rparr>],
                      total_sent := total_sent q + 1\<rparr>))"

definition mq_receive :: "MessageQueue \<Rightarrow> QueuedMessage option \<times> MessageQueue" where
  "mq_receive q =
     (case messages q of
        [] \<Rightarrow> (None, q)
      | x # xs \<Rightarrow> (Some x, q\<lparr>messages := xs, total_received := total_received q + 1\<rparr>))"

definition mq_peek :: "MessageQueue \<Rightarrow> QueuedMessage option" where
  "mq_peek q = (case messages q of [] \<Rightarrow> None | x # _ \<Rightarrow> Some x)"

definition mq_len :: "MessageQueue \<Rightarrow> nat" where
  "mq_len q = length (messages q)"

definition mq_is_empty :: "MessageQueue \<Rightarrow> bool" where
  "mq_is_empty q \<longleftrightarrow> messages q = []"

definition mq_clear :: "MessageQueue \<Rightarrow> MessageQueue" where
  "mq_clear q = q\<lparr>messages := []\<rparr>"

section \<open>Shared memory regions\<close>

record SharedMemoryRegion =
  shmid :: u64
  shm_creator :: pid
  shm_size :: nat
  physical_addr :: phys_addr
  shm_prot :: MemProt
  ref_count :: nat
  attached :: "pid \<rightharpoonup> virt_addr"
  marked_for_deletion :: bool

definition SharedMemoryRegion_new :: "u64 \<Rightarrow> pid \<Rightarrow> nat \<Rightarrow> phys_addr \<Rightarrow> MemProt \<Rightarrow> SharedMemoryRegion" where
  "SharedMemoryRegion_new i p sz pa prot =
     \<lparr>shmid = i, shm_creator = p, shm_size = sz, physical_addr = pa, shm_prot = prot, ref_count = 0,
      attached = (\<lambda>_. None), marked_for_deletion = False\<rparr>"

definition shm_attach :: "pid \<Rightarrow> virt_addr \<Rightarrow> SharedMemoryRegion \<Rightarrow> SharedMemoryRegion" where
  "shm_attach p va r = r\<lparr>attached := (attached r)(p \<mapsto> va), ref_count := ref_count r + 1\<rparr>"

definition shm_detach :: "pid \<Rightarrow> SharedMemoryRegion \<Rightarrow> bool \<times> SharedMemoryRegion" where
  "shm_detach p r =
     (case attached r p of
        Some _ \<Rightarrow> (True, r\<lparr>attached := (attached r)(p := None), ref_count := ref_count r - 1\<rparr>)
      | None \<Rightarrow> (False, r))"

definition get_vaddr :: "pid \<Rightarrow> SharedMemoryRegion \<Rightarrow> virt_addr option" where
  "get_vaddr p r = attached r p"

definition is_attached :: "pid \<Rightarrow> SharedMemoryRegion \<Rightarrow> bool" where
  "is_attached p r \<longleftrightarrow> attached r p \<noteq> None"

definition can_delete :: "SharedMemoryRegion \<Rightarrow> bool" where
  "can_delete r \<longleftrightarrow> marked_for_deletion r \<and> ref_count r = 0"

definition mark_for_deletion :: "SharedMemoryRegion \<Rightarrow> SharedMemoryRegion" where
  "mark_for_deletion r = r\<lparr>marked_for_deletion := True\<rparr>"

section \<open>The manager\<close>

datatype IPCError = IpcNotFound u64 | IpcLocked | IpcPermissionDenied | IpcInvalidSize | IpcOutOfMemory

definition ipc_error_fmt :: "IPCError \<Rightarrow> string" where
  "ipc_error_fmt e =
     (case e of
        IpcNotFound i \<Rightarrow> ''Shared memory region '' @ dec64 i @ '' not found''
      | IpcLocked \<Rightarrow> ''Region is locked''
      | IpcPermissionDenied \<Rightarrow> ''Permission denied''
      | IpcInvalidSize \<Rightarrow> ''Invalid size''
      | IpcOutOfMemory \<Rightarrow> ''Out of memory'')"

record IPCManager =
  message_queues :: "pid \<rightharpoonup> MessageQueue"
  shared_memory :: "u64 \<rightharpoonup> SharedMemoryRegion"
  next_shmid :: u64

definition IPCManager_new :: IPCManager where
  "IPCManager_new = \<lparr>message_queues = (\<lambda>_. None), shared_memory = (\<lambda>_. None), next_shmid = 1\<rparr>"

text \<open>The queue a process reads; one that does not exist is made up and not recorded.\<close>

definition get_message_queue :: "pid \<Rightarrow> IPCManager \<Rightarrow> MessageQueue" where
  "get_message_queue p m = (case message_queues m p of Some q \<Rightarrow> q | None \<Rightarrow> MessageQueue_new p 0)"

text \<open>An update through the reference that \<^verbatim>\<open>get_message_queue\<close> returns reaches the manager only for a recorded queue.\<close>

definition update_queue :: "pid \<Rightarrow> MessageQueue \<Rightarrow> IPCManager \<Rightarrow> IPCManager" where
  "update_queue p q m =
     (case message_queues m p of None \<Rightarrow> m | Some _ \<Rightarrow> m\<lparr>message_queues := (message_queues m)(p \<mapsto> q)\<rparr>)"

definition ensure_message_queue :: "pid \<Rightarrow> IPCManager \<Rightarrow> MessageQueue \<times> IPCManager" where
  "ensure_message_queue p m =
     (case message_queues m p of
        Some q \<Rightarrow> (q, m)
      | None \<Rightarrow> (MessageQueue_new p 0, m\<lparr>message_queues := (message_queues m)(p \<mapsto> MessageQueue_new p 0)\<rparr>))"

definition remove_message_queue :: "pid \<Rightarrow> IPCManager \<Rightarrow> MessageQueue option \<times> IPCManager" where
  "remove_message_queue p m = (message_queues m p, m\<lparr>message_queues := (message_queues m)(p := None)\<rparr>)"

definition create_shared_memory :: "pid \<Rightarrow> nat \<Rightarrow> phys_addr \<Rightarrow> MemProt \<Rightarrow> IPCManager \<Rightarrow> u64 \<times> IPCManager" where
  "create_shared_memory p sz pa prot m =
     (let i = next_shmid m in
      (i, m\<lparr>next_shmid := i + 1, shared_memory := (shared_memory m)(i \<mapsto> SharedMemoryRegion_new i p sz pa prot)\<rparr>))"

definition get_shared_memory :: "u64 \<Rightarrow> IPCManager \<Rightarrow> SharedMemoryRegion option" where
  "get_shared_memory i m = shared_memory m i"

definition attach_shared_memory :: "u64 \<Rightarrow> pid \<Rightarrow> virt_addr \<Rightarrow> IPCManager \<Rightarrow> (IPCError, unit) result \<times> IPCManager" where
  "attach_shared_memory i p va m =
     (case shared_memory m i of
        None \<Rightarrow> (Inl (IpcNotFound i), m)
      | Some r \<Rightarrow> (Inr (), m\<lparr>shared_memory := (shared_memory m)(i \<mapsto> shm_attach p va r)\<rparr>))"

definition detach_shared_memory :: "u64 \<Rightarrow> pid \<Rightarrow> IPCManager \<Rightarrow> (IPCError, bool) result \<times> IPCManager" where
  "detach_shared_memory i p m =
     (case shared_memory m i of
        None \<Rightarrow> (Inl (IpcNotFound i), m)
      | Some r \<Rightarrow> (case shm_detach p r of
                     (b, r') \<Rightarrow> (Inr b, m\<lparr>shared_memory := (shared_memory m)(i \<mapsto> r')\<rparr>)))"

definition mark_shared_memory_for_deletion :: "u64 \<Rightarrow> IPCManager \<Rightarrow> (IPCError, unit) result \<times> IPCManager" where
  "mark_shared_memory_for_deletion i m =
     (case shared_memory m i of
        None \<Rightarrow> (Inl (IpcNotFound i), m)
      | Some r \<Rightarrow> (Inr (), m\<lparr>shared_memory := (shared_memory m)(i \<mapsto> mark_for_deletion r)\<rparr>))"

definition deletable :: "IPCManager \<Rightarrow> u64 \<Rightarrow> bool" where
  "deletable m i = (case shared_memory m i of None \<Rightarrow> False | Some r \<Rightarrow> can_delete r)"

definition cleanup_shared_memory :: "u64 list \<Rightarrow> IPCManager \<Rightarrow> u64 list \<times> IPCManager" where
  "cleanup_shared_memory ids m =
     (let dead = filter (deletable m) ids in
      (dead, m\<lparr>shared_memory := (\<lambda>i. if i \<in> set dead then None else shared_memory m i)\<rparr>))"

record SharedMemoryInfo =
  smi_shmid :: u64
  smi_creator :: pid
  smi_size :: nat
  smi_ref_count :: nat
  smi_attached :: "pid set"

definition list_shared_memory :: "u64 list \<Rightarrow> IPCManager \<Rightarrow> (u64 \<times> SharedMemoryInfo) list" where
  "list_shared_memory ids m =
     List.map_filter (\<lambda>i. map_option (\<lambda>r. (i, \<lparr>smi_shmid = i, smi_creator = shm_creator r, smi_size = shm_size r,
        smi_ref_count = ref_count r, smi_attached = dom (attached r)\<rparr>)) (shared_memory m i)) ids"

section \<open>Message queues are first-in first-out\<close>

datatype QueueOp = QSend pid tid IPCMessage | QReceive

text \<open>A run of operations: the accepted messages, the received ones and the queue left.\<close>

fun mq_run :: "QueueOp list \<Rightarrow> MessageQueue \<Rightarrow> QueuedMessage list \<times> QueuedMessage list \<times> MessageQueue" where
  "mq_run [] q = ([], [], q)"
| "mq_run (QSend p t msg # ops) q =
     (case mq_send p t msg q of
        (r, q') \<Rightarrow> (case mq_run ops q' of
          (ins, outs, q'') \<Rightarrow> ((if is_ok r then [\<lparr>qm_message = msg, qm_from_pid = p, qm_from_tid = t\<rparr>] else []) @ ins, outs, q'')))"
| "mq_run (QReceive # ops) q =
     (case mq_receive q of
        (x, q') \<Rightarrow> (case mq_run ops q' of
          (ins, outs, q'') \<Rightarrow> (ins, (case x of None \<Rightarrow> [] | Some m \<Rightarrow> [m]) @ outs, q'')))"

lemma mq_send_cases:
  "mq_send p t msg q =
     (if mq_is_full q then (Inl QueueFull, q)
      else (Inr (), q\<lparr>messages := messages q @ [\<lparr>qm_message = msg, qm_from_pid = p, qm_from_tid = t\<rparr>],
                      total_sent := total_sent q + 1\<rparr>))"
  by (simp add: mq_send_def mq_is_full_def)

lemma mq_run_order:
  "mq_run ops q = (ins, outs, q') \<Longrightarrow> messages q @ ins = outs @ messages q' \<and>
     total_sent q' = total_sent q + of_nat (length ins) \<and> total_received q' = total_received q + of_nat (length outs) \<and>
     capacity q' = capacity q"
proof (induction ops q arbitrary: ins outs q' rule: mq_run.induct)
  case (2 p t msg ops q)
  obtain r q1 where s: "mq_send p t msg q = (r, q1)" by fastforce
  obtain ins1 outs1 q2 where run: "mq_run ops q1 = (ins1, outs1, q2)" by (metis prod_cases3)
  note IH = 2(1) [OF s [symmetric] run]
  show ?case
  proof (cases "mq_is_full q")
    case True
    then show ?thesis using IH s run 2(2) by (auto simp: mq_send_cases)
  next
    case False
    then show ?thesis using IH s run 2(2) by (auto simp: mq_send_cases)
  qed
next
  case (3 ops q)
  obtain x q1 where s: "mq_receive q = (x, q1)" by fastforce
  obtain ins1 outs1 q2 where run: "mq_run ops q1 = (ins1, outs1, q2)" by (metis prod_cases3)
  note IH = 3(1) [OF s [symmetric] run]
  show ?case using IH s run 3(2) by (cases "messages q") (auto simp: mq_receive_def)
qed simp

lemma mq_run_bound:
  "mq_run ops q = (ins, outs, q') \<Longrightarrow> capacity q > 0 \<Longrightarrow> length (messages q) \<le> capacity q \<Longrightarrow> length (messages q') \<le> capacity q"
proof (induction ops q arbitrary: ins outs q' rule: mq_run.induct)
  case (2 p t msg ops q)
  obtain r q1 where s: "mq_send p t msg q = (r, q1)" by fastforce
  have "capacity q1 = capacity q" "length (messages q1) \<le> capacity q"
    using s 2(3,4) by (auto simp: mq_send_cases mq_is_full_def split: if_splits)
  then show ?case using 2 s by (auto split: prod.splits)
next
  case (3 ops q)
  obtain x q1 where s: "mq_receive q = (x, q1)" by fastforce
  have "capacity q1 = capacity q" "length (messages q1) \<le> capacity q"
    using s 3(3,4) by (auto simp: mq_receive_def split: list.splits)
  then show ?case using 3 s by (auto split: prod.splits)
qed simp

section \<open>Properties\<close>

text \<open>
  C34. Message queues neither lose, duplicate nor reorder messages, and respect their capacity. For every
  sequence of sends and receives on a new queue, the accepted messages are, in order, the received ones
  followed by those still in the queue; the 64-bit counters agree with their numbers; and a bounded queue never holds more than its
  capacity.
\<close>

theorem message_queue_fifo:
  assumes "mq_run ops (MessageQueue_new p cap) = (ins, outs, q)"
  shows "ins = outs @ messages q \<and> total_sent q = of_nat (length ins) \<and> total_received q = of_nat (length outs) \<and>
         (cap > 0 \<longrightarrow> mq_len q \<le> cap)"
  using mq_run_order [OF assms] mq_run_bound [OF assms] by (simp add: MessageQueue_new_def mq_len_def)

theorem message_queue_fifo_witness:
  "\<exists>ins outs q. mq_run [QSend 1 1 (IpcPassFd 3), QSend 2 1 (IpcPassFd 4), QReceive] (MessageQueue_new 9 1) = (ins, outs, q) \<and>
     ins = outs @ messages q \<and> mq_len q \<le> 1"
proof -
  obtain ins outs q where run: "mq_run [QSend 1 1 (IpcPassFd 3), QSend 2 1 (IpcPassFd 4), QReceive] (MessageQueue_new 9 1) = (ins, outs, q)"
    by (metis prod_cases3)
  with message_queue_fifo [OF run] show ?thesis by simp
qed

section \<open>Shared memory\<close>

inductive ipc_reach :: "IPCManager \<Rightarrow> bool" where
  new: "ipc_reach IPCManager_new"
| queue: "ipc_reach m \<Longrightarrow> ipc_reach (m\<lparr>message_queues := qs\<rparr>)"
| create: "ipc_reach m \<Longrightarrow> ipc_reach (snd (create_shared_memory p sz pa prot m))"
| attach: "ipc_reach m \<Longrightarrow> ipc_reach (snd (attach_shared_memory i p va m))"
| detach: "ipc_reach m \<Longrightarrow> ipc_reach (snd (detach_shared_memory i p m))"
| mark: "ipc_reach m \<Longrightarrow> ipc_reach (snd (mark_shared_memory_for_deletion i m))"
| cleanup: "ipc_reach m \<Longrightarrow> ipc_reach (snd (cleanup_shared_memory ids m))"

text \<open>The reference count covers every attached process.\<close>

definition shm_wf :: "SharedMemoryRegion \<Rightarrow> bool" where
  "shm_wf r \<longleftrightarrow> finite (dom (attached r)) \<and> card (dom (attached r)) \<le> ref_count r"

lemma shm_wf_attach: "shm_wf r \<Longrightarrow> shm_wf (shm_attach p va r)"
  by (auto simp: shm_wf_def shm_attach_def card_insert_if)

lemma shm_wf_detach: "shm_wf r \<Longrightarrow> shm_wf (snd (shm_detach p r))"
  by (auto simp: shm_wf_def shm_detach_def card_Diff_singleton domI split: option.split)

lemma ipc_reach_shm: "ipc_reach m \<Longrightarrow> shared_memory m i = Some r \<Longrightarrow> shm_wf r"
proof (induction arbitrary: i r rule: ipc_reach.induct)
  case (create m p sz pa prot)
  then show ?case
    by (auto simp: create_shared_memory_def Let_def shm_wf_def SharedMemoryRegion_new_def split: if_splits)
next
  case (attach m j p va)
  then show ?case by (auto simp: attach_shared_memory_def intro: shm_wf_attach split: option.splits if_splits)
next
  case (detach m j p)
  then show ?case
    by (auto simp: detach_shared_memory_def split: option.splits prod.splits if_splits) (metis shm_wf_detach snd_conv)
next
  case (mark m j)
  then show ?case
    by (auto simp: mark_shared_memory_for_deletion_def mark_for_deletion_def shm_wf_def split: option.splits if_splits)
next
  case (cleanup m ids)
  then show ?case by (auto simp: cleanup_shared_memory_def Let_def split: if_splits)
qed (auto simp: IPCManager_new_def)

text \<open>
  Shared memory is never deleted under an attached process. In every state the operations of the
  manager reach, a clean-up removes exactly the listed regions that are marked and whose count is zero, and
  to none of them is a process attached; a detach never takes the count below the number of attached
  processes.
\<close>

theorem shared_memory_safe:
  assumes "ipc_reach m" "cleanup_shared_memory ids m = (dead, m')" "i \<in> set ids" "shared_memory m i = Some r"
  shows "(shared_memory m' i = None \<longleftrightarrow> marked_for_deletion r \<and> ref_count r = 0) \<and>
         (i \<in> set dead \<longleftrightarrow> shared_memory m' i = None) \<and>
         (shared_memory m' i = None \<longrightarrow> (\<forall>p. \<not> is_attached p r)) \<and>
         card (dom (attached r)) \<le> ref_count r"
  using assms ipc_reach_shm [OF assms(1,4)]
  by (auto simp: cleanup_shared_memory_def Let_def deletable_def can_delete_def is_attached_def shm_wf_def split: if_splits)

theorem shared_memory_safe_witness:
  "fst (cleanup_shared_memory [1] (snd (mark_shared_memory_for_deletion 1 (snd (create_shared_memory 7 4096 0 MemProt_read_write IPCManager_new))))) = [1]"
proof -
  let ?c = "snd (create_shared_memory 7 4096 0 MemProt_read_write IPCManager_new)"
  let ?m = "snd (mark_shared_memory_for_deletion 1 ?c)"
  have r: "ipc_reach ?m" by (intro ipc_reach.mark ipc_reach.create ipc_reach.new)
  have s: "shared_memory ?m 1 = Some (mark_for_deletion (SharedMemoryRegion_new 1 7 4096 0 MemProt_read_write))"
    by (simp add: mark_shared_memory_for_deletion_def create_shared_memory_def IPCManager_new_def Let_def)
  have "1 \<in> set (fst (cleanup_shared_memory [1] ?m))"
    using shared_memory_safe [OF r prod.collapse [symmetric] _ s, of "[1]"]
    by (simp add: mark_for_deletion_def SharedMemoryRegion_new_def)
  then show ?thesis by (auto simp: cleanup_shared_memory_def Let_def split: if_splits)
qed

text \<open>A process that attaches twice keeps the region alive for good.\<close>

lemma attach_twice_leaks:
  "ref_count r = 0 \<Longrightarrow> \<not> can_delete (mark_for_deletion (snd (shm_detach p (shm_attach p vb (shm_attach p va r)))))"
  by (simp add: can_delete_def mark_for_deletion_def shm_detach_def shm_attach_def)

text \<open>A message sent to a made-up queue is lost, one sent to an ensured queue is not.\<close>

lemma unrecorded_queue_loses:
  "message_queues m p = None \<Longrightarrow> get_message_queue p (update_queue p (snd (mq_send s t x (get_message_queue p m))) m) = MessageQueue_new p 0"
  by (simp add: update_queue_def get_message_queue_def)

lemma ensured_queue_keeps:
  "ensure_message_queue p m = (q, m') \<Longrightarrow> get_message_queue p (update_queue p (snd (mq_send s t x q)) m') = snd (mq_send s t x q)"
  by (auto simp: ensure_message_queue_def update_queue_def get_message_queue_def split: option.splits)

end
