(* ===== verification/Process_Core.thy ===== *)
theory Process_Core
  imports Assembler Scheduler Sync PCB IPC Bus_Kernel Utf8
begin

text \<open>
  The process service, first part (\<^verbatim>\<open>src/services/process/service.rs\<close>): its state, access to the memory of
  processes, the requests to the other services, and the handlers of scheduling, messages, shared memory,
  synchronisation, forking, executing, waiting and signals.

  The service shares the MMU with the memory service and talks to its peers over the bus. What the peers answer
  and what they do to the page tables in the meantime is a parameter, a record of functions on a world
  state \<open>'w\<close>: the state of everything outside the service. The same record holds the clock, the files that can be
  assembled, and the order in which the hash maps deliver their keys. The processors' own copies of the MMU
  reference are replaced by the one of the service whenever they run.

  The table of processors is behind a mutex that the timer handler holds while it runs a process. An operation
  that would lock it again never returns; \<open>locked\<close> says whether the caller holds it, and \<open>None\<close> is the call
  that never returns.
\<close>

section \<open>Peers\<close>

datatype BusReply = NotSent | NoReply | Reply Response

record 'w Peers =
  ask :: "KernelMsg \<Rightarrow> MMU \<Rightarrow> 'w \<Rightarrow> BusReply \<times> MMU \<times> 'w"
  tell :: "KernelMsg \<Rightarrow> MMU \<Rightarrow> 'w \<Rightarrow> MMU \<times> 'w"
  clock :: "'w \<Rightarrow> nat"
  asm_source :: "'w \<Rightarrow> string \<Rightarrow> string option"
  page_keys :: "'w \<Rightarrow> pid \<Rightarrow> virt_addr list"
  pid_keys :: "'w \<Rightarrow> pid list"
  stack_depth :: nat

record 'w ProcessService =
  process_table :: "pid \<rightharpoonup> PCB"
  next_pid :: u64
  ipc_manager :: IPCManager
  sync_manager :: "SyncManager \<times> SyncStore"
  ps_scheduler :: Scheduler
  parent_children :: "pid \<rightharpoonup> pid list"
  ps_mmu :: MMU
  cpus :: "pid \<rightharpoonup> VirtualCPU"
  pending_forks :: "pid list"
  waiting_parents :: "(pid \<times> pid \<times> chan) list"
  last_running :: "pid option list"
  cpu_count :: nat
  world :: 'w

definition empty_store :: SyncStore where
  "empty_store = \<lparr>sem_objs = (\<lambda>_. None), mutex_objs = (\<lambda>_. None), next_obj = 0\<rparr>"

definition ProcessService_new :: "MMU \<Rightarrow> 'w \<Rightarrow> 'w ProcessService" where
  "ProcessService_new m w =
     \<lparr>process_table = (\<lambda>_. None), next_pid = 1, ipc_manager = IPCManager_new, sync_manager = SyncManager_new empty_store,
      ps_scheduler = Scheduler_new (RoundRobin 3) 2, parent_children = (\<lambda>_. None), ps_mmu = m, cpus = (\<lambda>_. None),
      pending_forks = [], waiting_parents = [], last_running = [None, None], cpu_count = 2, world = w\<rparr>"

definition ps_ask :: "'w Peers \<Rightarrow> KernelMsg \<Rightarrow> 'w ProcessService \<Rightarrow> BusReply \<times> 'w ProcessService" where
  "ps_ask P msg s = (case ask P msg (ps_mmu s) (world s) of (r, m, w) \<Rightarrow> (r, s\<lparr>ps_mmu := m, world := w\<rparr>))"

definition ps_tell :: "'w Peers \<Rightarrow> KernelMsg \<Rightarrow> 'w ProcessService \<Rightarrow> 'w ProcessService" where
  "ps_tell P msg s = (case tell P msg (ps_mmu s) (world s) of (m, w) \<Rightarrow> s\<lparr>ps_mmu := m, world := w\<rparr>)"

text \<open>A request whose answer is not looked at, and the data of an answer.\<close>

definition ps_ask_ignore :: "'w Peers \<Rightarrow> KernelMsg \<Rightarrow> 'w ProcessService \<Rightarrow> 'w ProcessService" where
  "ps_ask_ignore P msg s = snd (ps_ask P msg s)"

definition reply_data :: "BusReply \<Rightarrow> ResponseData option" where
  "reply_data r = (case r of Reply resp \<Rightarrow> response_data resp | _ \<Rightarrow> None)"

definition ps_now :: "'w Peers \<Rightarrow> 'w ProcessService \<Rightarrow> nat" where
  "ps_now P s = clock P (world s)"

text \<open>The entries of a page table in the order in which the map delivers them.\<close>

definition page_entries :: "'w Peers \<Rightarrow> pid \<Rightarrow> 'w ProcessService \<Rightarrow> (virt_addr \<times> phys_addr \<times> PageFlags) list" where
  "page_entries P p s =
     (case page_tables (ps_mmu s) p of
        None \<Rightarrow> []
      | Some t \<Rightarrow> List.map_filter (\<lambda>v. map_option (\<lambda>e. (v, frame e, flags e)) (t v)) (page_keys P (world s) p))"

section \<open>Memory of processes\<close>

definition read_or_zero :: "MMU \<Rightarrow> pid \<Rightarrow> virt_addr \<Rightarrow> u8" where
  "read_or_zero m p a = (case mmu_read_u8 m p a of Inr b \<Rightarrow> b | Inl _ \<Rightarrow> 0)"

definition read_bytes_virt :: "MMU \<Rightarrow> pid \<Rightarrow> virt_addr \<Rightarrow> nat \<Rightarrow> u8 list" where
  "read_bytes_virt m p a n = map (\<lambda>i. read_or_zero m p (a + of_nat i)) [0..<n]"

definition bytes_str :: "u8 list \<Rightarrow> string" where
  "bytes_str bs = map (\<lambda>b. char_of (unat b)) bs"

definition read_string_virt :: "MMU \<Rightarrow> pid \<Rightarrow> virt_addr \<Rightarrow> string" where
  "read_string_virt m p a = bytes_str (from_utf8_lossy (takeWhile (\<lambda>b. b \<noteq> 0) (read_bytes_virt m p a 256)))"

definition write_or_skip :: "pid \<Rightarrow> virt_addr \<Rightarrow> u8 \<Rightarrow> MMU \<Rightarrow> MMU" where
  "write_or_skip p a b m = (case mmu_write_u8 m p a b of Inr m' \<Rightarrow> m' | Inl _ \<Rightarrow> m)"

fun write_slice_virt :: "pid \<Rightarrow> virt_addr \<Rightarrow> u8 list \<Rightarrow> MMU \<Rightarrow> MMU" where
  "write_slice_virt p a [] m = m"
| "write_slice_virt p a (b # bs) m = write_slice_virt p (a + 1) bs (write_or_skip p a b m)"

definition str_bytes :: "string \<Rightarrow> u8 list" where
  "str_bytes cs = map (\<lambda>c. of_nat (of_char c)) cs"

section \<open>Scheduling\<close>

definition proc_not_found :: "pid \<Rightarrow> GenshinError" where
  "proc_not_found p = ServiceE (NotFound ''Process'' (dec64 p))"

definition set_state :: "pid \<Rightarrow> ProcessState \<Rightarrow> 'w ProcessService \<Rightarrow> 'w ProcessService" where
  "set_state p st s = s\<lparr>process_table := (process_table s)(p := map_option (pcb_set_state st) (process_table s p))\<rparr>"

definition sched_op :: "(Scheduler \<Rightarrow> Scheduler) \<Rightarrow> 'w ProcessService \<Rightarrow> 'w ProcessService" where
  "sched_op f s = s\<lparr>ps_scheduler := f (ps_scheduler s)\<rparr>"

definition handle_schedule :: "'w Peers \<Rightarrow> pid \<Rightarrow> tid \<Rightarrow> 'w ProcessService \<Rightarrow> 'w ProcessService" where
  "handle_schedule P p t s =
     (let prio = (case process_table s p of Some pcb \<Rightarrow> pcb_priority pcb | None \<Rightarrow> 128) in
      sched_op (sched_ready (ps_now P s) p t prio) s)"

definition handle_block :: "pid \<Rightarrow> tid \<Rightarrow> 'w ProcessService \<Rightarrow> 'w ProcessService" where
  "handle_block p t s = set_state p (PBlocked (WaitingForIo 0)) (sched_op (\<lambda>sc. snd (sched_block p t sc)) s)"

definition handle_unblock :: "'w Peers \<Rightarrow> pid \<Rightarrow> tid \<Rightarrow> 'w ProcessService \<Rightarrow> 'w ProcessService" where
  "handle_unblock P p t s = handle_schedule P p t (set_state p PReady s)"

definition handle_query_state :: "pid \<Rightarrow> 'w ProcessService \<Rightarrow> (GenshinError, unit) result" where
  "handle_query_state p s = (case process_table s p of Some _ \<Rightarrow> Inr () | None \<Rightarrow> Inl (proc_not_found p))"

definition handle_context_switch :: "'w Peers \<Rightarrow> pid \<Rightarrow> pid \<Rightarrow> 'w ProcessService \<Rightarrow> 'w ProcessService" where
  "handle_context_switch P from_pid to_pid s =
     sched_op (\<lambda>sc. sched_ready (ps_now P s) to_pid 1 128 (snd (sched_block from_pid 1 sc))) s"

section \<open>Messages and shared memory\<close>

primrec queue_error_debug :: "QueueError \<Rightarrow> string" where
  "queue_error_debug QueueFull = ''Full''"
| "queue_error_debug QueueNotFound = ''NotFound''"
| "queue_error_debug QueuePermissionDenied = ''PermissionDenied''"
| "queue_error_debug QueueClosed = ''Closed''"

definition handle_send_message :: "pid \<Rightarrow> pid \<Rightarrow> IPCMessage \<Rightarrow> 'w ProcessService \<Rightarrow> (GenshinError, unit) result \<times> 'w ProcessService" where
  "handle_send_message from_pid to_pid msg s =
     (if process_table s from_pid = None then (Inl (proc_not_found from_pid), s)
      else if process_table s to_pid = None then (Inl (proc_not_found to_pid), s)
      else case ensure_message_queue to_pid (ipc_manager s) of
             (q, im) \<Rightarrow>
               (case mq_send from_pid 1 msg q of
                  (Inl e, q') \<Rightarrow> (Inl (ServiceE (OtherError 10 (''Queue error: '' @ queue_error_debug e))), s\<lparr>ipc_manager := update_queue to_pid q' im\<rparr>)
                | (Inr _, q') \<Rightarrow> (Inr (), s\<lparr>ipc_manager := update_queue to_pid q' im\<rparr>)))"

definition handle_receive_message :: "pid \<Rightarrow> bool \<Rightarrow> 'w ProcessService \<Rightarrow> 'w ProcessService" where
  "handle_receive_message p blocking s =
     (case mq_receive (get_message_queue p (ipc_manager s)) of
        (Some _, q') \<Rightarrow> s\<lparr>ipc_manager := update_queue p q' (ipc_manager s)\<rparr>
      | (None, _) \<Rightarrow> if blocking then handle_block p 1 s else s)"

definition shm_physical_addr :: "pid \<Rightarrow> phys_addr" where
  "shm_physical_addr p = 0x1000 + p * 0x1000"

definition handle_create_shared_memory :: "pid \<Rightarrow> nat \<Rightarrow> MemProt \<Rightarrow> 'w ProcessService \<Rightarrow> 'w ProcessService" where
  "handle_create_shared_memory p sz prot s =
     s\<lparr>ipc_manager := snd (create_shared_memory p sz (shm_physical_addr p) prot (ipc_manager s))\<rparr>"

primrec ipc_error_debug :: "IPCError \<Rightarrow> string" where
  "ipc_error_debug (IpcNotFound i) = ''NotFound('' @ dec64 i @ '')''"
| "ipc_error_debug IpcLocked = ''Locked''"
| "ipc_error_debug IpcPermissionDenied = ''PermissionDenied''"
| "ipc_error_debug IpcInvalidSize = ''InvalidSize''"
| "ipc_error_debug IpcOutOfMemory = ''OutOfMemory''"

definition handle_attach_shared_memory :: "pid \<Rightarrow> u64 \<Rightarrow> 'w ProcessService \<Rightarrow> (GenshinError, unit) result \<times> 'w ProcessService" where
  "handle_attach_shared_memory p i s =
     (case attach_shared_memory i p (0x5000 + i * 0x1000) (ipc_manager s) of
        (r, im) \<Rightarrow> (map_err (\<lambda>e. ServiceE (OtherError 11 (''IPC error: '' @ ipc_error_debug e))) r, s\<lparr>ipc_manager := im\<rparr>))"

definition handle_detach_shared_memory :: "pid \<Rightarrow> u64 \<Rightarrow> 'w ProcessService \<Rightarrow> (GenshinError, unit) result \<times> 'w ProcessService" where
  "handle_detach_shared_memory p i s =
     (case detach_shared_memory i p (ipc_manager s) of
        (r, im) \<Rightarrow> (rbind (map_err (\<lambda>e. ServiceE (OtherError 12 (''IPC error: '' @ ipc_error_debug e))) r) (\<lambda>_. Inr ()), s\<lparr>ipc_manager := im\<rparr>))"

section \<open>Synchronisation\<close>

text \<open>A call of a method of a semaphore or mutex found by its number.\<close>

definition with_sem :: "u64 \<Rightarrow> (Semaphore \<Rightarrow> 'a \<times> Semaphore) \<Rightarrow> SyncManager \<times> SyncStore \<Rightarrow> 'a option \<times> SyncManager \<times> SyncStore" where
  "with_sem i f st =
     (case get_semaphore i st of
        None \<Rightarrow> (None, st)
      | Some a \<Rightarrow>
          (case sem_objs (snd st) a of
             None \<Rightarrow> (None, st)
           | Some sem \<Rightarrow> (case f sem of (r, sem') \<Rightarrow> (Some r, fst st, (snd st)\<lparr>sem_objs := (sem_objs (snd st))(a \<mapsto> sem')\<rparr>))))"

definition with_mutex :: "u64 \<Rightarrow> (MutexLock \<Rightarrow> 'a \<times> MutexLock) \<Rightarrow> SyncManager \<times> SyncStore \<Rightarrow> 'a option \<times> SyncManager \<times> SyncStore" where
  "with_mutex i f st =
     (case get_mutex i st of
        None \<Rightarrow> (None, st)
      | Some a \<Rightarrow>
          (case mutex_objs (snd st) a of
             None \<Rightarrow> (None, st)
           | Some m \<Rightarrow> (case f m of (r, m') \<Rightarrow> (Some r, fst st, (snd st)\<lparr>mutex_objs := (mutex_objs (snd st))(a \<mapsto> m')\<rparr>))))"

definition handle_create_semaphore :: "pid \<Rightarrow> u32 \<Rightarrow> 'w ProcessService \<Rightarrow> 'w ProcessService" where
  "handle_create_semaphore p v s = s\<lparr>sync_manager := snd (create_semaphore p v (sync_manager s))\<rparr>"

definition handle_wait_semaphore :: "pid \<Rightarrow> u64 \<Rightarrow> 'w ProcessService \<Rightarrow> (GenshinError, unit) result \<times> 'w ProcessService" where
  "handle_wait_semaphore p i s =
     (case with_sem i sem_wait (sync_manager s) of
        (None, _) \<Rightarrow> (Inl (ServiceE (NotFound ''Semaphore'' (dec64 i))), s)
      | (Some SemWouldBlock, st) \<Rightarrow> (Inr (), handle_block p 1 (s\<lparr>sync_manager := st\<rparr>))
      | (Some _, st) \<Rightarrow> (Inr (), s\<lparr>sync_manager := st\<rparr>))"

definition handle_signal_semaphore :: "u64 \<Rightarrow> 'w ProcessService \<Rightarrow> 'w ProcessService" where
  "handle_signal_semaphore i s = s\<lparr>sync_manager := snd (with_sem i sem_signal (sync_manager s))\<rparr>"

definition handle_create_lock :: "pid \<Rightarrow> 'w ProcessService \<Rightarrow> 'w ProcessService" where
  "handle_create_lock p s = s\<lparr>sync_manager := snd (create_mutex p False (sync_manager s))\<rparr>"

definition handle_acquire_lock :: "pid \<Rightarrow> u64 \<Rightarrow> 'w ProcessService \<Rightarrow> 'w ProcessService" where
  "handle_acquire_lock p i s =
     (case with_mutex i (try_acquire p) (sync_manager s) of
        (Some MxWouldBlock, st) \<Rightarrow> handle_block p 1 (s\<lparr>sync_manager := st\<rparr>)
      | (_, st) \<Rightarrow> s\<lparr>sync_manager := st\<rparr>)"

definition handle_release_lock :: "pid \<Rightarrow> u64 \<Rightarrow> 'w ProcessService \<Rightarrow> 'w ProcessService" where
  "handle_release_lock p i s = s\<lparr>sync_manager := snd (with_mutex i (release p) (sync_manager s))\<rparr>"

text \<open>
  What happens to semaphore 0 and mutex 0 when a process dies: a semaphore with the value zero is signalled, whoever
  took it; a mutex is released if the process owns it.
\<close>

definition signal_if_zero :: "Semaphore \<Rightarrow> unit \<times> Semaphore" where
  "signal_if_zero sem = ((), if sem_value sem = 0 then snd (sem_signal sem) else sem)"

definition release_if_owner :: "pid \<Rightarrow> MutexLock \<Rightarrow> unit \<times> MutexLock" where
  "release_if_owner p m = ((), if mutex_owner m = Some p then snd (release p m) else m)"

definition release_on_death :: "pid \<Rightarrow> SyncManager \<times> SyncStore \<Rightarrow> SyncManager \<times> SyncStore" where
  "release_on_death p st = snd (with_mutex 0 (release_if_owner p) (snd (with_sem 0 signal_if_zero st)))"

section \<open>Fork\<close>

definition bus_other :: "u32 \<Rightarrow> string \<Rightarrow> GenshinError" where
  "bus_other code msg = ServiceE (OtherError code msg)"

definition take_pid :: "'w ProcessService \<Rightarrow> pid \<times> 'w ProcessService" where
  "take_pid s = (next_pid s, s\<lparr>next_pid := next_pid s + 1\<rparr>)"

text \<open>The copy of one page, byte by byte; bytes that cannot be read or written are skipped.\<close>

definition copy_byte :: "pid \<Rightarrow> pid \<Rightarrow> virt_addr \<Rightarrow> MMU \<Rightarrow> MMU" where
  "copy_byte p c a m = (case mmu_read_u8 m p a of Inr b \<Rightarrow> write_or_skip c a b m | Inl _ \<Rightarrow> m)"

fun copy_bytes :: "pid \<Rightarrow> pid \<Rightarrow> virt_addr \<Rightarrow> nat \<Rightarrow> MMU \<Rightarrow> MMU" where
  "copy_bytes p c a 0 m = m"
| "copy_bytes p c a (Suc n) m = copy_bytes p c (a + 1) n (copy_byte p c a m)"

definition clone_page :: "'w Peers \<Rightarrow> pid \<Rightarrow> pid \<Rightarrow> virt_addr \<times> phys_addr \<times> PageFlags \<Rightarrow> 'w ProcessService \<Rightarrow> (GenshinError, unit) result \<times> 'w ProcessService" where
  "clone_page P p c entry s =
     (case entry of (va, _, fl) \<Rightarrow>
        (case ps_ask P (MemoryMsg (AllocFrame 1 c)) s of
           (NotSent, s1) \<Rightarrow> (Inl (bus_other 90 ''alloc''), s1)
         | (NoReply, s1) \<Rightarrow> (Inl (bus_other 91 ''timeout''), s1)
         | (Reply resp, s1) \<Rightarrow>
             (case response_data resp of
                Some (PhysicalAddr a) \<Rightarrow>
                  (let s2 = ps_ask_ignore P (MemoryMsg (MapPage c va a
                              \<lparr>readable = True, writable = True, executable = \<not> page_writable fl\<rparr>)) s1
                   in (Inr (), s2\<lparr>ps_mmu := copy_bytes p c va 4096 (ps_mmu s2)\<rparr>))
              | _ \<Rightarrow> (Inr (), s1))))"

fun clone_pages :: "'w Peers \<Rightarrow> pid \<Rightarrow> pid \<Rightarrow> (virt_addr \<times> phys_addr \<times> PageFlags) list \<Rightarrow> 'w ProcessService \<Rightarrow> (GenshinError, unit) result \<times> 'w ProcessService" where
  "clone_pages P p c [] s = (Inr (), s)"
| "clone_pages P p c (e # es) s =
     (case clone_page P p c e s of
        (Inl err, s') \<Rightarrow> (Inl err, s')
      | (Inr _, s') \<Rightarrow> clone_pages P p c es s')"

text \<open>The processor of the child: counter, stack pointer and registers of the parent's, with register 0 cleared.\<close>

definition child_cpu :: "MMU \<Rightarrow> VirtualCPU option \<Rightarrow> pid \<Rightarrow> VirtualCPU" where
  "child_cpu m parent c =
     (let fresh = VirtualCPU_new m [] c;
          copied = (case parent of
                      Some pc' \<Rightarrow>
                        fold (\<lambda>r k. case reg_from_index r of Some reg \<Rightarrow> write_register k reg (registers pc' ! r) | None \<Rightarrow> k) [0..<4]
                          (set_sp (set_pc fresh (pc pc')) (sp pc'))
                    | None \<Rightarrow> set_sp (set_pc fresh 0) 0xFFFF)
      in write_register copied R0 0)"

definition fork_fresh :: "'w Peers \<Rightarrow> bool \<Rightarrow> 'w ProcessService \<Rightarrow> ((GenshinError, pid) result \<times> 'w ProcessService) option" where
  "fork_fresh P locked s =
     (case take_pid s of (c, s1) \<Rightarrow>
        if locked then None
        else Some (Inr c, s1\<lparr>cpus := (cpus s1)(c \<mapsto> VirtualCPU_new (ps_mmu s1) [] c),
                            process_table := (process_table s1)(c \<mapsto> PCB_new (ps_now P s1) c ''init'' None)\<rparr>))"

definition fork_impl :: "'w Peers \<Rightarrow> bool \<Rightarrow> pid \<Rightarrow> 'w ProcessService \<Rightarrow> ((GenshinError, pid) result \<times> 'w ProcessService) option" where
  "fork_impl P locked p s =
     (if p = 0 then fork_fresh P locked s
      else if process_table s p = None then Some (Inl (proc_not_found p), s)
      else case take_pid s of (c, s1) \<Rightarrow>
        (case clone_pages P p c (page_entries P p s1) s1 of
           (Inl e, s2) \<Rightarrow> Some (Inl e, s2)
         | (Inr _, s2) \<Rightarrow>
             if locked then None
             else
               let pcb = (PCB_new (ps_now P s2) c (''(fork of '' @ dec64 p @ '')'') (Some p))\<lparr>pcb_state := PReady\<rparr>;
                   kids = (case parent_children s2 p of None \<Rightarrow> [] | Some cs \<Rightarrow> cs);
                   s3 = s2\<lparr>cpus := (cpus s2)(c \<mapsto> child_cpu (ps_mmu s2) (cpus s2 p) c),
                          process_table := (process_table s2)(c \<mapsto> pcb),
                          parent_children := (parent_children s2)(p \<mapsto> kids @ [c])\<rparr>
               in Some (Inr c, ps_ask_ignore P (FileMsg (CloneFds p c)) s3)))"

section \<open>Programs\<close>

definition load_program :: "'w Peers \<Rightarrow> string \<Rightarrow> 'w ProcessService \<Rightarrow> u8 list option" where
  "load_program P nm s =
     (case asm_source P (world s) (''programs/'' @ nm @ ''.asm'') of
        None \<Rightarrow> None
      | Some src \<Rightarrow> (case assemble src of Inr code \<Rightarrow> Some code | Inl _ \<Rightarrow> None))"

definition prog_halt :: "u8 list" where
  "prog_halt = [0x01, 0x00, 0x01, 0x00, 0x00, 0x00, 0x00, 0x00, 0x80, 0x00, 0x00, 0x00, 0x80, 0x00, 0x00, 0x00]"

definition prog_int :: "u8 list" where
  "prog_int = [0x80, 0x00, 0x00, 0x00, 0x80, 0x00, 0x00, 0x00]"

definition prog_mov :: "u8 \<Rightarrow> u8 \<Rightarrow> u8 list" where
  "prog_mov r v = [0x01, r, 0x01, 0x00, v, 0x00, 0x00, 0x00]"

definition gen_builtin_program :: "string \<Rightarrow> nat \<Rightarrow> u8 list" where
  "gen_builtin_program nm data_len =
     (if nm = ''ls'' \<or> nm = ''listdir'' then prog_mov 0 18 @ prog_int @ prog_halt
      else if nm = ''mkdir'' then prog_mov 0 14 @ prog_int @ prog_halt
      else if nm = ''rm'' \<or> nm = ''unlink'' then prog_mov 0 16 @ prog_int @ prog_halt
      else if nm = ''touch'' \<or> nm = ''open'' then prog_mov 1 1 @ prog_mov 0 10 @ prog_int @ prog_mov 0 11 @ prog_int @ prog_halt
      else if nm = ''cat'' \<or> nm = ''read'' then
        prog_mov 0 10 @ prog_int @ prog_mov 0 12 @ prog_mov 2 0x10 @ prog_int @ prog_mov 0 11 @ prog_int @ prog_halt
      else if nm = ''write'' then
        prog_mov 1 1 @ prog_mov 0 10 @ prog_int @ prog_mov 0 13 @ prog_mov 2 (of_nat data_len) @ prog_int @ prog_mov 0 11 @ prog_int @ prog_halt
      else if nm = ''stat'' then prog_mov 0 17 @ prog_int @ prog_halt
      else if nm = ''busy'' then concat (map (\<lambda>i. prog_mov 1 (of_nat i)) [0..<15]) @ prog_halt
      else if nm = ''fork'' then prog_mov 0 100 @ prog_int @ prog_halt
      else if nm = ''exec'' then prog_mov 0 101 @ prog_int @ prog_halt
      else if nm = ''tree'' then prog_mov 0 102 @ prog_int @ prog_halt
      else [0xFF, 0x00, 0x00, 0x00, 0x00, 0x00, 0x00, 0x00])"

section \<open>Exec\<close>

text \<open>The frames are taken to follow the first one.\<close>

definition alloc_frames :: "'w Peers \<Rightarrow> nat \<Rightarrow> pid \<Rightarrow> 'w ProcessService \<Rightarrow> (GenshinError, u64 list) result \<times> 'w ProcessService" where
  "alloc_frames P n p s =
     (case ps_ask P (MemoryMsg (AllocFrame n p)) s of
        (NotSent, s1) \<Rightarrow> (Inl (bus_other 90 ''AllocFrame failed''), s1)
      | (NoReply, s1) \<Rightarrow> (Inl (bus_other 91 ''AllocFrame timeout''), s1)
      | (Reply resp, s1) \<Rightarrow>
          (case response_data resp of
             Some (PhysicalAddr a) \<Rightarrow> (Inr (map (\<lambda>i. a + of_nat i * 4096) [0..<n]), s1)
           | _ \<Rightarrow> (Inl (ServiceE (ResourceExhausted ''memory'' 0 n)), s1)))"

fun map_frames :: "'w Peers \<Rightarrow> pid \<Rightarrow> nat \<Rightarrow> u64 list \<Rightarrow> 'w ProcessService \<Rightarrow> 'w ProcessService" where
  "map_frames P p i [] s = s"
| "map_frames P p i (a # as) s =
     map_frames P p (Suc i) as
       (ps_ask_ignore P (MemoryMsg (MapPage p (of_nat (i * 4096)) a \<lparr>readable = True, writable = True, executable = True\<rparr>)) s)"

definition program_code :: "'w Peers \<Rightarrow> string \<Rightarrow> string list \<Rightarrow> 'w ProcessService \<Rightarrow> u8 list option" where
  "program_code P exe args s =
     (case load_program P exe s of
        Some code \<Rightarrow> Some code
      | None \<Rightarrow>
          (let b = gen_builtin_program exe (if 1 < length args then length (args ! 1) else 0) in
           if b ! 0 \<noteq> 0xFF then Some b else None))"

definition exec_impl :: "'w Peers \<Rightarrow> bool \<Rightarrow> pid \<Rightarrow> string \<Rightarrow> string list \<Rightarrow> 'w ProcessService \<Rightarrow> ((GenshinError, unit) result \<times> 'w ProcessService) option" where
  "exec_impl P locked p exe args s =
     (if process_table s p = None then Some (Inl (proc_not_found p), s)
      else case program_code P exe args s of
        None \<Rightarrow> Some (Inl (ServiceE (NotFound ''Program'' exe)), s)
      | Some code \<Rightarrow>
          (let s1 = fold (\<lambda>(va, _, _). ps_tell P (MemoryMsg (UnmapPage p va))) (page_entries P p s) s in
           case alloc_frames P ((length code + 4095) div 4096) p s1 of
             (Inl e, s2) \<Rightarrow> Some (Inl e, s2)
           | (Inr frames, s2) \<Rightarrow>
               let s3 = map_frames P p 0 frames s2;
                   m1 = write_slice_virt p 0 code (ps_mmu s3);
                   m2 = (case args of [] \<Rightarrow> m1 | a # _ \<Rightarrow> write_slice_virt p 0x100 (str_bytes a) m1);
                   m3 = (if 1 < length args then write_slice_virt p 0x200 (str_bytes (args ! 1)) m2 else m2)
               in if locked then None
                  else
                    let s4 = s3\<lparr>ps_mmu := m3,
                               cpus := (cpus s3)(p := map_option (\<lambda>c. (set_sp (set_pc c 0) 0xFFFF)\<lparr>halted := False\<rparr>) (cpus s3 p)),
                               process_table := (process_table s3)(p := map_option
                                 (\<lambda>pcb. pcb\<lparr>pcb_name := exe, pcb_args := args, pcb_state := PReady\<rparr>) (process_table s3 p))\<rparr>
                    in Some (Inr (), handle_schedule P p 1 s4)))"

text \<open>Fork and exec in one.\<close>

definition create_process :: "'w Peers \<Rightarrow> string \<Rightarrow> string list \<Rightarrow> 'w ProcessService \<Rightarrow> ((GenshinError, pid) result \<times> 'w ProcessService) option" where
  "create_process P exe args s =
     (case fork_impl P False 0 s of
        None \<Rightarrow> None
      | Some (Inl e, s1) \<Rightarrow> Some (Inl e, s1)
      | Some (Inr c, s1) \<Rightarrow>
          (case exec_impl P False c exe args s1 of
             None \<Rightarrow> None
           | Some (Inl e, s2) \<Rightarrow> Some (Inl e, s2)
           | Some (Inr _, s2) \<Rightarrow> Some (Inr c, s2)))"

text \<open>Fork requests that were put off; no code of the service puts one off.\<close>

fun process_pending :: "'w Peers \<Rightarrow> pid list \<Rightarrow> 'w ProcessService \<Rightarrow> 'w ProcessService option" where
  "process_pending P [] s = Some s"
| "process_pending P (p # ps) s =
     (case fork_impl P False p s of
        None \<Rightarrow> None
      | Some (r, s1) \<Rightarrow>
          (let v = (case r of Inr c \<Rightarrow> c | Inl _ \<Rightarrow> 0);
               s2 = set_state p PReady (s1\<lparr>cpus := (cpus s1)(p := map_option (\<lambda>k. write_register k R0 v) (cpus s1 p))\<rparr>)
           in process_pending P ps (sched_op (sched_ready (ps_now P s2) p 1 128) s2)))"

definition process_pending_forks :: "'w Peers \<Rightarrow> 'w ProcessService \<Rightarrow> 'w ProcessService option" where
  "process_pending_forks P s = process_pending P (pending_forks s) (s\<lparr>pending_forks := []\<rparr>)"

section \<open>Waiting and signals\<close>

definition handle_wait_child :: "pid \<Rightarrow> pid option \<Rightarrow> 'w ProcessService \<Rightarrow> (GenshinError, unit) result \<times> 'w ProcessService" where
  "handle_wait_child p child s =
     (case (child, parent_children s p) of
        (Some c, Some cs) \<Rightarrow>
          if c \<notin> set cs then (Inl (ServiceE (PermissionDenied ''wait'' ''Not a child'')), s) else (Inr (), handle_block p 1 s)
      | (None, Some []) \<Rightarrow> (Inl (ServiceE (NotFound ''Child'' ''any'')), s)
      | _ \<Rightarrow> (Inr (), handle_block p 1 s))"

definition handle_wait_child_with_response ::
  "ChanEnv \<Rightarrow> Envelope \<Rightarrow> pid \<Rightarrow> pid option \<Rightarrow> 'w ProcessService \<Rightarrow> (GenshinError, unit) result \<times> responses \<times> 'w ProcessService" where
  "handle_wait_child_with_response ce env p child s =
     (case child of
        None \<Rightarrow> (Inl (ServiceE (InvalidArguments ''child_pid'' ''must specify child PID'')), [], s)
      | Some c \<Rightarrow>
          if (case parent_children s p of None \<Rightarrow> True | Some cs \<Rightarrow> c \<notin> set cs)
          then (Inr (), ok_error ce env (MsgPermissionDenied ''wait''), s)
          else case process_table s c of
            None \<Rightarrow> (Inr (), ok_success ce env (RInteger 0), s)
          | Some pcb \<Rightarrow>
              if pcb_is_terminated pcb then
                (Inr (),
                 ok_success ce env (RInteger (case pcb_state pcb of PZombie code \<Rightarrow> scast code | _ \<Rightarrow> 0)),
                 (sched_op (\<lambda>sc. snd (sched_remove c 1 sc)) s)\<lparr>process_table := (process_table s)(c := None)\<rparr>)
              else
                (Inr (), [],
                 case response_channel env of
                   None \<Rightarrow> s
                 | Some tx \<Rightarrow> s\<lparr>waiting_parents := waiting_parents s @ [(c, p, tx)]\<rparr>))"

definition handle_signal :: "pid \<Rightarrow> SignalType \<Rightarrow> 'w ProcessService \<Rightarrow> (GenshinError, unit) result \<times> 'w ProcessService" where
  "handle_signal p sig s =
     (case process_table s p of
        None \<Rightarrow> (Inl (proc_not_found p), s)
      | Some pcb \<Rightarrow>
          (Inr (),
           if sig = Terminate \<or> sig = Kill
           then set_state p (PZombie 0) (s\<lparr>sync_manager := release_on_death p (sync_manager s)\<rparr>)
           else if sig = Stop then set_state p (PBlocked (WaitingForIo 0)) s
           else if sig = Continue then set_state p PReady s
           else s\<lparr>process_table := (process_table s)(p \<mapsto> add_signal sig pcb)\<rparr>))"

definition reap_process :: "pid \<Rightarrow> 'w ProcessService \<Rightarrow> 'w ProcessService" where
  "reap_process p s =
     (if p = 1 then s else s\<lparr>cpus := (cpus s)(p := None), process_table := (process_table s)(p := None)\<rparr>)"

end
