(* ===== verification/Process_Syscalls.thy ===== *)
theory Process_Syscalls
  imports Process_Core "HOL-Library.Char_ord" "HOL-Library.List_Lexorder"
begin

text \<open>
  The process service, second part (\<^verbatim>\<open>src/services/process/service.rs\<close>): the system calls that a program makes
  and the timer interrupt, which gives every processor a process, runs it for a few instructions, handles its
  system calls and page faults, and buries what has ended.

  A system call runs while the timer handler holds the table of processors; the processor of the calling
  process is passed separately. A call either never comes back (\<open>SysDead\<close>: it locks that table again, or
  overflows the stack), or panics and is caught (\<open>SysPanic\<close>), or returns.
\<close>

section \<open>System calls\<close>

datatype 'w SysResult = SysDead | SysPanic | SysDone VirtualCPU "'w ProcessService"

text \<open>Allocating a buffer of \<open>2 ^ 63\<close> bytes or more panics.\<close>

definition buffer_panics :: "u64 \<Rightarrow> bool" where
  "buffer_panics n \<longleftrightarrow> 2 ^ 63 \<le> unat n"

fun exit_pages :: "'w Peers \<Rightarrow> pid \<Rightarrow> (virt_addr \<times> phys_addr \<times> PageFlags) list \<Rightarrow> 'w ProcessService \<Rightarrow> 'w ProcessService" where
  "exit_pages P p [] s = s"
| "exit_pages P p ((va, pa, _) # es) s =
     exit_pages P p es (ps_tell P (MemoryMsg (FreeFrame pa)) (ps_tell P (MemoryMsg (UnmapPage p va)) s))"

definition syscall_exit :: "'w Peers \<Rightarrow> VirtualCPU \<Rightarrow> pid \<Rightarrow> u64 \<Rightarrow> 'w ProcessService \<Rightarrow> 'w SysResult" where
  "syscall_exit P c p code s =
     (if p = 1 then SysDone c s
      else
        let s1 = set_state p (PZombie (ucast code)) (exit_pages P p (page_entries P p s) s);
            s2 = s1\<lparr>sync_manager := snd (with_sem 0 signal_if_zero (sync_manager s1))\<rparr>
        in SysDone (cpu_halt c) (sched_op (\<lambda>sc. snd (sched_block p 1 sc)) s2))"

definition syscall_print_str :: "VirtualCPU \<Rightarrow> u64 \<Rightarrow> 'w ProcessService \<Rightarrow> 'w SysResult" where
  "syscall_print_str c n s = (if buffer_panics n then SysPanic else SysDone c s)"

definition get_syscall_path :: "pid \<Rightarrow> 'w ProcessService \<Rightarrow> string" where
  "get_syscall_path p s = read_string_virt (ps_mmu s) p 0x100"

definition open_read_only :: OpenFlags where
  "open_read_only = \<lparr>of_read = True, of_write = False, of_create = False, of_truncate = False, of_append = False\<rparr>"

definition open_create :: OpenFlags where
  "open_create = \<lparr>of_read = False, of_write = True, of_create = True, of_truncate = False, of_append = False\<rparr>"

definition syscall_open :: "'w Peers \<Rightarrow> VirtualCPU \<Rightarrow> pid \<Rightarrow> u64 \<Rightarrow> 'w ProcessService \<Rightarrow> 'w SysResult" where
  "syscall_open P c p r1 s =
     (case ps_ask P (FileMsg (FileOpen (get_syscall_path p s) (if r1 = 0 then open_read_only else open_create))) s of
        (r, s1) \<Rightarrow>
          (case reply_data r of
             Some (RFd fd) \<Rightarrow> SysDone (write_register c R1 (ucast fd)) s1
           | _ \<Rightarrow> SysDone c s1))"

text \<open>Bytes for a process go to its address \<open>0x200\<close>, and their number to register 2.\<close>

definition deliver :: "VirtualCPU \<Rightarrow> pid \<Rightarrow> u8 list \<Rightarrow> 'w ProcessService \<Rightarrow> 'w SysResult" where
  "deliver c p bs s =
     SysDone (write_register c R2 (of_nat (length bs))) (s\<lparr>ps_mmu := write_slice_virt p 0x200 bs (ps_mmu s)\<rparr>)"

definition syscall_read :: "'w Peers \<Rightarrow> VirtualCPU \<Rightarrow> pid \<Rightarrow> u64 \<Rightarrow> u64 \<Rightarrow> 'w ProcessService \<Rightarrow> 'w SysResult" where
  "syscall_read P c p r1 r2 s =
     (case ps_ask P (FileMsg (FileRead (ucast r1) 0 0 (unat (min r2 4096)))) s of
        (r, s1) \<Rightarrow>
          (case reply_data r of
             Some (RBytes data) \<Rightarrow> deliver c p (take 4096 data) s1
           | _ \<Rightarrow> SysDone c s1))"

definition syscall_write :: "'w Peers \<Rightarrow> VirtualCPU \<Rightarrow> pid \<Rightarrow> u64 \<Rightarrow> u64 \<Rightarrow> 'w ProcessService \<Rightarrow> 'w SysResult" where
  "syscall_write P c p r1 r2 s =
     (if buffer_panics r2 then SysPanic
      else SysDone c (ps_tell P (FileMsg (WriteData (ucast r1) (read_bytes_virt (ps_mmu s) p 0x200 (unat r2)))) s))"

definition syscall_mkdir :: "'w Peers \<Rightarrow> VirtualCPU \<Rightarrow> pid \<Rightarrow> 'w ProcessService \<Rightarrow> 'w SysResult" where
  "syscall_mkdir P c p s = SysDone c (ps_tell P (FileMsg (CreateDirectory (get_syscall_path p s))) s)"

definition syscall_unlink :: "'w Peers \<Rightarrow> VirtualCPU \<Rightarrow> pid \<Rightarrow> 'w ProcessService \<Rightarrow> 'w SysResult" where
  "syscall_unlink P c p s = SysDone c (ps_tell P (FileMsg (Unlink (get_syscall_path p s))) s)"

definition syscall_stat :: "'w Peers \<Rightarrow> VirtualCPU \<Rightarrow> pid \<Rightarrow> 'w ProcessService \<Rightarrow> 'w SysResult" where
  "syscall_stat P c p s = SysDone c (ps_tell P (FileMsg (Stat (get_syscall_path p s))) s)"

fun join_nl :: "string list \<Rightarrow> string" where
  "join_nl [] = []"
| "join_nl [x] = x"
| "join_nl (x # xs) = x @ CHR 0x0A # join_nl xs"

definition syscall_listdir :: "'w Peers \<Rightarrow> VirtualCPU \<Rightarrow> pid \<Rightarrow> 'w ProcessService \<Rightarrow> 'w SysResult" where
  "syscall_listdir P c p s =
     (case ps_ask P (FileMsg (ListDir (get_syscall_path p s))) s of
        (r, s1) \<Rightarrow>
          (case reply_data r of
             Some (StringList entries) \<Rightarrow> deliver c p (take 4096 (str_bytes (join_nl entries))) s1
           | _ \<Rightarrow> SysDone c s1))"

text \<open>Forking and executing lock the table of processors.\<close>

definition syscall_fork :: "'w Peers \<Rightarrow> VirtualCPU \<Rightarrow> pid \<Rightarrow> 'w ProcessService \<Rightarrow> 'w SysResult" where
  "syscall_fork P c p s =
     (case fork_impl P True p s of
        None \<Rightarrow> SysDead
      | Some (Inr child, s1) \<Rightarrow> SysDone (write_register c R0 child) s1
      | Some (Inl _, s1) \<Rightarrow> SysDone (write_register c R0 0) s1)"

definition syscall_exec :: "'w Peers \<Rightarrow> VirtualCPU \<Rightarrow> pid \<Rightarrow> 'w ProcessService \<Rightarrow> 'w SysResult" where
  "syscall_exec P c p s =
     (case exec_impl P True p (read_string_virt (ps_mmu s) p 0x100) [] s of
        None \<Rightarrow> SysDead
      | Some (_, s1) \<Rightarrow> SysDone c s1)"

text \<open>The branches of a printed tree, in UTF-8, and the prefixes below them.\<close>

definition branch_last :: string where
  "branch_last = [CHR 0xE2, CHR 0x94, CHR 0x94, CHR 0xE2, CHR 0x94, CHR 0x80, CHR 0xE2, CHR 0x94, CHR 0x80, CHR '' '']"

definition branch_mid :: string where
  "branch_mid = [CHR 0xE2, CHR 0x94, CHR 0x9C, CHR 0xE2, CHR 0x94, CHR 0x80, CHR 0xE2, CHR 0x94, CHR 0x80, CHR '' '']"

definition below_mid :: string where
  "below_mid = [CHR 0xE2, CHR 0x94, CHR 0x82, CHR '' '', CHR '' '', CHR '' '']"

definition child_prefix :: "string \<Rightarrow> bool \<Rightarrow> string" where
  "child_prefix prefix is_last = prefix @ (if is_last then ''    '' else below_mid)"

text \<open>
  The recursion over directories. Its first argument is the stack that is left, in calls; running out of it
  ends the program.
\<close>

function (sequential) build_tree_recursive :: "nat \<Rightarrow> 'w Peers \<Rightarrow> string \<Rightarrow> string \<Rightarrow> 'w ProcessService \<Rightarrow> (string list \<times> 'w ProcessService) option"
  and build_tree_entries :: "nat \<Rightarrow> 'w Peers \<Rightarrow> string \<Rightarrow> string \<Rightarrow> string list \<Rightarrow> 'w ProcessService \<Rightarrow> (string list \<times> 'w ProcessService) option" where
  "build_tree_recursive 0 P path prefix s = None"
| "build_tree_recursive (Suc d) P path prefix s =
     (case ps_ask P (FileMsg (ListDir path)) s of
        (r, s1) \<Rightarrow>
          (case reply_data r of
             Some (StringList entries) \<Rightarrow> build_tree_entries d P path prefix (sort entries) s1
           | _ \<Rightarrow> Some ([], s1)))"
| "build_tree_entries d P path prefix [] s = Some ([], s)"
| "build_tree_entries d P path prefix (e # es) s =
     (let is_last = (es = []);
          epath = (if path = ''/'' then ''/'' @ e else path @ ''/'' @ e)
      in case build_tree_recursive d P epath (child_prefix prefix is_last) s of
           None \<Rightarrow> None
         | Some (below, s1) \<Rightarrow>
             map_option (\<lambda>(rest, s2). ((prefix @ (if is_last then branch_last else branch_mid) @ e) # below @ rest, s2))
               (build_tree_entries d P path prefix es s1))"
  by pat_completeness auto
termination
  by (relation "measures [\<lambda>x. case x of Inl (d, _) \<Rightarrow> d | Inr (d, _) \<Rightarrow> d,
                          \<lambda>x. case x of Inl _ \<Rightarrow> 0 | Inr (_, _, _, _, es, _) \<Rightarrow> Suc (length es)]") auto

definition build_tree :: "'w Peers \<Rightarrow> string \<Rightarrow> 'w ProcessService \<Rightarrow> (string list \<times> 'w ProcessService) option" where
  "build_tree P path s = map_option (map_prod (\<lambda>ls. path # ls) id) (build_tree_recursive (stack_depth P) P path [] s)"

definition syscall_tree :: "'w Peers \<Rightarrow> VirtualCPU \<Rightarrow> pid \<Rightarrow> 'w ProcessService \<Rightarrow> 'w SysResult" where
  "syscall_tree P c p s =
     (case build_tree P (read_string_virt (ps_mmu s) p 0x100) s of
        None \<Rightarrow> SysDead
      | Some (tree, s1) \<Rightarrow> deliver c p (take 4096 (str_bytes (join_nl tree))) s1)"

definition syscall_sem_create :: "VirtualCPU \<Rightarrow> pid \<Rightarrow> 'w ProcessService \<Rightarrow> 'w SysResult" where
  "syscall_sem_create c p s =
     (case create_semaphore p 1 (sync_manager s) of (i, st) \<Rightarrow> SysDone (write_register c R1 i) (s\<lparr>sync_manager := st\<rparr>))"

text \<open>Putting the calling process to sleep until an object of the number is given back.\<close>

definition block_caller :: "VirtualCPU \<Rightarrow> pid \<Rightarrow> u64 \<Rightarrow> 'w ProcessService \<Rightarrow> 'w SysResult" where
  "block_caller c p i s =
     SysDone (cpu_halt c) (sched_op (\<lambda>sc. snd (sched_block p 1 sc)) (set_state p (PBlocked (WaitingForLock i)) s))"

definition syscall_sem_wait :: "VirtualCPU \<Rightarrow> pid \<Rightarrow> u64 \<Rightarrow> 'w ProcessService \<Rightarrow> 'w SysResult" where
  "syscall_sem_wait c p i s =
     (case with_sem i sem_wait (sync_manager s) of
        (None, _) \<Rightarrow> SysDone c s
      | (Some r, st) \<Rightarrow>
          (let s1 = s\<lparr>sync_manager := st\<rparr> in if r = SemAcquired then SysDone c s1 else block_caller c p i s1))"

text \<open>The first process, in the order of the map, that waits for an object of this number.\<close>

definition waits_for :: "u64 \<Rightarrow> PCB \<Rightarrow> bool" where
  "waits_for i pcb \<longleftrightarrow> pcb_state pcb = PBlocked (WaitingForLock i)"

definition find_waiter :: "'w Peers \<Rightarrow> u64 \<Rightarrow> 'w ProcessService \<Rightarrow> pid option" where
  "find_waiter P i s =
     List.find (\<lambda>p. case process_table s p of None \<Rightarrow> False | Some pcb \<Rightarrow> waits_for i pcb) (pid_keys P (world s))"

definition wake :: "'w Peers \<Rightarrow> pid \<Rightarrow> 'w ProcessService \<Rightarrow> 'w ProcessService" where
  "wake P w s = sched_op (sched_ready (ps_now P s) w 1 128) (set_state w PReady s)"

text \<open>The attempt to lock the table of processors without waiting fails here, so the waiter's processor is left alone.\<close>

definition syscall_sem_signal :: "'w Peers \<Rightarrow> VirtualCPU \<Rightarrow> u64 \<Rightarrow> 'w ProcessService \<Rightarrow> 'w SysResult" where
  "syscall_sem_signal P c i s =
     (case find_waiter P i s of
        Some w \<Rightarrow> SysDone c (wake P w s)
      | None \<Rightarrow> SysDone c (s\<lparr>sync_manager := snd (with_sem i sem_signal (sync_manager s))\<rparr>))"

definition syscall_lock_create :: "VirtualCPU \<Rightarrow> pid \<Rightarrow> 'w ProcessService \<Rightarrow> 'w SysResult" where
  "syscall_lock_create c p s =
     (case create_mutex p False (sync_manager s) of (i, st) \<Rightarrow> SysDone (write_register c R1 i) (s\<lparr>sync_manager := st\<rparr>))"

definition syscall_lock_acquire :: "VirtualCPU \<Rightarrow> pid \<Rightarrow> u64 \<Rightarrow> 'w ProcessService \<Rightarrow> 'w SysResult" where
  "syscall_lock_acquire c p i s =
     (case with_mutex i (try_acquire p) (sync_manager s) of
        (None, _) \<Rightarrow> SysDone c s
      | (Some r, st) \<Rightarrow>
          (let s1 = s\<lparr>sync_manager := st\<rparr> in if r = MxAcquired then SysDone c s1 else block_caller c p i s1))"

text \<open>
  With a waiter, its block and the scheduler are told first; then the table of processors is locked. The flag says whether
  the caller already holds that lock, which is never granted twice.
\<close>

definition resume_cpu :: "pid \<Rightarrow> 'w ProcessService \<Rightarrow> 'w ProcessService" where
  "resume_cpu w s =
     s\<lparr>cpus := (cpus s)(w := map_option (\<lambda>c. let c1 = c\<lparr>halted := False\<rparr> in
         if 8 \<le> pc c1 then c1\<lparr>pc := pc c1 - 8\<rparr> else c1) (cpus s w))\<rparr>"

definition syscall_lock_release :: "'w Peers \<Rightarrow> bool \<Rightarrow> VirtualCPU \<Rightarrow> pid \<Rightarrow> u64 \<Rightarrow> 'w ProcessService \<Rightarrow> 'w SysResult" where
  "syscall_lock_release P locked c p i s =
     (case find_waiter P i s of
        Some w \<Rightarrow>
          (let s1 = wake P w s in
           if locked then SysDead
           else (let s2 = resume_cpu w s1 in
                 SysDone c (s2\<lparr>sync_manager := snd (with_mutex i (release p) (sync_manager s2))\<rparr>)))
      | None \<Rightarrow> SysDone c (s\<lparr>sync_manager := snd (with_mutex i (release p) (sync_manager s))\<rparr>))"

definition syscall_device_read :: "'w Peers \<Rightarrow> VirtualCPU \<Rightarrow> pid \<Rightarrow> u64 \<Rightarrow> 'w ProcessService \<Rightarrow> 'w SysResult" where
  "syscall_device_read P c p n s =
     (case ps_ask P (DeviceMsg (ClipboardGet (unat n))) s of
        (r, s1) \<Rightarrow> (case reply_data r of Some (RBytes data) \<Rightarrow> deliver c p data s1 | _ \<Rightarrow> SysDone c s1))"

definition syscall_device_write :: "'w Peers \<Rightarrow> VirtualCPU \<Rightarrow> pid \<Rightarrow> u64 \<Rightarrow> 'w ProcessService \<Rightarrow> 'w SysResult" where
  "syscall_device_write P c p n s =
     (if buffer_panics n then SysPanic
      else SysDone c (ps_tell P (DeviceMsg (ClipboardSet (read_bytes_virt (ps_mmu s) p 0x200 (unat n)))) s))"

definition handle_file_syscall :: "'w Peers \<Rightarrow> VirtualCPU \<Rightarrow> u64 \<Rightarrow> u64 \<Rightarrow> u64 \<Rightarrow> 'w ProcessService \<Rightarrow> 'w SysResult" where
  "handle_file_syscall P c r0 r1 r2 s =
     (let p = current_pid c in
      if r0 = 0 then syscall_exit P c p r1 s
      else if r0 = 1 then SysDone c s
      else if r0 = 2 then syscall_print_str c r2 s
      else if r0 = 10 then syscall_open P c p r1 s
      else if r0 = 11 then SysDone c (ps_tell P (FileMsg (FileClose (ucast r1))) s)
      else if r0 = 12 then syscall_read P c p r1 r2 s
      else if r0 = 13 then syscall_write P c p r1 r2 s
      else if r0 = 14 then syscall_mkdir P c p s
      else if r0 = 16 then syscall_unlink P c p s
      else if r0 = 17 then syscall_stat P c p s
      else if r0 = 18 then syscall_listdir P c p s
      else if r0 = 100 then syscall_fork P c p s
      else if r0 = 101 then syscall_exec P c p s
      else if r0 = 102 then syscall_tree P c p s
      else if r0 = 200 then syscall_sem_create c p s
      else if r0 = 201 then syscall_sem_wait c p r1 s
      else if r0 = 202 then syscall_sem_signal P c r1 s
      else if r0 = 203 then syscall_lock_create c p s
      else if r0 = 204 then syscall_lock_acquire c p r1 s
      else if r0 = 205 then syscall_lock_release P True c p r1 s
      else if r0 = 208 then SysDone (write_register c R1 0) s
      else if r0 = 209 then SysDone c s
      else if r0 = 210 then syscall_device_read P c p r1 s
      else if r0 = 211 then syscall_device_write P c p r2 s
      else SysDone c s)"

section \<open>Running a process for a few instructions\<close>

definition is_page_fault :: "CPUError \<Rightarrow> bool" where
  "is_page_fault e = (case e of CpuPageFault _ _ \<Rightarrow> True | _ \<Rightarrow> False)"

text \<open>One instruction on the shared MMU; what the processor sends on the bus reaches the peers.\<close>

definition step_cpu :: "'w Peers \<Rightarrow> VirtualCPU \<Rightarrow> 'w ProcessService \<Rightarrow> (CPUError, unit) result \<times> VirtualCPU \<times> 'w ProcessService" where
  "step_cpu P c s =
     (case cpu_step (c\<lparr>mmu := ps_mmu s, cpu_bus := []\<rparr>) of
        (r, c1) \<Rightarrow> (r, c1\<lparr>cpu_bus := []\<rparr>, fold (ps_tell P) (cpu_bus c1) (s\<lparr>ps_mmu := mmu c1\<rparr>)))"

definition page_fault_request :: "'w Peers \<Rightarrow> VirtualCPU \<Rightarrow> 'w ProcessService \<Rightarrow> VirtualCPU \<times> 'w ProcessService" where
  "page_fault_request P c s =
     (if pagefault_pending c
      then (c\<lparr>pagefault_pending := False\<rparr>, ps_ask_ignore P (MemoryMsg (PageFaultHandler (current_pid c) (pc c) Read)) s)
      else (c, s))"

text \<open>A pending system call: \<open>Inl\<close> when the loop ends here, \<open>Inr\<close> when it goes on.\<close>

definition pending_syscall :: "'w Peers \<Rightarrow> VirtualCPU \<Rightarrow> 'w ProcessService \<Rightarrow>
    (VirtualCPU \<times> 'w ProcessService, VirtualCPU \<times> 'w ProcessService) result option" where
  "pending_syscall P c s =
     (if \<not> syscall_pending c then Some (Inr (c, s))
      else
        let c1 = c\<lparr>syscall_pending := False\<rparr> in
        case handle_file_syscall P c1 (syscall_regs c1 ! 0) (syscall_regs c1 ! 1) (syscall_regs c1 ! 2) s of
          SysDead \<Rightarrow> None
        | SysPanic \<Rightarrow> Some (Inl (cpu_halt c1, s))
        | SysDone c2 s2 \<Rightarrow> Some (if halted c2 then Inl (c2, s2) else Inr (c2, s2)))"

fun run_steps :: "nat \<Rightarrow> 'w Peers \<Rightarrow> pid \<Rightarrow> VirtualCPU \<Rightarrow> 'w ProcessService \<Rightarrow> (VirtualCPU \<times> 'w ProcessService) option" where
  "run_steps 0 P p c s = Some (c, s)"
| "run_steps (Suc n) P p c s =
     (if halted c then Some (c, s)
      else case step_cpu P c s of
        (r, c1, s1) \<Rightarrow>
          if \<not> is_ok r \<and> p = 1 then Some (c1, s1)
          else if (case r of Inl e \<Rightarrow> \<not> is_page_fault e | Inr _ \<Rightarrow> False) then Some (cpu_halt c1, s1)
          else case pending_syscall P c1 s1 of
            None \<Rightarrow> None
          | Some (Inl (c2, s2)) \<Rightarrow> Some (c2, s2)
          | Some (Inr (c2, s2)) \<Rightarrow> (case page_fault_request P c2 s2 of (c3, s3) \<Rightarrow> run_steps n P p c3 s3))"

section \<open>The timer interrupt\<close>

definition state_of :: "pid \<Rightarrow> 'w ProcessService \<Rightarrow> ProcessState option" where
  "state_of p s = map_option pcb_state (process_table s p)"

text \<open>The choice of a process for a processor; one that has been chosen for another in this tick is put back once.\<close>

definition choose_process :: "'w Peers \<Rightarrow> nat \<Rightarrow> pid set \<Rightarrow> 'w ProcessService \<Rightarrow> (SchedulingDecision \<times> pid set \<times> 'w ProcessService) option" where
  "choose_process P cpu taken s =
     (case schedule (ps_now P s) cpu (ps_scheduler s) of
        None \<Rightarrow> None
      | Some (d, sc) \<Rightarrow>
          (case d of
             Run p _ \<Rightarrow>
               if p \<in> taken then
                 (case yield_current (ps_now P s) cpu sc of
                    None \<Rightarrow> None
                  | Some (d', sc') \<Rightarrow>
                      Some (d', (case d' of Run p' _ \<Rightarrow> insert p' taken | _ \<Rightarrow> taken), s\<lparr>ps_scheduler := sc'\<rparr>))
               else Some (d, insert p taken, s\<lparr>ps_scheduler := sc\<rparr>)
           | _ \<Rightarrow> Some (d, taken, s\<lparr>ps_scheduler := sc\<rparr>)))"

text \<open>The process that ran on the processor before is ready again, unless another processor ran it last.\<close>

definition note_running :: "nat \<Rightarrow> SchedulingDecision \<Rightarrow> 'w ProcessService \<Rightarrow> 'w ProcessService" where
  "note_running cpu d s =
     (case d of
        Run p _ \<Rightarrow>
          (let prev = last_running s ! cpu in
           if prev = Some p then s
           else
             let s1 = (case prev of
                         Some q \<Rightarrow>
                           if (\<exists>i < cpu_count s. i \<noteq> cpu \<and> last_running s ! i = Some q) then s
                           else if state_of q s = Some PRunning then set_state q PReady s else s
                       | None \<Rightarrow> s)
             in s1\<lparr>last_running := (last_running s)[cpu := Some p]\<rparr>)
      | _ \<Rightarrow> s\<lparr>last_running := (last_running s)[cpu := None]\<rparr>)"

definition mark_running :: "pid \<Rightarrow> 'w ProcessService \<Rightarrow> 'w ProcessService" where
  "mark_running p s = (if state_of p s = Some PReady \<or> state_of p s = Some PCreating then set_state p PRunning s else s)"

definition put_cpu :: "pid \<Rightarrow> VirtualCPU \<Rightarrow> 'w ProcessService \<Rightarrow> 'w ProcessService" where
  "put_cpu p c s = s\<lparr>cpus := (cpus s)(p \<mapsto> c)\<rparr>"

definition run_process :: "'w Peers \<Rightarrow> pid \<Rightarrow> 'w ProcessService \<Rightarrow> 'w ProcessService option" where
  "run_process P p s =
     (case cpus s p of
        None \<Rightarrow> Some s
      | Some c \<Rightarrow>
          (let c1 = (if halted c \<and> (state_of p s = Some PReady \<or> state_of p s = Some PRunning) then c\<lparr>halted := False\<rparr> else c) in
           if halted c1 then Some (put_cpu p c1 s)
           else map_option (\<lambda>(c2, s2). put_cpu p c2 s2) (run_steps 3 P p c1 s)))"

text \<open>A parent that waits for this process is answered, with the request number zero.\<close>

definition notify_parent :: "ChanEnv \<Rightarrow> pid \<Rightarrow> u32 \<Rightarrow> 'w ProcessService \<Rightarrow> responses \<times> 'w ProcessService" where
  "notify_parent ce p code s =
     (case position (\<lambda>(c, _). c = p) (waiting_parents s) of
        None \<Rightarrow> ([], s)
      | Some i \<Rightarrow>
          (case waiting_parents s ! i of (_, _, tx) \<Rightarrow>
             (if connected ce tx then [(tx, ResponseSuccess 0 (RInteger (scast code)))] else [],
              s\<lparr>waiting_parents := remove_at i (waiting_parents s)\<rparr>)))"

definition bury :: "ChanEnv \<Rightarrow> pid \<Rightarrow> 'w ProcessService \<Rightarrow> responses \<times> 'w ProcessService" where
  "bury ce p s =
     (let halted_now = (case cpus s p of Some c \<Rightarrow> halted c | None \<Rightarrow> False);
          blocked = (case state_of p s of Some st \<Rightarrow> state_is_blocked st | None \<Rightarrow> False)
      in if p = 1 \<or> blocked \<or> \<not> halted_now then ([], s)
         else if state_of p s = Some PReady then
           ([], s\<lparr>cpus := (cpus s)(p := map_option (\<lambda>c. c\<lparr>halted := False\<rparr>) (cpus s p))\<rparr>)
         else
           let s1 = sched_op (\<lambda>sc. snd (sched_remove p 1 sc)) s in
           case state_of p s1 of
             None \<Rightarrow> ([], s1)
           | Some st \<Rightarrow>
               if state_is_terminated st then ([], s1)
               else
                 let s2 = set_state p (PZombie 0) s1 in
                 notify_parent ce p 0 (s2\<lparr>sync_manager := release_on_death p (sync_manager s2)\<rparr>))"

definition reap_one :: "'w Peers \<Rightarrow> 'w ProcessService \<Rightarrow> 'w ProcessService" where
  "reap_one P s =
     (case List.find (\<lambda>p. case state_of p s of Some (PZombie _) \<Rightarrow> True | _ \<Rightarrow> False) (pid_keys P (world s)) of
        None \<Rightarrow> s
      | Some p \<Rightarrow> reap_process p s)"

definition tick_cpu :: "'w Peers \<Rightarrow> ChanEnv \<Rightarrow> nat \<Rightarrow> pid set \<Rightarrow> 'w ProcessService \<Rightarrow> (pid set \<times> responses \<times> 'w ProcessService) option" where
  "tick_cpu P ce cpu taken s =
     (case choose_process P cpu taken s of
        None \<Rightarrow> None
      | Some (d, taken', s1) \<Rightarrow>
          (let s2 = note_running cpu d s1 in
           case d of
             Run p _ \<Rightarrow>
               (case run_process P p (mark_running p s2) of
                  None \<Rightarrow> None
                | Some s3 \<Rightarrow> (case bury ce p s3 of (out, s4) \<Rightarrow> Some (taken', out, reap_one P s4)))
           | _ \<Rightarrow> Some (taken', [], reap_one P s2)))"

fun tick_cpus :: "'w Peers \<Rightarrow> ChanEnv \<Rightarrow> nat list \<Rightarrow> pid set \<Rightarrow> 'w ProcessService \<Rightarrow> (responses \<times> 'w ProcessService) option" where
  "tick_cpus P ce [] taken s = Some ([], s)"
| "tick_cpus P ce (i # is) taken s =
     (case tick_cpu P ce i taken s of
        None \<Rightarrow> None
      | Some (taken', out, s') \<Rightarrow> map_option (\<lambda>(outs, t). (out @ outs, t)) (tick_cpus P ce is taken' s'))"

definition handle_timer_interrupt :: "'w Peers \<Rightarrow> ChanEnv \<Rightarrow> 'w ProcessService \<Rightarrow> (responses \<times> 'w ProcessService) option" where
  "handle_timer_interrupt P ce s = tick_cpus P ce [0..<cpu_count s] {} s"

end
