(* ===== verification/Process_Service.thy ===== *)
theory Process_Service
  imports Process_Syscalls Service_Loop
begin

text \<open>
  The process service, third part (\<^verbatim>\<open>src/services/process/service.rs\<close>): the reports on processes, spawning, the
  dispatch of requests, system call messages and interrupts, and the main loop. A handler that never returns is
  \<open>None\<close>.
\<close>

section \<open>Texts\<close>

text \<open>Signed decimal, padding to a width in characters, and replacement of every occurrence from the left.\<close>

definition show_i32 :: "u32 \<Rightarrow> string" where
  "show_i32 w = (if sint w < 0 then ''-'' @ show_dec (nat (- sint w)) else show_dec (nat (sint w)))"

definition char_count :: "string \<Rightarrow> nat" where
  "char_count s = length (filter (\<lambda>c. (of_char c :: nat) div 64 \<noteq> 2) s)"

definition pad_left :: "nat \<Rightarrow> string \<Rightarrow> string" where
  "pad_left n s = replicate (n - char_count s) CHR '' '' @ s"

definition pad_right :: "nat \<Rightarrow> string \<Rightarrow> string" where
  "pad_right n s = s @ replicate (n - char_count s) CHR '' ''"

fun replace_aux :: "nat \<Rightarrow> string \<Rightarrow> string \<Rightarrow> string \<Rightarrow> string" where
  "replace_aux skip a b [] = []"
| "replace_aux skip a b (c # cs) =
     (if 0 < skip then replace_aux (skip - 1) a b cs
      else if starts_with a (c # cs) then b @ replace_aux (length a - 1) a b cs
      else c # replace_aux 0 a b cs)"

definition str_replace :: "string \<Rightarrow> string \<Rightarrow> string \<Rightarrow> string" where
  "str_replace a b s = replace_aux 0 a b s"

fun join_with :: "string \<Rightarrow> string list \<Rightarrow> string" where
  "join_with sep [] = []"
| "join_with sep [x] = x"
| "join_with sep (x # xs) = x @ sep @ join_with sep xs"

primrec block_reason_debug :: "BlockReason \<Rightarrow> string" where
  "block_reason_debug (WaitingForIo d) = ''WaitingForIo { device_id: '' @ show_dec (unat d) @ '' }''"
| "block_reason_debug WaitingForMemory = ''WaitingForMemory''"
| "block_reason_debug (WaitingForLock a) = ''WaitingForLock { lock_addr: '' @ dec64 a @ '' }''"
| "block_reason_debug (Sleeping d) = ''Sleeping { duration_ms: '' @ dec64 d @ '' }''"
| "block_reason_debug (WaitingForChild p) = ''WaitingForChild { pid: '' @ dec64 p @ '' }''"

primrec state_debug :: "ProcessState \<Rightarrow> string" where
  "state_debug PCreating = ''Creating''"
| "state_debug PReady = ''Ready''"
| "state_debug PRunning = ''Running''"
| "state_debug (PBlocked r) = ''Blocked('' @ block_reason_debug r @ '')''"
| "state_debug (PTerminated c) = ''Terminated { exit_code: '' @ show_i32 c @ '' }''"
| "state_debug (PZombie c) = ''Zombie { exit_code: '' @ show_i32 c @ '' }''"

text \<open>Hexadecimal in capitals with at least four digits.\<close>

definition hex_upper4 :: "u64 \<Rightarrow> string" where
  "hex_upper4 w = (let h = to_uppercase (show_hex_digits (unat w)) in replicate (4 - length h) CHR ''0'' @ h)"

section \<open>Reports\<close>

text \<open>The keys of the process table in ascending order.\<close>

definition table_pids :: "'w Peers \<Rightarrow> 'w ProcessService \<Rightarrow> pid list" where
  "table_pids P s = sort (filter (\<lambda>p. process_table s p \<noteq> None) (pid_keys P (world s)))"

definition handle_get_process_info :: "pid \<Rightarrow> 'w ProcessService \<Rightarrow> (GenshinError, unit) result" where
  "handle_get_process_info p s = (case process_table s p of Some _ \<Rightarrow> Inr () | None \<Rightarrow> Inl (proc_not_found p))"

definition process_info :: "pid \<Rightarrow> PCB \<Rightarrow> string" where
  "process_info p pcb =
     ''PID: '' @ dec64 p @ '', Executable: '' @ pcb_name pcb @ '', State: '' @ state_debug (pcb_state pcb) @
     '', Threads: '' @ show_dec (thread_count pcb)"

definition handle_get_process_info_with_response :: "ChanEnv \<Rightarrow> Envelope \<Rightarrow> pid \<Rightarrow> 'w ProcessService \<Rightarrow> (GenshinError, unit) result \<times> responses" where
  "handle_get_process_info_with_response ce env p s =
     map_prod (map_err (from_send_error ce)) id
       (case process_table s p of
          Some pcb \<Rightarrow> respond_success ce env (RString (process_info p pcb))
        | None \<Rightarrow> respond_error ce env (MsgNotFound ''Process'' (dec64 p)))"

definition stats_state :: "ProcessState \<Rightarrow> string" where
  "stats_state st =
     str_replace ''Blocked('' ''Blocked'' (str_replace '' }'' '')'' (str_replace ''Zombie { exit_code: '' ''Zombie(''
       (str_replace ''ProcessState::'' [] (state_debug st))))"

definition stats_line :: "pid \<Rightarrow> PCB \<Rightarrow> string" where
  "stats_line p pcb =
     pad_left 4 (dec64 p) @ '' '' @ pad_left 12 (stats_state (pcb_state pcb)) @ '' '' @ pad_right 20 (pcb_name pcb) @ '' '' @
     pad_left 4 (case parent_pid pcb of Some q \<Rightarrow> dec64 q | None \<Rightarrow> ''-'')"

definition process_stats :: "'w Peers \<Rightarrow> 'w ProcessService \<Rightarrow> string list" where
  "process_stats P s = List.map_filter (\<lambda>p. map_option (stats_line p) (process_table s p)) (table_pids P s)"

definition frame_range :: "virt_addr \<times> phys_addr \<times> PageFlags \<Rightarrow> string" where
  "frame_range e = (case e of (_, pa, _) \<Rightarrow> ''0x'' @ hex_upper4 pa @ ''-0x'' @ hex_upper4 (pa + 0xFFF))"

definition memory_map_line :: "pid \<Rightarrow> (virt_addr \<times> phys_addr \<times> PageFlags) list \<Rightarrow> string" where
  "memory_map_line p es =
     ''PID '' @ pad_left 3 (dec64 p) @ '': '' @ join_with '', '' (map frame_range (sort_key fst es)) @
     '' ('' @ pad_left 4 (show_dec (length es * 4)) @ '' KB)''"

definition memory_map :: "'w Peers \<Rightarrow> 'w ProcessService \<Rightarrow> string list" where
  "memory_map P s =
     map (\<lambda>p. memory_map_line p (page_entries P p s)) (filter (\<lambda>p. page_entries P p s \<noteq> []) (table_pids P s))"

text \<open>
  The tree of processes. The first argument of the recursion is the stack that is left, in calls; running out of
  it ends the program.
\<close>

type_synonym ProcInfo = "pid \<times> string \<times> string \<times> pid option"

definition proc_infos :: "'w Peers \<Rightarrow> 'w ProcessService \<Rightarrow> ProcInfo list" where
  "proc_infos P s =
     List.map_filter (\<lambda>p. map_option (\<lambda>pcb. (p, pcb_name pcb, state_debug (pcb_state pcb), parent_pid pcb)) (process_table s p))
       (table_pids P s)"

definition children_of :: "ProcInfo list \<Rightarrow> pid \<Rightarrow> pid list" where
  "children_of procs p = map fst (filter (\<lambda>(_, _, _, pp). pp = Some p) procs)"

definition tree_line :: "string \<Rightarrow> bool \<Rightarrow> ProcInfo \<Rightarrow> string" where
  "tree_line prefix is_last i =
     (case i of (p, nm, st, _) \<Rightarrow>
        prefix @ (if is_last then branch_last else branch_mid) @ ''PID '' @ dec64 p @ '' ['' @ st @ ''] '' @ nm @ [CHR 0x0A])"

function (sequential) format_tree :: "nat \<Rightarrow> ProcInfo list \<Rightarrow> pid \<Rightarrow> string \<Rightarrow> bool \<Rightarrow> string option"
  and format_children :: "nat \<Rightarrow> ProcInfo list \<Rightarrow> pid list \<Rightarrow> string \<Rightarrow> string option" where
  "format_tree 0 procs p prefix is_last = None"
| "format_tree (Suc d) procs p prefix is_last =
     (case List.find (\<lambda>i. fst i = p) procs of
        None \<Rightarrow> Some []
      | Some i \<Rightarrow>
          map_option (\<lambda>below. tree_line prefix is_last i @ below)
            (format_children d procs (children_of procs p) (child_prefix prefix is_last)))"
| "format_children d procs [] prefix = Some []"
| "format_children d procs (c # cs) prefix =
     (case format_tree d procs c prefix (cs = []) of
        None \<Rightarrow> None
      | Some t \<Rightarrow> map_option (\<lambda>rest. t @ rest) (format_children d procs cs prefix))"
  by pat_completeness auto
termination
  by (relation "measures [\<lambda>x. case x of Inl (d, _) \<Rightarrow> d | Inr (d, _) \<Rightarrow> d,
                          \<lambda>x. case x of Inl _ \<Rightarrow> 0 | Inr (_, _, cs, _) \<Rightarrow> Suc (length cs)]") auto

definition is_root :: "ProcInfo list \<Rightarrow> ProcInfo \<Rightarrow> bool" where
  "is_root procs i = (case i of (_, _, _, pp) \<Rightarrow> case pp of None \<Rightarrow> True | Some q \<Rightarrow> q \<notin> set (map fst procs))"

fun format_roots :: "nat \<Rightarrow> ProcInfo list \<Rightarrow> ProcInfo list \<Rightarrow> string option" where
  "format_roots d procs [] = Some []"
| "format_roots d procs (i # is) =
     (if is_root procs i
      then case format_tree d procs (fst i) [] True of
             None \<Rightarrow> None
           | Some t \<Rightarrow> map_option (\<lambda>rest. t @ rest) (format_roots d procs is)
      else format_roots d procs is)"

definition handle_list_processes_with_response :: "'w Peers \<Rightarrow> ChanEnv \<Rightarrow> Envelope \<Rightarrow> 'w ProcessService \<Rightarrow> responses option" where
  "handle_list_processes_with_response P ce env s =
     map_option (\<lambda>out. ok_success ce env (RString (if out = [] then ''(empty)'' else out)))
       (format_roots (stack_depth P) (proc_infos P s) (proc_infos P s))"

section \<open>Spawning\<close>

definition spawn_name :: "string \<Rightarrow> string" where
  "spawn_name program = (if program = ''dual'' then ''busy'' else if starts_with ''dual:'' program then drop 5 program else program)"

definition spawn_count :: "string \<Rightarrow> nat" where
  "spawn_count program = (if starts_with ''dual'' program then 2 else 1)"

fun spawn_children :: "'w Peers \<Rightarrow> nat \<Rightarrow> string \<Rightarrow> 'w ProcessService \<Rightarrow> (pid list \<times> 'w ProcessService) option" where
  "spawn_children P 0 nm s = Some ([], s)"
| "spawn_children P (Suc n) nm s =
     (case fork_impl P False 0 s of
        None \<Rightarrow> None
      | Some (Inl _, s1) \<Rightarrow> spawn_children P n nm s1
      | Some (Inr c, s1) \<Rightarrow>
          (case exec_impl P False c nm [] s1 of
             None \<Rightarrow> None
           | Some (_, s2) \<Rightarrow> map_option (map_prod (\<lambda>cs. c # cs) id) (spawn_children P n nm s2)))"

definition spawn_shared :: "'w Peers \<Rightarrow> string \<Rightarrow> 'w ProcessService \<Rightarrow> u64 option \<times> 'w ProcessService" where
  "spawn_shared P nm s =
     (if nm = ''rwlock2'' \<or> nm = ''rwlock3'' then
        let st = snd (create_semaphore 0 1 (snd (create_semaphore 0 1 (sync_manager s)))) in
        case ps_ask P (MemoryMsg (AllocFrame 1 0)) (s\<lparr>sync_manager := st\<rparr>) of
          (r, s1) \<Rightarrow> (case reply_data r of Some (PhysicalAddr a) \<Rightarrow> Some a | _ \<Rightarrow> None, s1)
      else (None, s))"

definition map_shared :: "'w Peers \<Rightarrow> u64 option \<Rightarrow> pid list \<Rightarrow> 'w ProcessService \<Rightarrow> 'w ProcessService" where
  "map_shared P fr cs s =
     (case fr of
        None \<Rightarrow> s
      | Some a \<Rightarrow> fold (\<lambda>c. ps_ask_ignore P (MemoryMsg (MapPage c 0x10000 a \<lparr>readable = True, writable = True, executable = False\<rparr>))) cs s)"

definition spawn_plain :: "'w Peers \<Rightarrow> string \<Rightarrow> 'w ProcessService \<Rightarrow> 'w ProcessService option" where
  "spawn_plain P program s =
     (case spawn_shared P (spawn_name program) s of
        (fr, s1) \<Rightarrow>
          map_option (\<lambda>(cs, s2). map_shared P fr cs s2) (spawn_children P (spawn_count program) (spawn_name program) s1))"

text \<open>With a response, the first failure is reported and the shared frame of the other path is not set up.\<close>

fun spawn_all :: "'w Peers \<Rightarrow> nat \<Rightarrow> string \<Rightarrow> 'w ProcessService \<Rightarrow> ((GenshinError, unit) result \<times> 'w ProcessService) option" where
  "spawn_all P 0 nm s = Some (Inr (), s)"
| "spawn_all P (Suc n) nm s =
     (case create_process P nm [] s of
        None \<Rightarrow> None
      | Some (Inl e, s1) \<Rightarrow> Some (Inl e, s1)
      | Some (Inr _, s1) \<Rightarrow> spawn_all P n nm s1)"

definition handle_spawn :: "'w Peers \<Rightarrow> ChanEnv \<Rightarrow> Envelope \<Rightarrow> string \<Rightarrow> 'w ProcessService \<Rightarrow>
    ((GenshinError, unit) result \<times> responses \<times> 'w ProcessService) option" where
  "handle_spawn P ce env program s =
     map_option (\<lambda>(r, s1). (r, case r of Inr _ \<Rightarrow> ok_success ce env Void | Inl _ \<Rightarrow> [], s1))
       (spawn_all P (spawn_count program) (spawn_name program) s)"

section \<open>Dispatch\<close>

text \<open>A handler's outcome: its result, the responses it sent and the state; \<open>None\<close> when it never returns.\<close>

type_synonym 'w outcome = "((GenshinError, unit) result \<times> responses \<times> 'w ProcessService) option"

definition quiet :: "'w ProcessService \<Rightarrow> 'w outcome" where
  "quiet s = Some (Inr (), [], s)"

definition quiet_result :: "(GenshinError, 'a) result \<times> 'w ProcessService \<Rightarrow> 'w outcome" where
  "quiet_result rs = Some (rbind (fst rs) (\<lambda>_. Inr ()), [], snd rs)"

text \<open>A response whose failure is the handler's result.\<close>

definition and_respond :: "ChanEnv \<Rightarrow> Envelope \<Rightarrow> ResponseData \<Rightarrow> 'w ProcessService \<Rightarrow> 'w outcome" where
  "and_respond ce env d s =
     (case respond_success ce env d of (r, out) \<Rightarrow> Some (map_err (from_send_error ce) r, out, s))"

definition handle_process_request :: "'w Peers \<Rightarrow> ProcessRequest \<Rightarrow> 'w ProcessService \<Rightarrow> 'w outcome" where
  "handle_process_request P req s =
     (case req of
        Schedule p t \<Rightarrow> quiet (handle_schedule P p t s)
      | Block p t _ \<Rightarrow> quiet (handle_block p t s)
      | Unblock p t \<Rightarrow> quiet (handle_unblock P p t s)
      | QueryState p \<Rightarrow> quiet_result (handle_query_state p s, s)
      | ContextSwitch from_pid to_pid \<Rightarrow> quiet (handle_context_switch P from_pid to_pid s)
      | SendMessage from_pid to_pid msg \<Rightarrow> quiet_result (handle_send_message from_pid to_pid msg s)
      | ReceiveMessage p blocking \<Rightarrow> quiet (handle_receive_message p blocking s)
      | PeekMessage p \<Rightarrow> quiet s
      | CreateSharedMemory p sz prot \<Rightarrow> quiet (handle_create_shared_memory p sz prot s)
      | AttachSharedMemory p i \<Rightarrow> quiet_result (handle_attach_shared_memory p i s)
      | DetachSharedMemory p i \<Rightarrow> quiet_result (handle_detach_shared_memory p i s)
      | CreateSemaphore p v \<Rightarrow> quiet (handle_create_semaphore p v s)
      | WaitSemaphore p i \<Rightarrow> quiet_result (handle_wait_semaphore p i s)
      | SignalSemaphore p i \<Rightarrow> quiet (handle_signal_semaphore i s)
      | CreateLock p \<Rightarrow> quiet (handle_create_lock p s)
      | AcquireLock p i \<Rightarrow> quiet (handle_acquire_lock p i s)
      | ReleaseLock p i \<Rightarrow> quiet (handle_release_lock p i s)
      | ForkProcess p \<Rightarrow> Option.bind (fork_impl P False p s) quiet_result
      | ExecProcess p exe args _ \<Rightarrow> Option.bind (exec_impl P False p exe args s) quiet_result
      | WaitChild p child \<Rightarrow> quiet_result (handle_wait_child p child s)
      | Signal p sig \<Rightarrow> quiet_result (handle_signal p sig s)
      | GetProcessInfo p \<Rightarrow> quiet_result (handle_get_process_info p s, s)
      | ListProcesses \<Rightarrow> quiet s
      | Spawn program _ \<Rightarrow> Option.bind (spawn_plain P program s) quiet
      | ProcessGetStats \<Rightarrow> quiet s
      | GetMemoryMap \<Rightarrow> quiet s)"

text \<open>A computation followed by the response made of its value; its error is returned instead.\<close>

definition then_respond :: "ChanEnv \<Rightarrow> Envelope \<Rightarrow> ('a \<Rightarrow> ResponseData) \<Rightarrow> ((GenshinError, 'a) result \<times> 'w ProcessService) option \<Rightarrow> 'w outcome" where
  "then_respond ce env f o' =
     (case o' of
        None \<Rightarrow> None
      | Some (Inl e, s) \<Rightarrow> Some (Inl e, [], s)
      | Some (Inr v, s) \<Rightarrow> and_respond ce env (f v) s)"

definition drop_out :: "'w outcome \<Rightarrow> ((GenshinError, unit) result \<times> 'w ProcessService) option" where
  "drop_out o' = map_option (\<lambda>(r, _, s). (r, s)) o'"

definition handle_process_request_with_response :: "'w Peers \<Rightarrow> ChanEnv \<Rightarrow> Envelope \<Rightarrow> ProcessRequest \<Rightarrow> 'w ProcessService \<Rightarrow> 'w outcome" where
  "handle_process_request_with_response P ce env req s =
     (case req of
        ForkProcess p \<Rightarrow> then_respond ce env RPid (fork_impl P False p s)
      | ExecProcess p exe args _ \<Rightarrow> then_respond ce env (\<lambda>_. Void) (exec_impl P False p exe args s)
      | WaitChild p child \<Rightarrow> Some (handle_wait_child_with_response ce env p child s)
      | GetProcessInfo p \<Rightarrow> (case handle_get_process_info_with_response ce env p s of (r, out) \<Rightarrow> Some (r, out, s))
      | ProcessGetStats \<Rightarrow> Some (Inr (), ok_success ce env (StringList (process_stats P s)), s)
      | GetMemoryMap \<Rightarrow> Some (Inr (), ok_success ce env (StringList (memory_map P s)), s)
      | ListProcesses \<Rightarrow> map_option (\<lambda>out. (Inr (), out, s)) (handle_list_processes_with_response P ce env s)
      | Spawn program _ \<Rightarrow> handle_spawn P ce env program s
      | _ \<Rightarrow> then_respond ce env (\<lambda>_. Void) (drop_out (handle_process_request P req s)))"

definition handle_syscall :: "'w Peers \<Rightarrow> Syscall \<Rightarrow> 'w ProcessService \<Rightarrow> 'w outcome" where
  "handle_syscall P c s =
     (case c of
        CreateProcess exe args \<Rightarrow> Option.bind (create_process P exe args s) quiet_result
      | _ \<Rightarrow> quiet s)"

definition handle_syscall_with_response :: "'w Peers \<Rightarrow> ChanEnv \<Rightarrow> Envelope \<Rightarrow> Syscall \<Rightarrow> 'w ProcessService \<Rightarrow> 'w outcome" where
  "handle_syscall_with_response P ce env c s =
     (case c of
        CreateProcess exe args \<Rightarrow> then_respond ce env RPid (create_process P exe args s)
      | ExitProcess _ \<Rightarrow> and_respond ce env Void s
      | _ \<Rightarrow> then_respond ce env (\<lambda>_. Void) (drop_out (handle_syscall P c s)))"

definition handle_interrupt :: "'w Peers \<Rightarrow> ChanEnv \<Rightarrow> Interrupt \<Rightarrow> 'w ProcessService \<Rightarrow> 'w outcome" where
  "handle_interrupt P ce i s =
     (case i of
        TimerInterrupt \<Rightarrow> map_option (\<lambda>(out, s1). (Inr (), out, s1)) (handle_timer_interrupt P ce s)
      | PageFaultInterrupt a acc \<Rightarrow> quiet (ps_tell P (MemoryMsg (PageFaultHandler 0 a acc)) s)
      | _ \<Rightarrow> quiet s)"

definition ps_dispatch :: "'w Peers \<Rightarrow> ChanEnv \<Rightarrow> Envelope \<Rightarrow> 'w ProcessService \<Rightarrow> 'w outcome" where
  "ps_dispatch P ce env s =
     (case message env of
        ProcessMsg req \<Rightarrow>
          if expects_response env then handle_process_request_with_response P ce env req s else handle_process_request P req s
      | SyscallMsg c \<Rightarrow>
          if expects_response env then handle_syscall_with_response P ce env c s else handle_syscall P c s
      | InterruptMsg i \<Rightarrow> handle_interrupt P ce i s
      | _ \<Rightarrow> quiet s)"

definition ps_handle_envelope :: "'w Peers \<Rightarrow> ChanEnv \<Rightarrow> Envelope \<Rightarrow> 'w ProcessService \<Rightarrow> (responses \<times> 'w ProcessService) option" where
  "ps_handle_envelope P ce env s =
     map_option
       (\<lambda>(r, out, s1).
          (case r of
             Inl e \<Rightarrow> if expects_response env then out @ ok_error ce env (MsgOther 1 (genshin_error_fmt e)) else out
           | Inr _ \<Rightarrow> out, s1))
       (ps_dispatch P ce env s)"

section \<open>The main loop\<close>

text \<open>
  The loop polls two channels: of the interrupts it takes only those of the timer; requests go to the
  handler above. A run of the loop is the sequence of what it takes from either.
\<close>

datatype PsEvent = IntrEvent (event_env: Envelope) | ReqEvent (event_env: Envelope)

definition ps_event :: "'w Peers \<Rightarrow> ChanEnv \<Rightarrow> PsEvent \<Rightarrow> 'w ProcessService \<Rightarrow> (responses \<times> 'w ProcessService) option" where
  "ps_event P ce ev s =
     (case ev of
        IntrEvent env \<Rightarrow> if message env = InterruptMsg TimerInterrupt then handle_timer_interrupt P ce s else Some ([], s)
      | ReqEvent env \<Rightarrow> ps_handle_envelope P ce env s)"

text \<open>The first process is created before the loop starts.\<close>

definition ps_run :: "'w Peers \<Rightarrow> ChanEnv \<Rightarrow> PsEvent list \<Rightarrow> 'w ProcessService \<Rightarrow> (responses \<times> 'w ProcessService) option" where
  "ps_run P ce evs s = Option.bind (fork_impl P False 0 s) (\<lambda>(_, s1). serve (ps_event P ce) evs s1)"

section \<open>Answers\<close>

text \<open>
  What an outcome owes: with the value \<open>Inr\<close> the requester has been answered. An error is answered by the
  envelope handler.
\<close>

definition answered :: "ChanEnv \<Rightarrow> Envelope \<Rightarrow> responses \<Rightarrow> bool" where
  "answered ce env out \<longleftrightarrow>
     (\<forall>c i. asks ce env c i \<longrightarrow> (\<exists>resp. (c, resp) \<in> set out \<and> response_request_id resp = i))"

lemma answered_send: "\<And>mk. (\<And>i. response_request_id (mk i) = i) \<Longrightarrow> answered ce env (snd (send_response ce env mk))"
  by (auto simp: answered_def asks_def send_response_def)

lemma answered_respond [simp]:
  "answered ce env (snd (respond_success ce env d))" "answered ce env (snd (respond_error ce env e))"
  "answered ce env (ok_success ce env d)" "answered ce env (ok_error ce env e)"
  by (simp_all add: respond_success_def respond_error_def ok_success_def ok_error_def answered_send)

lemma answered_append [simp]: "answered ce env b \<Longrightarrow> answered ce env (a @ b)"
  by (fastforce simp: answered_def)

definition settles :: "ChanEnv \<Rightarrow> Envelope \<Rightarrow> 'w outcome \<Rightarrow> bool" where
  "settles ce env o' \<longleftrightarrow> (\<forall>r out s. o' = Some (r, out, s) \<longrightarrow> is_ok r \<longrightarrow> answered ce env out)"

named_theorems settling

lemma settles_None [settling]: "settles ce env None"
  by (simp add: settles_def)

lemma settles_and_respond [settling]: "settles ce env (and_respond ce env d s)"
  by (auto simp: settles_def and_respond_def split: prod.splits) (metis answered_respond(1) snd_conv)

lemma settles_then_respond [settling]: "settles ce env (then_respond ce env f o')"
  by (auto simp: then_respond_def settling split: option.split sum.split) (simp add: settles_def)

lemma settles_spawn [settling]: "settles ce env (handle_spawn P ce env program s)"
  by (auto simp: settles_def handle_spawn_def split: sum.splits)

lemma settles_list [settling]:
  "settles ce env (map_option (\<lambda>out. (Inr (), out, s)) (handle_list_processes_with_response P ce env s))"
  by (auto simp: settles_def handle_list_processes_with_response_def)

lemma settles_info [settling]:
  "settles ce env (case handle_get_process_info_with_response ce env p s of (r, out) \<Rightarrow> Some (r, out, s))"
proof (cases "process_table s p")
  case None
  then show ?thesis by (simp add: settles_def handle_get_process_info_with_response_def split_beta)
next
  case (Some pcb)
  then show ?thesis by (simp add: settles_def handle_get_process_info_with_response_def split_beta)
qed

lemma settles_now [settling]: "settles ce env (Some (Inr (), ok_success ce env d, s))"
  by (simp add: settles_def)

lemma settles_process_request:
  "\<not> (\<exists>p c. req = WaitChild p c) \<Longrightarrow> settles ce env (handle_process_request_with_response P ce env req s)"
  by (cases req) (simp_all add: handle_process_request_with_response_def settling)

lemma settles_syscall: "settles ce env (handle_syscall_with_response P ce env c s)"
  by (cases c) (simp_all add: handle_syscall_with_response_def settling)

text \<open>A wait is answered at once only when there is nothing to wait for.\<close>

definition ps_owes :: "PsEvent \<Rightarrow> bool" where
  "ps_owes ev =
     (case ev of
        IntrEvent _ \<Rightarrow> False
      | ReqEvent env \<Rightarrow>
          (case message env of ProcessMsg (WaitChild _ _) \<Rightarrow> False | ProcessMsg _ \<Rightarrow> True | SyscallMsg _ \<Rightarrow> True | _ \<Rightarrow> False))"

lemma asks_expects: "asks ce env c i \<Longrightarrow> expects_response env"
  by (simp add: asks_def expects_response_def)

lemma settles_dispatch:
  assumes "ps_owes (ReqEvent env)" "expects_response env"
  shows "settles ce env (ps_dispatch P ce env s)"
proof (cases "message env")
  case (ProcessMsg req)
  then have "\<not> (\<exists>p c. req = WaitChild p c)" using assms(1) by (auto simp: ps_owes_def)
  then show ?thesis using assms(2) ProcessMsg settles_process_request by (simp add: ps_dispatch_def)
qed (use assms settles_syscall in \<open>auto simp: ps_dispatch_def ps_owes_def\<close>)

lemma handle_envelope_answered:
  assumes "ps_handle_envelope P ce env s = Some (out, s')" "ps_owes (ReqEvent env)" "expects_response env"
  shows "answered ce env out"
proof -
  obtain r out1 where d: "ps_dispatch P ce env s = Some (r, out1, s')"
    "out = (case r of Inl e \<Rightarrow> out1 @ ok_error ce env (MsgOther 1 (genshin_error_fmt e)) | Inr _ \<Rightarrow> out1)"
    using assms(1,3) by (auto simp: ps_handle_envelope_def cong: sum.case_cong)
  show ?thesis
  proof (cases r)
    case (Inr u)
    then show ?thesis using settles_dispatch [OF assms(2,3), of ce P s] d by (simp add: settles_def)
  qed (use d(2) in simp)
qed

interpretation proc: responding_service ce "ps_event P ce" event_env ps_owes for P ce
proof
  fix e :: PsEvent and s s' :: "'a ProcessService" and out c i
  assume h: "ps_event P ce e s = Some (out, s')" and o': "ps_owes e" and a: "asks ce (event_env e) c i"
  from o' obtain env where e: "e = ReqEvent env" by (cases e) (auto simp: ps_owes_def)
  then have "answered ce env out"
    using h o' a handle_envelope_answered asks_expects by (fastforce simp: ps_event_def)
  then show "\<exists>resp. (c, resp) \<in> set out \<and> response_request_id resp = i"
    using a e by (simp add: answered_def)
qed

text \<open>Peers that never answer, on a service without processes.\<close>

definition silent_peers :: "unit Peers" where
  "silent_peers =
     \<lparr>ask = (\<lambda>_ m w. (NoReply, m, w)), tell = (\<lambda>_ m w. (m, w)), clock = (\<lambda>_. 0), asm_source = (\<lambda>_ _. None),
      page_keys = (\<lambda>_ _. []), pid_keys = (\<lambda>_. [1, 2, 3]), stack_depth = 100\<rparr>"

definition open_channels :: ChanEnv where
  "open_channels = \<lparr>connected = (\<lambda>_. True), send_error_text = []\<rparr>"

definition request_envelope :: "KernelMsg \<Rightarrow> u64 \<Rightarrow> chan \<Rightarrow> Envelope" where
  "request_envelope msg i c = \<lparr>message = msg, request_id = Some i, response_channel = Some c\<rparr>"

end
