(* ===== verification/Process_Invariant.thy ===== *)
theory Process_Invariant
  imports Process_Service
begin

text \<open>
  The invariant of the process service and its preservation by every request, system call and timer tick. It
  speaks of the process table, the processors and the scheduler together; the other parts of the state are free.
  Process numbers are 64-bit and wrap, so the part of the invariant that orders them holds for as long as
  fewer than \<open>2 ^ 64\<close> of them have been handed out: the number \<open>n\<close> counts them.
\<close>

section \<open>The invariant\<close>

definition own_cpu :: "pid \<Rightarrow> VirtualCPU \<Rightarrow> bool" where
  "own_cpu p c \<longleftrightarrow> current_pid c = p \<and> length (registers c) = 4 \<and> length (syscall_regs c) = 4"

definition entry_ok :: "nat \<Rightarrow> u64 \<Rightarrow> pid \<Rightarrow> PCB \<Rightarrow> bool" where
  "entry_ok n nxt p pcb \<longleftrightarrow>
     pcb_pid pcb = p \<and> (n < 2 ^ 64 \<longrightarrow> p < nxt \<and> (\<forall>q. parent_pid pcb = Some q \<longrightarrow> q < p))"

definition ps_inv :: "nat \<Rightarrow> 'w ProcessService \<Rightarrow> bool" where
  "ps_inv n s \<longleftrightarrow>
     (\<forall>p pcb. process_table s p = Some pcb \<longrightarrow> cpus s p \<noteq> None \<and> entry_ok n (next_pid s) p pcb) \<and>
     (\<forall>p c. cpus s p = Some c \<longrightarrow> own_cpu p c) \<and>
     (n < 2 ^ 64 \<longrightarrow> 0 < next_pid s \<and> unat (next_pid s) \<le> n) \<and>
     sched_wf (ps_scheduler s) \<and> length (cpu_current (ps_scheduler s)) = cpu_count s \<and>
     length (last_running s) = cpu_count s \<and> cpu_count s = 2"

lemma ps_invD:
  assumes "ps_inv n s"
  shows "process_table s p = Some pcb \<Longrightarrow> entry_ok n (next_pid s) p pcb" "process_table s p = Some pcb \<Longrightarrow> \<exists>c. cpus s p = Some c"
    "cpus s p = Some c \<Longrightarrow> own_cpu p c" "sched_wf (ps_scheduler s)" "length (cpu_current (ps_scheduler s)) = cpu_count s"
    "length (last_running s) = cpu_count s"
  using assms by (auto simp: ps_inv_def)

lemma ps_inv_mono: "ps_inv n s \<Longrightarrow> n \<le> m \<Longrightarrow> ps_inv m s"
  by (auto simp: ps_inv_def entry_ok_def)

text \<open>The parts of the state it does not look at.\<close>

lemma ps_inv_free [simp]:
  "ps_inv n (s\<lparr>ps_mmu := m\<rparr>) = ps_inv n s" "ps_inv n (s\<lparr>world := w\<rparr>) = ps_inv n s"
  "ps_inv n (s\<lparr>sync_manager := sy\<rparr>) = ps_inv n s" "ps_inv n (s\<lparr>ipc_manager := im\<rparr>) = ps_inv n s"
  "ps_inv n (s\<lparr>parent_children := pcs\<rparr>) = ps_inv n s" "ps_inv n (s\<lparr>waiting_parents := wp\<rparr>) = ps_inv n s"
  "ps_inv n (s\<lparr>pending_forks := pf\<rparr>) = ps_inv n s"
  by (simp_all add: ps_inv_def)

named_theorems ps_intros

section \<open>The elementary changes\<close>

text \<open>Changes of a process entry that keep its number and its parent.\<close>

lemma ps_inv_entry:
  assumes "ps_inv n s" "\<And>pcb. pcb_pid (f pcb) = pcb_pid pcb \<and> parent_pid (f pcb) = parent_pid pcb"
  shows "ps_inv n (s\<lparr>process_table := (process_table s)(p := map_option f (process_table s p))\<rparr>)"
  using assms by (auto simp: ps_inv_def entry_ok_def split: if_splits)

lemma ps_inv_set_state [ps_intros]: "ps_inv n s \<Longrightarrow> ps_inv n (set_state p st s)"
  unfolding set_state_def by (erule ps_inv_entry) (simp add: pcb_set_state_def)

lemma ps_inv_drop_entry [ps_intros]: "ps_inv n s \<Longrightarrow> ps_inv n (s\<lparr>process_table := (process_table s)(p := None)\<rparr>)"
  by (auto simp: ps_inv_def)

lemma ps_inv_put_cpu [ps_intros]: "ps_inv n s \<Longrightarrow> own_cpu p c \<Longrightarrow> ps_inv n (put_cpu p c s)"
  by (auto simp: ps_inv_def put_cpu_def)

lemma ps_inv_map_cpu:
  assumes "ps_inv n s" "\<And>c. own_cpu p c \<Longrightarrow> own_cpu p (f c)"
  shows "ps_inv n (s\<lparr>cpus := (cpus s)(p := map_option f (cpus s p))\<rparr>)"
  using assms by (auto simp: ps_inv_def split: if_splits)

lemma ps_inv_sched:
  assumes "ps_inv n s" "sched_step (ps_scheduler s) sc"
  shows "ps_inv n (s\<lparr>ps_scheduler := sc\<rparr>)"
  using assms sched_step_wf [OF assms(2)] by (simp add: ps_inv_def)

lemma ps_inv_ready [ps_intros]: "ps_inv n s \<Longrightarrow> ps_inv n (sched_op (sched_ready t0 p t prio) s)"
  unfolding sched_op_def by (erule ps_inv_sched) (rule sched_step.ready)

lemma ps_inv_remove [ps_intros]: "ps_inv n s \<Longrightarrow> ps_inv n (sched_op (\<lambda>sc. snd (sched_remove p t sc)) s)"
  unfolding sched_op_def by (erule ps_inv_sched) (rule sched_step.remove)

lemma ps_inv_sched_block [ps_intros]: "ps_inv n s \<Longrightarrow> ps_inv n (sched_op (\<lambda>sc. snd (sched_block p t sc)) s)"
  unfolding sched_block_def by (rule ps_inv_remove)

lemma ps_inv_tell [ps_intros]: "ps_inv n s \<Longrightarrow> ps_inv n (ps_tell P msg s)"
  by (simp add: ps_tell_def split: prod.split)

lemma ps_ask_cases:
  assumes "ps_ask P msg s = (r, s1)"
  obtains m w where "s1 = s\<lparr>ps_mmu := m, world := w\<rparr>"
  using assms by (auto simp: ps_ask_def split: prod.splits)

lemma ps_inv_ask: "ps_ask P msg s = (r, s1) \<Longrightarrow> ps_inv n s1 = ps_inv n s"
  by (erule ps_ask_cases) simp

lemma ps_inv_ask_ignore [ps_intros]: "ps_inv n s \<Longrightarrow> ps_inv n (ps_ask_ignore P msg s)"
  using ps_inv_ask [of P msg s] by (cases "ps_ask P msg s") (simp add: ps_ask_ignore_def)

lemma ps_inv_fold [ps_intros]:
  "ps_inv n s \<Longrightarrow> (\<And>x s'. ps_inv n s' \<Longrightarrow> ps_inv n (f x s')) \<Longrightarrow> ps_inv n (fold f xs s)"
  by (induction xs arbitrary: s) auto

lemma ps_inv_exit_pages [ps_intros]: "ps_inv n s \<Longrightarrow> ps_inv n (exit_pages P p es s)"
  by (induction P p es s rule: exit_pages.induct) (simp_all add: ps_intros)

lemma ps_inv_map_frames [ps_intros]: "ps_inv n s \<Longrightarrow> ps_inv n (map_frames P p i fs s)"
  by (induction P p i fs s rule: map_frames.induct) (simp_all add: ps_intros)

section \<open>Processors\<close>

lemma own_cpu_write [simp]: "own_cpu p (write_register c r v) = own_cpu p c"
  by (simp add: own_cpu_def write_register_def)

lemma own_cpu_update [simp]:
  "own_cpu p (set_pc c a) = own_cpu p c" "own_cpu p (set_sp c a) = own_cpu p c" "own_cpu p (cpu_halt c) = own_cpu p c"
  "own_cpu p (c\<lparr>halted := h\<rparr>) = own_cpu p c" "own_cpu p (c\<lparr>syscall_pending := h\<rparr>) = own_cpu p c"
  "own_cpu p (c\<lparr>pagefault_pending := h\<rparr>) = own_cpu p c" "own_cpu p (c\<lparr>cpu_bus := b\<rparr>) = own_cpu p c"
  "own_cpu p (c\<lparr>mmu := m\<rparr>) = own_cpu p c" "own_cpu p (c\<lparr>pc := a\<rparr>) = own_cpu p c"
  "own_cpu p (c\<lparr>instruction_count := k\<rparr>) = own_cpu p c" "own_cpu p (c\<lparr>cpu_flags := fl\<rparr>) = own_cpu p c"
  by (simp_all add: own_cpu_def set_pc_def set_sp_def cpu_halt_def)

lemma own_cpu_new [simp]: "own_cpu p (VirtualCPU_new m b p)"
  by (simp add: own_cpu_def VirtualCPU_new_def)

lemma own_child_cpu [simp]: "own_cpu c (child_cpu m parent c)"
  by (auto simp: child_cpu_def Let_def upt_rec split: option.split)

lemma own_cpu_execute:
  assumes "own_cpu p c" "execute_instruction i c = (r, c')"
  shows "own_cpu p c'"
  using assms by (cases i) (auto simp: cpu_defs own_cpu_def Let_def split: if_splits sum.splits)

lemma own_cpu_step:
  assumes "own_cpu p c" "cpu_step c = (r, c')"
  shows "own_cpu p c'"
proof -
  obtain f c1 where f: "fetch_instruction c = (f, c1)" by fastforce
  then have c1: "own_cpu p c1" using fetch_instruction_frame [OF f] assms(1) by auto
  have ex: "own_cpu p c2" if "execute_instruction i c1 = (r2, c2)" for i r2 c2
    using own_cpu_execute [OF c1 that] .
  show ?thesis
    using assms f c1 ex
    by (auto simp: cpu_step_def page_fault_exit_def cpu_send_def split: if_splits sum.splits CPUError.splits prod.splits)
qed

lemma step_cpu_inv:
  assumes "step_cpu P c s = (r, c', s')" "ps_inv n s" "own_cpu p c"
  shows "ps_inv n s'" "own_cpu p c'"
proof -
  obtain c1 where c1: "cpu_step (c\<lparr>mmu := ps_mmu s, cpu_bus := []\<rparr>) = (r, c1)" "c' = c1\<lparr>cpu_bus := []\<rparr>"
    "s' = fold (ps_tell P) (cpu_bus c1) (s\<lparr>ps_mmu := mmu c1\<rparr>)"
    using assms(1) by (auto simp: step_cpu_def split: prod.splits)
  then show "own_cpu p c'" using own_cpu_step [OF _ c1(1), of p] assms(3) by simp
  show "ps_inv n s'" unfolding c1(3) using assms(2) by (intro ps_intros) simp_all
qed

section \<open>Fork and exec\<close>

text \<open>A number is taken: the count of those handed out goes up, and all old numbers stay below the new one.\<close>

lemma take_pid_inv:
  assumes "take_pid s = (c, s1)" "ps_inv n s"
  shows "ps_inv (n + 1) s1" "process_table s1 = process_table s" "cpus s1 = cpus s" "world s1 = world s"
    "n + 1 < 2 ^ 64 \<Longrightarrow> c < next_pid s1" "\<And>p pcb. n + 1 < 2 ^ 64 \<Longrightarrow> process_table s p = Some pcb \<Longrightarrow> p < c"
proof -
  have s1: "c = next_pid s" "s1 = s\<lparr>next_pid := next_pid s + 1\<rparr>" using assms(1) by (auto simp: take_pid_def)
  then show "process_table s1 = process_table s" "cpus s1 = cpus s" "world s1 = world s" by simp_all
  show below: "p < c" if "n + 1 < 2 ^ 64" "process_table s p = Some pcb" for p pcb
    using assms(2) that s1 by (simp add: ps_inv_def entry_ok_def)
  have suc: "unat (next_pid s + 1) = unat (next_pid s) + 1" if "n + 1 < 2 ^ 64"
    using assms(2) that by (simp add: ps_inv_def unat_word_ariths)
  then show lt: "c < next_pid s1" if "n + 1 < 2 ^ 64" using that s1 by (simp add: word_less_nat_alt)
  have "entry_ok (n + 1) (next_pid s + 1) p pcb" if "process_table s p = Some pcb" for p pcb
    using assms(2) that below [OF _ that] lt s1 by (fastforce simp: ps_inv_def entry_ok_def)
  moreover have "n + 1 < 2 ^ 64 \<Longrightarrow> 0 < next_pid s + 1 \<and> unat (next_pid s + 1) \<le> n + 1"
    using suc assms(2) by (simp add: ps_inv_def word_less_nat_alt)
  ultimately show "ps_inv (n + 1) s1" using assms(2) s1 by (auto simp: ps_inv_def)
qed

text \<open>A new process with its processor.\<close>

lemma ps_inv_new_process:
  assumes "ps_inv n s" "own_cpu c k" "pcb_pid pcb = c"
    and "n < 2 ^ 64 \<Longrightarrow> c < next_pid s \<and> (\<forall>q. parent_pid pcb = Some q \<longrightarrow> q < c)"
  shows "ps_inv n (s\<lparr>cpus := (cpus s)(c \<mapsto> k), process_table := (process_table s)(c \<mapsto> pcb)\<rparr>)"
  using assms by (auto simp: ps_inv_def entry_ok_def)

lemma clone_page_frame:
  assumes "clone_page P p c e s = (r, s')"
  obtains m w where "s' = s\<lparr>ps_mmu := m, world := w\<rparr>"
proof (cases e)
  case (fields va pa fl)
  obtain a s1 where a: "ps_ask P (MemoryMsg (AllocFrame 1 c)) s = (a, s1)" by fastforce
  then obtain m1 w1 where s1: "s1 = s\<lparr>ps_mmu := m1, world := w1\<rparr>" by (rule ps_ask_cases)
  have ign: "\<exists>m w. ps_ask_ignore P msg s1 = s\<lparr>ps_mmu := m, world := w\<rparr>" for msg
    using s1 ps_ask_cases [of P msg s1] by (cases "ps_ask P msg s1") (fastforce simp: ps_ask_ignore_def)
  have "s' = s1 \<or> (\<exists>msg m. s' = (ps_ask_ignore P msg s1)\<lparr>ps_mmu := m\<rparr>)"
    using assms a fields by (auto simp: clone_page_def Let_def split: BusReply.splits option.splits ResponseData.splits)
  then show thesis
  proof (elim disjE exE)
    fix msg m
    assume s': "s' = (ps_ask_ignore P msg s1)\<lparr>ps_mmu := m\<rparr>"
    from ign obtain m' w where "ps_ask_ignore P msg s1 = s\<lparr>ps_mmu := m', world := w\<rparr>" by blast
    then show thesis using s' that [of w m] by simp
  qed (use s1 that in simp)
qed

lemma clone_pages_frame: "clone_pages P p c es s = (r, s') \<Longrightarrow> \<exists>m w. s' = s\<lparr>ps_mmu := m, world := w\<rparr>"
proof (induction P p c es s rule: clone_pages.induct)
  case (1 P p c s)
  then show ?case by (intro exI [of _ "ps_mmu s"] exI [of _ "world s"]) simp
next
  case (2 P p c e es s)
  obtain r1 s1 where e: "clone_page P p c e s = (r1, s1)" by fastforce
  then obtain m w where "s1 = s\<lparr>ps_mmu := m, world := w\<rparr>" by (rule clone_page_frame)
  then show ?case using 2 e by (fastforce split: sum.splits)
qed

lemma fork_fresh_inv:
  assumes "fork_fresh P locked s = Some (r, s')" "ps_inv n s"
  shows "ps_inv (n + 1) s'"
proof -
  obtain c s1 where t: "take_pid s = (c, s1)" by fastforce
  note i = take_pid_inv [OF t assms(2)]
  have "s' = s1\<lparr>cpus := (cpus s1)(c \<mapsto> VirtualCPU_new (ps_mmu s1) [] c),
                process_table := (process_table s1)(c \<mapsto> PCB_new (ps_now P s1) c ''init'' None)\<rparr>"
    using assms(1) t by (simp add: fork_fresh_def split: if_splits)
  moreover have "ps_inv (n + 1) \<dots>"
    by (rule ps_inv_new_process [OF i(1)]) (simp_all add: PCB_new_def i(5))
  ultimately show ?thesis by simp
qed

lemma fork_inv:
  assumes "fork_impl P locked p s = Some (r, s')" "ps_inv n s"
  shows "ps_inv (n + 1) s'"
proof (cases "p = 0 \<or> process_table s p = None")
  case True
  then show ?thesis
    using assms fork_fresh_inv [of P locked s r s' n] ps_inv_mono [of n s "n + 1"] by (auto simp: fork_impl_def split: if_splits)
next
  case False
  then have p: "p \<noteq> 0" "process_table s p \<noteq> None" by simp_all
  obtain c s1 where t: "take_pid s = (c, s1)" by fastforce
  note i = take_pid_inv [OF t assms(2)]
  obtain r2 s2 where cl: "clone_pages P p c (page_entries P p s1) s1 = (r2, s2)" by fastforce
  then obtain m w where s2: "s2 = s1\<lparr>ps_mmu := m, world := w\<rparr>" using clone_pages_frame by blast
  have s2i: "ps_inv (n + 1) s2" using i(1) s2 by simp
  show ?thesis
  proof (cases r2)
    case (Inl e)
    then show ?thesis using assms(1) p t cl s2i by (simp add: fork_impl_def)
  next
    case (Inr u)
    let ?pcb = "(PCB_new (ps_now P s2) c (''(fork of '' @ dec64 p @ '')'') (Some p))\<lparr>pcb_state := PReady\<rparr>"
    let ?k = "child_cpu (ps_mmu s2) (cpus s2 p) c"
    obtain cs where s': "s' = ps_ask_ignore P (FileMsg (CloneFds p c))
        ((s2\<lparr>cpus := (cpus s2)(c \<mapsto> ?k), process_table := (process_table s2)(c \<mapsto> ?pcb)\<rparr>)\<lparr>parent_children := cs\<rparr>)"
      using assms(1) p t cl Inr by (auto simp: fork_impl_def Let_def split: if_splits)
    have "ps_inv (n + 1) (s2\<lparr>cpus := (cpus s2)(c \<mapsto> ?k), process_table := (process_table s2)(c \<mapsto> ?pcb)\<rparr>)"
      by (rule ps_inv_new_process [OF s2i]) (use p i(5,6) s2 in \<open>auto simp: PCB_new_def\<close>)
    then show ?thesis unfolding s' by (intro ps_intros) simp
  qed
qed

lemma alloc_frames_frame: "alloc_frames P k p s = (r, s') \<Longrightarrow> ps_inv n s' = ps_inv n s"
  by (auto simp: alloc_frames_def ps_inv_ask split: prod.splits BusReply.splits option.splits ResponseData.splits dest!: ps_inv_ask)

lemma ps_inv_schedule [ps_intros]: "ps_inv n s \<Longrightarrow> ps_inv n (handle_schedule P p t s)"
  by (simp add: handle_schedule_def Let_def ps_intros)

lemma exec_inv:
  assumes "exec_impl P locked p exe args s = Some (r, s')" "ps_inv n s"
  shows "ps_inv n s'"
proof (cases "process_table s p = None \<or> program_code P exe args s = None")
  case True
  then show ?thesis using assms by (auto simp: exec_impl_def split: if_splits option.splits)
next
  case False
  then obtain code where code: "process_table s p \<noteq> None" "program_code P exe args s = Some code" by auto
  let ?s1 = "fold (\<lambda>(va, _, _). ps_tell P (MemoryMsg (UnmapPage p va))) (page_entries P p s) s"
  have s1: "ps_inv n ?s1" using assms(2) by (intro ps_intros) (auto intro: ps_intros)
  obtain rf s2 where fr: "alloc_frames P ((length code + 4095) div 4096) p ?s1 = (rf, s2)" by fastforce
  have s2: "ps_inv n s2" using alloc_frames_frame [OF fr] s1 by simp
  show ?thesis
  proof (cases rf)
    case (Inl e)
    then show ?thesis using assms(1) code fr s2 by (simp add: exec_impl_def)
  next
    case (Inr frames)
    let ?s3 = "map_frames P p 0 frames s2"
    have s3: "ps_inv n ?s3" using s2 by (rule ps_intros)
    obtain m where s': "s' = handle_schedule P p 1 (((?s3\<lparr>ps_mmu := m\<rparr>)
        \<lparr>cpus := (cpus ?s3)(p := map_option (\<lambda>c. (set_sp (set_pc c 0) 0xFFFF)\<lparr>halted := False\<rparr>) (cpus ?s3 p))\<rparr>)
        \<lparr>process_table := (process_table ?s3)(p := map_option
            (\<lambda>pcb. pcb\<lparr>pcb_name := exe, pcb_args := args, pcb_state := PReady\<rparr>) (process_table ?s3 p))\<rparr>)"
      using assms(1) code fr Inr by (auto simp: exec_impl_def Let_def split: if_splits)
    let ?s4 = "(?s3\<lparr>ps_mmu := m\<rparr>)
        \<lparr>cpus := (cpus ?s3)(p := map_option (\<lambda>c. (set_sp (set_pc c 0) 0xFFFF)\<lparr>halted := False\<rparr>) (cpus ?s3 p))\<rparr>"
    have "ps_inv n ?s4" using ps_inv_map_cpu [of n "?s3\<lparr>ps_mmu := m\<rparr>" p] s3 by simp
    from ps_inv_entry [OF this, of "\<lambda>pcb. pcb\<lparr>pcb_name := exe, pcb_args := args, pcb_state := PReady\<rparr>" p]
    show ?thesis unfolding s' by (intro ps_intros) simp
  qed
qed

lemma create_inv:
  assumes "create_process P exe args s = Some (r, s')" "ps_inv n s"
  shows "ps_inv (n + 1) s'"
  using assms fork_inv [of P False 0 s _ _ n] exec_inv [of P False _ exe args _ _ _ "n + 1"]
  by (fastforce simp: create_process_def split: option.splits sum.splits)

section \<open>System calls\<close>

definition sys_ok :: "nat \<Rightarrow> pid \<Rightarrow> 'w SysResult \<Rightarrow> bool" where
  "sys_ok n p r = (case r of SysDone c s \<Rightarrow> ps_inv n s \<and> own_cpu p c | _ \<Rightarrow> True)"

lemma sys_ok_simps [simp]:
  "sys_ok n p SysDead" "sys_ok n p SysPanic" "sys_ok n p (SysDone c s) \<longleftrightarrow> ps_inv n s \<and> own_cpu p c"
  by (simp_all add: sys_ok_def)

lemma sys_ok_mono: "sys_ok n p r \<Longrightarrow> n \<le> m \<Longrightarrow> sys_ok m p r"
  by (cases r) (auto intro: ps_inv_mono)

named_theorems sys_intros

lemma sys_ok_deliver [sys_intros]: "ps_inv n s \<Longrightarrow> own_cpu p c \<Longrightarrow> sys_ok n p (deliver c q bs s)"
  by (simp add: deliver_def)

lemma sys_ok_exit [sys_intros]: "ps_inv n s \<Longrightarrow> own_cpu p c \<Longrightarrow> sys_ok n p (syscall_exit P c q code s)"
  by (simp add: syscall_exit_def Let_def ps_intros)

lemma sys_ok_print [sys_intros]: "ps_inv n s \<Longrightarrow> own_cpu p c \<Longrightarrow> sys_ok n p (syscall_print_str c k s)"
  by (simp add: syscall_print_str_def)

lemma sys_ok_open [sys_intros]: "ps_inv n s \<Longrightarrow> own_cpu p c \<Longrightarrow> sys_ok n p (syscall_open P c q r1 s)"
  by (simp add: syscall_open_def ps_inv_ask split: prod.split option.split ResponseData.split)

lemma sys_ok_read [sys_intros]: "ps_inv n s \<Longrightarrow> own_cpu p c \<Longrightarrow> sys_ok n p (syscall_read P c q r1 r2 s)"
  by (simp add: syscall_read_def ps_inv_ask sys_intros split: prod.split option.split ResponseData.split)

lemma sys_ok_listdir [sys_intros]: "ps_inv n s \<Longrightarrow> own_cpu p c \<Longrightarrow> sys_ok n p (syscall_listdir P c q s)"
  by (simp add: syscall_listdir_def ps_inv_ask sys_intros split: prod.split option.split ResponseData.split)

lemma sys_ok_device_read [sys_intros]: "ps_inv n s \<Longrightarrow> own_cpu p c \<Longrightarrow> sys_ok n p (syscall_device_read P c q k s)"
  by (simp add: syscall_device_read_def ps_inv_ask sys_intros split: prod.split option.split ResponseData.split)

lemma sys_ok_tell [sys_intros]:
  assumes "ps_inv n s" "own_cpu p c"
  shows "sys_ok n p (syscall_write P c q r1 r2 s)" "sys_ok n p (syscall_mkdir P c q s)" "sys_ok n p (syscall_unlink P c q s)"
    "sys_ok n p (syscall_stat P c q s)" "sys_ok n p (syscall_device_write P c q k s)"
  using assms
  by (simp_all add: syscall_write_def syscall_mkdir_def syscall_unlink_def syscall_stat_def syscall_device_write_def ps_intros)

lemma build_tree_frame:
  "build_tree_recursive d P path prefix s = Some (ls, s') \<Longrightarrow> ps_inv n s' = ps_inv n s"
  "build_tree_entries d P path prefix es s = Some (ls, s') \<Longrightarrow> ps_inv n s' = ps_inv n s"
proof (induction d P path prefix s and d P path prefix es s arbitrary: ls s' and ls s'
    rule: build_tree_recursive_build_tree_entries.induct)
  case (2 d P path prefix s)
  obtain r s1 where a: "ps_ask P (FileMsg (ListDir path)) s = (r, s1)" by fastforce
  show ?case
    using 2 a ps_inv_ask [OF a] by (auto split: option.splits ResponseData.splits)
next
  case (4 d P path prefix e es s)
  then show ?case by (fastforce simp: Let_def split: option.splits)
qed simp_all

lemma sys_ok_tree [sys_intros]: "ps_inv n s \<Longrightarrow> own_cpu p c \<Longrightarrow> sys_ok n p (syscall_tree P c q s)"
  by (auto simp: syscall_tree_def build_tree_def build_tree_frame intro!: sys_intros split: option.split)

lemma sys_ok_block [sys_intros]: "ps_inv n s \<Longrightarrow> own_cpu p c \<Longrightarrow> sys_ok n p (block_caller c q i s)"
  by (simp add: block_caller_def ps_intros)

lemma ps_inv_resume [ps_intros]: "ps_inv n s \<Longrightarrow> ps_inv n (resume_cpu w s)"
  unfolding resume_cpu_def by (erule ps_inv_map_cpu) (auto simp: own_cpu_def Let_def)

lemma sys_ok_sync [sys_intros]:
  assumes "ps_inv n s" "own_cpu p c"
  shows "sys_ok n p (syscall_sem_create c q s)" "sys_ok n p (syscall_lock_create c q s)"
    "sys_ok n p (syscall_sem_wait c q i s)" "sys_ok n p (syscall_lock_acquire c q i s)"
    "sys_ok n p (syscall_sem_signal P c i s)" "sys_ok n p (syscall_lock_release P lk c q i s)"
  using assms
  by (auto simp: syscall_sem_create_def syscall_lock_create_def syscall_sem_wait_def syscall_lock_acquire_def
      syscall_sem_signal_def syscall_lock_release_def wake_def Let_def split: prod.split option.split intro!: ps_intros sys_intros)

lemma sys_ok_exec [sys_intros]:
  assumes "ps_inv n s" "own_cpu p c"
  shows "sys_ok n p (syscall_exec P c q s)"
  using assms exec_inv [of P True q _ "[]" s] by (auto simp: syscall_exec_def split: option.split)

lemma sys_ok_fork:
  assumes "ps_inv n s" "own_cpu p c"
  shows "sys_ok (n + 1) p (syscall_fork P c q s)"
  using assms fork_inv [of P True q s] by (auto simp: syscall_fork_def split: option.split sum.split)

lemma file_syscall_ok:
  assumes "ps_inv n s" "own_cpu p c"
  shows "sys_ok (n + 1) p (handle_file_syscall P c r0 r1 r2 s)"
proof (cases "r0 = 100")
  case True
  then show ?thesis using sys_ok_fork [OF assms] by (simp add: handle_file_syscall_def)
next
  case False
  then have "sys_ok n p (handle_file_syscall P c r0 r1 r2 s)"
    using assms by (auto simp: handle_file_syscall_def Let_def intro!: sys_intros ps_intros)
  then show ?thesis by (rule sys_ok_mono) simp
qed

lemma pending_syscall_inv:
  assumes "pending_syscall P c s = Some r" "ps_inv n s" "own_cpu p c"
  shows "case r of Inl (c', s') \<Rightarrow> ps_inv (n + 1) s' \<and> own_cpu p c' | Inr (c', s') \<Rightarrow> ps_inv (n + 1) s' \<and> own_cpu p c'"
  using assms file_syscall_ok [of n s p "c\<lparr>syscall_pending := False\<rparr>" P "syscall_regs c ! 0" "syscall_regs c ! 1" "syscall_regs c ! 2"]
    ps_inv_mono [of n s "n + 1"]
  by (auto simp: pending_syscall_def Let_def split: if_splits SysResult.splits)

lemma page_fault_request_inv:
  assumes "page_fault_request P c s = (c', s')" "ps_inv n s" "own_cpu p c"
  shows "ps_inv n s'" "own_cpu p c'"
  using assms by (auto simp: page_fault_request_def ps_intros split: if_splits)

lemma run_steps_inv:
  "run_steps k P q c s = Some (c', s') \<Longrightarrow> ps_inv n s \<Longrightarrow> own_cpu p c \<Longrightarrow> ps_inv (n + k) s' \<and> own_cpu p c'"
proof (induction k P q c s arbitrary: n rule: run_steps.induct)
  case (2 k P q c s)
  show ?case
  proof (cases "halted c")
    case True
    then show ?thesis using "2.prems" ps_inv_mono [of n s "n + Suc k"] by simp
  next
    case False
    obtain r c1 s1 where st: "step_cpu P c s = (r, c1, s1)" by (metis prod_cases3)
    note i1 = step_cpu_inv [OF st "2.prems"(2,3)]
    have i1': "ps_inv (n + Suc k) s1" using ps_inv_mono [OF i1(1)] by simp
    show ?thesis
    proof (cases "\<not> is_ok r \<and> q = 1 \<or> (case r of Inl e \<Rightarrow> \<not> is_page_fault e | Inr _ \<Rightarrow> False)")
      case True
      then have "(c' = c1 \<or> c' = cpu_halt c1) \<and> s' = s1" using "2.prems"(1) False st by (auto split: if_splits)
      then show ?thesis using i1' i1(2) by auto
    next
      case go: False
      then obtain x where ps: "pending_syscall P c1 s1 = Some x" using "2.prems"(1) False st by (auto split: option.splits if_splits)
      note i2 = pending_syscall_inv [OF ps i1]
      show ?thesis
      proof (cases x)
        case (Inl y)
        then have "y = (c', s')" using "2.prems"(1) False st go ps by (cases y) (auto split: if_splits)
        then show ?thesis using i2 Inl ps_inv_mono [of "n + 1" s' "n + Suc k"] by simp
      next
        case (Inr y)
        obtain c2 s2 where y: "y = (c2, s2)" by fastforce
        obtain c3 s3 where pf: "page_fault_request P c2 s2 = (c3, s3)" by fastforce
        have i2': "ps_inv (n + 1) s2" "own_cpu p c2" using i2 Inr y by simp_all
        note i3 = page_fault_request_inv [OF pf i2']
        have go1: "\<not> (\<not> is_ok r \<and> q = 1)" "\<not> (case r of Inl e \<Rightarrow> \<not> is_page_fault e | Inr _ \<Rightarrow> False)" using go by simp_all
        have "run_steps k P q c3 s3 = Some (c', s')" using "2.prems"(1) False st go1 ps Inr y pf by (simp split: if_splits)
        from "2.IH" [OF False st [symmetric] refl go1 ps Inr y [symmetric] pf [symmetric] this i3] show ?thesis by simp
      qed
    qed
  qed
qed (simp add: ps_inv_mono)

section \<open>The timer tick\<close>

lemma choose_process_inv:
  assumes "choose_process P cpu taken s = Some (d, taken', s')" "ps_inv n s"
  shows "ps_inv n s'"
proof -
  obtain d1 sc where sch: "schedule (ps_now P s) cpu (ps_scheduler s) = Some (d1, sc)"
    using assms(1) by (cases "schedule (ps_now P s) cpu (ps_scheduler s)") (auto simp: choose_process_def)
  have i1: "ps_inv n (s\<lparr>ps_scheduler := sc\<rparr>)" using ps_inv_sched [OF assms(2) sched_step.sched [OF sch]] .
  have i2: "ps_inv n (s\<lparr>ps_scheduler := sc'\<rparr>)" if "yield_current (ps_now P s) cpu sc = Some (d2, sc')" for d2 sc'
    using ps_inv_sched [OF i1, of sc'] sched_step.yield [OF that] by simp
  show ?thesis
    using assms(1) sch i1 i2 by (auto simp: choose_process_def split: SchedulingDecision.splits if_splits option.splits)
qed

lemma ps_inv_last_running [simp]: "ps_inv n (s\<lparr>last_running := (last_running s)[cpu := x]\<rparr>) = ps_inv n s"
  by (simp add: ps_inv_def)

lemma last_running_set_state [simp]: "last_running (set_state p st s) = last_running s"
  by (simp add: set_state_def)

lemma ps_inv_note_running [ps_intros]:
  assumes "ps_inv n s"
  shows "ps_inv n (note_running cpu d s)"
proof -
  have upd: "ps_inv n (t\<lparr>last_running := (last_running s)[cpu := x]\<rparr>)" if "ps_inv n t" "last_running t = last_running s" for t x
    using that by (metis ps_inv_last_running)
  show ?thesis
    using assms
    by (auto simp: note_running_def Let_def upd ps_inv_set_state split: SchedulingDecision.split option.split)
qed

lemma ps_inv_mark_running [ps_intros]: "ps_inv n s \<Longrightarrow> ps_inv n (mark_running p s)"
  by (simp add: mark_running_def ps_intros)

lemma run_process_inv:
  assumes "run_process P p s = Some s'" "ps_inv n s"
  shows "ps_inv (n + 3) s'"
proof (cases "cpus s p")
  case None
  then show ?thesis using assms ps_inv_mono [of n s "n + 3"] by (simp add: run_process_def)
next
  case (Some c)
  then have own: "own_cpu p c" using ps_invD(3) [OF assms(2)] by blast
  let ?c1 = "if halted c \<and> (state_of p s = Some PReady \<or> state_of p s = Some PRunning) then c\<lparr>halted := False\<rparr> else c"
  have own1: "own_cpu p ?c1" using own by simp
  show ?thesis
  proof (cases "halted ?c1")
    case True
    then have "s' = put_cpu p ?c1 s" using assms(1) Some by (simp add: run_process_def)
    then show ?thesis using ps_inv_put_cpu [OF ps_inv_mono [OF assms(2), of "n + 3"] own1] by simp
  next
    case False
    then obtain c2 s2 where r: "run_steps 3 P p ?c1 s = Some (c2, s2)" "s' = put_cpu p c2 s2"
      using assms(1) Some by (auto simp: run_process_def Let_def split: if_splits)
    show ?thesis unfolding r(2) using run_steps_inv [OF r(1) assms(2) own1] by (intro ps_intros) simp_all
  qed
qed

lemma notify_parent_inv:
  assumes "notify_parent ce p code s = (out, s')" "ps_inv n s"
  shows "ps_inv n s'"
  using assms by (auto simp: notify_parent_def split: option.splits prod.splits)

lemma bury_inv:
  assumes "bury ce p s = (out, s')" "ps_inv n s"
  shows "ps_inv n s'"
proof -
  have resume: "ps_inv n (s\<lparr>cpus := (cpus s)(p := map_option (\<lambda>c. c\<lparr>halted := False\<rparr>) (cpus s p))\<rparr>)"
    using ps_inv_map_cpu [OF assms(2)] by simp
  have gone: "ps_inv n (sched_op (\<lambda>sc. snd (sched_remove p 1 sc)) s)" using assms(2) by (rule ps_intros)
  show ?thesis
    using assms resume gone ps_inv_set_state [OF gone]
    by (auto simp: bury_def Let_def dest!: notify_parent_inv [where n = n] split: if_splits option.splits)
qed

lemma ps_inv_reap [ps_intros]: "ps_inv n s \<Longrightarrow> ps_inv n (reap_process p s)"
  by (auto simp: reap_process_def ps_inv_def split: if_splits)

lemma ps_inv_reap_one [ps_intros]: "ps_inv n s \<Longrightarrow> ps_inv n (reap_one P s)"
  by (auto simp: reap_one_def intro: ps_intros split: option.split)

lemma tick_cpu_inv:
  assumes "tick_cpu P ce cpu taken s = Some (taken', out, s')" "ps_inv n s"
  shows "ps_inv (n + 3) s'"
proof -
  obtain d s1 where ch: "choose_process P cpu taken s = Some (d, taken', s1)"
    using assms(1) by (auto simp: tick_cpu_def Let_def split: option.splits SchedulingDecision.splits prod.splits)
  have i2: "ps_inv n (note_running cpu d s1)" using choose_process_inv [OF ch assms(2)] by (rule ps_intros)
  show ?thesis
  proof (cases "\<exists>p t. d = Run p t")
    case True
    then obtain p t where d: "d = Run p t" by blast
    then obtain s3 s4 where r: "run_process P p (mark_running p (note_running cpu d s1)) = Some s3"
      "bury ce p s3 = (out, s4)" "s' = reap_one P s4"
      using assms(1) ch by (auto simp: tick_cpu_def Let_def split: option.splits prod.splits)
    have "ps_inv (n + 3) s3" using run_process_inv [OF r(1)] i2 by (simp add: ps_intros)
    then have "ps_inv (n + 3) s4" by (rule bury_inv [OF r(2)])
    then show ?thesis unfolding r(3) by (rule ps_intros)
  next
    case False
    then have "s' = reap_one P (note_running cpu d s1)"
      using assms(1) ch by (auto simp: tick_cpu_def Let_def split: SchedulingDecision.splits)
    then show ?thesis using ps_inv_mono [OF ps_inv_reap_one [OF i2], of "n + 3"] by simp
  qed
qed

lemma tick_cpus_inv:
  "tick_cpus P ce is taken s = Some (out, s') \<Longrightarrow> ps_inv n s \<Longrightarrow> ps_inv (n + 3 * length is) s'"
proof (induction P ce "is" taken s arbitrary: out n rule: tick_cpus.induct)
  case (2 P ce i "is" taken s)
  obtain taken' out1 s1 where t: "tick_cpu P ce i taken s = Some (taken', out1, s1)"
    using "2.prems"(1) by (auto split: option.splits)
  then obtain out2 where rest: "tick_cpus P ce is taken' s1 = Some (out2, s')"
    using "2.prems"(1) by auto
  have "ps_inv (n + 3 + 3 * length is) s'"
    using "2.IH" [OF t refl refl rest tick_cpu_inv [OF t "2.prems"(2)]] .
  then show ?case by (simp add: algebra_simps)
qed simp

lemma timer_inv: "handle_timer_interrupt P ce s = Some (out, s') \<Longrightarrow> ps_inv n s \<Longrightarrow> ps_inv (n + 6) s'"
  using tick_cpus_inv [of P ce "[0..<cpu_count s]" "{}" s out s' n] by (simp add: handle_timer_interrupt_def ps_inv_def)

section \<open>Requests\<close>

text \<open>An outcome keeps the invariant and hands out at most \<open>k\<close> numbers.\<close>

definition outcome_ok :: "nat \<Rightarrow> 'w outcome \<Rightarrow> bool" where
  "outcome_ok n o' = (case o' of Some (_, _, s) \<Rightarrow> ps_inv n s | None \<Rightarrow> True)"

lemma outcome_ok_simps [simp]:
  "outcome_ok n None" "outcome_ok n (Some (r, out, s)) = ps_inv n s" "outcome_ok n (quiet s) = ps_inv n s"
  "outcome_ok n (quiet_result (r', s)) = ps_inv n s" "outcome_ok n (and_respond ce env d s) = ps_inv n s"
  by (simp_all add: outcome_ok_def quiet_def quiet_result_def and_respond_def split: prod.split)

lemma outcome_ok_mono: "outcome_ok n o' \<Longrightarrow> n \<le> m \<Longrightarrow> outcome_ok m o'"
  by (auto simp: outcome_ok_def split: option.splits intro: ps_inv_mono)

lemma outcome_ok_then_respond:
  "(\<And>r s. o' = Some (r, s) \<Longrightarrow> ps_inv n s) \<Longrightarrow> outcome_ok n (then_respond ce env f o')"
  by (auto simp: then_respond_def split: option.split sum.split)

lemma outcome_ok_bind:
  "(\<And>r s. o' = Some (r, s) \<Longrightarrow> ps_inv n s) \<Longrightarrow> outcome_ok n (Option.bind o' quiet_result)"
  by (cases o') (auto simp: quiet_result_def)

lemma drop_out_Some: "drop_out o' = Some (r, s) \<Longrightarrow> outcome_ok n o' \<Longrightarrow> ps_inv n s"
  by (auto simp: drop_out_def)

lemma ps_inv_block [ps_intros]: "ps_inv n s \<Longrightarrow> ps_inv n (handle_block p t s)"
  by (simp add: handle_block_def ps_intros)

lemma simple_requests [ps_intros]:
  assumes "ps_inv n s"
  shows "ps_inv n (handle_unblock P p t s)" "ps_inv n (handle_receive_message p b s)"
    "ps_inv n (handle_create_shared_memory p sz prot s)" "ps_inv n (handle_create_semaphore p v s)"
    "ps_inv n (handle_signal_semaphore i s)" "ps_inv n (handle_create_lock p s)" "ps_inv n (handle_acquire_lock p i s)"
    "ps_inv n (handle_release_lock p i s)"
  using assms
  by (auto simp: handle_unblock_def handle_receive_message_def handle_create_shared_memory_def handle_create_semaphore_def
      handle_signal_semaphore_def handle_create_lock_def handle_acquire_lock_def handle_release_lock_def
      intro!: ps_intros split: prod.split option.split MutexResult.split)

lemma ps_inv_context_switch [ps_intros]: "ps_inv n s \<Longrightarrow> ps_inv n (handle_context_switch P a b s)"
  using ps_inv_ready [OF ps_inv_sched_block, of n s "ps_now P s" b 1 128 a 1] by (simp add: handle_context_switch_def sched_op_def)

lemma fallible_requests:
  assumes "ps_inv n s"
  shows "ps_inv n (snd (handle_send_message a b msg s))" "ps_inv n (snd (handle_attach_shared_memory p i s))"
    "ps_inv n (snd (handle_detach_shared_memory p i s))" "ps_inv n (snd (handle_wait_semaphore p i s))"
    "ps_inv n (snd (handle_wait_child p child s))" "ps_inv n (snd (handle_signal p sig s))"
proof -
  have "ps_inv n (s\<lparr>process_table := (process_table s)(p \<mapsto> add_signal sig pcb)\<rparr>)" if "process_table s p = Some pcb" for pcb
    using ps_inv_entry [OF assms, of "add_signal sig" p] that by (simp add: add_signal_def)
  then show "ps_inv n (snd (handle_signal p sig s))"
    using assms by (auto simp: handle_signal_def intro!: ps_intros split: option.split)
qed (use assms in \<open>auto simp: handle_send_message_def handle_attach_shared_memory_def handle_detach_shared_memory_def
      handle_wait_semaphore_def handle_wait_child_def intro!: ps_intros split: prod.split option.split sum.split SemaphoreResult.split list.split\<close>)

lemma wait_response_inv:
  "ps_inv n s \<Longrightarrow> handle_wait_child_with_response ce env p child s = (r, out, s') \<Longrightarrow> ps_inv n s'"
  using ps_inv_drop_entry [OF ps_inv_remove [of n s _ 1]]
  by (auto simp: handle_wait_child_with_response_def sched_op_def split: option.splits if_splits)

lemma spawn_children_inv:
  "spawn_children P k nm s = Some (cs, s') \<Longrightarrow> ps_inv n s \<Longrightarrow> ps_inv (n + k) s'"
proof (induction P k nm s arbitrary: cs n rule: spawn_children.induct)
  case (2 P k nm s)
  obtain r s1 where f: "fork_impl P False 0 s = Some (r, s1)" using "2.prems"(1) by (auto split: option.splits)
  note i1 = fork_inv [OF f "2.prems"(2)]
  show ?case
  proof (cases r)
    case (Inl e)
    then show ?thesis using "2.IH"(1) [OF f refl Inl _ i1] "2.prems"(1) f by simp
  next
    case (Inr c)
    obtain x s2 where x: "exec_impl P False c nm [] s1 = Some (x, s2)"
      using "2.prems"(1) f Inr by (auto split: option.splits)
    then obtain cs2 where rest: "spawn_children P k nm s2 = Some (cs2, s')" using "2.prems"(1) f Inr by auto
    then show ?thesis using "2.IH"(2) [OF f refl Inr x refl rest exec_inv [OF x i1]] by simp
  qed
qed simp

lemma spawn_plain_inv:
  assumes "spawn_plain P program s = Some s'" "ps_inv n s"
  shows "ps_inv (n + 2) s'"
proof -
  obtain fr s1 where sh: "spawn_shared P (spawn_name program) s = (fr, s1)" by fastforce
  have i1: "ps_inv n s1" using sh assms(2) by (auto simp: spawn_shared_def Let_def ps_inv_ask split: if_splits prod.splits)
  obtain cs s2 where c: "spawn_children P (spawn_count program) (spawn_name program) s1 = Some (cs, s2)" "s' = map_shared P fr cs s2"
    using assms(1) sh by (auto simp: spawn_plain_def)
  have "ps_inv (n + 2) s2"
    using spawn_children_inv [OF c(1) i1] by (rule ps_inv_mono) (simp add: spawn_count_def)
  then show ?thesis unfolding c(2) map_shared_def by (auto intro!: ps_intros split: option.split)
qed

lemma spawn_all_inv: "spawn_all P k nm s = Some (r, s') \<Longrightarrow> ps_inv n s \<Longrightarrow> ps_inv (n + k) s'"
proof (induction P k nm s arbitrary: n rule: spawn_all.induct)
  case (2 P k nm s)
  obtain x s1 where c: "create_process P nm [] s = Some (x, s1)" using "2.prems"(1) by (auto split: option.splits)
  note i1 = create_inv [OF c "2.prems"(2)]
  show ?case
  proof (cases x)
    case (Inl e)
    then show ?thesis using "2.prems"(1) c ps_inv_mono [OF i1, of "n + Suc k"] by simp
  next
    case (Inr p)
    then show ?thesis using "2.IH" [OF c refl Inr _ i1] "2.prems"(1) c by simp
  qed
qed simp

lemma process_request_inv:
  assumes "ps_inv n s"
  shows "outcome_ok (n + 2) (handle_process_request P req s)"
proof (cases "(\<exists>p. req = ForkProcess p) \<or> (\<exists>p e a w. req = ExecProcess p e a w) \<or> (\<exists>pr q. req = Spawn pr q)")
  case True
  have "outcome_ok (n + 2) (Option.bind (fork_impl P False p s) quiet_result)" for p
    using ps_inv_mono [OF fork_inv [OF _ assms]] by (intro outcome_ok_bind) simp
  moreover have "outcome_ok (n + 2) (Option.bind (exec_impl P False p e a s) quiet_result)" for p e a
    using ps_inv_mono [OF exec_inv [OF _ assms]] by (intro outcome_ok_bind) simp
  moreover have "outcome_ok (n + 2) (Option.bind (spawn_plain P pr s) quiet)" for pr
    using spawn_plain_inv [of P pr s _ n] assms by (cases "spawn_plain P pr s") simp_all
  ultimately show ?thesis using True by (auto simp: handle_process_request_def)
next
  case False
  note fr = fallible_requests [OF assms]
  have "outcome_ok n (handle_process_request P req s)"
    using False fr assms
    by (cases req) (auto simp: handle_process_request_def ps_intros quiet_result_def)
  then show ?thesis by (rule outcome_ok_mono) simp
qed

lemma request_response_inv:
  assumes "ps_inv n s"
  shows "outcome_ok (n + 2) (handle_process_request_with_response P ce env req s)"
proof -
  have i: "ps_inv (n + 2) s" using ps_inv_mono [OF assms] by simp
  have dflt: "outcome_ok (n + 2) (then_respond ce env f (drop_out (handle_process_request P req s)))" for f
    using process_request_inv [OF assms] drop_out_Some by (blast intro: outcome_ok_then_respond)
  have frk: "outcome_ok (n + 2) (then_respond ce env f (fork_impl P False p s))" for f p
    using ps_inv_mono [OF fork_inv [OF _ assms], of P False p _ _ "n + 2"] by (auto intro: outcome_ok_then_respond)
  have exe: "outcome_ok (n + 2) (then_respond ce env f (exec_impl P False p e a s))" for f p e a
    using ps_inv_mono [OF exec_inv [OF _ assms], of P False p e a _ _ "n + 2"] by (auto intro: outcome_ok_then_respond)
  have spw: "outcome_ok (n + 2) (handle_spawn P ce env pr s)" for pr
    using ps_inv_mono [OF spawn_all_inv [OF _ assms], of P "spawn_count pr" "spawn_name pr" _ _ "n + 2"]
    by (auto simp: handle_spawn_def outcome_ok_def spawn_count_def split: option.splits)
  have wai: "outcome_ok (n + 2) (Some (handle_wait_child_with_response ce env p ch s))" for p ch
    using wait_response_inv [OF i, of ce env p ch] by (cases "handle_wait_child_with_response ce env p ch s") simp
  show ?thesis
    using i dflt frk exe spw wai
    by (cases req) (auto simp: handle_process_request_with_response_def outcome_ok_def split: option.split prod.split)
qed

lemma syscall_inv:
  assumes "ps_inv n s"
  shows "outcome_ok (n + 1) (handle_syscall P c s)" "outcome_ok (n + 1) (handle_syscall_with_response P ce env c s)"
proof -
  have i: "ps_inv (n + 1) s" using ps_inv_mono [OF assms] by simp
  have c: "ps_inv (n + 1) s'" if "create_process P e a s = Some (r, s')" for e a r s'
    using create_inv [OF that assms] .
  note c' = c [simplified]
  show plain: "outcome_ok (n + 1) (handle_syscall P c s)"
    using i by (cases c) (auto simp: handle_syscall_def intro!: outcome_ok_bind c')
  then have "outcome_ok (n + 1) (then_respond ce env f (drop_out (handle_syscall P c s)))" for f
    using drop_out_Some by (blast intro: outcome_ok_then_respond)
  then show "outcome_ok (n + 1) (handle_syscall_with_response P ce env c s)"
    using i by (cases c) (auto simp: handle_syscall_with_response_def intro!: outcome_ok_then_respond c')
qed

lemma dispatch_inv:
  assumes "ps_inv n s"
  shows "outcome_ok (n + 6) (ps_dispatch P ce env s)"
proof -
  have up: "outcome_ok (n + 6) o'" if "outcome_ok (n + k) o'" "k \<le> 6" for k and o' :: "'a outcome"
    using outcome_ok_mono [OF that(1), of "n + 6"] that(2) by simp
  have i: "ps_inv (n + 6) s" using ps_inv_mono [OF assms] by simp
  have int: "outcome_ok (n + 6) (handle_interrupt P ce i s)" for i
    using i timer_inv [of P ce s _ _ n] assms
    by (cases i) (auto simp: handle_interrupt_def outcome_ok_def ps_intros quiet_def split: option.splits)
  show ?thesis
    using up [OF process_request_inv [OF assms]] up [OF request_response_inv [OF assms]] up [OF syscall_inv(1) [OF assms]]
      up [OF syscall_inv(2) [OF assms]] int i
    by (simp add: ps_dispatch_def split: KernelMsg.split)
qed

lemma event_inv:
  assumes "ps_event P ce ev s = Some (out, s')" "ps_inv n s"
  shows "ps_inv (n + 6) s'"
proof (cases ev)
  case (IntrEvent env)
  then show ?thesis
    using assms timer_inv [of P ce s out s' n] ps_inv_mono [of n s "n + 6"] by (auto simp: ps_event_def split: if_splits)
next
  case (ReqEvent env)
  then show ?thesis
    using assms(1) dispatch_inv [OF assms(2), of P ce env] by (auto simp: ps_event_def ps_handle_envelope_def)
qed

lemma serve_inv: "serve (ps_event P ce) evs s = Some (out, t) \<Longrightarrow> ps_inv n s \<Longrightarrow> ps_inv (n + 6 * length evs) t"
proof (induction evs arbitrary: s out n)
  case (Cons ev evs)
  obtain out1 s1 where e: "ps_event P ce ev s = Some (out1, s1)" using Cons.prems(1) by (auto split: option.splits)
  then obtain out2 where "serve (ps_event P ce) evs s1 = Some (out2, t)" using Cons.prems(1) by auto
  from Cons.IH [OF this event_inv [OF e Cons.prems(2)]] show ?case by (simp add: algebra_simps)
qed simp

lemma new_inv: "ps_inv 1 (ProcessService_new m w)"
  by (simp add: ps_inv_def ProcessService_new_def Scheduler_new_def sched_wf_def)

text \<open>
  C3. Whatever the programs do and the peers answer, in every state that requests, system calls and
  timer ticks reach: every process is stored under its own number and has a processor that carries this number and
  a full set of registers; no process is current on two processors; the scheduler and the service agree on the
  number of processors. As long as fewer than \<open>2 ^ 64\<close> numbers can have been handed out, six per event
  at most, every number in the table is below the next one and every parent's number is below its child's, so
  the parents form no cycle.
\<close>

theorem process_service_invariant:
  assumes "ps_run P ce evs (ProcessService_new m w) = Some (out, t)"
  shows "ps_inv (2 + 6 * length evs) t"
proof -
  obtain r s1 where f: "fork_impl P False 0 (ProcessService_new m w) = Some (r, s1)" "serve (ps_event P ce) evs s1 = Some (out, t)"
    using assms by (auto simp: ps_run_def bind_eq_Some_conv)
  then show ?thesis using serve_inv [OF f(2) fork_inv [OF f(1) new_inv]] by simp
qed

theorem process_service_invariant_witness:
  "\<exists>out t. ps_run silent_peers open_channels [IntrEvent (fire_and_forget (InterruptMsg (IoComplete 1)))] (ProcessService_new demo_mmu ()) =
     Some (out, t) \<and> ps_inv 8 t"
proof -
  obtain out t where r: "ps_run silent_peers open_channels [IntrEvent (fire_and_forget (InterruptMsg (IoComplete 1)))]
      (ProcessService_new demo_mmu ()) = Some (out, t)"
    by (simp add: ps_run_def fork_impl_def fork_fresh_def take_pid_def ps_event_def fire_and_forget_def ProcessService_new_def)
  with process_service_invariant [OF r] show ?thesis by simp
qed

end
