(* ===== verification/Process_Tree.thy ===== *)
theory Process_Tree
  imports Process_Invariant "HOL-Library.Multiset"
begin

text \<open>
  The listing of the process tree. Children have larger numbers than their parents, so the recursion of the
  listing ends, within a stack as deep as there are processes, and prints every process exactly once.
\<close>

section \<open>Which processes are visited\<close>

type_synonym tree_entry = "string \<times> bool \<times> ProcInfo"

definition parent_of :: "ProcInfo \<Rightarrow> pid option" where
  "parent_of i = snd (snd (snd i))"

fun visit :: "nat \<Rightarrow> ProcInfo list \<Rightarrow> pid \<Rightarrow> pid list" where
  "visit 0 procs p = []"
| "visit (Suc d) procs p = (if p \<in> set (map fst procs) then p # concat (map (visit d procs) (children_of procs p)) else [])"

definition rank :: "ProcInfo list \<Rightarrow> pid \<Rightarrow> nat" where
  "rank procs p = length (filter (\<lambda>i. p \<le> fst i) procs)"

definition ordered_forest :: "ProcInfo list \<Rightarrow> bool" where
  "ordered_forest procs \<longleftrightarrow> distinct (map fst procs) \<and> (\<forall>i \<in> set procs. \<forall>q. parent_of i = Some q \<longrightarrow> q < fst i)"

lemma children_of_set: "c \<in> set (children_of procs p) \<longleftrightarrow> (\<exists>i \<in> set procs. fst i = c \<and> parent_of i = Some p)"
  by (force simp: children_of_def parent_of_def)

lemma child_known: "c \<in> set (children_of procs p) \<Longrightarrow> c \<in> set (map fst procs)"
  by (auto simp: children_of_set)

lemma rank_child:
  assumes "ordered_forest procs" "c \<in> set (children_of procs p)" "p \<in> set (map fst procs)"
  shows "rank procs c < rank procs p"
proof -
  have lt: "p < c" using assms(1,2) by (auto simp: children_of_set ordered_forest_def)
  obtain i where i: "i \<in> set procs" "fst i = p" using assms(3) by auto
  have "filter (\<lambda>j. c \<le> fst j) procs = filter (\<lambda>j. c \<le> fst j) (filter (\<lambda>j. p \<le> fst j) procs)"
    using lt by (auto intro: filter_cong)
  moreover have "length (filter (\<lambda>j. c \<le> fst j) (filter (\<lambda>j. p \<le> fst j) procs)) < length (filter (\<lambda>j. p \<le> fst j) procs)"
    using i lt by (intro length_filter_less [of i]) auto
  ultimately show ?thesis by (simp add: rank_def)
qed

lemma child_below:
  assumes "ordered_forest procs" "p \<in> set (map fst procs)" "rank procs p < Suc d" "c \<in> set (children_of procs p)"
  shows "c \<in> set (map fst procs)" "rank procs c < d"
  using rank_child [OF assms(1,4,2)] child_known [OF assms(4)] assms(3) by simp_all

lemma rank_le: "rank procs p \<le> length procs"
  by (simp add: rank_def)

section \<open>The text is made of one line per visit\<close>

definition tree_text :: "tree_entry list \<Rightarrow> string" where
  "tree_text ls = concat (map (\<lambda>(prefix, is_last, i). tree_line prefix is_last i) ls)"

definition prints :: "ProcInfo list \<Rightarrow> string option \<Rightarrow> pid list \<Rightarrow> bool" where
  "prints procs o' ps \<longleftrightarrow>
     (\<exists>ls. o' = Some (tree_text ls) \<and> map (\<lambda>(_, _, i). fst i) ls = ps \<and> list_all (\<lambda>(_, _, i). i \<in> set procs) ls)"

lemma prints_Nil [simp]: "prints procs (Some []) []"
  by (simp add: prints_def tree_text_def exI [of _ "[]"])

lemma prints_Cons:
  assumes "prints procs o' ps" "i \<in> set procs"
  shows "prints procs (map_option (\<lambda>below. tree_line prefix is_last i @ below) o') (fst i # ps)"
proof -
  obtain ls where "o' = Some (tree_text ls)" "map (\<lambda>(_, _, i). fst i) ls = ps" "list_all (\<lambda>(_, _, i). i \<in> set procs) ls"
    using assms(1) by (auto simp: prints_def)
  then show ?thesis using assms(2) by (auto simp: prints_def tree_text_def intro!: exI [of _ "(prefix, is_last, i) # ls"])
qed

lemma prints_append:
  assumes "prints procs o1 ps" "prints procs o2 qs"
  shows "prints procs (case o1 of None \<Rightarrow> None | Some t \<Rightarrow> map_option (\<lambda>rest. t @ rest) o2) (ps @ qs)"
proof -
  obtain ls ms where "o1 = Some (tree_text ls)" "map (\<lambda>(_, _, i). fst i) ls = ps" "list_all (\<lambda>(_, _, i). i \<in> set procs) ls"
    "o2 = Some (tree_text ms)" "map (\<lambda>(_, _, i). fst i) ms = qs" "list_all (\<lambda>(_, _, i). i \<in> set procs) ms"
    using assms by (auto simp: prints_def)
  then show ?thesis by (auto simp: prints_def tree_text_def intro!: exI [of _ "ls @ ms"])
qed

lemma format_tree_prints:
  "ordered_forest procs \<Longrightarrow> p \<in> set (map fst procs) \<Longrightarrow> rank procs p < d \<Longrightarrow>
     prints procs (format_tree d procs p prefix is_last) (visit d procs p)"
  "ordered_forest procs \<Longrightarrow> (\<forall>c \<in> set cs. c \<in> set (map fst procs) \<and> rank procs c < d) \<Longrightarrow>
     prints procs (format_children d procs cs prefix) (concat (map (visit d procs) cs))"
proof (induction d procs p prefix is_last and d procs cs prefix rule: format_tree_format_children.induct)
  case (2 d procs p prefix is_last)
  obtain i where i: "List.find (\<lambda>i. fst i = p) procs = Some i" "i \<in> set procs" "fst i = p"
    using 2 by (cases "List.find (\<lambda>i. fst i = p) procs") (auto simp: find_None_iff find_Some_iff)
  have "prints procs (format_children d procs (children_of procs p) (child_prefix prefix is_last))
          (concat (map (visit d procs) (children_of procs p)))"
    using "2.prems" child_below [OF "2.prems"] by (intro "2.IH" [OF i(1)]) blast+
  from prints_Cons [OF this i(2)] show ?case using i "2.prems"(2) by simp
next
  case (4 d procs c cs prefix)
  have c: "prints procs (format_tree d procs c prefix (cs = [])) (visit d procs c)" using 4 by simp
  then obtain t where t: "format_tree d procs c prefix (cs = []) = Some t" by (auto simp: prints_def)
  have "prints procs (format_children d procs cs prefix) (concat (map (visit d procs) cs))"
    using "4.IH"(2) [OF t] "4.prems" by simp
  from prints_append [OF c this] show ?case by simp
qed simp_all

section \<open>Every process is visited once\<close>

definition known_parent :: "ProcInfo list \<Rightarrow> pid \<Rightarrow> pid \<Rightarrow> bool" where
  "known_parent procs x q \<longleftrightarrow> (\<exists>i \<in> set procs. fst i = x \<and> parent_of i = Some q) \<and> q \<in> set (map fst procs)"

lemma count_concat: "count_list (concat xss) x = (\<Sum>xs\<leftarrow>xss. count_list xs x)"
  by (induction xss) (simp_all add: count_list_append)

lemma count_distinct: "distinct xs \<Longrightarrow> count_list xs x = of_bool (x \<in> set xs)"
  by (induction xs) auto

lemma count_children:
  assumes "ordered_forest procs"
  shows "count_list (children_of procs p) x = of_bool (x \<in> set (children_of procs p))"
proof -
  have "distinct (children_of procs p)"
    using assms by (auto simp: ordered_forest_def children_of_def intro: distinct_map_filter)
  then show ?thesis by (rule count_distinct)
qed

lemma sum_list_indicator: "(\<Sum>c\<leftarrow>cs. (of_bool (x = c) :: nat) + f c) = count_list cs x + (\<Sum>c\<leftarrow>cs. f c)"
  by (induction cs) (auto simp: algebra_simps)

lemma parent_unique:
  assumes "ordered_forest procs" "i \<in> set procs" "j \<in> set procs" "fst i = fst j"
  shows "i = j"
  using assms by (auto simp: ordered_forest_def distinct_map inj_on_def)

text \<open>A process is visited as often as its parent is, and once more where the visit starts.\<close>

lemma count_visit:
  assumes "ordered_forest procs"
  shows "p \<in> set (map fst procs) \<Longrightarrow> rank procs p < d \<Longrightarrow> known_parent procs x q \<Longrightarrow>
     count_list (visit d procs p) x = of_bool (x = p) + count_list (visit d procs p) q"
    "p \<in> set (map fst procs) \<Longrightarrow> rank procs p < d \<Longrightarrow> \<nexists>q. known_parent procs x q \<Longrightarrow>
     count_list (visit d procs p) x = of_bool (x = p)"
proof (induction d arbitrary: p)
  case (Suc d)
  { case 1
    have child: "x \<in> set (children_of procs p) \<longleftrightarrow> p = q"
      using 1(3) parent_unique [OF assms] by (fastforce simp: known_parent_def children_of_set)
    have "(\<Sum>c\<leftarrow>children_of procs p. count_list (visit d procs c) x) =
      (\<Sum>c\<leftarrow>children_of procs p. of_bool (x = c) + count_list (visit d procs c) q)"
      using child_below [OF assms 1(1,2)] 1(3) Suc.IH(1) by (intro arg_cong [of _ _ sum_list] map_cong) blast+
    moreover have "x \<noteq> q" using 1(3) assms by (auto simp: known_parent_def ordered_forest_def)
    ultimately show ?case
      using 1(1) child by (auto simp: count_concat sum_list_indicator count_children [OF assms] comp_def)
  next
    case 2
    have "x \<notin> set (children_of procs p)" using 2(1,3) by (auto simp: known_parent_def children_of_set)
    moreover have "(\<Sum>c\<leftarrow>children_of procs p. count_list (visit d procs c) x) = (\<Sum>c\<leftarrow>children_of procs p. of_bool (x = c) + 0)"
      using child_below [OF assms 2(1,2)] 2(3) Suc.IH(2) by (intro arg_cong [of _ _ sum_list] map_cong) auto
    ultimately show ?case
      using 2(1) by (simp add: count_concat sum_list_indicator [where f = "\<lambda>_. 0", simplified] count_list_0_iff comp_def)
  }
qed simp_all

definition roots :: "ProcInfo list \<Rightarrow> pid list" where
  "roots procs = map fst (filter (is_root procs) procs)"

lemma format_roots_prints:
  assumes "ordered_forest procs" "length procs < d" "set is \<subseteq> set procs"
  shows "prints procs (format_roots d procs is) (concat (map (visit d procs) (map fst (filter (is_root procs) is))))"
  using assms(3)
proof (induction "is")
  case (Cons i "is")
  have "rank procs (fst i) < d" using rank_le [of procs "fst i"] assms(2) by simp
  then have "prints procs (format_tree d procs (fst i) [] True) (visit d procs (fst i))"
    using Cons.prems by (intro format_tree_prints(1) [OF assms(1)]) auto
  from prints_append [OF this Cons.IH] show ?case using Cons by simp
qed simp

lemma root_iff:
  assumes "ordered_forest procs" "i \<in> set procs"
  shows "is_root procs i \<longleftrightarrow> (\<nexists>q. known_parent procs (fst i) q)"
proof -
  have "known_parent procs (fst i) q \<longleftrightarrow> parent_of i = Some q \<and> q \<in> set (map fst procs)" for q
    unfolding known_parent_def using assms(2) parent_unique [OF assms(1) _ assms(2)] by metis
  moreover have "is_root procs i \<longleftrightarrow> (\<nexists>q. parent_of i = Some q \<and> q \<in> set (map fst procs))"
    by (cases i) (simp add: is_root_def parent_of_def split: option.split)
  ultimately show ?thesis by simp
qed

lemma root_count:
  assumes "ordered_forest procs" "x \<in> set (map fst procs)"
  shows "count_list (roots procs) x = of_bool (\<nexists>q. known_parent procs x q)"
proof -
  obtain i where i: "i \<in> set procs" "fst i = x" using assms(2) by auto
  have "x \<in> set (roots procs) \<longleftrightarrow> is_root procs i"
  proof
    assume "x \<in> set (roots procs)"
    then obtain j where j: "j \<in> set procs" "is_root procs j" "fst j = x" by (auto simp: roots_def)
    then show "is_root procs i" using parent_unique [OF assms(1) j(1) i(1)] i(2) by simp
  qed (use i in \<open>auto simp: roots_def\<close>)
  moreover have "distinct (roots procs)"
    using assms(1) by (auto simp: roots_def ordered_forest_def intro: distinct_map_filter)
  ultimately show ?thesis using root_iff [OF assms(1) i(1)] i(2) by (simp add: count_distinct)
qed

lemma visited_once:
  assumes "ordered_forest procs" "length procs < d"
  shows "x \<in> set (map fst procs) \<Longrightarrow> count_list (concat (map (visit d procs) (roots procs))) x = 1"
proof (induction x rule: less_induct)
  case (less x)
  have r: "r \<in> set (map fst procs)" "rank procs r < d" if "r \<in> set (roots procs)" for r
    using that rank_le [of procs r] assms(2) by (auto simp: roots_def)
  have cnt: "count_list (concat (map (visit d procs) (roots procs))) x = (\<Sum>r\<leftarrow>roots procs. count_list (visit d procs r) x)" for x
    by (simp add: count_concat comp_def)
  show ?case
  proof (cases "\<exists>q. known_parent procs x q")
    case True
    then obtain q where q: "known_parent procs x q" by blast
    then have "q < x" "q \<in> set (map fst procs)" using assms(1) by (auto simp: known_parent_def ordered_forest_def)
    then have "(\<Sum>r\<leftarrow>roots procs. count_list (visit d procs r) q) = 1" using less.IH cnt by simp
    moreover have "(\<Sum>r\<leftarrow>roots procs. count_list (visit d procs r) x) = (\<Sum>r\<leftarrow>roots procs. of_bool (x = r) + count_list (visit d procs r) q)"
      using count_visit(1) [OF assms(1) r q] by (intro arg_cong [of _ _ sum_list] map_cong) auto
    moreover have "count_list (roots procs) x = 0" using root_count [OF assms(1) less.prems] True by simp
    ultimately show ?thesis using cnt [of x] by (simp add: sum_list_indicator)
  next
    case False
    then have "(\<Sum>r\<leftarrow>roots procs. count_list (visit d procs r) x) = (\<Sum>r\<leftarrow>roots procs. of_bool (x = r) + 0)"
      using count_visit(2) [OF assms(1) r False] by (intro arg_cong [of _ _ sum_list] map_cong) auto
    then show ?thesis
      using cnt [of x] root_count [OF assms(1) less.prems] False sum_list_indicator [where f = "\<lambda>_. 0", of x "roots procs"] by simp
  qed
qed

lemma prints_complete:
  assumes "prints procs o' ps" "ordered_forest procs" "\<And>x. x \<in> set (map fst procs) \<Longrightarrow> count_list ps x = 1"
  shows "\<exists>ls. o' = Some (tree_text ls) \<and> mset (map (\<lambda>(_, _, i). i) ls) = mset procs"
proof -
  obtain ls where ls: "o' = Some (tree_text ls)" "map (\<lambda>(_, _, i). fst i) ls = ps" "list_all (\<lambda>(_, _, i). i \<in> set procs) ls"
    using assms(1) by (auto simp: prints_def)
  let ?is = "map (\<lambda>(_, _, i). i) ls"
  have fst_is: "map fst ?is = ps" unfolding ls(2) [symmetric] by (induction ls) auto
  have sub: "set ?is \<subseteq> set procs" using ls(3) by (auto simp: list_all_iff)
  have one: "count_list ps x = of_bool (x \<in> set (map fst procs))" for x
  proof (cases "x \<in> set (map fst procs)")
    case False
    moreover have "set ps \<subseteq> set (map fst procs)" unfolding fst_is [symmetric] set_map [of fst] by (rule image_mono [OF sub])
    ultimately have "x \<notin> set ps" by blast
    then show ?thesis using False by (simp add: count_list_0_iff)
  qed (simp add: assms(3))
  have d: "distinct (map fst procs)" using assms(2) by (simp add: ordered_forest_def)
  have "count (mset ps) x = count (mset (map fst procs)) x" for x
    using one [of x] count_distinct [OF d, of x] by (simp only: count_mset)
  then have m: "mset ps = mset (map fst procs)" by (rule multiset_eqI)
  have ps: "set ps = set (map fst procs)" "distinct ps" using mset_eq_setD [OF m] mset_eq_imp_distinct_iff [OF m] d by simp_all
  have all:  "i \<in> set ?is" if "i \<in> set procs" for i
  proof -
    have "fst i \<in> set (map fst ?is)" unfolding fst_is ps(1) using that by simp
    then obtain j where "fst i = fst j" "j \<in> set ?is" unfolding set_map [of fst] by (rule imageE)
    then show ?thesis using parent_unique [OF assms(2) that, of j] sub by blast
  qed
  have "set ?is = set procs" using sub all by blast
  moreover have "distinct ?is" using ps(2) unfolding fst_is [symmetric] distinct_map [of fst] by blast
  moreover have "distinct procs" using d by (simp add: distinct_map)
  ultimately have "mset ?is = mset procs" using set_eq_iff_mset_eq_distinct by blast
  then show ?thesis using ls(1) by blast
qed

section \<open>The listing of the service\<close>

definition proc_info :: "'w ProcessService \<Rightarrow> pid \<Rightarrow> ProcInfo" where
  "proc_info s p =
     (case process_table s p of
        Some pcb \<Rightarrow> (p, pcb_name pcb, state_debug (pcb_state pcb), parent_pid pcb)
      | None \<Rightarrow> (p, [], [], None))"

lemma table_pids_known: "p \<in> set (table_pids P s) \<Longrightarrow> \<exists>pcb. process_table s p = Some pcb"
  by (auto simp: table_pids_def)

lemma map_filter_all: "(\<And>x. x \<in> set xs \<Longrightarrow> f x = Some (g x)) \<Longrightarrow> List.map_filter f xs = map g xs"
  by (induction xs) (simp_all add: List.map_filter_def)

lemma proc_infos_map: "proc_infos P s = map (proc_info s) (table_pids P s)"
  unfolding proc_infos_def
proof (rule map_filter_all)
  fix p
  assume "p \<in> set (table_pids P s)"
  then obtain pcb where "process_table s p = Some pcb" using table_pids_known by blast
  then show "map_option (\<lambda>pcb. (p, pcb_name pcb, state_debug (pcb_state pcb), parent_pid pcb)) (process_table s p) = Some (proc_info s p)"
    by (simp add: proc_info_def)
qed

lemma fst_proc_info [simp]: "fst (proc_info s p) = p"
  by (simp add: proc_info_def split: option.split)

lemma proc_infos_forest:
  assumes "ps_inv n s" "n < 2 ^ 64" "distinct (pid_keys P (world s))"
  shows "ordered_forest (proc_infos P s)"
proof -
  have "q < p" if "process_table s p = Some pcb" "parent_pid pcb = Some q" for p pcb q
    using ps_invD(1) [OF assms(1) that(1)] that(2) assms(2) by (simp add: entry_ok_def)
  then have "\<forall>p \<in> set (table_pids P s). \<forall>q. parent_of (proc_info s p) = Some q \<longrightarrow> q < p"
    by (auto simp: parent_of_def proc_info_def table_pids_def split: option.splits)
  moreover have "map fst (proc_infos P s) = table_pids P s" by (simp add: proc_infos_map comp_def)
  moreover have "distinct (table_pids P s)" using assms(3) by (simp add: table_pids_def)
  ultimately show ?thesis by (simp add: ordered_forest_def proc_infos_map)
qed

lemma table_pids_mset:
  assumes "distinct (pid_keys P (world s))" "dom (process_table s) \<subseteq> set (pid_keys P (world s))"
  shows "mset (table_pids P s) = mset_set (dom (process_table s))"
proof -
  have "set (table_pids P s) = dom (process_table s)" using assms(2) by (auto simp: table_pids_def)
  moreover have "distinct (table_pids P s)" using assms(1) by (simp add: table_pids_def)
  ultimately show ?thesis using mset_set_set by metis
qed

lemma tree_text_Nil [simp]: "tree_text ls = [] \<longleftrightarrow> ls = []"
  by (cases ls) (auto simp: tree_text_def tree_line_def split: prod.splits)

text \<open>
  C13. The process listing is complete and the recursion that prints it ends. In every state that fewer than
  \<open>2 ^ 64 / 6\<close> events reach, with a stack of more calls than there are processes, and with the process table delivering
  each of its keys once, the answer is the text of one line for every process in the table, with its name and state, and no
  process is printed twice or left out, whatever processes have been forked and removed in the meantime.
\<close>

theorem process_tree_complete:
  assumes "ps_run P ce evs (ProcessService_new m w) = Some (out, t)" "2 + 6 * length evs < 2 ^ 64"
    and "distinct (pid_keys P (world t))" "dom (process_table t) \<subseteq> set (pid_keys P (world t))"
    and "card (dom (process_table t)) < stack_depth P"
  shows "\<exists>ls. handle_list_processes_with_response P ce env t =
                Some (ok_success ce env (RString (if ls = [] then ''(empty)'' else tree_text ls))) \<and>
              mset (map (\<lambda>(prefix, is_last, i). i) ls) = image_mset (proc_info t) (mset_set (dom (process_table t)))"
proof -
  obtain r s1 where f: "fork_impl P False 0 (ProcessService_new m w) = Some (r, s1)" "serve (ps_event P ce) evs s1 = Some (out, t)"
    using assms(1) by (auto simp: ps_run_def bind_eq_Some_conv)
  have "ps_inv (2 + 6 * length evs) t" using serve_inv [OF f(2) fork_inv [OF f(1) new_inv]] by simp
  then have forest: "ordered_forest (proc_infos P t)" using proc_infos_forest assms(2,3) by blast
  have m: "mset (proc_infos P t) = image_mset (proc_info t) (mset_set (dom (process_table t)))"
    using table_pids_mset [OF assms(3,4)] by (simp add: proc_infos_map)
  then have len: "length (proc_infos P t) < stack_depth P"
    using assms(5) by (metis size_image_mset size_mset size_mset_set)
  have "prints (proc_infos P t) (format_roots (stack_depth P) (proc_infos P t) (proc_infos P t))
      (concat (map (visit (stack_depth P) (proc_infos P t)) (roots (proc_infos P t))))"
    unfolding roots_def by (rule format_roots_prints [OF forest len subset_refl])
  from prints_complete [OF this forest visited_once [OF forest len]] obtain ls where
    "format_roots (stack_depth P) (proc_infos P t) (proc_infos P t) = Some (tree_text ls)"
    "mset (map (\<lambda>(_, _, i). i) ls) = mset (proc_infos P t)" by blast
  then show ?thesis using m by (auto simp: handle_list_processes_with_response_def intro!: exI [of _ ls])
qed

theorem process_tree_complete_witness:
  "\<exists>out t ls. ps_run silent_peers open_channels [] (ProcessService_new demo_mmu ()) = Some (out, t) \<and>
     handle_list_processes_with_response silent_peers open_channels (request_envelope (ProcessMsg ListProcesses) 1 0) t =
       Some (ok_success open_channels (request_envelope (ProcessMsg ListProcesses) 1 0) (RString (if ls = [] then ''(empty)'' else tree_text ls))) \<and>
     mset (map (\<lambda>(prefix, is_last, i). i) ls) = {# (1, ''init'', ''Creating'', None) #}"
proof -
  let ?e = "request_envelope (ProcessMsg ListProcesses) 1 0"
  obtain out t where r: "ps_run silent_peers open_channels [] (ProcessService_new demo_mmu ()) = Some (out, t)"
    "process_table t = [1 \<mapsto> PCB_new 0 1 ''init'' None]"
    by (simp add: ps_run_def fork_impl_def fork_fresh_def take_pid_def ProcessService_new_def ps_now_def silent_peers_def)
  have d: "dom (process_table t) = {1}" by (simp add: r(2))
  have "\<exists>ls. handle_list_processes_with_response silent_peers open_channels ?e t =
                Some (ok_success open_channels ?e (RString (if ls = [] then ''(empty)'' else tree_text ls))) \<and>
              mset (map (\<lambda>(prefix, is_last, i). i) ls) = image_mset (proc_info t) (mset_set (dom (process_table t)))"
    by (rule process_tree_complete [OF r(1)]) (simp_all add: d, simp_all add: silent_peers_def)
  moreover have "proc_info t 1 = (1, ''init'', ''Creating'', None)" by (simp add: proc_info_def r(2) PCB_new_def)
  ultimately show ?thesis using r(1) by (auto simp: d)
qed

end
