(* ===== verification/Slot_Pool.thy ===== *)
theory Slot_Pool
  imports OS_Prelude
begin

text \<open>
  The contract shared by the frame allocator and the swap-slot manager: a pool of numbered slots with
  allocation and release. The client lemmas say that a run of allocations hands out distinct slots that
  were free, that it succeeds exactly when enough slots are free, and that a released slot can be
  allocated again.
\<close>

text \<open>Allocating for each owner of a list in turn.\<close>

fun alloc_all :: "('s \<Rightarrow> 'o \<Rightarrow> (nat \<times> 's) option) \<Rightarrow> 's \<Rightarrow> 'o list \<Rightarrow> (nat list \<times> 's) option" where
  "alloc_all alloc s [] = Some ([], s)"
| "alloc_all alloc s (o' # os) =
     (case alloc s o' of
        None \<Rightarrow> None
      | Some (n, s') \<Rightarrow> map_option (\<lambda>(ns, t). (n # ns, t)) (alloc_all alloc s' os))"

locale slot_pool =
  fixes alloc :: "'s \<Rightarrow> 'o \<Rightarrow> (nat \<times> 's) option"
    and release :: "'s \<Rightarrow> nat \<Rightarrow> bool \<times> 's"
    and used :: "'s \<Rightarrow> nat set"
    and total :: "'s \<Rightarrow> nat"
    and inv :: "'s \<Rightarrow> bool"
  assumes used_bound: "inv s \<Longrightarrow> used s \<subseteq> {..<total s}"
    and alloc_None: "inv s \<Longrightarrow> alloc s p = None \<longleftrightarrow> used s = {..<total s}"
    and alloc_Some: "inv s \<Longrightarrow> alloc s p = Some (n, s') \<Longrightarrow>
      n < total s \<and> n \<notin> used s \<and> used s' = insert n (used s) \<and> total s' = total s \<and> inv s'"
    and release_spec: "inv s \<Longrightarrow> release s n = (b, s') \<Longrightarrow>
      (b \<longleftrightarrow> n \<in> used s) \<and> used s' = used s - {n} \<and> total s' = total s \<and> inv s'"
begin

lemma finite_used: "inv s \<Longrightarrow> finite (used s)"
  using used_bound finite_subset by blast

lemma used_full: "inv s \<Longrightarrow> used s = {..<total s} \<longleftrightarrow> card (used s) = total s"
  using used_bound card_subset_eq [of "{..<total s}" "used s"] by auto

lemma alloc_all_spec:
  "inv s \<Longrightarrow> alloc_all alloc s ps = Some (ns, s') \<Longrightarrow>
   length ns = length ps \<and> distinct ns \<and> set ns \<inter> used s = {} \<and> set ns \<subseteq> {..<total s} \<and>
   used s' = used s \<union> set ns \<and> total s' = total s \<and> inv s'"
proof (induction ps arbitrary: s ns)
  case (Cons p ps)
  then obtain n t ms where n: "alloc s p = Some (n, t)" "alloc_all alloc t ps = Some (ms, s')" "ns = n # ms"
    by (auto split: option.splits)
  note first = alloc_Some [OF Cons.prems(1) n(1)]
  with Cons.IH [of t ms] n show ?case by auto
qed auto

lemma alloc_all_succeeds:
  "inv s \<Longrightarrow> (\<exists>r. alloc_all alloc s ps = Some r) \<longleftrightarrow> card (used s) + length ps \<le> total s"
proof (induction ps arbitrary: s)
  case Nil
  then show ?case using card_mono [OF _ used_bound [OF Nil]] by simp
next
  case (Cons p ps)
  have bound: "card (used s) \<le> total s" using card_mono [OF _ used_bound [OF Cons.prems]] by simp
  show ?case
  proof (cases "alloc s p")
    case None
    then show ?thesis using alloc_None [OF Cons.prems] used_full [OF Cons.prems] by simp
  next
    case (Some nt)
    obtain n t where nt: "nt = (n, t)" by (cases nt)
    note first = alloc_Some [OF Cons.prems, of p n t]
    with Some nt have "card (used t) = Suc (card (used s))" "total t = total s" "inv t"
      using finite_used [OF Cons.prems] by auto
    with Cons.IH [of t] Some nt show ?thesis by auto
  qed
qed

text \<open>A released slot is free again, so the next allocation succeeds.\<close>

lemma release_then_alloc:
  assumes "inv s" "n \<in> used s" "release s n = (b, s')"
  shows "\<exists>m t. alloc s' p = Some (m, t) \<and> m \<notin> used s - {n}"
proof -
  from release_spec [OF assms(1,3)] have s': "used s' = used s - {n}" "total s' = total s" "inv s'" by auto
  have "used s' \<noteq> {..<total s'}" using s' assms(1,2) used_bound by auto
  then obtain m t where "alloc s' p = Some (m, t)" using alloc_None [OF s'(3), of p] by auto
  with alloc_Some [OF s'(3)] s' show ?thesis by blast
qed

text \<open>Releasing exactly what a run allocated restores the set of used slots.\<close>

lemma release_all_restores:
  "inv s \<Longrightarrow> used (foldl (\<lambda>s n. snd (release s n)) s ns) = used s - set ns \<and>
             total (foldl (\<lambda>s n. snd (release s n)) s ns) = total s \<and>
             inv (foldl (\<lambda>s n. snd (release s n)) s ns)"
proof (induction ns arbitrary: s)
  case (Cons n ns)
  obtain b t where "release s n = (b, t)" by (cases "release s n")
  with release_spec [OF Cons.prems this] Cons.IH [of t] show ?case by auto
qed simp

end

end
