(* ===== verification/Frame_Allocator.thy ===== *)
theory Frame_Allocator
  imports Messages Slot_Pool
begin

text \<open>
  Physical frames (\<^verbatim>\<open>src/services/memory/alloc.rs\<close>): the frame allocator with its free queue and
  counters, and the manager that allocates groups of frames for a process and rolls back when the
  pool runs dry. Frame numbers and counters are natural numbers.
\<close>

section \<open>Frames\<close>

record Frame =
  number :: nat
  address :: phys_addr
  fr_size :: nat
  allocated :: bool
  owner :: "pid option"

definition Frame_new :: "nat \<Rightarrow> phys_addr \<Rightarrow> nat \<Rightarrow> Frame" where
  "Frame_new n addr sz = \<lparr>number = n, address = addr, fr_size = sz, allocated = False, owner = None\<rparr>"

definition frame_allocate :: "Frame \<Rightarrow> pid \<Rightarrow> Frame" where
  "frame_allocate f p = f\<lparr>allocated := True, owner := Some p\<rparr>"

definition frame_free :: "Frame \<Rightarrow> Frame" where
  "frame_free f = f\<lparr>allocated := False, owner := None\<rparr>"

definition frame_is_free :: "Frame \<Rightarrow> bool" where
  "frame_is_free f \<longleftrightarrow> \<not> allocated f"

definition end_address :: "Frame \<Rightarrow> phys_addr" where
  "end_address f = address f + of_nat (fr_size f)"

section \<open>The allocator\<close>

record FrameAllocator =
  frames :: "Frame list"
  free_queue :: "nat list"
  total_frames :: nat
  frame_size :: nat
  free_count :: nat
  allocated_count :: nat

text \<open>A frame size of zero divides by zero and panics.\<close>

definition FrameAllocator_new :: "nat \<Rightarrow> nat \<Rightarrow> FrameAllocator option" where
  "FrameAllocator_new memory_size fsize =
     (if fsize = 0 then None
      else let total = memory_size div fsize in
        Some \<lparr>frames = map (\<lambda>i. Frame_new i (of_nat (i * fsize)) fsize) [0..<total],
              free_queue = [0..<total], total_frames = total, frame_size = fsize,
              free_count = total, allocated_count = 0\<rparr>)"

definition fa_allocate :: "FrameAllocator \<Rightarrow> pid \<Rightarrow> (Frame \<times> FrameAllocator) option" where
  "fa_allocate fa p =
     (case free_queue fa of
        [] \<Rightarrow> None
      | n # q \<Rightarrow>
         let f = frame_allocate (frames fa ! n) p in
         Some (f, fa\<lparr>free_queue := q, frames := (frames fa)[n := f],
                     free_count := free_count fa - 1, allocated_count := allocated_count fa + 1\<rparr>))"

definition fa_free :: "FrameAllocator \<Rightarrow> nat \<Rightarrow> bool \<times> FrameAllocator" where
  "fa_free fa n =
     (if n \<ge> total_frames fa then (False, fa)
      else if \<not> allocated (frames fa ! n) then (False, fa)
      else (True, fa\<lparr>frames := (frames fa)[n := frame_free (frames fa ! n)],
                     free_queue := free_queue fa @ [n],
                     free_count := free_count fa + 1, allocated_count := allocated_count fa - 1\<rparr>))"

definition fa_get_frame :: "FrameAllocator \<Rightarrow> nat \<Rightarrow> Frame option" where
  "fa_get_frame fa n = (if n < total_frames fa then Some (frames fa ! n) else None)"

record MemoryUsage =
  mu_total_frames :: nat
  mu_free_frames :: nat
  mu_allocated_frames :: nat
  mu_total_memory :: nat
  mu_free_memory :: nat
  mu_used_memory :: nat

definition fa_usage :: "FrameAllocator \<Rightarrow> MemoryUsage" where
  "fa_usage fa =
     \<lparr>mu_total_frames = total_frames fa, mu_free_frames = free_count fa,
      mu_allocated_frames = allocated_count fa, mu_total_memory = total_frames fa * frame_size fa,
      mu_free_memory = free_count fa * frame_size fa, mu_used_memory = allocated_count fa * frame_size fa\<rparr>"

definition frames_by_owner :: "FrameAllocator \<Rightarrow> pid \<Rightarrow> Frame list" where
  "frames_by_owner fa p = filter (\<lambda>f. owner f = Some p) (frames fa)"

text \<open>The loop over all frames, with the frames already visited in front.\<close>

fun free_by_owner_loop :: "pid \<Rightarrow> Frame list \<Rightarrow> Frame list \<Rightarrow> FrameAllocator \<Rightarrow> nat \<Rightarrow> nat \<times> FrameAllocator" where
  "free_by_owner_loop p seen [] fa freed = (freed, fa\<lparr>frames := seen\<rparr>)"
| "free_by_owner_loop p seen (f # fs) fa freed =
     (if owner f = Some p
      then free_by_owner_loop p (seen @ [frame_free f]) fs
             (fa\<lparr>free_queue := free_queue fa @ [number f], free_count := free_count fa + 1,
                 allocated_count := allocated_count fa - 1\<rparr>) (freed + 1)
      else free_by_owner_loop p (seen @ [f]) fs fa freed)"

definition free_by_owner :: "FrameAllocator \<Rightarrow> pid \<Rightarrow> nat \<times> FrameAllocator" where
  "free_by_owner fa p = free_by_owner_loop p [] (frames fa) fa 0"

definition frame_owners :: "FrameAllocator \<Rightarrow> (nat \<times> pid) list" where
  "frame_owners fa = map (\<lambda>f. (number f, case owner f of None \<Rightarrow> 0 | Some p \<Rightarrow> p)) (frames fa)"

section \<open>The manager\<close>

record PhysicalMemoryManager =
  allocator :: FrameAllocator
  process_frames :: "pid \<rightharpoonup> nat list"

definition PhysicalMemoryManager_new :: "nat \<Rightarrow> nat \<Rightarrow> PhysicalMemoryManager option" where
  "PhysicalMemoryManager_new memory_size fsize =
     map_option (\<lambda>fa. \<lparr>allocator = fa, process_frames = (\<lambda>_. None)\<rparr>) (FrameAllocator_new memory_size fsize)"

definition remove_first :: "'a \<Rightarrow> 'a list \<Rightarrow> 'a list" where
  "remove_first x xs = (case position (\<lambda>y. y = x) xs of None \<Rightarrow> xs | Some i \<Rightarrow> remove_at i xs)"

definition free_frame :: "PhysicalMemoryManager \<Rightarrow> pid \<Rightarrow> nat \<Rightarrow> bool \<times> PhysicalMemoryManager" where
  "free_frame pm p n =
     (let pf = (case process_frames pm p of
                  None \<Rightarrow> process_frames pm
                | Some ns \<Rightarrow> (process_frames pm)(p \<mapsto> remove_first n ns));
          (ok, fa) = fa_free (allocator pm) n in
      (ok, \<lparr>allocator = fa, process_frames = pf\<rparr>))"

definition track_frame :: "PhysicalMemoryManager \<Rightarrow> pid \<Rightarrow> nat \<Rightarrow> (pid \<rightharpoonup> nat list)" where
  "track_frame pm p n =
     (process_frames pm)(p \<mapsto> (case process_frames pm p of None \<Rightarrow> [] | Some ns \<Rightarrow> ns) @ [n])"

fun free_all :: "pid \<Rightarrow> Frame list \<Rightarrow> PhysicalMemoryManager \<Rightarrow> PhysicalMemoryManager" where
  "free_all p [] pm = pm"
| "free_all p (f # fs) pm = free_all p fs (snd (free_frame pm p (number f)))"

fun allocate_frames_loop :: "pid \<Rightarrow> nat \<Rightarrow> Frame list \<Rightarrow> PhysicalMemoryManager \<Rightarrow> Frame list \<times> PhysicalMemoryManager" where
  "allocate_frames_loop p 0 acc pm = (acc, pm)"
| "allocate_frames_loop p (Suc k) acc pm =
     (case fa_allocate (allocator pm) p of
        Some (f, fa) \<Rightarrow>
          allocate_frames_loop p k (acc @ [f])
            \<lparr>allocator = fa, process_frames = track_frame pm p (number f)\<rparr>
      | None \<Rightarrow> ([], free_all p acc pm))"

definition allocate_frames :: "PhysicalMemoryManager \<Rightarrow> pid \<Rightarrow> nat \<Rightarrow> Frame list \<times> PhysicalMemoryManager" where
  "allocate_frames pm p cnt = allocate_frames_loop p cnt [] pm"

definition free_process_frames :: "PhysicalMemoryManager \<Rightarrow> pid \<Rightarrow> nat \<times> PhysicalMemoryManager" where
  "free_process_frames pm p =
     (let (n, fa) = free_by_owner (allocator pm) p in
      (n, \<lparr>allocator = fa, process_frames = (process_frames pm)(p := None)\<rparr>))"

definition get_process_frames :: "PhysicalMemoryManager \<Rightarrow> pid \<Rightarrow> Frame list" where
  "get_process_frames pm p =
     (case process_frames pm p of
        None \<Rightarrow> []
      | Some ns \<Rightarrow> List.map_filter (fa_get_frame (allocator pm)) ns)"

section \<open>Invariant\<close>

definition frame_ok :: "FrameAllocator \<Rightarrow> nat \<Rightarrow> Frame \<Rightarrow> bool" where
  "frame_ok fa n f \<longleftrightarrow> number f = n \<and> address f = of_nat (n * frame_size fa) \<and> fr_size f = frame_size fa \<and>
     (allocated f \<longleftrightarrow> owner f \<noteq> None)"

definition fa_used :: "FrameAllocator \<Rightarrow> nat set" where
  "fa_used fa = {n. n < total_frames fa \<and> allocated (frames fa ! n)}"

text \<open>
  The free queue lists exactly the frames that are not allocated, each once, and the two counters are
  the numbers of free and of allocated frames.
\<close>

definition fa_wf :: "FrameAllocator \<Rightarrow> bool" where
  "fa_wf fa \<longleftrightarrow> length (frames fa) = total_frames fa \<and> distinct (free_queue fa) \<and>
     set (free_queue fa) = {..<total_frames fa} - fa_used fa \<and>
     free_count fa = length (free_queue fa) \<and> free_count fa + allocated_count fa = total_frames fa \<and>
     (\<forall>n < total_frames fa. frame_ok fa n (frames fa ! n))"

text \<open>The abstract state: which process owns which frame.\<close>

definition owners :: "FrameAllocator \<Rightarrow> nat \<rightharpoonup> pid" where
  "owners fa n = (if n < total_frames fa then owner (frames fa ! n) else None)"

lemma fa_wfD:
  assumes "fa_wf fa"
  shows "length (frames fa) = total_frames fa" "distinct (free_queue fa)"
    "set (free_queue fa) = {..<total_frames fa} - fa_used fa" "free_count fa = length (free_queue fa)"
    "free_count fa + allocated_count fa = total_frames fa"
    "n < total_frames fa \<Longrightarrow> frame_ok fa n (frames fa ! n)"
  using assms by (auto simp: fa_wf_def)

lemma dom_owners_ok: "(\<And>n. n < total_frames fa \<Longrightarrow> frame_ok fa n (frames fa ! n)) \<Longrightarrow> dom (owners fa) = fa_used fa"
  by (force simp: owners_def fa_used_def frame_ok_def split: if_splits)

lemma dom_owners: "fa_wf fa \<Longrightarrow> dom (owners fa) = fa_used fa"
  by (rule dom_owners_ok) (rule fa_wfD(6))

lemma fa_used_bound: "fa_used fa \<subseteq> {..<total_frames fa}"
  by (auto simp: fa_used_def)

lemma fa_used_card: "fa_wf fa \<Longrightarrow> card (fa_used fa) = allocated_count fa"
proof -
  assume wf: "fa_wf fa"
  have "card (set (free_queue fa)) = total_frames fa - card (fa_used fa)"
    using fa_used_bound by (simp add: fa_wfD(3) [OF wf] card_Diff_subset finite_subset [OF fa_used_bound])
  moreover have "card (set (free_queue fa)) = free_count fa"
    using fa_wfD(2,4) [OF wf] by (simp add: distinct_card)
  moreover have "card (fa_used fa) \<le> total_frames fa" using card_mono [OF _ fa_used_bound] by fastforce
  ultimately show ?thesis using fa_wfD(5) [OF wf] by linarith
qed

lemma FrameAllocator_new_wf: "FrameAllocator_new ms fs = Some fa \<Longrightarrow> fa_wf fa \<and> fa_used fa = {}"
  by (auto simp: FrameAllocator_new_def Let_def fa_wf_def fa_used_def frame_ok_def Frame_new_def split: if_splits)

text \<open>Changing one frame's allocation.\<close>

lemma fa_used_update:
  "length fs = total_frames fa \<Longrightarrow> n < total_frames fa \<Longrightarrow>
   {k. k < total_frames fa \<and> allocated (fs[n := f] ! k)} =
     (if allocated f then insert n {k. k < total_frames fa \<and> allocated (fs ! k)}
      else {k. k < total_frames fa \<and> allocated (fs ! k)} - {n})"
  by (auto simp: nth_list_update split: if_splits)

lemma fa_allocate_spec:
  assumes wf: "fa_wf fa" and al: "fa_allocate fa p = Some (f, fa')"
  shows "number f < total_frames fa \<and> number f \<notin> fa_used fa \<and> owner f = Some p \<and>
         address f = of_nat (number f * frame_size fa) \<and>
         owners fa' = (owners fa)(number f \<mapsto> p) \<and> fa_used fa' = insert (number f) (fa_used fa) \<and>
         total_frames fa' = total_frames fa \<and> frame_size fa' = frame_size fa \<and>
         free_queue fa = number f # free_queue fa' \<and> fa_wf fa'"
proof -
  from al obtain n q where q: "free_queue fa = n # q" by (auto simp: fa_allocate_def split: list.splits)
  then have n: "n < total_frames fa" "n \<notin> fa_used fa" using fa_wfD(3) [OF wf] by auto
  have ok: "frame_ok fa n (frames fa ! n)" using fa_wfD(6) [OF wf] n by blast
  have f: "f = frame_allocate (frames fa ! n) p" "number f = n"
    and fa': "fa' = fa\<lparr>free_queue := q, frames := (frames fa)[n := f],
                      free_count := free_count fa - 1, allocated_count := allocated_count fa + 1\<rparr>"
    using al q ok by (auto simp: fa_allocate_def Let_def frame_allocate_def frame_ok_def)
  have used: "fa_used fa' = insert n (fa_used fa)"
    using fa_used_update [OF fa_wfD(1) [OF wf] n(1), of f]
    by (simp add: fa' fa_used_def f(1) frame_allocate_def)
  have "fa_wf fa'"
    using wf q used n ok
    by (auto simp: fa_wf_def fa' frame_ok_def nth_list_update f(1) frame_allocate_def)
  moreover have "owners fa' = (owners fa)(n \<mapsto> p)"
    using n(1) fa_wfD(1) [OF wf] by (auto simp: owners_def fa' f(1) frame_allocate_def nth_list_update)
  ultimately show ?thesis using n ok f q used by (auto simp: fa' frame_allocate_def frame_ok_def)
qed

lemma fa_free_spec:
  assumes wf: "fa_wf fa" and fr: "fa_free fa n = (b, fa')"
  shows "(b \<longleftrightarrow> n \<in> fa_used fa) \<and> owners fa' = (owners fa)(n := None) \<and> fa_used fa' = fa_used fa - {n} \<and>
         total_frames fa' = total_frames fa \<and> frame_size fa' = frame_size fa \<and> fa_wf fa' \<and>
         free_queue fa' = free_queue fa @ (if b then [n] else [])"
proof (cases "n \<in> fa_used fa")
  case True
  then have n: "n < total_frames fa" "allocated (frames fa ! n)" by (auto simp: fa_used_def)
  let ?f = "frame_free (frames fa ! n)"
  have b: "b" and fa': "fa' = fa\<lparr>frames := (frames fa)[n := ?f], free_queue := free_queue fa @ [n],
                      free_count := free_count fa + 1, allocated_count := allocated_count fa - 1\<rparr>"
    using fr n by (auto simp: fa_free_def)
  have used: "fa_used fa' = fa_used fa - {n}"
    using fa_used_update [OF fa_wfD(1) [OF wf] n(1), of ?f] by (simp add: fa' fa_used_def frame_free_def)
  have "0 < card (fa_used fa)" using True finite_subset [OF fa_used_bound] by (auto simp: card_gt_0_iff)
  then have cnt: "0 < allocated_count fa" using fa_used_card [OF wf] by simp
  have len: "length (frames fa) = total_frames fa" by (rule fa_wfD(1) [OF wf])
  have ok: "frame_ok fa' k (frames fa' ! k)" if "k < total_frames fa" for k
    using fa_wfD(6) [OF wf that] fa_wfD(6) [OF wf n(1)] len n(1)
    by (simp add: fa' frame_ok_def nth_list_update frame_free_def)
  have queue: "set (free_queue fa') = {..<total_frames fa} - fa_used fa'" "distinct (free_queue fa')"
    using fa_wfD(2,3) [OF wf] n(1) True unfolding used by (auto simp: fa')
  have "fa_wf fa'"
    using ok queue cnt fa_wfD(4,5) [OF wf] len unfolding fa_wf_def by (simp add: fa')
  moreover have "owners fa' = (owners fa)(n := None)"
    using n(1) fa_wfD(1) [OF wf] by (auto simp: owners_def fa' frame_free_def nth_list_update)
  ultimately show ?thesis using b True used by (simp add: fa')
next
  case False
  then have "fa_free fa n = (False, fa)" by (auto simp: fa_free_def fa_used_def)
  moreover have "(owners fa)(n := None) = owners fa" using False dom_owners [OF wf] by auto
  ultimately show ?thesis using fr False wf by auto
qed

interpretation frame_pool: slot_pool
  "\<lambda>fa p. map_option (map_prod number id) (fa_allocate fa p)" fa_free fa_used total_frames fa_wf
proof (standard, goal_cases)
  case (1 s)
  show ?case by (rule fa_used_bound)
next
  case (2 s p)
  have "free_queue s = [] \<longleftrightarrow> set (free_queue s) = {}" by simp
  also have "\<dots> \<longleftrightarrow> fa_used s = {..<total_frames s}"
    unfolding fa_wfD(3) [OF 2] using fa_used_bound [of s] by blast
  finally show ?case by (cases "free_queue s") (simp_all add: fa_allocate_def Let_def)
next
  case (3 s p n s')
  then show ?case using fa_allocate_spec by fastforce
next
  case (4 s n b s')
  then show ?case using fa_free_spec by blast
qed

section \<open>Groups of frames\<close>

text \<open>A well-formed allocator is determined by its owners, its queue and its geometry.\<close>

lemma fa_eqI:
  assumes "fa_wf a" "fa_wf b" "owners a = owners b" "free_queue a = free_queue b"
    and "total_frames a = total_frames b" "frame_size a = frame_size b"
  shows "a = b"
proof -
  have "frames a ! n = frames b ! n" if n: "n < total_frames a" for n
  proof -
    have "owner (frames a ! n) = owner (frames b ! n)"
      using fun_cong [OF assms(3), of n] n assms(5) by (simp add: owners_def)
    moreover have "frame_ok a n (frames a ! n)" "frame_ok b n (frames b ! n)"
      using fa_wfD(6) [OF assms(1)] fa_wfD(6) [OF assms(2)] n assms(5) by simp_all
    ultimately show ?thesis using assms(6) by (intro Frame.equality) (auto simp: frame_ok_def)
  qed
  then have "frames a = frames b"
    using fa_wfD(1) [OF assms(1)] fa_wfD(1) [OF assms(2)] assms(5) by (intro nth_equalityI) auto
  then show ?thesis
    using assms fa_wfD(4,5) [OF assms(1)] fa_wfD(4,5) [OF assms(2)] by (intro FrameAllocator.equality) auto
qed

text \<open>What allocating the first \<open>k\<close> frames of the queue to a process does.\<close>

definition granted :: "FrameAllocator \<Rightarrow> pid \<Rightarrow> nat \<Rightarrow> FrameAllocator \<Rightarrow> bool" where
  "granted fa p k fa' \<longleftrightarrow> fa_wf fa' \<and> free_queue fa' = drop k (free_queue fa) \<and>
     owners fa' = (\<lambda>n. if n \<in> set (take k (free_queue fa)) then Some p else owners fa n) \<and>
     total_frames fa' = total_frames fa \<and> frame_size fa' = frame_size fa"

lemma allocate_frames_loop_ok:
  "fa_wf (allocator pm) \<Longrightarrow> k \<le> length (free_queue (allocator pm)) \<Longrightarrow>
   \<exists>new pm'. allocate_frames_loop p k acc pm = (acc @ new, pm') \<and>
     map number new = take k (free_queue (allocator pm)) \<and>
     (\<forall>f \<in> set new. owner f = Some p \<and> address f = of_nat (number f * frame_size (allocator pm))) \<and>
     granted (allocator pm) p k (allocator pm')"
proof (induction k arbitrary: acc pm)
  case (Suc k)
  let ?fa = "allocator pm"
  have "fa_allocate ?fa p \<noteq> None"
    using Suc.prems(2) by (auto simp: fa_allocate_def Let_def split: list.splits)
  then obtain f fa1 where f: "fa_allocate ?fa p = Some (f, fa1)" by auto
  note spec = fa_allocate_spec [OF Suc.prems(1) f]
  let ?pm1 = "\<lparr>allocator = fa1, process_frames = track_frame pm p (number f)\<rparr>"
  have "fa_wf (allocator ?pm1)" "k \<le> length (free_queue (allocator ?pm1))"
    using spec Suc.prems(2) by auto
  from Suc.IH [OF this, of "acc @ [f]"] obtain new pm' where
    IH: "allocate_frames_loop p k (acc @ [f]) ?pm1 = ((acc @ [f]) @ new, pm')"
      "map number new = take k (free_queue fa1)"
      "\<forall>g \<in> set new. owner g = Some p \<and> address g = of_nat (number g * frame_size fa1)"
      "granted fa1 p k (allocator pm')" by auto
  then show ?case using spec f
    by (intro exI [of _ "f # new"] exI [of _ pm']) (auto simp: granted_def)
qed (simp add: granted_def)

lemma allocate_frames_loop_add:
  "i \<le> length (free_queue (allocator pm)) \<Longrightarrow> fa_wf (allocator pm) \<Longrightarrow>
   allocate_frames_loop p (i + j) acc pm =
     (case allocate_frames_loop p i acc pm of (fs, pm') \<Rightarrow> allocate_frames_loop p j fs pm')"
proof (induction i arbitrary: acc pm)
  case (Suc i)
  then have "fa_allocate (allocator pm) p \<noteq> None"
    by (auto simp: fa_allocate_def Let_def split: list.splits)
  then obtain f fa1 where f: "fa_allocate (allocator pm) p = Some (f, fa1)" by auto
  have "i \<le> length (free_queue fa1)" "fa_wf fa1"
    using fa_allocate_spec [of "allocator pm" p f fa1] Suc.prems f by auto
  with Suc.IH [of "\<lparr>allocator = fa1, process_frames = track_frame pm p (number f)\<rparr>" "acc @ [f]"] f
  show ?case by simp
qed simp

lemma free_all_allocator:
  "allocator (free_all p fs pm) = foldl (\<lambda>s n. snd (fa_free s n)) (allocator pm) (map number fs)"
  by (induction fs arbitrary: pm) (simp_all add: free_frame_def Let_def split: prod.split)

lemma foldl_fa_free:
  "fa_wf fa \<Longrightarrow> distinct ns \<Longrightarrow> set ns \<subseteq> fa_used fa \<Longrightarrow>
   (let fa' = foldl (\<lambda>s n. snd (fa_free s n)) fa ns in
    fa_wf fa' \<and> free_queue fa' = free_queue fa @ ns \<and>
    owners fa' = (\<lambda>n. if n \<in> set ns then None else owners fa n) \<and>
    total_frames fa' = total_frames fa \<and> frame_size fa' = frame_size fa)"
proof (induction ns arbitrary: fa)
  case (Cons n ns)
  obtain b fa1 where fr: "fa_free fa n = (b, fa1)" by (cases "fa_free fa n")
  note spec = fa_free_spec [OF Cons.prems(1) fr]
  have "fa_wf fa1" "set ns \<subseteq> fa_used fa1" using spec Cons.prems by auto
  then show ?case using Cons.IH [of fa1] Cons.prems spec fr by (auto simp: Let_def)
qed simp

lemma allocate_frames_short:
  assumes "fa_wf (allocator pm)" "length (free_queue (allocator pm)) < cnt" "allocate_frames pm p cnt = (fs, pm')"
  shows "fs = [] \<and> allocator pm' = allocator pm"
proof -
  let ?fa = "allocator pm" let ?q = "free_queue ?fa"
  obtain j where j: "cnt = length ?q + Suc j" using assms(2) less_iff_Suc_add by auto
  obtain new pm1 where new: "allocate_frames_loop p (length ?q) [] pm = (new, pm1)"
    "map number new = ?q" "granted ?fa p (length ?q) (allocator pm1)"
    using allocate_frames_loop_ok [OF assms(1) le_refl, of p "[]"] by auto
  let ?fa1 = "allocator pm1"
  have g: "fa_wf ?fa1" "free_queue ?fa1 = []" "total_frames ?fa1 = total_frames ?fa" "frame_size ?fa1 = frame_size ?fa"
    "owners ?fa1 = (\<lambda>n. if n \<in> set ?q then Some p else owners ?fa n)"
    using new(3) by (auto simp: granted_def)
  have res: "fs = []" "pm' = free_all p new pm1"
    using assms(3) allocate_frames_loop_add [OF le_refl assms(1), of p "Suc j" "[]"] new(1) g(2)
    by (auto simp: allocate_frames_def j fa_allocate_def)
  have "set ?q \<subseteq> fa_used ?fa1" using g(5) dom_owners [OF g(1)] by (auto split: if_splits)
  note restored = foldl_fa_free [OF g(1) fa_wfD(2) [OF assms(1)] this]
  have al: "allocator pm' = foldl (\<lambda>s n. snd (fa_free s n)) ?fa1 ?q"
    by (simp only: res(2) free_all_allocator new(2))
  have "owners ?fa n = None" if "n \<in> set ?q" for n
    using that fa_wfD(3) [OF assms(1)] dom_owners [OF assms(1)] by (auto simp: domIff)
  then have "allocator pm' = ?fa"
    using restored g assms(1) unfolding al by (intro fa_eqI) (auto simp: Let_def)
  with res show ?thesis by simp
qed

section \<open>Properties\<close>

text \<open>
  C40. Allocation of a group of frames is all or nothing. When enough frames are free the manager
  returns that many distinct frames, all free before and owned by the process after, and no other
  frame changes hands; otherwise it returns none and the allocator is exactly as it was before the call,
  free queue and counters included.
\<close>

theorem allocate_frames_all_or_nothing:
  assumes "fa_wf (allocator pm)" "allocate_frames pm p cnt = (fs, pm')"
  shows "if cnt \<le> free_count (allocator pm)
         then length fs = cnt \<and> distinct (map number fs) \<and>
              (\<forall>n \<in> set (map number fs). n < total_frames (allocator pm) \<and> owners (allocator pm) n = None) \<and>
              owners (allocator pm') =
                (\<lambda>n. if n \<in> set (map number fs) then Some p else owners (allocator pm) n) \<and>
              fa_wf (allocator pm')
         else fs = [] \<and> allocator pm' = allocator pm"
proof (cases "cnt \<le> free_count (allocator pm)")
  case True
  let ?fa = "allocator pm"
  have le: "cnt \<le> length (free_queue ?fa)" using True fa_wfD(4) [OF assms(1)] by simp
  obtain new where new: "fs = new" "map number new = take cnt (free_queue ?fa)" "granted ?fa p cnt (allocator pm')"
    using allocate_frames_loop_ok [OF assms(1) le, of p "[]"] assms(2) by (auto simp: allocate_frames_def)
  have free: "n < total_frames ?fa \<and> owners ?fa n = None" if "n \<in> set (free_queue ?fa)" for n
    using that fa_wfD(3) [OF assms(1)] dom_owners [OF assms(1)] by (auto simp: domIff)
  have "length fs = cnt" using new le by (metis length_map length_take min.absorb2)
  then show ?thesis
    using True new free fa_wfD(2) [OF assms(1)] by (auto simp: granted_def dest: in_set_takeD)
next
  case False
  then have "length (free_queue (allocator pm)) < cnt" using fa_wfD(4) [OF assms(1)] by simp
  from allocate_frames_short [OF assms(1) this assms(2)] False show ?thesis by simp
qed

definition demo_pm :: PhysicalMemoryManager where
  "demo_pm = the (PhysicalMemoryManager_new 12288 4096)"

lemma demo_pm_wf: "fa_wf (allocator demo_pm)"
proof -
  obtain fa where "FrameAllocator_new 12288 4096 = Some fa" by (simp add: FrameAllocator_new_def Let_def)
  then show ?thesis
    using FrameAllocator_new_wf by (auto simp: demo_pm_def PhysicalMemoryManager_new_def)
qed

theorem allocate_frames_all_or_nothing_witness:
  "length (fst (allocate_frames demo_pm 7 2)) = 2 \<and> fst (allocate_frames demo_pm 7 4) = []"
proof -
  have "free_count (allocator demo_pm) = 3"
    by (simp add: demo_pm_def PhysicalMemoryManager_new_def FrameAllocator_new_def Let_def)
  then show ?thesis
    using allocate_frames_all_or_nothing [OF demo_pm_wf prod.collapse [symmetric], of 2 7]
      allocate_frames_all_or_nothing [OF demo_pm_wf prod.collapse [symmetric], of 4 7] by simp
qed

section \<open>Releasing everything a process owns\<close>

lemma free_by_owner_loop_eq:
  "free_by_owner_loop p seen fs fa freed =
     (let owned = filter (\<lambda>f. owner f = Some p) fs in
      (freed + length owned,
       fa\<lparr>frames := seen @ map (\<lambda>f. if owner f = Some p then frame_free f else f) fs,
          free_queue := free_queue fa @ map number owned,
          free_count := free_count fa + length owned,
          allocated_count := allocated_count fa - length owned\<rparr>))"
  by (induction p seen fs fa freed rule: free_by_owner_loop.induct) (simp_all add: Let_def)

lemma owned_numbers:
  assumes "fa_wf fa"
  shows "map number (filter (\<lambda>f. owner f = Some p) (frames fa)) =
         filter (\<lambda>n. owners fa n = Some p) [0..<total_frames fa]"
proof -
  let ?fs = "frames fa"
  have num: "number (?fs ! n) = n" if "n < length ?fs" for n
    using fa_wfD(1,6) [OF assms] that by (auto simp: frame_ok_def)
  have fs: "?fs = map (\<lambda>n. ?fs ! n) [0..<length ?fs]" by (simp add: map_nth)
  have "map number (filter (\<lambda>f. owner f = Some p) ?fs) =
        map (\<lambda>n. number (?fs ! n)) (filter (\<lambda>n. owner (?fs ! n) = Some p) [0..<length ?fs])"
    by (subst fs) (simp add: filter_map o_def)
  also have "\<dots> = filter (\<lambda>n. owner (?fs ! n) = Some p) [0..<length ?fs]"
    using num by (intro map_idI) auto
  finally show ?thesis
    using fa_wfD(1) [OF assms] by (auto simp: owners_def intro: filter_cong)
qed

lemma free_by_owner_spec:
  assumes wf: "fa_wf fa" and fr: "free_by_owner fa p = (k, fa')"
  shows "owners fa' = (\<lambda>n. if owners fa n = Some p then None else owners fa n) \<and>
         k = card {n. owners fa n = Some p} \<and> total_frames fa' = total_frames fa \<and>
         frame_size fa' = frame_size fa \<and> fa_wf fa'"
proof -
  let ?own = "filter (\<lambda>n. owners fa n = Some p) [0..<total_frames fa]"
  have len: "length (filter (\<lambda>f. owner f = Some p) (frames fa)) = length ?own"
    using owned_numbers [OF wf, of p] by (metis length_map)
  have set_own: "set ?own = {n. owners fa n = Some p}"
    by (auto simp: owners_def split: if_splits)
  have fa': "fa' = fa\<lparr>frames := map (\<lambda>f. if owner f = Some p then frame_free f else f) (frames fa),
      free_queue := free_queue fa @ ?own, free_count := free_count fa + length ?own,
      allocated_count := allocated_count fa - length ?own\<rparr>" and k: "k = length ?own"
    using fr unfolding free_by_owner_def free_by_owner_loop_eq Let_def owned_numbers [OF wf] len by auto
  have len_fs: "length (frames fa) = total_frames fa" by (rule fa_wfD(1) [OF wf])
  have nth: "frames fa' ! n = (if owners fa n = Some p then frame_free (frames fa ! n) else frames fa ! n)"
    if "n < total_frames fa" for n
    using that len_fs by (simp add: fa' owners_def)
  have own: "owners fa' = (\<lambda>n. if owners fa n = Some p then None else owners fa n)"
  proof
    fix n show "owners fa' n = (if owners fa n = Some p then None else owners fa n)"
    proof (cases "n < total_frames fa")
      case True
      then show ?thesis using nth [OF True] by (simp add: owners_def fa' frame_free_def)
    qed (simp add: owners_def fa')
  qed
  have ok: "frame_ok fa' n (frames fa' ! n)" if "n < total_frames fa" for n
    using fa_wfD(6) [OF wf that] unfolding nth [OF that] by (simp add: frame_ok_def frame_free_def fa')
  have tot: "total_frames fa' = total_frames fa" by (simp add: fa')
  have dom': "dom (owners fa') = fa_used fa'" by (rule dom_owners_ok, rule ok) (simp only: tot)
  have used: "fa_used fa' = fa_used fa - set ?own"
    unfolding set_own dom_owners [OF wf, symmetric] dom' [symmetric] own by (auto split: if_splits)
  have sub: "set ?own \<subseteq> fa_used fa" using dom_owners [OF wf] set_own by auto
  have "length ?own = card (set ?own)" by (rule distinct_card [symmetric]) simp
  then have cnt: "length ?own \<le> allocated_count fa"
    using card_mono [OF finite_subset [OF fa_used_bound] sub] fa_used_card [OF wf] by simp
  have "fa_wf fa'"
    unfolding fa_wf_def used using ok sub cnt fa_wfD(2-5) [OF wf] fa_used_bound [of fa] len_fs
    by (auto simp: fa')
  then show ?thesis using own k set_own distinct_card [of ?own] by (simp add: fa')
qed

section \<open>Refinement\<close>

text \<open>The allocator states a client can reach.\<close>

inductive fa_reach :: "nat \<Rightarrow> nat \<Rightarrow> FrameAllocator \<Rightarrow> bool" for ms fs where
  reach_new: "FrameAllocator_new ms fs = Some fa \<Longrightarrow> fa_reach ms fs fa"
| reach_allocate: "fa_reach ms fs fa \<Longrightarrow> fa_allocate fa p = Some (f, fa') \<Longrightarrow> fa_reach ms fs fa'"
| reach_free: "fa_reach ms fs fa \<Longrightarrow> fa_free fa n = (b, fa') \<Longrightarrow> fa_reach ms fs fa'"
| reach_free_owner: "fa_reach ms fs fa \<Longrightarrow> free_by_owner fa p = (k, fa') \<Longrightarrow> fa_reach ms fs fa'"

lemma fa_reach_wf: "fa_reach ms fs fa \<Longrightarrow> fa_wf fa"
  by (induction rule: fa_reach.induct)
     (auto dest: FrameAllocator_new_wf fa_allocate_spec fa_free_spec free_by_owner_spec)

text \<open>
  The allocator implements an ownership map. In every reachable state the two counters count the
  owned and the unowned frames; allocation fails only when every frame is owned and otherwise
  gives an unowned frame to the caller; release succeeds exactly for owned frames; releasing a process's
  frames disowns exactly those and reports how many there were.
\<close>

theorem frame_allocator_refines:
  assumes "fa_reach ms fs fa"
  shows "allocated_count fa = card (dom (owners fa)) \<and> free_count fa + allocated_count fa = total_frames fa \<and>
    (case fa_allocate fa p of
       None \<Rightarrow> dom (owners fa) = {..<total_frames fa}
     | Some (f, fa') \<Rightarrow> number f < total_frames fa \<and> owners fa (number f) = None \<and>
         address f = of_nat (number f * frame_size fa) \<and> owners fa' = (owners fa)(number f \<mapsto> p)) \<and>
    (case fa_free fa n of (b, fa') \<Rightarrow> (b \<longleftrightarrow> n \<in> dom (owners fa)) \<and> owners fa' = (owners fa)(n := None)) \<and>
    (case free_by_owner fa p of (k, fa') \<Rightarrow> k = card {m. owners fa m = Some p} \<and>
       owners fa' = (\<lambda>m. if owners fa m = Some p then None else owners fa m))"
proof -
  have wf: "fa_wf fa" using fa_reach_wf [OF assms] .
  note dom = dom_owners [OF wf]
  have "fa_allocate fa p = None \<longleftrightarrow> fa_used fa = {..<total_frames fa}"
    using frame_pool.alloc_None [OF wf, of p] by simp
  moreover have "number f < total_frames fa \<and> owners fa (number f) = None \<and>
         address f = of_nat (number f * frame_size fa) \<and> owners fa' = (owners fa)(number f \<mapsto> p)"
    if "fa_allocate fa p = Some (f, fa')" for f fa'
    using fa_allocate_spec [OF wf that] dom by (auto simp: domIff)
  moreover have "(b \<longleftrightarrow> n \<in> dom (owners fa)) \<and> owners fa' = (owners fa)(n := None)" if "fa_free fa n = (b, fa')" for b fa'
    using fa_free_spec [OF wf that] dom by blast
  moreover have "k = card {m. owners fa m = Some p} \<and>
       owners fa' = (\<lambda>m. if owners fa m = Some p then None else owners fa m)" if "free_by_owner fa p = (k, fa')" for k fa'
    using free_by_owner_spec [OF wf that] by blast
  ultimately show ?thesis
    using fa_used_card [OF wf] fa_wfD(5) [OF wf] dom by (auto split: option.split prod.split)
qed

theorem frame_allocator_refines_witness:
  "case fa_allocate (allocator demo_pm) 9 of
     None \<Rightarrow> dom (owners (allocator demo_pm)) = {..<total_frames (allocator demo_pm)}
   | Some (f, fa') \<Rightarrow> owners (allocator demo_pm) (number f) = None \<and> owners fa' (number f) = Some 9"
proof -
  have "fa_reach 12288 4096 (allocator demo_pm)"
    by (rule reach_new) (simp add: demo_pm_def PhysicalMemoryManager_new_def FrameAllocator_new_def Let_def)
  from frame_allocator_refines [OF this, of 9 0] show ?thesis
    by (cases "fa_allocate (allocator demo_pm) 9") auto
qed

end
