(* ===== verification/Paging.thy ===== *)
theory Paging
  imports Error_Format
begin

text \<open>
  The software page tables of the memory service (\<^verbatim>\<open>src/services/memory/paging.rs\<close>): flags, entries,
  one table per process with its count of mapped pages, and the manager of all tables. They are separate
  from the tables of the hardware unit. A table is shared by reference in the source; here the manager
  holds the tables and an update writes the table back.
\<close>

section \<open>Flags and entries\<close>

record PgFlags =
  pg_present :: bool
  pg_writable :: bool
  pg_user :: bool
  pg_accessed :: bool
  pg_dirty :: bool
  pg_executable :: bool
  pg_global :: bool

definition PgFlags_new :: PgFlags where
  "PgFlags_new = \<lparr>pg_present = False, pg_writable = False, pg_user = False, pg_accessed = False,
                  pg_dirty = False, pg_executable = False, pg_global = False\<rparr>"

definition from_prot :: "MemProt \<Rightarrow> PgFlags" where
  "from_prot prot = \<lparr>pg_present = True, pg_writable = writable prot, pg_user = True, pg_accessed = False,
                     pg_dirty = False, pg_executable = executable prot, pg_global = False\<rparr>"

definition to_prot :: "PgFlags \<Rightarrow> MemProt option" where
  "to_prot f = (if \<not> pg_present f then None
                else Some \<lparr>readable = True, writable = pg_writable f, executable = pg_executable f\<rparr>)"

definition flags_check_access :: "PgFlags \<Rightarrow> AccessType \<Rightarrow> bool" where
  "flags_check_access f access =
     (if \<not> pg_present f then False
      else case access of Read \<Rightarrow> True | Write \<Rightarrow> pg_writable f | Execute \<Rightarrow> pg_executable f)"

definition mark_accessed :: "PgFlags \<Rightarrow> PgFlags" where
  "mark_accessed f = f\<lparr>pg_accessed := True\<rparr>"

definition mark_dirty :: "PgFlags \<Rightarrow> PgFlags" where
  "mark_dirty f = f\<lparr>pg_dirty := True\<rparr>"

definition clear_dirty :: "PgFlags \<Rightarrow> PgFlags" where
  "clear_dirty f = f\<lparr>pg_dirty := False\<rparr>"

record PgEntry =
  e_vpn :: u64
  e_pfn :: u64
  e_flags :: PgFlags
  e_virt_addr :: virt_addr
  e_phys_addr :: phys_addr
  e_size :: nat

definition PgEntry_new :: "u64 \<Rightarrow> u64 \<Rightarrow> virt_addr \<Rightarrow> phys_addr \<Rightarrow> nat \<Rightarrow> PgFlags \<Rightarrow> PgEntry" where
  "PgEntry_new vpn pfn va pa sz fl =
     \<lparr>e_vpn = vpn, e_pfn = pfn, e_flags = fl, e_virt_addr = va, e_phys_addr = pa, e_size = sz\<rparr>"

definition PgEntry_unmapped :: "u64 \<Rightarrow> virt_addr \<Rightarrow> nat \<Rightarrow> PgEntry" where
  "PgEntry_unmapped vpn va sz =
     \<lparr>e_vpn = vpn, e_pfn = 0, e_flags = PgFlags_new, e_virt_addr = va, e_phys_addr = 0, e_size = sz\<rparr>"

definition is_present :: "PgEntry \<Rightarrow> bool" where
  "is_present e \<longleftrightarrow> pg_present (e_flags e)"

definition entry_check_access :: "PgEntry \<Rightarrow> AccessType \<Rightarrow> bool" where
  "entry_check_access e access = flags_check_access (e_flags e) access"

definition phys_address_for_offset :: "PgEntry \<Rightarrow> nat \<Rightarrow> phys_addr option" where
  "phys_address_for_offset e offset =
     (if \<not> is_present e \<or> offset \<ge> e_size e then None else Some (e_phys_addr e + of_nat offset))"

definition set_flags :: "PgEntry \<Rightarrow> PgFlags \<Rightarrow> PgEntry" where
  "set_flags e fl = e\<lparr>e_flags := fl\<rparr>"

datatype PageError =
    AlreadyMapped u64
  | NotMapped u64
  | PgPermissionDenied virt_addr AccessType
  | InvalidOffset virt_addr nat
  | PgPageFault virt_addr AccessType

definition page_error_fmt :: "PageError \<Rightarrow> string" where
  "page_error_fmt e =
     (case e of
        AlreadyMapped v \<Rightarrow> ''Page already mapped: vpn='' @ dec64 v
      | NotMapped v \<Rightarrow> ''Page not mapped: vpn='' @ dec64 v
      | PgPermissionDenied a ac \<Rightarrow> ''Permission denied: addr='' @ hex64 a @ '', access='' @ access_debug ac
      | InvalidOffset a off \<Rightarrow> ''Invalid offset: addr='' @ hex64 a @ '', offset='' @ show_dec off
      | PgPageFault a ac \<Rightarrow> ''Page fault: addr='' @ hex64 a @ '', access='' @ access_debug ac)"

section \<open>Tables\<close>

record PageTable =
  pt_pid :: pid
  pt_page_size :: nat
  entries :: "u64 \<rightharpoonup> PgEntry"
  mapped_count :: nat
  total_pages :: nat

definition PageTable_new :: "pid \<Rightarrow> nat \<Rightarrow> nat \<Rightarrow> PageTable" where
  "PageTable_new p ps n = \<lparr>pt_pid = p, pt_page_size = ps, entries = (\<lambda>_. None), mapped_count = 0, total_pages = n\<rparr>"

text \<open>Page numbers; the page sizes in use are not zero, so the division does not panic.\<close>

definition page_no :: "PageTable \<Rightarrow> u64 \<Rightarrow> u64" where
  "page_no t a = a div of_nat (pt_page_size t)"

definition pt_map :: "PageTable \<Rightarrow> virt_addr \<Rightarrow> phys_addr \<Rightarrow> MemProt \<Rightarrow> (PageError, PageTable) result" where
  "pt_map t va pa prot =
     (let vpn = page_no t va; pfn = page_no t pa;
          e = PgEntry_new vpn pfn va pa (pt_page_size t) (from_prot prot) in
      case entries t vpn of
        Some _ \<Rightarrow> Inl (AlreadyMapped vpn)
      | None \<Rightarrow> Inr (t\<lparr>entries := (entries t)(vpn \<mapsto> e), mapped_count := mapped_count t + 1\<rparr>))"

definition pt_unmap :: "PageTable \<Rightarrow> virt_addr \<Rightarrow> (PageError, PgEntry \<times> PageTable) result" where
  "pt_unmap t va =
     (let vpn = page_no t va in
      case entries t vpn of
        Some e \<Rightarrow> Inr (e, t\<lparr>entries := (entries t)(vpn := None), mapped_count := mapped_count t - 1\<rparr>)
      | None \<Rightarrow> Inl (NotMapped vpn))"

definition pt_lookup :: "PageTable \<Rightarrow> virt_addr \<Rightarrow> PgEntry option" where
  "pt_lookup t va = entries t (page_no t va)"

definition pt_translate :: "PageTable \<Rightarrow> virt_addr \<Rightarrow> AccessType \<Rightarrow> (PageError, phys_addr) result" where
  "pt_translate t va access =
     (case pt_lookup t va of
        None \<Rightarrow> Inl (NotMapped (page_no t va))
      | Some e \<Rightarrow>
         if \<not> entry_check_access e access then Inl (PgPermissionDenied va access)
         else let offset = unat (va mod of_nat (pt_page_size t)) in
              (case phys_address_for_offset e offset of
                 None \<Rightarrow> Inl (InvalidOffset va offset)
               | Some pa \<Rightarrow> Inr pa))"

definition mapped_pages :: "PageTable \<Rightarrow> PgEntry set" where
  "mapped_pages t = ran (entries t)"

definition pt_clear :: "PageTable \<Rightarrow> PageTable" where
  "pt_clear t = t\<lparr>entries := (\<lambda>_. None), mapped_count := 0\<rparr>"

definition update_flags :: "PageTable \<Rightarrow> virt_addr \<Rightarrow> PgFlags \<Rightarrow> (PageError, PageTable) result" where
  "update_flags t va fl =
     (let vpn = page_no t va in
      case entries t vpn of
        Some e \<Rightarrow> Inr (t\<lparr>entries := (entries t)(vpn \<mapsto> set_flags e fl)\<rparr>)
      | None \<Rightarrow> Inl (NotMapped vpn))"

record PageTableStats =
  pts_pid :: pid
  pts_page_size :: nat
  pts_total_pages :: nat
  pts_mapped_pages :: nat

definition pt_stats :: "PageTable \<Rightarrow> PageTableStats" where
  "pt_stats t = \<lparr>pts_pid = pt_pid t, pts_page_size = pt_page_size t, pts_total_pages = total_pages t,
                 pts_mapped_pages = mapped_count t\<rparr>"

section \<open>The manager\<close>

record PageTableManager =
  tables :: "pid \<rightharpoonup> PageTable"
  tm_page_size :: nat
  pages_per_process :: nat

definition PageTableManager_new :: "nat \<Rightarrow> nat \<Rightarrow> PageTableManager" where
  "PageTableManager_new ps n = \<lparr>tables = (\<lambda>_. None), tm_page_size = ps, pages_per_process = n\<rparr>"

definition PageTableManager_default :: PageTableManager where
  "PageTableManager_default = PageTableManager_new 4096 1024"

definition create_table :: "PageTableManager \<Rightarrow> pid \<Rightarrow> PageTable \<times> PageTableManager" where
  "create_table m p =
     (let t = PageTable_new p (tm_page_size m) (pages_per_process m) in
      (t, m\<lparr>tables := (tables m)(p \<mapsto> t)\<rparr>))"

definition get_table :: "PageTableManager \<Rightarrow> pid \<Rightarrow> PageTable option" where
  "get_table m p = tables m p"

definition put_table :: "PageTableManager \<Rightarrow> pid \<Rightarrow> PageTable \<Rightarrow> PageTableManager" where
  "put_table m p t = m\<lparr>tables := (tables m)(p \<mapsto> t)\<rparr>"

definition remove_table :: "PageTableManager \<Rightarrow> pid \<Rightarrow> PageTable option \<times> PageTableManager" where
  "remove_table m p = (tables m p, m\<lparr>tables := (tables m)(p := None)\<rparr>)"

definition all_tables :: "PageTableManager \<Rightarrow> (pid \<times> PageTableStats) set" where
  "all_tables m = {(p, pt_stats t) | p t. tables m p = Some t}"

text \<open>Dropping the tables without mapped pages, and how many there were.\<close>

definition cleanup :: "PageTableManager \<Rightarrow> nat \<times> PageTableManager" where
  "cleanup m =
     (card {p. \<exists>t. tables m p = Some t \<and> mapped_count t = 0},
      m\<lparr>tables := (\<lambda>p. case tables m p of
                          None \<Rightarrow> None
                        | Some t \<Rightarrow> if mapped_count t = 0 then None else Some t)\<rparr>)"

section \<open>Invariant\<close>

text \<open>
  The count is the number of mapped pages, each entry is filed under its own page number, and the
  page size is a positive number below \<open>2 ^ 64\<close>.
\<close>

definition pt_wf :: "PageTable \<Rightarrow> bool" where
  "pt_wf t \<longleftrightarrow> 0 < pt_page_size t \<and> pt_page_size t < 2 ^ 64 \<and> finite (dom (entries t)) \<and>
     mapped_count t = card (dom (entries t)) \<and>
     (\<forall>v e. entries t v = Some e \<longrightarrow> e_vpn e = v \<and> v = page_no t (e_virt_addr e) \<and> e_size e = pt_page_size t)"

lemma PageTable_new_wf: "0 < ps \<Longrightarrow> ps < 2 ^ 64 \<Longrightarrow> pt_wf (PageTable_new p ps n)"
  by (simp add: pt_wf_def PageTable_new_def)

lemma page_no_update [simp]:
  "page_no (t\<lparr>entries := es, mapped_count := k\<rparr>) = page_no t" "page_no (t\<lparr>entries := es\<rparr>) = page_no t"
  by (auto simp: page_no_def)

lemma pt_map_wf [inv_intros]: "pt_wf t \<Longrightarrow> pt_map t va pa prot = Inr t' \<Longrightarrow> pt_wf t'"
  by (auto simp: pt_map_def Let_def pt_wf_def PgEntry_new_def domIff split: option.splits if_splits)

lemma pt_unmap_wf [inv_intros]:
  assumes "pt_wf t" "pt_unmap t va = Inr (e, t')" shows "pt_wf t'"
proof -
  have some: "entries t (page_no t va) = Some e"
    and t': "t' = t\<lparr>entries := (entries t)(page_no t va := None), mapped_count := mapped_count t - 1\<rparr>"
    using assms(2) by (auto simp: pt_unmap_def Let_def split: option.splits)
  have "card (dom (entries t) - {page_no t va}) = mapped_count t - 1"
    using assms(1) some by (subst card_Diff_singleton) (auto simp: pt_wf_def)
  then show ?thesis using assms(1) by (auto simp: pt_wf_def t')
qed

lemma update_flags_wf [inv_intros]: "pt_wf t \<Longrightarrow> update_flags t va fl = Inr t' \<Longrightarrow> pt_wf t'"
  by (auto simp: update_flags_def Let_def pt_wf_def set_flags_def insert_absorb domI split: option.splits if_splits)

lemma pt_clear_wf [inv_intros]: "pt_wf t \<Longrightarrow> pt_wf (pt_clear t)"
  by (simp add: pt_wf_def pt_clear_def)

text \<open>
  Mapping and unmapping are inverse: a page can be mapped exactly when it is not yet; a mapped page
  translates to its frame at the same offset for the accesses its protection allows, and to a permission
  error for the others; no other page changes; and unmapping it restores the table that was there before.
\<close>

theorem pt_map_unmap:
  assumes "pt_wf t"
  shows "case pt_map t va pa prot of
      Inl e \<Rightarrow> e = AlreadyMapped (page_no t va) \<and> pt_lookup t va \<noteq> None
    | Inr t' \<Rightarrow> pt_lookup t va = None \<and> pt_wf t' \<and> mapped_count t' = mapped_count t + 1 \<and>
        (\<forall>w access. pt_translate t' w access =
           (if page_no t w = page_no t va
            then if access = Read \<or> (access = Write \<and> writable prot) \<or> (access = Execute \<and> executable prot)
                 then Inr (pa + w mod of_nat (pt_page_size t)) else Inl (PgPermissionDenied w access)
            else pt_translate t w access)) \<and>
        (\<exists>e. pt_unmap t' va = Inr (e, t) \<and> e_phys_addr e = pa)"
proof (cases "entries t (page_no t va)")
  case (Some e)
  then show ?thesis by (simp add: pt_map_def Let_def pt_lookup_def)
next
  case None
  let ?e = "PgEntry_new (page_no t va) (page_no t pa) va pa (pt_page_size t) (from_prot prot)"
  let ?t = "t\<lparr>entries := (entries t)(page_no t va \<mapsto> ?e), mapped_count := mapped_count t + 1\<rparr>"
  have map: "pt_map t va pa prot = Inr ?t" by (simp add: pt_map_def Let_def None)
  have ps: "0 < pt_page_size t" "pt_page_size t < 2 ^ 64" using assms by (auto simp: pt_wf_def)
  then have off: "unat (w mod of_nat (pt_page_size t)) < pt_page_size t" for w :: u64
    by (simp add: unat_mod unat_of_nat)
  have "pt_translate ?t w access =
           (if page_no t w = page_no t va
            then if access = Read \<or> (access = Write \<and> writable prot) \<or> (access = Execute \<and> executable prot)
                 then Inr (pa + w mod of_nat (pt_page_size t)) else Inl (PgPermissionDenied w access)
            else pt_translate t w access)" for w access
    using off [of w]
    by (cases access)
       (auto simp: pt_translate_def pt_lookup_def entry_check_access_def flags_check_access_def PgEntry_new_def
         from_prot_def phys_address_for_offset_def is_present_def Let_def split: option.split)
  moreover have "pt_unmap ?t va = Inr (?e, t)"
    using None by (simp add: pt_unmap_def Let_def fun_upd_idem)
  moreover have "e_phys_addr ?e = pa" by (simp add: PgEntry_new_def)
  ultimately show ?thesis using map None pt_map_wf [OF assms map] by (auto simp: pt_lookup_def)
qed

theorem pt_map_unmap_witness:
  "\<exists>t'. pt_map (PageTable_new 1 4096 256) 0x1000 0x3000 MemProt_read_write = Inr t' \<and>
        pt_translate t' 0x1234 Write = Inr 0x3234 \<and> pt_translate t' 0x1234 Execute = Inl (PgPermissionDenied 0x1234 Execute)"
proof -
  have wf: "pt_wf (PageTable_new 1 4096 256)" by (rule PageTable_new_wf) simp_all
  obtain t' where t': "pt_map (PageTable_new 1 4096 256) 0x1000 0x3000 MemProt_read_write = Inr t'"
    by (simp add: pt_map_def Let_def PageTable_new_def)
  with pt_map_unmap [OF wf, where va = "0x1000" and pa = "0x3000" and prot = MemProt_read_write] show ?thesis
    by (simp add: page_no_def PageTable_new_def MemProt_read_write_def)
qed

end
