(* ===== verification/Swap.thy ===== *)
theory Swap
  imports Virtual_Disk Slot_Pool
begin

text \<open>
  The swap space (\<^verbatim>\<open>src/services/memory/swap.rs\<close>): slot bookkeeping, which is a second
  instance of the slot pool, and the transfer of page contents to and from the sectors of a slot,
  which is a client of the sector store. The percentage of the statistics is floating point and left out.
\<close>

section \<open>State\<close>

record SwapSlot =
  sl_number :: nat
  sl_size :: nat
  occupied :: bool
  sl_owner :: "pid option"
  vpn :: "u64 option"

definition SwapSlot_new :: "nat \<Rightarrow> nat \<Rightarrow> SwapSlot" where
  "SwapSlot_new n sz = \<lparr>sl_number = n, sl_size = sz, occupied = False, sl_owner = None, vpn = None\<rparr>"

definition slot_occupy :: "SwapSlot \<Rightarrow> pid \<Rightarrow> u64 \<Rightarrow> SwapSlot" where
  "slot_occupy s p v = s\<lparr>occupied := True, sl_owner := Some p, vpn := Some v\<rparr>"

definition slot_free :: "SwapSlot \<Rightarrow> SwapSlot" where
  "slot_free s = s\<lparr>occupied := False, sl_owner := None, vpn := None\<rparr>"

definition slot_is_free :: "SwapSlot \<Rightarrow> bool" where
  "slot_is_free s \<longleftrightarrow> \<not> occupied s"

record SwapConfig =
  total_size :: nat
  slot_size :: nat
  max_slots :: nat
  device_path :: string

definition SwapConfig_default :: SwapConfig where
  "SwapConfig_default = \<lparr>total_size = 1024 * 1024 * 1024, slot_size = 4096, max_slots = 262144,
                         device_path = ''/swap/swapfile''\<rparr>"

record SwapManager =
  config :: SwapConfig
  slots :: "SwapSlot list"
  sw_free_queue :: "nat list"
  process_slots :: "pid \<rightharpoonup> nat list"
  total_slots :: nat
  used_slots :: nat
  enabled :: bool
  disk :: VirtualDisk

section \<open>Operations\<close>

text \<open>A slot size of zero divides by zero and panics.\<close>

definition SwapManager_new :: "SwapConfig \<Rightarrow> VirtualDisk \<Rightarrow> SwapManager option" where
  "SwapManager_new cfg d =
     (if slot_size cfg = 0 then None
      else let n = total_size cfg div slot_size cfg in
        Some \<lparr>config = cfg, slots = map (\<lambda>i. SwapSlot_new i (slot_size cfg)) [0..<n], sw_free_queue = [0..<n],
              process_slots = (\<lambda>_. None), total_slots = n, used_slots = 0, enabled = True, disk = d\<rparr>)"

definition swap_enable :: "SwapManager \<Rightarrow> SwapManager" where
  "swap_enable sm = sm\<lparr>enabled := True\<rparr>"

definition swap_disable :: "SwapManager \<Rightarrow> SwapManager" where
  "swap_disable sm = sm\<lparr>enabled := False\<rparr>"

definition allocate_slot :: "SwapManager \<Rightarrow> pid \<Rightarrow> u64 \<Rightarrow> (SwapSlot \<times> SwapManager) option" where
  "allocate_slot sm p v =
     (if \<not> enabled sm then None
      else case sw_free_queue sm of
             [] \<Rightarrow> None
           | n # q \<Rightarrow>
              let s = slot_occupy (slots sm ! n) p v in
              Some (s, sm\<lparr>sw_free_queue := q, slots := (slots sm)[n := s],
                          process_slots := (process_slots sm)(p \<mapsto>
                            (case process_slots sm p of None \<Rightarrow> [] | Some ns \<Rightarrow> ns) @ [n]),
                          used_slots := used_slots sm + 1\<rparr>))"

definition drop_slot :: "nat \<Rightarrow> nat list \<Rightarrow> nat list" where
  "drop_slot n ns = (case position (\<lambda>x. x = n) ns of None \<Rightarrow> ns | Some i \<Rightarrow> remove_at i ns)"

text \<open>Freeing an occupied slot without owner would panic; the invariant below excludes it.\<close>

definition free_slot :: "SwapManager \<Rightarrow> nat \<Rightarrow> bool \<times> SwapManager" where
  "free_slot sm n =
     (if n \<ge> total_slots sm then (False, sm)
      else if \<not> occupied (slots sm ! n) then (False, sm)
      else let p = the (sl_owner (slots sm ! n)) in
        (True, sm\<lparr>slots := (slots sm)[n := slot_free (slots sm ! n)],
                  process_slots := (case process_slots sm p of
                                      None \<Rightarrow> process_slots sm
                                    | Some ns \<Rightarrow> (process_slots sm)(p \<mapsto> drop_slot n ns)),
                  sw_free_queue := sw_free_queue sm @ [n],
                  used_slots := used_slots sm - 1\<rparr>))"

definition get_slot :: "SwapManager \<Rightarrow> nat \<Rightarrow> SwapSlot option" where
  "get_slot sm n = (if n < total_slots sm then Some (slots sm ! n) else None)"

definition get_process_slots :: "SwapManager \<Rightarrow> pid \<Rightarrow> SwapSlot list" where
  "get_process_slots sm p =
     (case process_slots sm p of None \<Rightarrow> [] | Some ns \<Rightarrow> List.map_filter (get_slot sm) ns)"

text \<open>The buffer for sector \<open>i\<close> of a slot: the page's bytes there, padded with zeros.\<close>

definition swap_chunk :: "u8 list \<Rightarrow> nat \<Rightarrow> u8 list" where
  "swap_chunk data i =
     (let off = i * 512; b = min (off + 512) (length data) in
      if off < length data then subvec off (b - off) data @ replicate (512 - (b - off)) 0
      else replicate 512 0)"

definition swap_out :: "SwapManager \<Rightarrow> nat \<Rightarrow> u8 list \<Rightarrow> (string, unit) result \<times> SwapManager" where
  "swap_out sm n data =
     (case wr_run write_sector (disk sm) (of_nat (n * 8)) (map (swap_chunk data) [0..<8]) of
        (r, d) \<Rightarrow> (map_err (\<lambda>e. ''swap_out: '' @ disk_error_fmt e) r, sm\<lparr>disk := d\<rparr>))"

definition swap_in :: "SwapManager \<Rightarrow> nat \<Rightarrow> (string, u8 list) result" where
  "swap_in sm n =
     map_err (\<lambda>e. ''swap_in: '' @ disk_error_fmt e)
       (rbind (rd_run read_sector (disk sm) (of_nat (n * 8)) 8) (\<lambda>bss. Inr (concat bss)))"

record SwapStats =
  ss_enabled :: bool
  ss_total_slots :: nat
  ss_used_slots :: nat
  ss_free_slots :: nat
  ss_total_size :: nat
  ss_used_size :: nat

definition swap_stats :: "SwapManager \<Rightarrow> SwapStats" where
  "swap_stats sm =
     \<lparr>ss_enabled = enabled sm, ss_total_slots = total_slots sm, ss_used_slots = used_slots sm,
      ss_free_slots = total_slots sm - used_slots sm, ss_total_size = total_size (config sm),
      ss_used_size = used_slots sm * slot_size (config sm)\<rparr>"

fun free_slots_loop :: "nat list \<Rightarrow> SwapManager \<Rightarrow> nat \<Rightarrow> nat \<times> SwapManager" where
  "free_slots_loop [] sm freed = (freed, sm)"
| "free_slots_loop (n # ns) sm freed =
     (case free_slot sm n of (ok, sm') \<Rightarrow> free_slots_loop ns sm' (if ok then freed + 1 else freed))"

definition free_process_slots :: "SwapManager \<Rightarrow> pid \<Rightarrow> nat \<times> SwapManager" where
  "free_process_slots sm p =
     (case process_slots sm p of
        None \<Rightarrow> (0, sm)
      | Some ns \<Rightarrow> free_slots_loop ns (sm\<lparr>process_slots := (process_slots sm)(p := None)\<rparr>) 0)"

definition has_space :: "SwapManager \<Rightarrow> bool" where
  "has_space sm \<longleftrightarrow> sw_free_queue sm \<noteq> []"

datatype SwapPolicy = Clock | NRU | FIFOPolicy | RandomPolicy

datatype SwapResult = SwapSuccess | NoSwapSpace | SwapDisabled | PageLocked

section \<open>Slot bookkeeping\<close>

definition sw_used :: "SwapManager \<Rightarrow> nat set" where
  "sw_used sm = {n. n < total_slots sm \<and> occupied (slots sm ! n)}"

definition slot_ok :: "nat \<Rightarrow> SwapSlot \<Rightarrow> bool" where
  "slot_ok n s \<longleftrightarrow> sl_number s = n \<and> (occupied s \<longleftrightarrow> sl_owner s \<noteq> None) \<and> (occupied s \<longleftrightarrow> vpn s \<noteq> None)"

definition swap_wf :: "SwapManager \<Rightarrow> bool" where
  "swap_wf sm \<longleftrightarrow> length (slots sm) = total_slots sm \<and> distinct (sw_free_queue sm) \<and>
     set (sw_free_queue sm) = {..<total_slots sm} - sw_used sm \<and>
     length (sw_free_queue sm) + used_slots sm = total_slots sm \<and>
     (\<forall>n < total_slots sm. slot_ok n (slots sm ! n))"

lemma swap_wfD:
  assumes "swap_wf sm"
  shows "length (slots sm) = total_slots sm" "distinct (sw_free_queue sm)"
    "set (sw_free_queue sm) = {..<total_slots sm} - sw_used sm"
    "length (sw_free_queue sm) + used_slots sm = total_slots sm"
    "n < total_slots sm \<Longrightarrow> slot_ok n (slots sm ! n)"
  using assms by (auto simp: swap_wf_def)

lemma sw_used_bound: "sw_used sm \<subseteq> {..<total_slots sm}"
  by (auto simp: sw_used_def)

lemma sw_used_card: "swap_wf sm \<Longrightarrow> card (sw_used sm) = used_slots sm"
proof -
  assume wf: "swap_wf sm"
  have "card (set (sw_free_queue sm)) = total_slots sm - card (sw_used sm)"
    by (simp add: swap_wfD(3) [OF wf] card_Diff_subset sw_used_bound finite_subset [OF sw_used_bound])
  moreover have "card (set (sw_free_queue sm)) = length (sw_free_queue sm)"
    by (rule distinct_card [OF swap_wfD(2) [OF wf]])
  moreover have "card (sw_used sm) \<le> total_slots sm" using card_mono [OF _ sw_used_bound] by fastforce
  ultimately show ?thesis using swap_wfD(4) [OF wf] by linarith
qed

lemma sw_used_update:
  "length ss = total_slots sm \<Longrightarrow> n < total_slots sm \<Longrightarrow>
   {k. k < total_slots sm \<and> occupied (ss[n := s] ! k)} =
     (if occupied s then insert n {k. k < total_slots sm \<and> occupied (ss ! k)}
      else {k. k < total_slots sm \<and> occupied (ss ! k)} - {n})"
  by (auto simp: nth_list_update split: if_splits)

lemma SwapManager_new_wf: "SwapManager_new cfg d = Some sm \<Longrightarrow> swap_wf sm \<and> sw_used sm = {} \<and> enabled sm"
  by (auto simp: SwapManager_new_def Let_def swap_wf_def sw_used_def slot_ok_def SwapSlot_new_def split: if_splits)

lemma allocate_slot_spec:
  assumes wf: "swap_wf sm" and al: "allocate_slot sm p v = Some (s, sm')"
  shows "sl_number s < total_slots sm \<and> sl_number s \<notin> sw_used sm \<and> sl_owner s = Some p \<and> vpn s = Some v \<and>
         sw_used sm' = insert (sl_number s) (sw_used sm) \<and> total_slots sm' = total_slots sm \<and>
         enabled sm' = enabled sm \<and> disk sm' = disk sm \<and> swap_wf sm'"
proof -
  from al obtain n q where q: "sw_free_queue sm = n # q"
    by (auto simp: allocate_slot_def split: list.splits if_splits)
  then have n: "n < total_slots sm" "n \<notin> sw_used sm" using swap_wfD(3) [OF wf] by auto
  have ok: "slot_ok n (slots sm ! n)" using swap_wfD(5) [OF wf] n by blast
  have s: "s = slot_occupy (slots sm ! n) p v" "sl_number s = n"
    and sm': "slots sm' = (slots sm)[n := s]" "sw_free_queue sm' = q" "used_slots sm' = used_slots sm + 1"
      "total_slots sm' = total_slots sm" "enabled sm' = enabled sm" "disk sm' = disk sm"
    using al q ok by (auto simp: allocate_slot_def Let_def slot_occupy_def slot_ok_def split: if_splits)
  have used: "sw_used sm' = insert n (sw_used sm)"
    using sw_used_update [OF swap_wfD(1) [OF wf] n(1), of s] by (simp add: sm' sw_used_def s(1) slot_occupy_def)
  have "slot_ok k (slots sm' ! k)" if "k < total_slots sm" for k
    using swap_wfD(5) [OF wf that] ok n(1) swap_wfD(1) [OF wf]
    by (cases "k = n") (auto simp: sm' s(1) slot_ok_def slot_occupy_def)
  then have "swap_wf sm'"
    using wf q used n unfolding swap_wf_def by (auto simp: sm')
  then show ?thesis using n s used by (simp add: sm' slot_occupy_def)
qed

lemma free_slot_spec:
  assumes wf: "swap_wf sm" and fr: "free_slot sm n = (b, sm')"
  shows "(b \<longleftrightarrow> n \<in> sw_used sm) \<and> sw_used sm' = sw_used sm - {n} \<and> total_slots sm' = total_slots sm \<and>
         enabled sm' = enabled sm \<and> disk sm' = disk sm \<and> swap_wf sm'"
proof (cases "n \<in> sw_used sm")
  case True
  then have n: "n < total_slots sm" "occupied (slots sm ! n)" by (auto simp: sw_used_def)
  let ?s = "slot_free (slots sm ! n)"
  have sm': "b" "slots sm' = (slots sm)[n := ?s]" "sw_free_queue sm' = sw_free_queue sm @ [n]"
      "used_slots sm' = used_slots sm - 1" "total_slots sm' = total_slots sm" "enabled sm' = enabled sm" "disk sm' = disk sm"
    using fr n by (auto simp: free_slot_def Let_def)
  have used: "sw_used sm' = sw_used sm - {n}"
    using sw_used_update [OF swap_wfD(1) [OF wf] n(1), of ?s] by (simp add: sm' sw_used_def slot_free_def)
  have "0 < card (sw_used sm)" using True finite_subset [OF sw_used_bound] by (auto simp: card_gt_0_iff)
  then have cnt: "0 < used_slots sm" using sw_used_card [OF wf] by simp
  have ok: "slot_ok k (slots sm' ! k)" if "k < total_slots sm" for k
    using swap_wfD(5) [OF wf that] swap_wfD(5) [OF wf n(1)] n(1) swap_wfD(1) [OF wf]
    by (cases "k = n") (auto simp: sm' slot_ok_def slot_free_def)
  have queue: "set (sw_free_queue sm') = {..<total_slots sm} - sw_used sm'" "distinct (sw_free_queue sm')"
    using swap_wfD(2,3) [OF wf] n(1) True unfolding used by (auto simp: sm')
  have "swap_wf sm'"
    using ok queue cnt swap_wfD(1,4) [OF wf] unfolding swap_wf_def by (simp add: sm')
  then show ?thesis using True used sm' by simp
next
  case False
  then have "free_slot sm n = (False, sm)" by (auto simp: free_slot_def sw_used_def)
  with fr False wf show ?thesis by auto
qed

interpretation swap_pool: slot_pool
  "\<lambda>sm (p, v). map_option (map_prod sl_number id) (allocate_slot sm p v)" free_slot sw_used total_slots
  "\<lambda>sm. swap_wf sm \<and> enabled sm"
proof (standard, goal_cases)
  case (1 s)
  show ?case by (rule sw_used_bound)
next
  case (2 s pv)
  have "sw_free_queue s = [] \<longleftrightarrow> set (sw_free_queue s) = {}" by simp
  also have "\<dots> \<longleftrightarrow> sw_used s = {..<total_slots s}"
    unfolding swap_wfD(3) [OF 2 [THEN conjunct1]] using sw_used_bound [of s] by blast
  finally show ?case using 2 by (cases pv; cases "sw_free_queue s") (simp_all add: allocate_slot_def Let_def)
next
  case (3 s pv n s')
  then show ?case using allocate_slot_spec [of s "fst pv" "snd pv" _ s'] by (cases pv) fastforce
next
  case (4 s n b s')
  then show ?case using free_slot_spec [of s n b s'] by blast
qed

section \<open>Page transfer\<close>

text \<open>A page as it comes back: the first 4096 bytes, padded with zeros.\<close>

definition page_image :: "u8 list \<Rightarrow> u8 list" where
  "page_image data = take 4096 data @ replicate (4096 - length data) 0"

lemma swap_chunk_length: "length (swap_chunk data i) = SECTOR_SIZE"
  by (auto simp: swap_chunk_def Let_def SECTOR_SIZE_def subvec_def min_def)

lemma swap_chunk_nth:
  "j < 512 \<Longrightarrow> swap_chunk data i ! j = (if i * 512 + j < length data then data ! (i * 512 + j) else 0)"
  by (auto simp: swap_chunk_def Let_def subvec_def nth_append min_def)

lemma concat_uniform_nth:
  "\<forall>b \<in> set bss. length b = k \<Longrightarrow> i < length bss \<Longrightarrow> j < k \<Longrightarrow> concat bss ! (i * k + j) = bss ! i ! j"
proof (induction bss arbitrary: i)
  case (Cons b bss)
  then show ?case by (cases i) (auto simp: nth_append)
qed simp

lemma concat_swap_chunks: "concat (map (swap_chunk data) [0..<8]) = page_image data"
proof (rule nth_equalityI)
  let ?bss = "map (swap_chunk data) [0..<8]"
  have len: "length (concat ?bss) = 4096"
    by (simp add: length_concat swap_chunk_length SECTOR_SIZE_def comp_def sum_list_triv)
  then show "length (concat ?bss) = length (page_image data)" by (simp add: page_image_def)
  fix m assume "m < length (concat ?bss)"
  then have m: "m < 4096" using len by simp
  then have ij: "m div 512 < 8" "m mod 512 < 512" by auto
  have "concat ?bss ! (m div 512 * 512 + m mod 512) = ?bss ! (m div 512) ! (m mod 512)"
    using ij by (intro concat_uniform_nth) (auto simp: swap_chunk_length SECTOR_SIZE_def)
  also have "\<dots> = (if m < length data then data ! m else 0)"
    using ij by (simp add: swap_chunk_nth)
  finally show "concat ?bss ! m = page_image data ! m" using m by (simp add: page_image_def nth_append)
qed

context sector_store
begin

text \<open>A run that succeeded stayed inside the store.\<close>

lemma wr_run_in_range:
  "inv s \<Longrightarrow> wr_run wr s a bss = (Inr (), s') \<Longrightarrow> i < length bss \<Longrightarrow> unat (a + of_nat i) < sectors s"
proof (induction bss arbitrary: s a i)
  case (Cons b bss)
  then obtain t where t: "wr s a b = Inr t" "wr_run wr t (a + 1) bss = (Inr (), s')" by (auto split: sum.splits)
  have "unat a < sectors s" using wr_ok [OF Cons.prems(1), of a b] t(1) by simp
  moreover have "unat (a + 1 + of_nat j) < sectors s" if "j < length bss" for j
    using Cons.IH [OF _ t(2) that] wr_inv [OF Cons.prems(1) t(1)] by simp
  ultimately show ?case using Cons.prems(3) by (cases i) (auto simp: add.assoc)
qed simp

end

lemma slot_sector: "n < 2 ^ 29 \<Longrightarrow> i < 8 \<Longrightarrow> unat (of_nat (n * 8) + of_nat i :: u32) = n * 8 + i"
proof -
  assume "n < 2 ^ 29" "i < 8"
  then have "n * 8 + i < 2 ^ 32" by simp
  then have "unat (of_nat (n * 8 + i) :: u32) = n * 8 + i" by (simp only: unat_of_nat) simp
  then show ?thesis by simp
qed

text \<open>
  Swapping a page out and in. For a slot number below \<open>2 ^ 29\<close>, swapping out succeeds exactly
  when the eight sectors of the slot lie on the disk; then swapping the slot in returns the page (padded
  to 4096 bytes), and every other slot holds what it held.
\<close>

theorem swap_round_trip:
  assumes "disk_wf (disk sm)" "n < 2 ^ 29" "swap_out sm n data = (r, sm')"
  shows "(is_ok r \<longleftrightarrow> n * 8 + 8 \<le> unat (total_sectors (disk sm))) \<and>
    (is_ok r \<longrightarrow> swap_in sm' n = Inr (page_image data) \<and> disk_wf (disk sm') \<and>
       (\<forall>m < 2 ^ 29. m \<noteq> n \<longrightarrow> swap_in sm' m = swap_in sm m))"
proof -
  let ?d = "disk sm" and ?a = "of_nat (n * 8) :: u32" and ?bss = "map (swap_chunk data) [0..<8]"
  let ?N = "unat (total_sectors ?d)"
  have a: "unat ?a = n * 8" using slot_sector [OF assms(2), of 0] by simp
  have len: "\<forall>b \<in> set ?bss. length b = SECTOR_SIZE" by (auto simp: swap_chunk_length)
  have bound: "?N < 2 ^ 32" using unsigned_less [of "total_sectors ?d"] by simp
  obtain q d' where run: "wr_run write_sector ?d ?a ?bss = (q, d')" by (cases "wr_run write_sector ?d ?a ?bss")
  have sm': "sm' = sm\<lparr>disk := d'\<rparr>" and r: "r = map_err (\<lambda>e. ''swap_out: '' @ disk_error_fmt e) q"
    using assms(3) run by (simp_all add: swap_out_def)
  have fits: "n * 8 + 8 \<le> ?N" if "q = Inr ()"
    using vdisk.wr_run_in_range [OF assms(1), of ?a ?bss d' 7] run that slot_sector [OF assms(2), of 7] by simp
  have ok: "q = Inr () \<and> rd_run read_sector d' ?a 8 = Inr ?bss \<and> disk_wf d' \<and>
      (\<forall>x. \<not> (n * 8 \<le> unat x \<and> unat x < n * 8 + 8) \<longrightarrow> read_sector d' x = read_sector ?d x)" if "n * 8 + 8 \<le> ?N"
    using vdisk.run_round_trip [OF assms(1) _ bound len, of ?a] vdisk.wr_run_spec [OF assms(1) _ bound len, of ?a]
      that a run by auto
  have other: "swap_in sm' m = swap_in sm m" if "n * 8 + 8 \<le> ?N" "m < 2 ^ 29" "m \<noteq> n" for m
  proof -
    have "rd_run read_sector d' (of_nat (m * 8)) 8 = rd_run read_sector ?d (of_nat (m * 8)) 8"
    proof (rule vdisk.rd_run_cong)
      fix i :: nat assume "i < 8"
      with slot_sector [OF that(2) this] that(3)
      show "read_sector d' (of_nat (m * 8) + of_nat i) = read_sector ?d (of_nat (m * 8) + of_nat i)"
        using ok [OF that(1)] by auto
    qed
    then show ?thesis by (simp add: swap_in_def sm')
  qed
  have iff: "is_ok r \<longleftrightarrow> n * 8 + 8 \<le> ?N" using fits ok r by (cases q) auto
  moreover have "swap_in sm' n = Inr (page_image data)" "disk_wf (disk sm')" if "n * 8 + 8 \<le> ?N"
    using ok [OF that] concat_swap_chunks by (simp_all add: swap_in_def sm')
  ultimately show ?thesis using other by blast
qed

definition demo_swap :: SwapManager where
  "demo_swap = the (SwapManager_new (SwapConfig_default\<lparr>total_size := 8192\<rparr>) (the (VirtualDisk_new 256 [])))"

lemma demo_swap_disk: "disk_wf (disk demo_swap)" "total_sectors (disk demo_swap) = 256"
  by (simp_all add: demo_swap_def SwapManager_new_def SwapConfig_default_def Let_def VirtualDisk_new_def disk_wf_def
      SECTOR_SIZE_def mark_used_range_def)

theorem swap_round_trip_witness:
  "swap_in (snd (swap_out demo_swap 31 [1, 2, 3])) 31 = Inr (page_image [1, 2, 3]) \<and>
   \<not> is_ok (fst (swap_out demo_swap 32 [1, 2, 3]))"
  using swap_round_trip [OF demo_swap_disk(1) _ prod.collapse [symmetric], of 31 "[1, 2, 3]"]
    swap_round_trip [OF demo_swap_disk(1) _ prod.collapse [symmetric], of 32 "[1, 2, 3]"] demo_swap_disk(2)
  by simp

text \<open>
  Swap slots are never handed out twice. From a freshly created manager, a run of allocations for
  any processes and pages succeeds exactly when there are that many slots, the slots it returns are
  distinct, and releasing one of them makes the next allocation succeed.
\<close>

theorem swap_slots_exclusive:
  assumes "SwapManager_new cfg d = Some sm"
  shows "case alloc_all (\<lambda>sm (p, v). map_option (map_prod sl_number id) (allocate_slot sm p v)) sm reqs of
      None \<Rightarrow> total_slots sm < length reqs
    | Some (ns, sm') \<Rightarrow> length reqs \<le> total_slots sm \<and> distinct ns \<and> length ns = length reqs \<and>
        used_slots sm' = length reqs \<and>
        (\<forall>n \<in> set ns. \<exists>s sm''. allocate_slot (snd (free_slot sm' n)) p v = Some (s, sm'') \<and>
                           sl_number s \<notin> set ns - {n})"
proof -
  let ?run = "alloc_all (\<lambda>sm (p, v). map_option (map_prod sl_number id) (allocate_slot sm p v)) sm reqs"
  have inv: "swap_wf sm \<and> enabled sm" and empty: "sw_used sm = {}" using SwapManager_new_wf [OF assms] by auto
  have cap: "(\<exists>r. ?run = Some r) \<longleftrightarrow> length reqs \<le> total_slots sm"
    using swap_pool.alloc_all_succeeds [OF inv] empty by simp
  show ?thesis
  proof (cases ?run)
    case (Some r)
    obtain ns sm' where r: "r = (ns, sm')" by (cases r)
    note spec = swap_pool.alloc_all_spec [OF inv, of reqs ns sm']
    have used: "sw_used sm' = set ns" "swap_wf sm' \<and> enabled sm'" "distinct ns" "length ns = length reqs"
      using spec Some r empty by auto
    have "used_slots sm' = length reqs"
      using sw_used_card [of sm'] used distinct_card [of ns] by simp
    moreover have "\<exists>s sm''. allocate_slot (snd (free_slot sm' n)) p v = Some (s, sm'') \<and> sl_number s \<notin> set ns - {n}"
      if "n \<in> set ns" for n
      using swap_pool.release_then_alloc [OF used(2), of n _ _ "(p, v)"] that used(1)
      by (cases "free_slot sm' n") auto
    ultimately show ?thesis using Some r used cap by auto
  qed (use cap in auto)
qed

theorem swap_slots_exclusive_witness:
  "\<exists>ns sm'. alloc_all (\<lambda>sm (p, v). map_option (map_prod sl_number id) (allocate_slot sm p v)) demo_swap [(1, 0), (2, 0)]
              = Some (ns, sm') \<and> distinct ns \<and> used_slots sm' = 2"
proof -
  have new: "SwapManager_new (SwapConfig_default\<lparr>total_size := 8192\<rparr>) (the (VirtualDisk_new 256 [])) = Some demo_swap"
    by (simp add: demo_swap_def SwapManager_new_def SwapConfig_default_def Let_def)
  have "total_slots demo_swap = 2"
    by (simp add: demo_swap_def SwapManager_new_def SwapConfig_default_def Let_def)
  with swap_slots_exclusive [OF new, of "[(1, 0), (2, 0)]" 1 0] show ?thesis
    by (auto simp del: alloc_all.simps split: option.splits)
qed

end
