(* ===== verification/Memory_Service.thy ===== *)
theory Memory_Service
  imports MMU Frame_Allocator Paging Swap Service_Loop
begin

text \<open>
  The memory service (\<^verbatim>\<open>src/services/memory/service.rs\<close>): the handlers for memory requests with and
  without a response, demand paging with swapping, and the dispatch of envelopes. The service's RAM handle
  and the one of the hardware unit are the same RAM, which the unit carries. A handler that locks a mutex
  it already holds never returns normally (the standard library promises no more than that); this is the
  outcome \<open>SelfDeadlock\<close>.
\<close>

section \<open>State\<close>

record MemoryService =
  memory_manager :: PhysicalMemoryManager
  soft_tables :: PageTableManager
  swap_manager :: SwapManager
  hw_mmu :: MMU
  swapped_pages :: "pid \<rightharpoonup> (virt_addr \<rightharpoonup> nat)"

datatype HandlerResult =
    Finished "(GenshinError, unit) result" responses MemoryService
  | SelfDeadlock

text \<open>Creation; the contents of the swap image file are an argument.\<close>

definition MemoryService_new :: "PhysicalMemory \<Rightarrow> MMU \<Rightarrow> u8 list \<Rightarrow> MemoryService option" where
  "MemoryService_new hw m img =
     (case (PhysicalMemoryManager_new (mem_size hw) 4096, VirtualDisk_new 256 img) of
        (Some pm, Some d) \<Rightarrow>
          map_option (\<lambda>sw. \<lparr>memory_manager = pm, soft_tables = PageTableManager_new 4096 256, swap_manager = sw,
                             hw_mmu = m, swapped_pages = (\<lambda>_. None)\<rparr>)
            (SwapManager_new SwapConfig_default d)
      | _ \<Rightarrow> None)"

section \<open>Frames\<close>

definition handle_alloc_frame :: "nat \<Rightarrow> pid \<Rightarrow> MemoryService \<Rightarrow> (GenshinError, unit) result \<times> MemoryService" where
  "handle_alloc_frame cnt p s =
     (case allocate_frames (memory_manager s) p cnt of
        (fs, pm) \<Rightarrow>
          (if length fs \<noteq> cnt then service_err (ResourceExhausted ''Physical memory frames'' (length fs) cnt) else Inr (),
           s\<lparr>memory_manager := pm\<rparr>))"

definition handle_alloc_frame_with_response ::
  "ChanEnv \<Rightarrow> Envelope \<Rightarrow> nat \<Rightarrow> pid \<Rightarrow> MemoryService \<Rightarrow> HandlerResult" where
  "handle_alloc_frame_with_response ce env cnt p s =
     (case allocate_frames (memory_manager s) p cnt of
        (fs, pm) \<Rightarrow>
          if length fs \<noteq> cnt
          then Finished (service_err (ResourceExhausted ''Physical memory frames'' (length fs) cnt))
                 (ok_error ce env (MsgResourceExhausted ''Physical memory frames'')) (s\<lparr>memory_manager := pm\<rparr>)
          else Finished (Inr ()) (ok_success ce env (PhysicalAddr (case fs of [] \<Rightarrow> 0 | f # _ \<Rightarrow> address f)))
                 (s\<lparr>memory_manager := pm\<rparr>))"

definition handle_free_frame :: "phys_addr \<Rightarrow> MemoryService \<Rightarrow> (GenshinError, unit) result \<times> MemoryService" where
  "handle_free_frame pa s =
     (case free_frame (memory_manager s) 0 (unat (pa div 4096)) of
        (freed, pm) \<Rightarrow>
          (if freed then Inr () else service_err (NotFound ''Frame'' (hex64 pa)), s\<lparr>memory_manager := pm\<rparr>))"

definition handle_free_frame_with_response ::
  "ChanEnv \<Rightarrow> Envelope \<Rightarrow> phys_addr \<Rightarrow> MemoryService \<Rightarrow> HandlerResult" where
  "handle_free_frame_with_response ce env pa s =
     (case free_frame (memory_manager s) 0 (unat (pa div 4096)) of
        (freed, pm) \<Rightarrow>
          if freed
          then (case respond_success ce env Void of
                  (r, out) \<Rightarrow> Finished (map_err (from_send_error ce) r) out (s\<lparr>memory_manager := pm\<rparr>))
          else Finished (service_err (NotFound ''Frame'' (hex64 pa)))
                 (ok_error ce env (MsgNotFound ''Frame'' (hex64 pa))) (s\<lparr>memory_manager := pm\<rparr>))"

section \<open>Page tables\<close>

definition handle_map_page :: "pid \<Rightarrow> virt_addr \<Rightarrow> phys_addr \<Rightarrow> MemProt \<Rightarrow> MemoryService \<Rightarrow> (GenshinError, unit) result \<times> MemoryService" where
  "handle_map_page p va pa prot s =
     (let (t, tm) = (case get_table (soft_tables s) p of
                       Some t \<Rightarrow> (t, soft_tables s)
                     | None \<Rightarrow> create_table (soft_tables s) p) in
      case pt_map t va pa prot of
        Inr t' \<Rightarrow> (Inr (), s\<lparr>soft_tables := put_table tm p t'\<rparr>)
      | Inl (AlreadyMapped v) \<Rightarrow>
          (service_err (InvalidArguments ''virtual_address'' (''VPN '' @ dec64 v @ '' already mapped'')),
           s\<lparr>soft_tables := tm\<rparr>)
      | Inl _ \<Rightarrow> (service_err (OtherError 1 ''Page mapping failed''), s\<lparr>soft_tables := tm\<rparr>))"

definition handle_unmap_page :: "pid \<Rightarrow> virt_addr \<Rightarrow> MemoryService \<Rightarrow> (GenshinError, unit) result \<times> MemoryService" where
  "handle_unmap_page p va s =
     (case unmap_page (hw_mmu s) p va of
        Inr m \<Rightarrow> (Inr (), s\<lparr>hw_mmu := m\<rparr>)
      | Inl e \<Rightarrow> (service_err (OtherError 2 (mmu_error_debug e)), s))"

definition handle_map_page_with_response ::
  "ChanEnv \<Rightarrow> Envelope \<Rightarrow> pid \<Rightarrow> virt_addr \<Rightarrow> phys_addr \<Rightarrow> MemProt \<Rightarrow> MemoryService \<Rightarrow> HandlerResult" where
  "handle_map_page_with_response ce env p va pa prot s =
     (case map_page (hw_mmu s) p va pa
             \<lparr>present = True, page_writable = writable prot, user_accessible = True\<rparr> of
        Inr m \<Rightarrow> Finished (Inr ()) (ok_success ce env Void) (s\<lparr>hw_mmu := m\<rparr>)
      | Inl e \<Rightarrow> Finished (service_err (OtherError 1 (mmu_error_debug e)))
                   (ok_error ce env (MsgOther 1 (mmu_error_debug e))) s)"

definition handle_unmap_page_with_response ::
  "ChanEnv \<Rightarrow> Envelope \<Rightarrow> pid \<Rightarrow> virt_addr \<Rightarrow> MemoryService \<Rightarrow> HandlerResult" where
  "handle_unmap_page_with_response ce env p va s =
     (case unmap_page (hw_mmu s) p va of
        Inr m \<Rightarrow> Finished (Inr ()) (ok_success ce env Void) (s\<lparr>hw_mmu := m\<rparr>)
      | Inl e \<Rightarrow> Finished (service_err (OtherError 2 (mmu_error_debug e)))
                   (ok_error ce env (MsgOther 2 (mmu_error_debug e))) s)"

section \<open>Page faults\<close>

definition prot_for :: "AccessType \<Rightarrow> MemProt" where
  "prot_for a = (case a of Read \<Rightarrow> MemProt_read_only | Write \<Rightarrow> MemProt_read_write | Execute \<Rightarrow> MemProt_execute)"

definition handle_page_fault :: "pid \<Rightarrow> virt_addr \<Rightarrow> AccessType \<Rightarrow> MemoryService \<Rightarrow> (GenshinError, unit) result \<times> MemoryService" where
  "handle_page_fault p addr access s =
     (case get_table (soft_tables s) p of
        None \<Rightarrow> (service_err (NotFound ''Page table'' (dec64 p)), s)
      | Some t \<Rightarrow>
         if (case pt_lookup t addr of Some e \<Rightarrow> is_present e | None \<Rightarrow> False)
         then (service_err (PermissionDenied (access_debug access) ''Access permission denied''), s)
         else (case allocate_frames (memory_manager s) p 1 of
                 ([], pm) \<Rightarrow>
                   (if \<not> enabled (swap_manager s) \<or> \<not> has_space (swap_manager s)
                    then service_err (ResourceExhausted ''Memory'' 0 1) else Inr (),
                    s\<lparr>memory_manager := pm\<rparr>)
               | (f # _, pm) \<Rightarrow>
                   handle_map_page p addr (address f) (prot_for access) (s\<lparr>memory_manager := pm\<rparr>)))"

text \<open>
  The choice of a victim, on the present pages of all processes in the order in which the hash maps
  deliver them.
\<close>

definition find_victim_page :: "(pid \<times> virt_addr \<times> phys_addr) list \<Rightarrow> pid \<Rightarrow> (pid \<times> virt_addr \<times> phys_addr) option" where
  "find_victim_page pages exclude =
     (case List.find (\<lambda>(p, _, _). p \<noteq> exclude) pages of
        Some v \<Rightarrow> Some v
      | None \<Rightarrow> (case pages of [] \<Rightarrow> None | v # _ \<Rightarrow> Some v))"

definition rw_flags :: PageFlags where
  "rw_flags = \<lparr>present = True, page_writable = True, user_accessible = True\<rparr>"

definition page_base :: "virt_addr \<Rightarrow> virt_addr" where
  "page_base a = a AND NOT 0xFFF"

definition page_bytes :: "MMU \<Rightarrow> pid \<Rightarrow> virt_addr \<Rightarrow> u8 list" where
  "page_bytes m p va =
     map (\<lambda>i. case mmu_read_u8 m p (va + of_nat i) of Inr b \<Rightarrow> b | Inl _ \<Rightarrow> 0) [0..<4096]"

text \<open>The outcome of the first step: the page was swapped out, or the fault goes on.\<close>

datatype SwapInStep = StepDone HandlerResult | StepContinue MemoryService

definition fault_swap_in :: "ChanEnv \<Rightarrow> Envelope \<Rightarrow> pid \<Rightarrow> virt_addr \<Rightarrow> MemoryService \<Rightarrow> SwapInStep" where
  "fault_swap_in ce env p page s =
     (case (case swapped_pages s p of None \<Rightarrow> None | Some m \<Rightarrow> m page) of
        None \<Rightarrow> StepContinue s
      | Some slot \<Rightarrow>
         (case swap_in (swap_manager s) slot of
            Inl e \<Rightarrow> StepDone (Finished (Inr ()) (ok_error ce env (MsgOther 80 e)) s)
          | Inr data \<Rightarrow>
             (case allocate_frames (memory_manager s) p 1 of
                (f # _, pm) \<Rightarrow> StepDone SelfDeadlock
              | ([], pm) \<Rightarrow> StepContinue (s\<lparr>memory_manager := pm\<rparr>))))"

definition map_fault_page :: "ChanEnv \<Rightarrow> Envelope \<Rightarrow> pid \<Rightarrow> virt_addr \<Rightarrow> Frame \<Rightarrow> MemoryService \<Rightarrow> HandlerResult" where
  "map_fault_page ce env p page f s =
     (case map_page (hw_mmu s) p page (address f) rw_flags of
        Inl e \<Rightarrow> Finished (service_err (OtherError 70 (mmu_error_debug e))) [] s
      | Inr m \<Rightarrow> Finished (Inr ()) (ok_success ce env (PhysicalAddr (address f))) (s\<lparr>hw_mmu := m\<rparr>))"

definition out_of_frames :: "ChanEnv \<Rightarrow> Envelope \<Rightarrow> MemoryService \<Rightarrow> HandlerResult" where
  "out_of_frames ce env s =
     Finished (service_err (ResourceExhausted ''frames'' 0 1)) (ok_error ce env (MsgResourceExhausted ''frames'')) s"

definition fault_swap_out ::
  "ChanEnv \<Rightarrow> Envelope \<Rightarrow> (pid \<times> virt_addr \<times> phys_addr) list \<Rightarrow> pid \<Rightarrow> virt_addr \<Rightarrow> MemoryService \<Rightarrow> HandlerResult" where
  "fault_swap_out ce env pages p page s =
     (case find_victim_page pages p of
        None \<Rightarrow> out_of_frames ce env s
      | Some (vp, va, vf) \<Rightarrow>
         (case allocate_slot (swap_manager s) vp (va div 4096) of
            None \<Rightarrow> out_of_frames ce env s
          | Some (slot, sw) \<Rightarrow>
             (case swap_out sw (sl_number slot) (page_bytes (hw_mmu s) vp va) of
                (Inl _, sw') \<Rightarrow> out_of_frames ce env (s\<lparr>swap_manager := sw'\<rparr>)
              | (Inr _, sw') \<Rightarrow>
                 let m = (case unmap_page (hw_mmu s) vp va of Inr m \<Rightarrow> m | Inl _ \<Rightarrow> hw_mmu s);
                     pm = snd (free_frame (memory_manager s) vp (unat (vf div 4096)));
                     old = (case swapped_pages s vp of None \<Rightarrow> (\<lambda>_. None) | Some x \<Rightarrow> x);
                     s' = s\<lparr>swap_manager := sw', hw_mmu := m, memory_manager := pm,
                            swapped_pages := (swapped_pages s)(vp \<mapsto> old(va \<mapsto> sl_number slot))\<rparr> in
                 (case allocate_frames pm p 1 of
                    (f # _, pm') \<Rightarrow> map_fault_page ce env p page f (s'\<lparr>memory_manager := pm'\<rparr>)
                  | ([], pm') \<Rightarrow> out_of_frames ce env (s'\<lparr>memory_manager := pm'\<rparr>)))))"

definition handle_page_fault_with_response ::
  "ChanEnv \<Rightarrow> Envelope \<Rightarrow> (pid \<times> virt_addr \<times> phys_addr) list \<Rightarrow> pid \<Rightarrow> virt_addr \<Rightarrow> MemoryService \<Rightarrow> HandlerResult" where
  "handle_page_fault_with_response ce env pages p addr s =
     (let page = page_base addr in
      case fault_swap_in ce env p page s of
        StepDone r \<Rightarrow> r
      | StepContinue s1 \<Rightarrow>
         (case allocate_frames (memory_manager s1) p 1 of
            (f # _, pm) \<Rightarrow> map_fault_page ce env p page f (s1\<lparr>memory_manager := pm\<rparr>)
          | ([], pm) \<Rightarrow> fault_swap_out ce env pages p page (s1\<lparr>memory_manager := pm\<rparr>)))"

section \<open>Swap requests\<close>

definition handle_swap_out :: "pid \<Rightarrow> virt_addr \<Rightarrow> MemoryService \<Rightarrow> (GenshinError, unit) result \<times> MemoryService" where
  "handle_swap_out p va s =
     (if \<not> enabled (swap_manager s) then (service_err (NotImplemented ''Swap''), s)
      else case allocate_slot (swap_manager s) p (va div 4096) of
             None \<Rightarrow> (service_err (ResourceExhausted ''Swap space'' 0 1), s)
           | Some (_, sw) \<Rightarrow> (Inr (), s\<lparr>swap_manager := sw\<rparr>))"

text \<open>A frame that cannot be read leaves the zeros of the buffer.\<close>

definition frame_data :: "MMU \<Rightarrow> pid \<Rightarrow> virt_addr \<Rightarrow> u8 list" where
  "frame_data m p va =
     (case translate m p va Read of
        Inl _ \<Rightarrow> replicate 4096 0
      | Inr pa \<Rightarrow> (case mem_read_slice (memory m) (unat pa) 4096 of Inr bs \<Rightarrow> bs | Inl _ \<Rightarrow> replicate 4096 0))"

definition handle_swap_out_with_response ::
  "ChanEnv \<Rightarrow> Envelope \<Rightarrow> pid \<Rightarrow> virt_addr \<Rightarrow> MemoryService \<Rightarrow> HandlerResult" where
  "handle_swap_out_with_response ce env p va s =
     (if \<not> enabled (swap_manager s)
      then (case respond_error ce env (MsgNotImplemented ''Swap'') of
              (Inl u, out) \<Rightarrow> Finished (Inl (from_send_error ce u)) out s
            | (Inr _, out) \<Rightarrow> Finished (service_err (NotImplemented ''Swap'')) out s)
      else case allocate_slot (swap_manager s) p (va div 4096) of
             None \<Rightarrow> Finished (service_err (ResourceExhausted ''Swap space'' 0 1))
                      (ok_error ce env (MsgResourceExhausted ''Swap space'')) s
           | Some (slot, sw) \<Rightarrow>
              (case swap_out sw (sl_number slot) (frame_data (hw_mmu s) p va) of
                 (Inl e, sw') \<Rightarrow> Finished (service_err (OtherError 81 ''swap_out failed''))
                                  (ok_error ce env (MsgOther 81 e)) (s\<lparr>swap_manager := sw'\<rparr>)
               | (Inr _, sw') \<Rightarrow> Finished (Inr ()) (ok_success ce env (RInteger (of_nat (sl_number slot))))
                                  (s\<lparr>swap_manager := sw'\<rparr>)))"

definition find_slot :: "SwapManager \<Rightarrow> pid \<Rightarrow> virt_addr \<Rightarrow> SwapSlot option" where
  "find_slot sw p va = List.find (\<lambda>sl. vpn sl = Some (va div 4096)) (get_process_slots sw p)"

definition handle_swap_in :: "pid \<Rightarrow> virt_addr \<Rightarrow> MemoryService \<Rightarrow> (GenshinError, unit) result \<times> MemoryService" where
  "handle_swap_in p va s =
     (case find_slot (swap_manager s) p va of
        None \<Rightarrow> (service_err (NotFound ''Swap slot'' (''VPN '' @ dec64 (va div 4096))), s)
      | Some slot \<Rightarrow> (Inr (), s\<lparr>swap_manager := snd (free_slot (swap_manager s) (sl_number slot))\<rparr>))"

definition handle_swap_in_with_response ::
  "ChanEnv \<Rightarrow> Envelope \<Rightarrow> pid \<Rightarrow> virt_addr \<Rightarrow> MemoryService \<Rightarrow> HandlerResult" where
  "handle_swap_in_with_response ce env p va s =
     (case find_slot (swap_manager s) p va of
        None \<Rightarrow> Finished (service_err (NotFound ''Swap slot'' (''VPN '' @ dec64 (va div 4096))))
                  (ok_error ce env (MsgNotFound ''Swap slot'' (''VPN '' @ dec64 (va div 4096)))) s
      | Some slot \<Rightarrow>
         let sw = snd (free_slot (swap_manager s) (sl_number slot)); s1 = s\<lparr>swap_manager := sw\<rparr> in
         (case swap_in sw (sl_number slot) of
            Inl e \<Rightarrow> Finished (service_err (OtherError 84 ''swap_in failed'')) (ok_error ce env (MsgOther 84 e)) s1
          | Inr data \<Rightarrow>
             (case translate (hw_mmu s) p va Write of
                Inl _ \<Rightarrow> Finished (Inr ()) (ok_success ce env Void) s1
              | Inr pa \<Rightarrow>
                 (case mem_write_slice (memory (hw_mmu s)) (unat pa) data of
                    Inl _ \<Rightarrow> Finished (service_err (OtherError 83 ''write'')) [] s1
                  | Inr mem \<Rightarrow> Finished (Inr ()) (ok_success ce env Void)
                                 (s1\<lparr>hw_mmu := (hw_mmu s)\<lparr>memory := mem\<rparr>\<rparr>)))))"

section \<open>Dispatch\<close>

definition handle_memory_request :: "MemoryRequest \<Rightarrow> MemoryService \<Rightarrow> (GenshinError, unit) result \<times> MemoryService" where
  "handle_memory_request req s =
     (case req of
        AllocFrame cnt p \<Rightarrow> handle_alloc_frame cnt p s
      | FreeFrame pa \<Rightarrow> handle_free_frame pa s
      | MapPage p va pa prot \<Rightarrow> handle_map_page p va pa prot s
      | UnmapPage p va \<Rightarrow> handle_unmap_page p va s
      | PageFaultHandler p addr access \<Rightarrow> handle_page_fault p addr access s
      | SwapOut p va \<Rightarrow> handle_swap_out p va s
      | SwapIn p va \<Rightarrow> handle_swap_in p va s
      | MemoryGetStats \<Rightarrow> (Inr (), s)
      | GetFrameMap \<Rightarrow> (Inr (), s))"

definition handle_memory_request_with_response ::
  "ChanEnv \<Rightarrow> Envelope \<Rightarrow> (pid \<times> virt_addr \<times> phys_addr) list \<Rightarrow> MemoryRequest \<Rightarrow> MemoryService \<Rightarrow> HandlerResult" where
  "handle_memory_request_with_response ce env pages req s =
     (case req of
        AllocFrame cnt p \<Rightarrow> handle_alloc_frame_with_response ce env cnt p s
      | FreeFrame pa \<Rightarrow> handle_free_frame_with_response ce env pa s
      | MapPage p va pa prot \<Rightarrow> handle_map_page_with_response ce env p va pa prot s
      | UnmapPage p va \<Rightarrow> handle_unmap_page_with_response ce env p va s
      | PageFaultHandler p addr access \<Rightarrow> handle_page_fault_with_response ce env pages p addr s
      | SwapOut p va \<Rightarrow> handle_swap_out_with_response ce env p va s
      | SwapIn p va \<Rightarrow> handle_swap_in_with_response ce env p va s
      | MemoryGetStats \<Rightarrow>
          (let fa = allocator (memory_manager s); n = total_frames fa; fr = free_count fa in
           Finished (Inr ()) (ok_success ce env (MemoryStats (of_nat n) (of_nat (n - fr)) (of_nat fr))) s)
      | GetFrameMap \<Rightarrow>
          Finished (Inr ())
            (ok_success ce env (FrameMap (map (\<lambda>(n, p). (of_nat n, p)) (frame_owners (allocator (memory_manager s)))))) s)"

definition handle_envelope ::
  "ChanEnv \<Rightarrow> (pid \<times> virt_addr \<times> phys_addr) list \<Rightarrow> Envelope \<Rightarrow> MemoryService \<Rightarrow> HandlerResult" where
  "handle_envelope ce pages env s =
     (case (case message env of
              MemoryMsg req \<Rightarrow>
                if expects_response env then handle_memory_request_with_response ce env pages req s
                else (case handle_memory_request req s of (r, s') \<Rightarrow> Finished r [] s')
            | _ \<Rightarrow> Finished (Inr ()) [] s) of
        SelfDeadlock \<Rightarrow> SelfDeadlock
      | Finished (Inr _) out s' \<Rightarrow> Finished (Inr ()) out s'
      | Finished (Inl e) out s' \<Rightarrow>
          Finished (Inr ())
            (out @ (if expects_response env then ok_error ce env (MsgOther 1 (genshin_error_fmt e)) else [])) s')"

text \<open>The service loop, on the envelopes received until the bus disconnects, each with the order of the present pages.\<close>

fun ms_run :: "ChanEnv \<Rightarrow> (Envelope \<times> (pid \<times> virt_addr \<times> phys_addr) list) list \<Rightarrow> MemoryService \<Rightarrow> HandlerResult" where
  "ms_run ce [] s = Finished (Inr ()) [] s"
| "ms_run ce ((env, pages) # evs) s =
     (case handle_envelope ce pages env s of
        SelfDeadlock \<Rightarrow> SelfDeadlock
      | Finished _ out s' \<Rightarrow>
          (case ms_run ce evs s' of
             SelfDeadlock \<Rightarrow> SelfDeadlock
           | Finished r out' s'' \<Rightarrow> Finished r (out @ out') s''))"

section \<open>Queries\<close>

definition memory_usage :: "MemoryService \<Rightarrow> MemoryUsage" where
  "memory_usage s = fa_usage (allocator (memory_manager s))"

definition ms_swap_stats :: "MemoryService \<Rightarrow> SwapStats" where
  "ms_swap_stats s = swap_stats (swap_manager s)"

definition process_page_table_stats :: "MemoryService \<Rightarrow> pid \<Rightarrow> PageTableStats option" where
  "process_page_table_stats s p = map_option pt_stats (get_table (soft_tables s) p)"

section \<open>Frames and mappings\<close>

definition entry_at :: "MMU \<Rightarrow> pid \<Rightarrow> virt_addr \<Rightarrow> PageTableEntry option" where
  "entry_at m p v = (case page_tables m p of None \<Rightarrow> None | Some t \<Rightarrow> t v)"

text \<open>
  Every mapped frame is a frame of the allocator that belongs to the process mapping it, and no frame is
  mapped twice. This is the invariant behind the isolation of processes.
\<close>

definition exclusive :: "FrameAllocator \<Rightarrow> MMU \<Rightarrow> bool" where
  "exclusive fa m \<longleftrightarrow>
     (\<forall>p v e. entry_at m p v = Some e \<longrightarrow> (\<exists>n < total_frames fa. frame e = of_nat (n * 4096) \<and> owners fa n = Some p)) \<and>
     (\<forall>p v e q w e'. entry_at m p v = Some e \<longrightarrow> entry_at m q w = Some e' \<longrightarrow> frame e = frame e' \<longrightarrow> p = q \<and> v = w)"

definition frames_wf :: "FrameAllocator \<Rightarrow> MMU \<Rightarrow> bool" where
  "frames_wf fa m \<longleftrightarrow> fa_wf fa \<and> frame_size fa = 4096 \<and> total_frames fa * 4096 < 2 ^ 64 \<and>
     mmu_wf m \<and> page_size m = 4096 \<and> exclusive fa m"

definition ms_wf :: "MemoryService \<Rightarrow> bool" where
  "ms_wf s \<longleftrightarrow> frames_wf (allocator (memory_manager s)) (hw_mmu s)"

lemma frames_wfD:
  assumes "frames_wf fa m"
  shows "fa_wf fa" "frame_size fa = 4096" "total_frames fa * 4096 < 2 ^ 64" "mmu_wf m" "page_size m = 4096" "exclusive fa m"
  using assms by (simp_all add: frames_wf_def)

lemma exclusiveD:
  assumes "exclusive fa m" "entry_at m p v = Some e"
  shows "\<exists>n < total_frames fa. frame e = of_nat (n * 4096) \<and> owners fa n = Some p"
    "entry_at m q w = Some e' \<Longrightarrow> frame e = frame e' \<Longrightarrow> p = q \<and> v = w"
  using assms unfolding exclusive_def by blast+

lemma frame_no_inj:
  "n * 4096 < 2 ^ 64 \<Longrightarrow> k * 4096 < 2 ^ 64 \<Longrightarrow> (of_nat (n * 4096) :: u64) = of_nat (k * 4096) \<longleftrightarrow> n = k"
proof -
  assume "n * 4096 < 2 ^ 64" "k * 4096 < 2 ^ 64"
  then have "unat (of_nat (n * 4096) :: u64) = n * 4096" "unat (of_nat (k * 4096) :: u64) = k * 4096"
    by (simp_all only: unat_of_nat) simp_all
  then show ?thesis by (metis mult_cancel2 zero_neq_numeral)
qed

lemma frame_no_div: "n * 4096 < 2 ^ 64 \<Longrightarrow> unat ((of_nat (n * 4096) :: u64) div 4096) = n"
proof -
  assume "n * 4096 < 2 ^ 64"
  then have "unat (of_nat (n * 4096) :: u64) = n * 4096" by (simp only: unat_of_nat) simp
  then show ?thesis by (simp add: unat_div)
qed

lemma align_down_frame:
  assumes "page_size m = 4096"
  shows "align_down m (of_nat (n * 4096)) = of_nat (n * 4096)"
proof -
  have ps: "page_size m = 2 ^ 12" using assms by simp
  have "(of_nat (n * 4096) :: u64) = push_bit 12 (of_nat n)" by (simp add: push_bit_eq_mult)
  moreover have "push_bit 12 (w :: u64) AND NOT (mask 12) = push_bit 12 w" for w
    by (rule bit_word_eqI) (auto simp: bit_simps)
  ultimately show ?thesis by (simp only: align_down_mask [OF ps])
qed

lemma page_base_align: "page_size m = 4096 \<Longrightarrow> page_base a = align_down m a"
  by (simp add: page_base_def align_down_def)

lemma entry_at_map_page:
  "map_page m p v pa fl = Inr m' \<Longrightarrow>
   entry_at m' q w = (if q = p \<and> w = align_down m v then Some \<lparr>frame = align_down m pa, flags = fl\<rparr> else entry_at m q w)"
  by (cases "q = p") (auto simp: map_page_def entry_at_def Let_def split: option.splits)

lemma entry_at_unmap_page:
  "unmap_page m p v = Inr m' \<Longrightarrow>
   entry_at m' q w = (if q = p \<and> w = align_down m v then None else entry_at m q w)"
  by (cases "q = p") (auto simp: unmap_page_def entry_at_def split: option.splits)

lemma entry_at_frames: "frames_of m p = {frame e | v e. entry_at m p v = Some e}"
  by (auto simp: frames_of_def entry_at_def ran_def split: option.splits)

lemma exclusive_disjoint: "exclusive fa m \<Longrightarrow> p \<noteq> q \<Longrightarrow> frames_disjoint m p q"
  unfolding frames_disjoint_def entry_at_frames by (auto dest: exclusiveD(2))

lemma allocate_one:
  assumes "fa_wf (allocator pm)" "allocate_frames pm p 1 = (fs, pm')"
  shows "(fs = [] \<and> allocator pm' = allocator pm \<and> free_count (allocator pm) = 0) \<or>
    (\<exists>f. fs = [f] \<and> number f < total_frames (allocator pm) \<and> owners (allocator pm) (number f) = None \<and>
         address f = of_nat (number f * frame_size (allocator pm)) \<and>
         owners (allocator pm') = (owners (allocator pm))(number f \<mapsto> p) \<and> fa_wf (allocator pm') \<and>
         total_frames (allocator pm') = total_frames (allocator pm) \<and> frame_size (allocator pm') = frame_size (allocator pm))"
proof (cases "free_queue (allocator pm)")
  case Nil
  then show ?thesis
    using allocate_frames_short [OF assms(1) _ assms(2)] fa_wfD(4) [OF assms(1)] by simp
next
  case (Cons n q)
  obtain f fa where f: "fa_allocate (allocator pm) p = Some (f, fa)"
    using Cons by (auto simp: fa_allocate_def Let_def)
  then have "fs = [f]" "allocator pm' = fa" using assms(2) by (auto simp: allocate_frames_def)
  with fa_allocate_spec [OF assms(1) f] dom_owners [OF assms(1)] show ?thesis by (auto simp: domIff)
qed

lemma frames_wf_alloc:
  assumes "frames_wf fa m" "owners fa' = (owners fa)(n \<mapsto> p)" "owners fa n = None" "fa_wf fa'"
    and "total_frames fa' = total_frames fa" "frame_size fa' = frame_size fa"
  shows "frames_wf fa' m" "n < total_frames fa \<Longrightarrow> entry_at m q v = Some e \<Longrightarrow> frame e \<noteq> of_nat (n * 4096)"
proof -
  note wf = frames_wfD [OF assms(1)]
  have "\<exists>k < total_frames fa'. frame e = of_nat (k * 4096) \<and> owners fa' k = Some q"
    if e: "entry_at m q v = Some e" for q v e
  proof -
    obtain k where k: "k < total_frames fa" "frame e = of_nat (k * 4096)" "owners fa k = Some q"
      using exclusiveD(1) [OF wf(6) e] by blast
    with assms(2,3,5) show ?thesis by (intro exI [of _ k]) auto
  qed
  then have "exclusive fa' m" using wf(6) unfolding exclusive_def by blast
  then show "frames_wf fa' m" using wf assms(4-6) by (simp add: frames_wf_def)
  show "frame e \<noteq> of_nat (n * 4096)" if n: "n < total_frames fa" and e: "entry_at m q v = Some e"
  proof
    assume eq: "frame e = of_nat (n * 4096)"
    obtain k where k: "k < total_frames fa" "frame e = of_nat (k * 4096)" "owners fa k = Some q"
      using exclusiveD(1) [OF wf(6) e] by blast
    have "n * 4096 < 2 ^ 64" "k * 4096 < 2 ^ 64" using n k(1) wf(3) by auto
    then have "n = k" using frame_no_inj eq k(2) by metis
    with k(3) assms(3) show False by simp
  qed
qed

lemma frames_wf_map:
  assumes "frames_wf fa m" "owners fa n = Some p" "n < total_frames fa"
    and fresh: "\<And>q v e. entry_at m q v = Some e \<Longrightarrow> frame e \<noteq> of_nat (n * 4096)"
    and "map_page m p page (of_nat (n * 4096)) fl = Inr m'"
  shows "frames_wf fa m'"
proof -
  note wf = frames_wfD [OF assms(1)]
  note at = entry_at_map_page [OF assms(5), unfolded align_down_frame [OF wf(5)]]
  have "exclusive fa m'"
    unfolding exclusive_def
  proof (intro conjI allI impI)
    fix q v e assume "entry_at m' q v = Some e"
    then show "\<exists>k < total_frames fa. frame e = of_nat (k * 4096) \<and> owners fa k = Some q"
      using exclusiveD(1) [OF wf(6)] assms(2,3) by (auto simp: at split: if_splits)
  next
    fix q v e q' v' e'
    assume "entry_at m' q v = Some e" "entry_at m' q' v' = Some e'" "frame e = frame e'"
    then show "q = q'" "v = v'"
      using exclusiveD(2) [OF wf(6), of q v e q' v' e'] fresh [of q v e] fresh [of q' v' e']
      by (auto simp: at split: if_splits)
  qed
  then show ?thesis
    using wf map_page_wf [OF wf(4) assms(5)] map_page_frame [OF assms(5)] by (simp add: frames_wf_def)
qed

lemma frames_wf_evict:
  assumes "frames_wf fa m" "entry_at m p v = Some e" "unmap_page m p v = Inr m'"
    and "fa_free fa (unat (frame e div 4096)) = (b, fa')"
  shows "frames_wf fa' m'"
proof -
  note wf = frames_wfD [OF assms(1)]
  obtain n where n: "n < total_frames fa" "frame e = of_nat (n * 4096)" "owners fa n = Some p"
    using exclusiveD(1) [OF wf(6) assms(2)] by blast
  have small: "k * 4096 < 2 ^ 64" if "k < total_frames fa" for k using that wf(3) by simp
  have fr: "fa_free fa n = (b, fa')" using assms(4) n(2) frame_no_div [OF small [OF n(1)]] by simp
  note spec = fa_free_spec [OF wf(1) fr]
  have v: "align_down m v = v"
    using assms(2) mmu_wfD(3) [OF wf(4)] by (auto simp: entry_at_def split: option.splits)
  note at = entry_at_unmap_page [OF assms(3), unfolded v]
  have "exclusive fa' m'"
    unfolding exclusive_def
  proof (intro conjI allI impI)
    fix q w e' assume e': "entry_at m' q w = Some e'"
    then have old: "entry_at m q w = Some e'" "\<not> (q = p \<and> w = v)" by (auto simp: at split: if_splits)
    obtain k where k: "k < total_frames fa" "frame e' = of_nat (k * 4096)" "owners fa k = Some q"
      using exclusiveD(1) [OF wf(6) old(1)] by blast
    have "frame e' \<noteq> frame e" using exclusiveD(2) [OF wf(6) old(1) assms(2)] old(2) by blast
    then have "k \<noteq> n" using k(2) n(2) by auto
    then show "\<exists>k < total_frames fa'. frame e' = of_nat (k * 4096) \<and> owners fa' k = Some q"
      using k spec by auto
  next
    fix q w e1 q' w' e2
    assume "entry_at m' q w = Some e1" "entry_at m' q' w' = Some e2" "frame e1 = frame e2"
    then show "q = q'" "w = w'" using exclusiveD(2) [OF wf(6)] by (auto simp: at split: if_splits)
  qed
  then show ?thesis
    using wf spec unmap_page_wf [OF wf(4) assms(3)] unmap_page_frame [OF assms(3)] by (simp add: frames_wf_def)
qed

section \<open>Demand paging\<close>

lemma map_page_total: "\<exists>m'. map_page m p v pa fl = Inr m'"
  by (simp add: map_page_def Let_def)

lemma map_fault_page_result:
  "\<exists>m'. map_page (hw_mmu s) p page (address f) rw_flags = Inr m' \<and>
        map_fault_page ce env p page f s =
          Finished (Inr ()) (ok_success ce env (PhysicalAddr (address f))) (s\<lparr>hw_mmu := m'\<rparr>)"
  using map_page_total [of "hw_mmu s" p page "address f" rw_flags] by (auto simp: map_fault_page_def)

text \<open>Giving a free frame to the faulting page.\<close>

lemma fault_alloc:
  assumes "ms_wf s" "allocate_frames (memory_manager s) p 1 = (f # fs, pm)" "page_base page = page"
    and "map_fault_page ce env p page f (s\<lparr>memory_manager := pm\<rparr>) = Finished r out s'"
  shows "ms_wf s' \<and> r = Inr () \<and> out = ok_success ce env (PhysicalAddr (address f)) \<and>
         owners (allocator (memory_manager s)) (number f) = None \<and>
         swap_manager s' = swap_manager s \<and> swapped_pages s' = swapped_pages s \<and>
         (\<forall>a access. page_base a = page \<longrightarrow> translate (hw_mmu s') p a access = Inr (address f + (a - page)))"
proof -
  let ?fa = "allocator (memory_manager s)" and ?m = "hw_mmu s"
  note wf = frames_wfD [OF assms(1) [unfolded ms_wf_def]]
  from allocate_one [OF wf(1) assms(2)] have
    f: "number f < total_frames ?fa" "owners ?fa (number f) = None" "address f = of_nat (number f * 4096)"
      "owners (allocator pm) = (owners ?fa)(number f \<mapsto> p)" "fa_wf (allocator pm)"
      "total_frames (allocator pm) = total_frames ?fa" "frame_size (allocator pm) = frame_size ?fa"
    by (auto simp: wf(2))
  note al = frames_wf_alloc [OF assms(1) [unfolded ms_wf_def] f(4) f(2) f(5-7)]
  obtain m' where m': "map_page ?m p page (address f) rw_flags = Inr m'"
    and res: "r = Inr ()" "out = ok_success ce env (PhysicalAddr (address f))" "s' = s\<lparr>memory_manager := pm, hw_mmu := m'\<rparr>"
    using map_fault_page_result [of "s\<lparr>memory_manager := pm\<rparr>" p page f ce env] assms(4) by auto
  have "frames_wf (allocator pm) m'"
    using frames_wf_map [OF al(1), of "number f" p page rw_flags m'] f al(2) m' by auto
  moreover have "translate m' p a access = Inr (address f + (a - page))" if "page_base a = page" for a access
  proof -
    have same: "align_down ?m a = align_down ?m page" "align_down ?m a = page"
      using that assms(3) page_base_align [OF wf(5)] by metis+
    have "pte m' p a = Some \<lparr>frame = address f, flags = rw_flags\<rparr>"
      using pte_map_page [OF m', of p a] same align_down_frame [OF wf(5), of "number f"] f(3) by simp
    then show ?thesis
      using map_page_frame [OF m'] same(2) by (auto simp: translate_Inr access_ok_def rw_flags_def)
  qed
  ultimately show ?thesis using res f by (auto simp: ms_wf_def)
qed

lemma free_frame_allocator: "allocator (snd (free_frame pm p n)) = snd (fa_free (allocator pm) n)"
  by (simp add: free_frame_def Let_def split: prod.split)

lemma find_victim_in: "find_victim_page pages p = Some v \<Longrightarrow> v \<in> set pages"
  by (auto simp: find_victim_page_def find_Some_iff dest: nth_mem split: option.splits list.splits)

lemma all_present_entry:
  "(p, v, pa) \<in> all_present_pages m \<Longrightarrow> \<exists>e. entry_at m p v = Some e \<and> frame e = pa \<and> page_tables m p \<noteq> None"
  by (auto simp: all_present_pages_def entry_at_def)

text \<open>The state after evicting the victim, before the new frame is taken.\<close>

lemma evict_wf:
  assumes "ms_wf s" "(vp, va, vf) \<in> all_present_pages (hw_mmu s)"
    and "hw_mmu s1 = (case unmap_page (hw_mmu s) vp va of Inr m \<Rightarrow> m | Inl _ \<Rightarrow> hw_mmu s)"
    and "memory_manager s1 = snd (free_frame (memory_manager s) vp (unat (vf div 4096)))"
  shows "ms_wf s1"
proof -
  obtain e where e: "entry_at (hw_mmu s) vp va = Some e" "frame e = vf" "page_tables (hw_mmu s) vp \<noteq> None"
    using all_present_entry [OF assms(2)] by blast
  then obtain m' where m': "unmap_page (hw_mmu s) vp va = Inr m'" by (auto simp: unmap_page_def)
  obtain b fa' where fa': "fa_free (allocator (memory_manager s)) (unat (frame e div 4096)) = (b, fa')" by fastforce
  have "frames_wf fa' m'"
    using frames_wf_evict [OF assms(1) [unfolded ms_wf_def] e(1) m' fa'] .
  then show ?thesis using assms(3,4) m' fa' e(2) by (simp add: ms_wf_def free_frame_allocator)
qed

lemma out_of_frames_Finished [simp]:
  "out_of_frames ce env s = Finished r out s' \<longleftrightarrow>
     r = service_err (ResourceExhausted ''frames'' 0 1) \<and> out = ok_error ce env (MsgResourceExhausted ''frames'') \<and> s' = s"
  by (auto simp: out_of_frames_def)

lemma page_base_idem [simp]: "page_base (page_base a) = page_base a"
  by (simp add: page_base_def and.assoc)

lemma alloc_none_wf:
  "ms_wf s \<Longrightarrow> allocate_frames (memory_manager s) p 1 = ([], pm) \<Longrightarrow> ms_wf (s\<lparr>memory_manager := pm\<rparr>)"
  using allocate_one [of "memory_manager s" p "[]" pm] by (auto simp: ms_wf_def frames_wf_def)

lemma fault_swap_out_wf:
  assumes "ms_wf s" "set pages = all_present_pages (hw_mmu s)" "page_base page = page"
    and "fault_swap_out ce env pages p page s = Finished r out s'"
  shows "ms_wf s'"
proof (cases "find_victim_page pages p")
  case None
  then show ?thesis using assms by (simp add: fault_swap_out_def)
next
  case (Some v)
  obtain vp va vf where v: "v = (vp, va, vf)" by (cases v)
  have vic: "(vp, va, vf) \<in> all_present_pages (hw_mmu s)" using find_victim_in [OF Some] assms(2) v by simp
  show ?thesis
  proof (cases "allocate_slot (swap_manager s) vp (va div 4096)")
    case None
    then show ?thesis using assms Some v by (simp add: fault_swap_out_def)
  next
    case slot: (Some ss)
    obtain sl sw where ss: "ss = (sl, sw)" by (cases ss)
    obtain q sw' where q: "swap_out sw (sl_number sl) (page_bytes (hw_mmu s) vp va) = (q, sw')" by fastforce
    show ?thesis
    proof (cases q)
      case (Inl e)
      then show ?thesis using assms Some v slot ss q by (auto simp: fault_swap_out_def ms_wf_def)
    next
      case (Inr u)
      define s1 where "s1 = s\<lparr>swap_manager := sw',
          hw_mmu := (case unmap_page (hw_mmu s) vp va of Inr m \<Rightarrow> m | Inl _ \<Rightarrow> hw_mmu s),
          memory_manager := snd (free_frame (memory_manager s) vp (unat (vf div 4096))),
          swapped_pages := (swapped_pages s)(vp \<mapsto>
            (case swapped_pages s vp of None \<Rightarrow> (\<lambda>_. None) | Some x \<Rightarrow> x)(va \<mapsto> sl_number sl))\<rparr>"
      have wf1: "ms_wf s1" by (rule evict_wf [OF assms(1) vic]) (simp_all add: s1_def)
      obtain fs pm where al: "allocate_frames (memory_manager s1) p 1 = (fs, pm)" by fastforce
      have run: "fault_swap_out ce env pages p page s =
          (case fs of [] \<Rightarrow> out_of_frames ce env (s1\<lparr>memory_manager := pm\<rparr>)
           | f # _ \<Rightarrow> map_fault_page ce env p page f (s1\<lparr>memory_manager := pm\<rparr>))"
        using Some v slot ss q Inr al by (simp add: fault_swap_out_def s1_def Let_def split: list.splits)
      show ?thesis
      proof (cases fs)
        case Nil
        then show ?thesis using run assms(4) alloc_none_wf [OF wf1, of p pm] al by (auto simp: out_of_frames_def)
      next
        case (Cons f fs')
        then have "map_fault_page ce env p page f (s1\<lparr>memory_manager := pm\<rparr>) = Finished r out s'"
          using run assms(4) by simp
        from fault_alloc [OF wf1 al [unfolded Cons] assms(3) this] show ?thesis by blast
      qed
    qed
  qed
qed

section \<open>Properties\<close>

text \<open>
  C7. Demand paging keeps processes isolated. From a state where every mapped frame belongs to the process
  that maps it and no frame is mapped twice, serving a page fault, by a free frame or by evicting a page
  of any process, leads to such a state again; so any two processes have disjoint frames, which is what
  the isolation theorems of the hardware unit and of the processor ask for.
\<close>

theorem page_fault_isolation:
  assumes "ms_wf s" "set pages = all_present_pages (hw_mmu s)"
    and "handle_page_fault_with_response ce env pages p addr s = Finished r out s'"
  shows "ms_wf s' \<and> (\<forall>p q. p \<noteq> q \<longrightarrow> frames_disjoint (hw_mmu s') p q)"
proof -
  let ?page = "page_base addr"
  have "ms_wf s'"
  proof (cases "fault_swap_in ce env p ?page s")
    case (StepDone h)
    then show ?thesis using assms
      by (auto simp: handle_page_fault_with_response_def fault_swap_in_def split: option.splits sum.splits prod.splits list.splits)
  next
    case (StepContinue s1)
    then have s1: "ms_wf s1" "hw_mmu s1 = hw_mmu s"
      using assms(1) alloc_none_wf [OF assms(1)]
      by (auto simp: fault_swap_in_def split: option.splits sum.splits prod.splits list.splits)
    obtain fs pm where al: "allocate_frames (memory_manager s1) p 1 = (fs, pm)" by fastforce
    show ?thesis
    proof (cases fs)
      case Nil
      have "ms_wf (s1\<lparr>memory_manager := pm\<rparr>)" using alloc_none_wf [OF s1(1)] al Nil by blast
      moreover have "fault_swap_out ce env pages p ?page (s1\<lparr>memory_manager := pm\<rparr>) = Finished r out s'"
        using assms(3) StepContinue al Nil by (simp add: handle_page_fault_with_response_def Let_def)
      moreover have "set pages = all_present_pages (hw_mmu (s1\<lparr>memory_manager := pm\<rparr>))" using assms(2) s1(2) by simp
      ultimately show ?thesis using fault_swap_out_wf [OF _ _ page_base_idem] by blast
    next
      case (Cons f fs')
      have "map_fault_page ce env p ?page f (s1\<lparr>memory_manager := pm\<rparr>) = Finished r out s'"
        using assms(3) StepContinue al Cons by (simp add: handle_page_fault_with_response_def Let_def)
      from fault_alloc [OF s1(1) al [unfolded Cons] page_base_idem this] show ?thesis by blast
    qed
  qed
  then show ?thesis using exclusive_disjoint by (auto simp: ms_wf_def frames_wf_def)
qed

definition demo_ms :: MemoryService where
  "demo_ms = the (MemoryService_new \<lparr>mem_data = replicate 8192 0, mem_size = 8192\<rparr>
     \<lparr>page_tables = (\<lambda>_. None), memory = \<lparr>mem_data = replicate 8192 0, mem_size = 8192\<rparr>, page_size = 4096\<rparr> [])"

lemma demo_ms_new:
  "memory_manager demo_ms = the (PhysicalMemoryManager_new 8192 4096)"
  "swap_manager demo_ms = the (SwapManager_new SwapConfig_default (the (VirtualDisk_new 256 [])))"
  "hw_mmu demo_ms = \<lparr>page_tables = (\<lambda>_. None), memory = \<lparr>mem_data = replicate 8192 0, mem_size = 8192\<rparr>, page_size = 4096\<rparr>"
  "swapped_pages demo_ms = (\<lambda>_. None)"
proof -
  obtain d where d: "VirtualDisk_new 256 [] = Some d" by (simp add: VirtualDisk_new_def Let_def)
  obtain pm where pm: "PhysicalMemoryManager_new 8192 4096 = Some pm"
    by (simp add: PhysicalMemoryManager_new_def FrameAllocator_new_def Let_def)
  obtain sw where sw: "SwapManager_new SwapConfig_default d = Some sw"
    by (simp add: SwapManager_new_def SwapConfig_default_def Let_def)
  show "memory_manager demo_ms = the (PhysicalMemoryManager_new 8192 4096)"
    "swap_manager demo_ms = the (SwapManager_new SwapConfig_default (the (VirtualDisk_new 256 [])))"
    "hw_mmu demo_ms = \<lparr>page_tables = (\<lambda>_. None), memory = \<lparr>mem_data = replicate 8192 0, mem_size = 8192\<rparr>, page_size = 4096\<rparr>"
    "swapped_pages demo_ms = (\<lambda>_. None)"
    using sw by (simp_all add: demo_ms_def MemoryService_new_def d pm)
qed

lemma demo_ms_allocator:
  "fa_wf (allocator (memory_manager demo_ms))" "frame_size (allocator (memory_manager demo_ms)) = 4096"
  "total_frames (allocator (memory_manager demo_ms)) = 2" "free_count (allocator (memory_manager demo_ms)) = 2"
  using FrameAllocator_new_wf [of 8192 4096]
  by (auto simp: demo_ms_new(1) PhysicalMemoryManager_new_def FrameAllocator_new_def Let_def)

lemma demo_ms_wf: "ms_wf demo_ms" "page_tables (hw_mmu demo_ms) = (\<lambda>_. None)" "swapped_pages demo_ms = (\<lambda>_. None)"
proof -
  have "is_power_of_two 4096" by (auto simp: is_power_of_two_iff intro: exI [of _ 12])
  then show "ms_wf demo_ms"
    using demo_ms_allocator demo_ms_new
    by (simp add: ms_wf_def frames_wf_def exclusive_def entry_at_def mmu_wf_def mem_wf_def)
qed (use demo_ms_new in simp_all)

lemma demo_ms_disk: "disk_wf (disk (swap_manager demo_ms))" "total_sectors (disk (swap_manager demo_ms)) = 256"
  using demo_swap_disk
  by (simp_all add: demo_ms_new(2) SwapManager_new_def SwapConfig_default_def Let_def demo_swap_def del: upt_rec_numeral)

definition demo_env :: Envelope where
  "demo_env = \<lparr>message = MemoryMsg (PageFaultHandler 7 0x1234 Read), request_id = Some 1, response_channel = Some 9\<rparr>"

definition demo_ce :: ChanEnv where
  "demo_ce = \<lparr>connected = (\<lambda>_. True), send_error_text = []\<rparr>"

theorem page_fault_isolation_witness:
  "\<exists>r out s'. handle_page_fault_with_response demo_ce demo_env [] 7 0x1234 demo_ms = Finished r out s' \<and>
     frames_disjoint (hw_mmu s') 7 8"
proof -
  let ?s = "demo_ms"
  have pages: "set [] = all_present_pages (hw_mmu ?s)" by (simp add: all_present_pages_def demo_ms_wf(2))
  have "handle_page_fault_with_response demo_ce demo_env [] 7 0x1234 ?s \<noteq> SelfDeadlock"
    using demo_ms_wf(3)
    by (auto simp: handle_page_fault_with_response_def fault_swap_in_def fault_swap_out_def find_victim_page_def
        out_of_frames_def map_fault_page_def map_page_def Let_def split: prod.splits list.splits)
  then obtain r out s' where h: "handle_page_fault_with_response demo_ce demo_env [] 7 0x1234 ?s = Finished r out s'"
    by (cases "handle_page_fault_with_response demo_ce demo_env [] 7 0x1234 ?s") auto
  from page_fault_isolation [OF demo_ms_wf(1) pages h] have "frames_disjoint (hw_mmu s') 7 8" by simp
  with h show ?thesis by blast
qed

text \<open>
  A fault on a page that was swapped out is never served while a frame is free: the handler reads
  the page back, takes a frame, and then locks the table of swapped pages that it still holds, so
  it does not return. (Only when no frame is free, or the slot cannot be read, does the handler go on.)
\<close>

theorem page_fault_swapped_blocks:
  assumes "fa_wf (allocator (memory_manager s))" "0 < free_count (allocator (memory_manager s))"
    and "swapped_pages s p = Some tab" "tab (page_base addr) = Some slot" "swap_in (swap_manager s) slot = Inr data"
  shows "handle_page_fault_with_response ce env pages p addr s = SelfDeadlock"
proof -
  obtain fs pm where al: "allocate_frames (memory_manager s) p 1 = (fs, pm)" by fastforce
  with allocate_one [OF assms(1) al] assms(2) obtain f where "fs = [f]" by auto
  with al assms(3-5) show ?thesis by (simp add: handle_page_fault_with_response_def fault_swap_in_def)
qed

theorem page_fault_swapped_blocks_witness:
  "handle_page_fault_with_response demo_ce demo_env [] 7 0x1234
     (demo_ms\<lparr>swapped_pages := [7 \<mapsto> [0x1000 \<mapsto> 1]]\<rparr>) = SelfDeadlock"
proof -
  let ?d = "disk (swap_manager demo_ms)"
  have "is_ok (read_sector ?d x)" if "unat x < 256" for x using that vdisk.rd_ok demo_ms_disk by simp
  then have rd: "\<exists>bs. read_sector ?d x = Inr bs" if "unat x < 256" for x
    using that by (cases "read_sector ?d x") fastforce+
  have "\<exists>bss. rd_run read_sector ?d a k = Inr bss" if "unat a + k \<le> 256" for a k
    using that
  proof (induction k arbitrary: a)
    case (Suc k)
    then have "unat (a + 1) = unat a + 1" by (intro unat_plus_one) simp
    moreover obtain bs where "read_sector ?d a = Inr bs" using rd [of a] Suc.prems by auto
    ultimately show ?case using Suc.IH [of "a + 1"] Suc.prems by auto
  qed simp
  from this [of 8 8] obtain data where "swap_in (swap_manager demo_ms) 1 = Inr data" by (auto simp: swap_in_def)
  moreover have "page_base 0x1234 = 0x1000" by (simp add: page_base_def)
  ultimately show ?thesis
    using page_fault_swapped_blocks [of "demo_ms\<lparr>swapped_pages := [7 \<mapsto> [0x1000 \<mapsto> 1]]\<rparr>" 7 "[0x1000 \<mapsto> 1]" "0x1234" 1]
    by (simp add: demo_ms_allocator)
qed

lemma evicted_frame_free:
  assumes "ms_wf s" "(vp, va, vf) \<in> all_present_pages (hw_mmu s)"
  shows "0 < free_count (allocator (snd (free_frame (memory_manager s) vp (unat (vf div 4096)))))"
proof -
  let ?fa = "allocator (memory_manager s)"
  note wf = frames_wfD [OF assms(1) [unfolded ms_wf_def]]
  obtain e where e: "entry_at (hw_mmu s) vp va = Some e" "frame e = vf" using all_present_entry [OF assms(2)] by blast
  obtain n where n: "n < total_frames ?fa" "vf = of_nat (n * 4096)" "owners ?fa n = Some vp"
    using exclusiveD(1) [OF wf(6) e(1)] e(2) by blast
  have no: "unat (vf div 4096) = n" using n(1,2) wf(3) frame_no_div [of n] by simp
  obtain b fa' where fa': "fa_free ?fa n = (b, fa')" by fastforce
  have "b" using fa_free_spec [OF wf(1) fa'] dom_owners [OF wf(1)] n(3) by auto
  then show ?thesis using fa' no by (auto simp: free_frame_allocator fa_free_def split: if_splits)
qed

lemma page_image_bytes: "page_image (page_bytes m p va) = page_bytes m p va"
  by (simp add: page_image_def page_bytes_def)

text \<open>
  C8. Eviction loses no data. When no frame is free and the faulting page is not swapped out, the handler
  evicts the chosen victim into a swap slot that fits the disk: the slot then holds exactly the bytes the
  victim's process could read, the slot is recorded for that page, the faulting page is mapped to a
  frame, and its requester gets the frame's address.
\<close>

theorem page_fault_saves_victim:
  assumes "ms_wf s" "set pages = all_present_pages (hw_mmu s)" "free_count (allocator (memory_manager s)) = 0"
    and "(case swapped_pages s p of None \<Rightarrow> None | Some tab \<Rightarrow> tab (page_base addr)) = None"
    and "find_victim_page pages p = Some (vp, va, vf)"
    and "allocate_slot (swap_manager s) vp (va div 4096) = Some (sl, sw)"
    and "disk_wf (disk sw)" "sl_number sl < 2 ^ 29" "sl_number sl * 8 + 8 \<le> unat (total_sectors (disk sw))"
  shows "\<exists>f s'. handle_page_fault_with_response ce env pages p addr s =
             Finished (Inr ()) (ok_success ce env (PhysicalAddr f)) s' \<and>
           swap_in (swap_manager s') (sl_number sl) = Inr (page_bytes (hw_mmu s) vp va) \<and>
           (\<exists>tab. swapped_pages s' vp = Some tab \<and> tab va = Some (sl_number sl)) \<and>
           translate (hw_mmu s') p addr Write = Inr (f + (addr - page_base addr)) \<and> ms_wf s'"
proof -
  let ?page = "page_base addr"
  note wf = frames_wfD [OF assms(1) [unfolded ms_wf_def]]
  obtain fs pm where al: "allocate_frames (memory_manager s) p 1 = (fs, pm)" by fastforce
  have none: "fs = []" "allocator pm = allocator (memory_manager s)"
  proof -
    have "length (free_queue (allocator (memory_manager s))) < 1" using fa_wfD(4) [OF wf(1)] assms(3) by simp
    from allocate_frames_short [OF wf(1) this al] show "fs = []" "allocator pm = allocator (memory_manager s)" by auto
  qed
  define s0 where "s0 = s\<lparr>memory_manager := pm\<rparr>"
  have s0: "ms_wf s0" "hw_mmu s0 = hw_mmu s" "swap_manager s0 = swap_manager s"
    using assms(1) none(2) by (simp_all add: s0_def ms_wf_def)
  have vic: "(vp, va, vf) \<in> all_present_pages (hw_mmu s0)" using find_victim_in [OF assms(5)] assms(2) s0(2) by simp
  obtain q sw' where out: "swap_out sw (sl_number sl) (page_bytes (hw_mmu s) vp va) = (q, sw')" by fastforce
  note rt = swap_round_trip [OF assms(7,8) out]
  have q: "q = Inr ()" using rt assms(9) by (cases q) auto
  have saved: "swap_in sw' (sl_number sl) = Inr (page_bytes (hw_mmu s) vp va)"
    using rt assms(9) by (simp add: page_image_bytes)
  define s1 where "s1 = s0\<lparr>swap_manager := sw',
      hw_mmu := (case unmap_page (hw_mmu s0) vp va of Inr m \<Rightarrow> m | Inl _ \<Rightarrow> hw_mmu s0),
      memory_manager := snd (free_frame (memory_manager s0) vp (unat (vf div 4096))),
      swapped_pages := (swapped_pages s0)(vp \<mapsto>
        (case swapped_pages s0 vp of None \<Rightarrow> (\<lambda>_. None) | Some x \<Rightarrow> x)(va \<mapsto> sl_number sl))\<rparr>"
  have wf1: "ms_wf s1" by (rule evict_wf [OF s0(1) vic]) (simp_all add: s1_def)
  obtain fs1 pm1 where al1: "allocate_frames (memory_manager s1) p 1 = (fs1, pm1)" by fastforce
  have "fa_wf (allocator (memory_manager s1))" "0 < free_count (allocator (memory_manager s1))"
    using wf1 evicted_frame_free [OF s0(1) vic] by (simp_all add: ms_wf_def frames_wf_def s1_def)
  with allocate_one [OF _ al1] obtain f where f: "fs1 = [f]" by auto
  obtain s' where s': "map_fault_page ce env p ?page f (s1\<lparr>memory_manager := pm1\<rparr>) =
      Finished (Inr ()) (ok_success ce env (PhysicalAddr (address f))) s'"
    using map_fault_page_result [of "s1\<lparr>memory_manager := pm1\<rparr>" p ?page f ce env] by auto
  have "fault_swap_in ce env p ?page s = StepContinue s" using assms(4) by (simp add: fault_swap_in_def)
  moreover have "fault_swap_out ce env pages p ?page s0 = map_fault_page ce env p ?page f (s1\<lparr>memory_manager := pm1\<rparr>)"
    using assms(5,6) out q al1 f s0(2,3) by (simp add: fault_swap_out_def s1_def Let_def)
  ultimately have run: "handle_page_fault_with_response ce env pages p addr s =
      Finished (Inr ()) (ok_success ce env (PhysicalAddr (address f))) s'"
    using al none(1) s' by (simp add: handle_page_fault_with_response_def s0_def Let_def)
  note done' = fault_alloc [OF wf1 al1 [unfolded f] page_base_idem s']
  show ?thesis
    using run done' saved by (intro exI [of _ "address f"] exI [of _ s']) (simp add: s1_def)
qed

text \<open>One frame, owned by process 7 and mapped at its page 1.\<close>

definition demo_full :: MemoryService where
  "demo_full = demo_ms\<lparr>memory_manager :=
       \<lparr>allocator = \<lparr>frames = [\<lparr>number = 0, address = 0, fr_size = 4096, allocated = True, owner = Some 7\<rparr>],
                      free_queue = [], total_frames = 1, frame_size = 4096, free_count = 0, allocated_count = 1\<rparr>,
        process_frames = [7 \<mapsto> [0]]\<rparr>,
     swap_manager := demo_swap,
     hw_mmu := (hw_mmu demo_ms)\<lparr>page_tables := [7 \<mapsto> [0x1000 \<mapsto> \<lparr>frame = 0, flags = rw_flags\<rparr>]]\<rparr>\<rparr>"

lemma demo_full_entry: "entry_at (hw_mmu demo_full) p va = Some e \<Longrightarrow> p = 7 \<and> va = 0x1000 \<and> frame e = 0"
  by (auto simp: demo_full_def entry_at_def split: if_splits)

lemma demo_full_wf: "ms_wf demo_full"
proof -
  have "is_power_of_two 4096" by (auto simp: is_power_of_two_iff intro: exI [of _ 12])
  moreover have "fa_wf (allocator (memory_manager demo_full))"
    by (auto simp: demo_full_def fa_wf_def fa_used_def frame_ok_def)
  ultimately show ?thesis
    by (auto simp: ms_wf_def frames_wf_def exclusive_def mmu_wf_def mem_wf_def dest!: demo_full_entry)
       (auto simp: demo_full_def demo_ms_new owners_def align_down_def split: if_splits)
qed

theorem page_fault_saves_victim_witness:
  "\<exists>f s'. handle_page_fault_with_response demo_ce demo_env [(7, 0x1000, 0)] 8 0x2000 demo_full =
      Finished (Inr ()) (ok_success demo_ce demo_env (PhysicalAddr f)) s' \<and> translate (hw_mmu s') 8 0x2000 Write = Inr f"
proof -
  have pages: "set [(7, 0x1000, 0)] = all_present_pages (hw_mmu demo_full)"
    by (auto simp: all_present_pages_def demo_full_def rw_flags_def split: if_splits)
  obtain sl sw where sl: "allocate_slot (swap_manager demo_full) 7 (0x1000 div 4096) = Some (sl, sw)"
    "sl_number sl = 0" "disk sw = disk demo_swap"
    by (simp add: allocate_slot_def demo_full_def demo_swap_def Let_def slot_occupy_def SwapSlot_new_def
        SwapManager_new_def SwapConfig_default_def upt_rec [of 0 2])
  have vic: "find_victim_page [(7, 0x1000, 0)] 8 = Some (7, 0x1000, 0)" by (simp add: find_victim_page_def)
  have "page_base 0x2000 = 0x2000" by (simp add: page_base_def)
  then show ?thesis
    using page_fault_saves_victim [OF demo_full_wf pages _ _ vic sl(1), of "0x2000" demo_ce demo_env] sl(2,3) demo_swap_disk
    by (auto simp: demo_full_def demo_ms_new(4))
qed

text \<open>
  What a handler owes a requester that can be reached: responses to it alone, and at least one unless
  the handler reports an error (which the dispatch answers).
\<close>

definition answers :: "ChanEnv \<Rightarrow> Envelope \<Rightarrow> HandlerResult \<Rightarrow> bool" where
  "answers ce env h =
     (case h of
        SelfDeadlock \<Rightarrow> True
      | Finished r out _ \<Rightarrow>
          (is_ok r \<longrightarrow> (\<forall>c i. asks ce env c i \<longrightarrow> out \<noteq> [])) \<and>
          list_all (\<lambda>(c, resp). asks ce env c (response_request_id resp)) out)"

lemma answers_simps:
  "answers ce env SelfDeadlock"
  "answers ce env (Finished r out s) \<longleftrightarrow>
     (is_ok r \<longrightarrow> (\<forall>c i. asks ce env c i \<longrightarrow> out \<noteq> [])) \<and>
     list_all (\<lambda>(c, resp). asks ce env c (response_request_id resp)) out"
  by (simp_all add: answers_def)

lemma page_fault_answers: "answers ce env (handle_page_fault_with_response ce env pages p addr s)"
proof -
  have m: "answers ce env (map_fault_page ce env p page f s)" for page f s
    by (auto simp: map_fault_page_def answers_simps service_err_def ok_asks split: sum.split)
  have o: "answers ce env (out_of_frames ce env s)" for s
    by (simp add: out_of_frames_def answers_simps service_err_def ok_asks del: out_of_frames_Finished)
  have "answers ce env (fault_swap_out ce env pages p page s)" for page s
    by (auto simp: fault_swap_out_def m o Let_def split: option.split prod.split sum.split list.split)
  moreover have "answers ce env h" if "fault_swap_in ce env p page s = StepDone h" for page s h
    using that by (auto simp: fault_swap_in_def answers_simps ok_asks split: option.splits prod.splits sum.splits list.splits)
  ultimately show ?thesis
    by (auto simp: handle_page_fault_with_response_def m Let_def split: SwapInStep.split prod.split list.split)
qed

lemma request_answers: "answers ce env (handle_memory_request_with_response ce env pages req s)"
proof (cases req)
  case (PageFaultHandler p addr access)
  then show ?thesis by (simp add: handle_memory_request_with_response_def page_fault_answers)
qed (auto simp: handle_memory_request_with_response_def answers_simps service_err_def ok_asks map_err_def
      handle_alloc_frame_with_response_def
      handle_free_frame_with_response_def handle_map_page_with_response_def handle_unmap_page_with_response_def
      handle_swap_out_with_response_def handle_swap_in_with_response_def Let_def
      dest: respond_pair_asks [OF disjI1] respond_pair_asks [OF disjI2]
      split: prod.split sum.split option.split)

lemma envelope_answers:
  assumes "handle_envelope ce pages env s = Finished r out s'"
  shows "list_all (\<lambda>(c, resp). asks ce env c (response_request_id resp) \<and> (\<exists>req. message env = MemoryMsg req)) out"
    "message env = MemoryMsg req \<Longrightarrow> asks ce env c i \<Longrightarrow> out \<noteq> []"
proof -
  have "list_all (\<lambda>(c, resp). asks ce env c (response_request_id resp) \<and> (\<exists>req. message env = MemoryMsg req)) out \<and>
      (message env = MemoryMsg req \<longrightarrow> asks ce env c i \<longrightarrow> out \<noteq> [])"
  proof (cases "message env")
    case (MemoryMsg req')
    show ?thesis
    proof (cases "expects_response env")
      case True
      then show ?thesis
        using request_answers [of ce env pages req' s] assms MemoryMsg
        by (auto simp: handle_envelope_def answers_simps ok_asks split: HandlerResult.splits sum.splits)
    next
      case False
      then show ?thesis
        using assms MemoryMsg
        by (auto simp: handle_envelope_def expects_response_def asks_def split: prod.splits sum.splits)
    qed
  qed (use assms in \<open>auto simp: handle_envelope_def\<close>)
  then show "list_all (\<lambda>(c, resp). asks ce env c (response_request_id resp) \<and> (\<exists>req. message env = MemoryMsg req)) out"
    "message env = MemoryMsg req \<Longrightarrow> asks ce env c i \<Longrightarrow> out \<noteq> []" by blast+
qed

definition ms_handle ::
  "ChanEnv \<Rightarrow> Envelope \<times> (pid \<times> virt_addr \<times> phys_addr) list \<Rightarrow> MemoryService \<Rightarrow> (responses \<times> MemoryService) option" where
  "ms_handle ce e s =
     (case handle_envelope ce (snd e) (fst e) s of SelfDeadlock \<Rightarrow> None | Finished _ out s' \<Rightarrow> Some (out, s'))"

definition is_memory :: "KernelMsg \<Rightarrow> bool" where
  "is_memory m = (case m of MemoryMsg _ \<Rightarrow> True | _ \<Rightarrow> False)"

lemma is_memory_iff: "is_memory m \<longleftrightarrow> (\<exists>req. m = MemoryMsg req)"
  by (cases m) (simp_all add: is_memory_def)

interpretation memory_loop: answering_service ce "ms_handle ce" fst is_memory
proof (standard, goal_cases)
  case (1 e s out s' c resp)
  then obtain r where "handle_envelope ce (snd e) (fst e) s = Finished r out s'"
    by (auto simp: ms_handle_def split: HandlerResult.splits)
  from envelope_answers(1) [OF this] 1(2) show ?case by (auto simp: list_all_iff is_memory_iff)
next
  case (2 e s out s' c i)
  then obtain r req where "handle_envelope ce (snd e) (fst e) s = Finished r out s'" "message (fst e) = MemoryMsg req"
    by (auto simp: ms_handle_def is_memory_iff split: HandlerResult.splits)
  from envelope_answers(2) [OF this] 2(3) show ?case by blast
qed

lemma ms_run_serve: "ms_run ce evs s = Finished r out s' \<Longrightarrow> serve (ms_handle ce) evs s = Some (out, s')"
proof (induction ce evs s arbitrary: r out s' rule: ms_run.induct)
  case (2 ce env pages evs s)
  then show ?case by (force simp: ms_handle_def split: HandlerResult.splits)
qed simp

text \<open>
  C17. The memory service answers its requesters and nobody else. In every run of the service loop that
  ends, each envelope with a memory request, an id and a connected response channel has at least one response
  with its id on its channel, errors included; and each response sent has the id and the channel of such
  an envelope. (A request that fails is answered twice, by its handler and by the dispatch.)
\<close>

theorem memory_service_answers:
  assumes "ms_run ce evs s = Finished r out s'"
  shows "(\<forall>env pages req c i. (env, pages) \<in> set evs \<longrightarrow> message env = MemoryMsg req \<longrightarrow>
            request_id env = Some i \<longrightarrow> response_channel env = Some c \<longrightarrow> connected ce c \<longrightarrow>
            (\<exists>resp. (c, resp) \<in> set out \<and> response_request_id resp = i)) \<and>
         (\<forall>c resp. (c, resp) \<in> set out \<longrightarrow>
            (\<exists>env pages req. (env, pages) \<in> set evs \<and> message env = MemoryMsg req \<and>
               request_id env = Some (response_request_id resp) \<and> response_channel env = Some c \<and> connected ce c))"
proof (intro conjI allI impI)
  note run = ms_run_serve [OF assms]
  fix env pages req c i
  assume "(env, pages) \<in> set evs" "message env = MemoryMsg req" "request_id env = Some i" "response_channel env = Some c" "connected ce c"
  then show "\<exists>resp. (c, resp) \<in> set out \<and> response_request_id resp = i"
    by (intro memory_loop.serve_answers [OF run, where e = "(env, pages)"]) (simp_all add: is_memory_iff asks_def)
next
  note run = ms_run_serve [OF assms]
  fix c resp
  assume "(c, resp) \<in> set out"
  from memory_loop.serve_addressed [OF run this]
  obtain env pages where "(env, pages) \<in> set evs" "is_memory (message env)" "asks ce env c (response_request_id resp)"
    by auto
  then show "\<exists>env pages req. (env, pages) \<in> set evs \<and> message env = MemoryMsg req \<and>
      request_id env = Some (response_request_id resp) \<and> response_channel env = Some c \<and> connected ce c"
    by (auto simp: is_memory_iff asks_def)
qed

theorem memory_service_answers_witness:
  "\<exists>r out s' resp. ms_run demo_ce [(demo_env\<lparr>message := MemoryMsg (UnmapPage 7 0)\<rparr>, [])] demo_ms = Finished r out s' \<and>
     (9, resp) \<in> set out \<and> response_request_id resp = 1"
proof -
  let ?e = "demo_env\<lparr>message := MemoryMsg (UnmapPage 7 0)\<rparr>"
  obtain out s' where run: "ms_run demo_ce [(?e, [])] demo_ms = Finished (Inr ()) out s'"
    by (simp add: handle_envelope_def handle_memory_request_with_response_def handle_unmap_page_with_response_def
        unmap_page_def demo_ms_wf(2) demo_env_def expects_response_def service_err_def)
  from memory_service_answers [OF run] have "\<exists>resp. (9, resp) \<in> set out \<and> response_request_id resp = 1"
    by (simp add: demo_env_def demo_ce_def)
  with run show ?thesis by blast
qed

end
