(* ===== verification/Process_Exec.thy ===== *)
theory Process_Exec
  imports Process_Invariant Memory_Service
begin

text \<open>
  The process service on top of the memory service: creating a process asks the memory service for a frame and a
  mapping and writes the program through the shared MMU. The locale says what loading a program relies on; the memory
  service of this system is its interpretation.
\<close>

section \<open>Writing a page\<close>

lemma align_down_low:
  assumes "page_size m = 4096" "k < 4096"
  shows "align_down m (of_nat k) = 0"
proof -
  have "unat (of_nat k AND NOT (mask 12) :: u64) = unat (of_nat k :: u64) div 2 ^ 12 * 2 ^ 12" by (rule and_not_mask_div)
  also have "\<dots> = 0" using assms(2) by (simp add: unat_of_nat)
  finally have "(of_nat k AND NOT (mask 12) :: u64) = 0" by (simp add: unat_eq_0)
  moreover have "page_size m = 2 ^ 12" using assms(1) by simp
  ultimately show ?thesis by (simp only: align_down_mask)
qed

text \<open>The first page of a process lies in the frame at \<open>a\<close>.\<close>

definition first_page :: "MMU \<Rightarrow> pid \<Rightarrow> phys_addr \<Rightarrow> bool" where
  "first_page m p a \<longleftrightarrow> mmu_wf m \<and> page_size m = 4096 \<and> pte m p 0 = Some \<lparr>frame = a, flags = present_writable\<rparr> \<and>
     unat a + 4096 \<le> mem_size (memory m)"

lemma first_page_translate:
  assumes "first_page m p a" "k < 4096"
  shows "translate m p (of_nat k) access = Inr (a + of_nat k)" "unat (a + of_nat k) = unat a + k" "unat a + k < mem_size (memory m)"
proof -
  have fp: "mmu_wf m" "page_size m = 4096" "pte m p 0 = Some \<lparr>frame = a, flags = present_writable\<rparr>"
    "unat a + 4096 \<le> mem_size (memory m)"
    using assms(1) by (simp_all add: first_page_def)
  have al: "align_down m (of_nat k) = 0" "align_down m 0 = 0"
    using align_down_low [OF fp(2) assms(2)] align_down_low [OF fp(2), of 0] by simp_all
  then have "pte m p (of_nat k) = pte m p 0" by (cases "page_tables m p") (simp_all add: pte_def)
  then show "translate m p (of_nat k) access = Inr (a + of_nat k)"
    using fp(3) al by (auto simp: translate_Inr access_ok_def present_writable_def)
  have "mem_size (memory m) < 2 ^ 64" using mmu_wfD(1) [OF fp(1)] by (simp add: mem_wf_def)
  then show "unat (a + of_nat k) = unat a + k" "unat a + k < mem_size (memory m)"
    using fp(4) assms(2) by (simp_all add: unat_word_ariths unat_of_nat)
qed

lemma first_page_read:
  assumes "first_page m p a" "k < 4096"
  shows "mmu_read_u8 m p (of_nat k) = Inr (mem_data (memory m) ! (unat a + k))"
proof -
  note t = first_page_translate [OF assms]
  have "mem_wf (memory m)" using assms(1) mmu_wfD(1) by (auto simp: first_page_def)
  then show ?thesis using t(3) by (simp add: mmu_read_u8_def t(1,2) mem_read_u8_def check_bounds_cases)
qed

lemma first_page_write:
  assumes "first_page m p a" "k < 4096"
  shows "write_or_skip p (of_nat k) b m = m\<lparr>memory := (memory m)\<lparr>mem_data := (mem_data (memory m))[unat a + k := b]\<rparr>\<rparr>"
    "first_page (write_or_skip p (of_nat k) b m) p a"
proof -
  note t = first_page_translate [OF assms]
  have wf: "mem_wf (memory m)" using assms(1) mmu_wfD(1) by (auto simp: first_page_def)
  then have w: "mmu_write_u8 m p (of_nat k) b = Inr (m\<lparr>memory := (memory m)\<lparr>mem_data := (mem_data (memory m))[unat a + k := b]\<rparr>\<rparr>)"
    using t(3) by (simp add: mmu_write_u8_def t(1,2) mem_write_u8_def check_bounds_cases)
  then show eq: "write_or_skip p (of_nat k) b m = m\<lparr>memory := (memory m)\<lparr>mem_data := (mem_data (memory m))[unat a + k := b]\<rparr>\<rparr>"
    by (simp add: write_or_skip_def)
  have "mmu_wf (write_or_skip p (of_nat k) b m)"
    using mmu_write_u8_wf [OF _ w] assms(1) by (simp add: eq first_page_def)
  then show "first_page (write_or_skip p (of_nat k) b m) p a"
    using assms(1) by (cases "page_tables m p") (simp_all add: first_page_def eq pte_def)
qed

lemma write_slice_page:
  "first_page m p a \<Longrightarrow> k + length bs \<le> 4096 \<Longrightarrow>
   first_page (write_slice_virt p (of_nat k) bs m) p a \<and>
   (\<forall>j < 4096. mem_data (memory (write_slice_virt p (of_nat k) bs m)) ! (unat a + j) =
      (if k \<le> j \<and> j < k + length bs then bs ! (j - k) else mem_data (memory m) ! (unat a + j)))"
proof (induction bs arbitrary: k m)
  case (Cons b bs)
  have k: "k < 4096" "Suc k + length bs \<le> 4096" using Cons.prems(2) by simp_all
  let ?m1 = "write_or_skip p (of_nat k) b m"
  note w = first_page_write [OF Cons.prems(1) k(1), of b]
  have len: "unat a + j < length (mem_data (memory m))" if "j < 4096" for j
    using Cons.prems(1) that mmu_wfD(1) by (auto simp: first_page_def mem_wf_def)
  have step: "write_slice_virt p (of_nat k) (b # bs) m = write_slice_virt p (of_nat (Suc k)) bs ?m1" by (simp add: add.commute)
  have d1: "mem_data (memory ?m1) ! (unat a + j) = (if j = k then b else mem_data (memory m) ! (unat a + j))" if "j < 4096" for j
    using len [OF that] by (simp add: w(1) nth_list_update)
  note IH = Cons.IH [OF w(2) k(2)]
  have "mem_data (memory (write_slice_virt p (of_nat (Suc k)) bs ?m1)) ! (unat a + j) =
      (if k \<le> j \<and> j < k + length (b # bs) then (b # bs) ! (j - k) else mem_data (memory m) ! (unat a + j))" if "j < 4096" for j
    using IH that d1 [OF that] by (auto simp: nth_Cons' Suc_le_eq)
  then show ?case unfolding step using IH by blast
qed auto

text \<open>What other processes see of it: nothing.\<close>

lemma write_or_skip_isolated:
  assumes "mmu_wf m" "frames_disjoint m p q"
  shows "mmu_read_u8 (write_or_skip p v b m) q w = mmu_read_u8 m q w" "mmu_wf (write_or_skip p v b m)"
    "frames_disjoint (write_or_skip p v b m) p q"
proof -
  have "frames_disjoint m' p q" if "mmu_write_u8 m p v b = Inr m'" for m'
    using assms(2) mmu_write_u8_frame [OF that] by (simp add: frames_disjoint_def frames_of_def)
  then show "mmu_read_u8 (write_or_skip p v b m) q w = mmu_read_u8 m q w" "mmu_wf (write_or_skip p v b m)"
    "frames_disjoint (write_or_skip p v b m) p q"
    using assms by (auto simp: write_or_skip_def mmu_write_u8_isolated mmu_write_u8_wf split: sum.split)
qed

lemma write_slice_isolated:
  "mmu_wf m \<Longrightarrow> frames_disjoint m p q \<Longrightarrow> mmu_read_u8 (write_slice_virt p v bs m) q w = mmu_read_u8 m q w"
  by (induction p v bs m rule: write_slice_virt.induct) (simp_all add: write_or_skip_isolated)

section \<open>What loading a program relies on\<close>

text \<open>
  The provider promises: while it is usable, a request for one frame is answered with the address of a frame of
  the RAM that no process has mapped; a request to map it is carried out in the MMU.
\<close>

locale memory_peer =
  fixes P :: "'w Peers"
    and usable :: "MMU \<Rightarrow> 'w \<Rightarrow> bool"
    and given :: "phys_addr \<Rightarrow> pid \<Rightarrow> MMU \<Rightarrow> 'w \<Rightarrow> bool"
  assumes alloc: "usable m w \<Longrightarrow> \<exists>resp a w'. ask P (MemoryMsg (AllocFrame 1 p)) m w = (Reply resp, m, w') \<and>
      response_data resp = Some (PhysicalAddr a) \<and> given a p m w'"
    and given_frame: "given a p m w \<Longrightarrow> mmu_wf m \<and> page_size m = 4096 \<and> align_down m a = a \<and>
      unat a + 4096 \<le> mem_size (memory m) \<and> (\<forall>q. a \<notin> frames_of m q)"
    and map_given: "given a p m w \<Longrightarrow> \<exists>r m' w'. ask P (MemoryMsg (MapPage p va a prot)) m w = (r, m', w') \<and>
      map_page m p va a \<lparr>present = True, page_writable = writable prot, user_accessible = True\<rparr> = Inr m'"
begin

lemma ask_alloc:
  assumes "usable (ps_mmu s) (world s)"
  obtains a w where "alloc_frames P 1 p s = (Inr [a], s\<lparr>world := w\<rparr>)" "given a p (ps_mmu s) w"
proof -
  obtain resp a w where r: "ask P (MemoryMsg (AllocFrame 1 p)) (ps_mmu s) (world s) = (Reply resp, ps_mmu s, w)"
    "response_data resp = Some (PhysicalAddr a)" "given a p (ps_mmu s) w"
    using alloc [OF assms] by blast
  then have "alloc_frames P 1 p s = (Inr [a], s\<lparr>world := w\<rparr>)"
    by (simp add: alloc_frames_def ps_ask_def)
  then show thesis using that r(3) by blast
qed

lemma ask_map:
  assumes "given a p (ps_mmu s) (world s)" "page_tables (ps_mmu s) p = None"
  obtains m w where "map_frames P p 0 [a] s = s\<lparr>ps_mmu := m, world := w\<rparr>" "first_page m p a"
    "\<And>q v. q \<noteq> p \<Longrightarrow> mmu_read_u8 m q v = mmu_read_u8 (ps_mmu s) q v" "\<And>q. q \<noteq> p \<Longrightarrow> frames_disjoint m p q"
proof -
  note g = given_frame [OF assms(1)]
  obtain r m w where r: "ask P (MemoryMsg (MapPage p 0 a \<lparr>readable = True, writable = True, executable = True\<rparr>)) (ps_mmu s) (world s) = (r, m, w)"
    "map_page (ps_mmu s) p 0 a \<lparr>present = True, page_writable = True, user_accessible = True\<rparr> = Inr m"
    using map_given [OF assms(1)] by (metis MemProt.select_convs(2))
  note fr = map_page_frame [OF r(2)]
  have al: "align_down (ps_mmu s) 0 = 0" using g align_down_low [of "ps_mmu s" 0] by simp
  have wf: "mmu_wf m" using map_page_wf [OF _ r(2)] g by blast
  have "pte m p 0 = Some \<lparr>frame = a, flags = present_writable\<rparr>"
    using pte_map_page [OF r(2), of p 0] g by (simp add: present_writable_def)
  then have fp: "first_page m p a" using wf fr g by (simp add: first_page_def)
  have m: "m = (ps_mmu s)\<lparr>page_tables := (page_tables (ps_mmu s))(p \<mapsto> [0 \<mapsto> \<lparr>frame = a, flags = present_writable\<rparr>])\<rparr>"
    using r(2) assms(2) al g by (auto simp: map_page_def Let_def present_writable_def)
  have "frames_disjoint m p q" if "q \<noteq> p" for q
    using g that by (auto simp: m frames_disjoint_def frames_of_def ran_def split: if_splits option.splits)
  moreover have "mmu_read_u8 m q v = mmu_read_u8 (ps_mmu s) q v" if "q \<noteq> p" for q v
    using that translate_page_tables_update [of m "ps_mmu s" q] by (simp add: mmu_read_u8_def m)
  moreover have "map_frames P p 0 [a] s = s\<lparr>ps_mmu := m, world := w\<rparr>"
    using r(1) by (simp add: ps_ask_ignore_def ps_ask_def)
  ultimately show thesis using that fp by blast
qed

lemma exec_loads:
  assumes "process_table s p = Some pcb" "cpus s p = Some c" "page_tables (ps_mmu s) p = None"
    and "program_code P exe [] s = Some code" "0 < length code" "length code \<le> 4096" "usable (ps_mmu s) (world s)"
  obtains s' where "exec_impl P False p exe [] s = Some (Inr (), s')"
    "\<And>j. j < length code \<Longrightarrow> mmu_read_u8 (ps_mmu s') p (of_nat j) = Inr (code ! j)"
    "\<And>q v. q \<noteq> p \<Longrightarrow> mmu_read_u8 (ps_mmu s') q v = mmu_read_u8 (ps_mmu s) q v"
    "mmu_wf (ps_mmu s')" "page_size (ps_mmu s') = 4096"
    "process_table s' p = Some (pcb\<lparr>pcb_name := exe, pcb_args := [], pcb_state := PReady\<rparr>)"
    "cpus s' p = Some ((set_sp (set_pc c 0) 0xFFFF)\<lparr>halted := False\<rparr>)"
    "waiting (ps_scheduler s') = add_mset (p, 1) (waiting (ps_scheduler s))"
proof -
  have e: "page_entries P p s = []" by (simp add: page_entries_def assms(3))
  have n: "(length code + 4095) div 4096 = 1" using assms(5,6) by (intro div_nat_eqI) (simp_all add: Suc_le_eq)
  obtain a w where al: "alloc_frames P 1 p s = (Inr [a], s\<lparr>world := w\<rparr>)" "given a p (ps_mmu s) w"
    using ask_alloc [OF assms(7)] .
  then have g: "given a p (ps_mmu (s\<lparr>world := w\<rparr>)) (world (s\<lparr>world := w\<rparr>))" by simp
  obtain m w2 where mp: "map_frames P p 0 [a] (s\<lparr>world := w\<rparr>) = (s\<lparr>world := w\<rparr>)\<lparr>ps_mmu := m, world := w2\<rparr>" "first_page m p a"
    "\<And>q v. q \<noteq> p \<Longrightarrow> mmu_read_u8 m q v = mmu_read_u8 (ps_mmu (s\<lparr>world := w\<rparr>)) q v" "\<And>q. q \<noteq> p \<Longrightarrow> frames_disjoint m p q"
    by (rule ask_map [OF g]) (use assms(3) in simp)+
  let ?m = "write_slice_virt p 0 code m"
  have fp: "first_page ?m p a"
    "\<And>j. j < 4096 \<Longrightarrow> mem_data (memory ?m) ! (unat a + j) = (if j < length code then code ! j else mem_data (memory m) ! (unat a + j))"
    using write_slice_page [OF mp(2), of 0 code] assms(6) by simp_all
  define s4 where "s4 = s\<lparr>world := w2, ps_mmu := ?m,
      cpus := (cpus s)(p \<mapsto> (set_sp (set_pc c 0) 0xFFFF)\<lparr>halted := False\<rparr>),
      process_table := (process_table s)(p \<mapsto> pcb\<lparr>pcb_name := exe, pcb_args := [], pcb_state := PReady\<rparr>)\<rparr>"
  have ex: "exec_impl P False p exe [] s = Some (Inr (), handle_schedule P p 1 s4)"
    using assms(1,2,4) e n al(1) mp(1) by (simp add: exec_impl_def Let_def s4_def)
  have h: "ps_mmu (handle_schedule P p 1 s4) = ?m" "process_table (handle_schedule P p 1 s4) = process_table s4"
    "cpus (handle_schedule P p 1 s4) = cpus s4"
    "waiting (ps_scheduler (handle_schedule P p 1 s4)) = add_mset (p, 1) (waiting (ps_scheduler s))"
    by (simp_all add: handle_schedule_def sched_op_def Let_def s4_def)
  have rd: "mmu_read_u8 ?m p (of_nat j) = Inr (code ! j)" if "j < length code" for j
    using first_page_read [OF fp(1), of j] fp(2) [of j] that assms(6) by simp
  have others: "mmu_read_u8 ?m q v = mmu_read_u8 (ps_mmu s) q v" if "q \<noteq> p" for q v
    using write_slice_isolated [of m p q 0 code v] mp(2-4) that by (simp add: first_page_def)
  show thesis
    by (rule that [OF ex]) (use h rd others fp(1) in \<open>simp_all add: s4_def first_page_def\<close>)
qed

end

section \<open>The memory service as a peer\<close>

text \<open>
  Memory messages go to the memory service, which works on the shared MMU; the first response it sends is what the
  requester receives. Other messages go to the other peers. A service that has deadlocked answers no more.
\<close>

definition mem_envelope :: "KernelMsg \<Rightarrow> Envelope" where
  "mem_envelope msg = \<lparr>message = msg, request_id = Some 0, response_channel = Some 0\<rparr>"

definition serve_memory :: "Envelope \<Rightarrow> MMU \<Rightarrow> MemoryService option \<Rightarrow> BusReply \<times> MMU \<times> MemoryService option" where
  "serve_memory env m w =
     (case w of
        None \<Rightarrow> (NoReply, m, None)
      | Some ms \<Rightarrow>
          (case handle_envelope open_channels [] env (ms\<lparr>hw_mmu := m\<rparr>) of
             SelfDeadlock \<Rightarrow> (NoReply, m, None)
           | Finished _ out ms' \<Rightarrow> (case out of [] \<Rightarrow> NoReply | (_, r) # _ \<Rightarrow> Reply r, hw_mmu ms', Some ms')))"

definition with_memory :: "'v Peers \<Rightarrow> (MemoryService option \<times> 'v) Peers" where
  "with_memory B =
     \<lparr>ask = (\<lambda>msg m w. case msg of
               MemoryMsg _ \<Rightarrow> (case serve_memory (mem_envelope msg) m (fst w) of (r, m', x) \<Rightarrow> (r, m', x, snd w))
             | _ \<Rightarrow> (case ask B msg m (snd w) of (r, m', v) \<Rightarrow> (r, m', fst w, v))),
      tell = (\<lambda>msg m w. case msg of
               MemoryMsg _ \<Rightarrow> (case serve_memory (fire_and_forget msg) m (fst w) of (_, m', x) \<Rightarrow> (m', x, snd w))
             | _ \<Rightarrow> (case tell B msg m (snd w) of (m', v) \<Rightarrow> (m', fst w, v))),
      clock = (\<lambda>w. clock B (snd w)), asm_source = (\<lambda>w. asm_source B (snd w)), page_keys = (\<lambda>w. page_keys B (snd w)),
      pid_keys = (\<lambda>w. pid_keys B (snd w)), stack_depth = stack_depth B\<rparr>"

text \<open>The service is usable: its invariant holds, the RAM has all its frames, and one of them is free.\<close>

definition memory_usable :: "MMU \<Rightarrow> MemoryService option \<times> 'v \<Rightarrow> bool" where
  "memory_usable m w \<longleftrightarrow>
     (\<exists>ms. fst w = Some ms \<and> frames_wf (allocator (memory_manager ms)) m \<and> 0 < free_count (allocator (memory_manager ms)) \<and>
           total_frames (allocator (memory_manager ms)) * 4096 \<le> mem_size (memory m))"

definition memory_given :: "phys_addr \<Rightarrow> pid \<Rightarrow> MMU \<Rightarrow> MemoryService option \<times> 'v \<Rightarrow> bool" where
  "memory_given a p m w \<longleftrightarrow>
     (\<exists>ms n. fst w = Some ms \<and> frames_wf (allocator (memory_manager ms)) m \<and> a = of_nat (n * 4096) \<and>
             n < total_frames (allocator (memory_manager ms)) \<and>
             total_frames (allocator (memory_manager ms)) * 4096 \<le> mem_size (memory m) \<and>
             (\<forall>q v e. entry_at m q v = Some e \<longrightarrow> frame e \<noteq> a))"

lemma mem_envelope_simps [simp]:
  "ok_success open_channels (mem_envelope msg) d = [(0, ResponseSuccess 0 d)]"
  "message (mem_envelope msg) = msg" "expects_response (mem_envelope msg)"
  by (simp_all add: ok_success_def respond_success_def send_response_def mem_envelope_def open_channels_def expects_response_def)

lemma memory_alloc:
  assumes "memory_usable m w"
  shows "\<exists>resp a w'. ask (with_memory B) (MemoryMsg (AllocFrame 1 p)) m w = (Reply resp, m, w') \<and>
      response_data resp = Some (PhysicalAddr a) \<and> memory_given a p m w'"
proof -
  obtain ms v where w: "w = (Some ms, v)" "frames_wf (allocator (memory_manager ms)) m" "0 < free_count (allocator (memory_manager ms))"
    "total_frames (allocator (memory_manager ms)) * 4096 \<le> mem_size (memory m)"
    using assms by (cases w) (auto simp: memory_usable_def)
  note wf = frames_wfD [OF w(2)]
  obtain fs pm where af: "allocate_frames (memory_manager ms) p 1 = (fs, pm)" by fastforce
  then obtain f where f: "fs = [f]" "number f < total_frames (allocator (memory_manager ms))"
    "owners (allocator (memory_manager ms)) (number f) = None" "address f = of_nat (number f * 4096)"
    "owners (allocator pm) = (owners (allocator (memory_manager ms)))(number f \<mapsto> p)" "fa_wf (allocator pm)"
    "total_frames (allocator pm) = total_frames (allocator (memory_manager ms))"
    "frame_size (allocator pm) = frame_size (allocator (memory_manager ms))"
    using allocate_one [OF wf(1) af] w(3) wf(2) by auto
  note fw = frames_wf_alloc [OF w(2) f(5,3,6,7,8)]
  let ?ms = "ms\<lparr>hw_mmu := m, memory_manager := pm\<rparr>"
  have "ask (with_memory B) (MemoryMsg (AllocFrame 1 p)) m w =
      (Reply (ResponseSuccess 0 (PhysicalAddr (address f))), m, Some ?ms, v)"
    using af f(1)
    by (simp add: with_memory_def w(1) serve_memory_def handle_envelope_def handle_memory_request_with_response_def
        handle_alloc_frame_with_response_def)
  moreover have "memory_given (address f) p m (Some ?ms, v)"
    unfolding memory_given_def using fw f w(4) by (intro exI [of _ ?ms] exI [of _ "number f"]) auto
  ultimately show ?thesis by (auto simp: response_data_def)
qed

lemma memory_given_frame:
  assumes "memory_given a p m w"
  shows "mmu_wf m \<and> page_size m = 4096 \<and> align_down m a = a \<and> unat a + 4096 \<le> mem_size (memory m) \<and> (\<forall>q. a \<notin> frames_of m q)"
proof -
  obtain ms :: MemoryService and n where g: "frames_wf (allocator (memory_manager ms)) m" "a = of_nat (n * 4096)"
    "n < total_frames (allocator (memory_manager ms))" "total_frames (allocator (memory_manager ms)) * 4096 \<le> mem_size (memory m)"
    "\<And>q v e. entry_at m q v = Some e \<Longrightarrow> frame e \<noteq> a"
    using assms unfolding memory_given_def by blast
  note wf = frames_wfD [OF g(1)]
  have "n * 4096 + 4096 \<le> total_frames (allocator (memory_manager ms)) * 4096" using g(3) by simp
  then have n: "n * 4096 + 4096 \<le> mem_size (memory m)" "n * 4096 < 2 ^ 64" using g(4) wf(3) by linarith+
  have "unat a = n * 4096" unfolding g(2) using n(2) by (simp only: unat_of_nat) simp
  moreover have "a \<notin> frames_of m q" for q unfolding entry_at_frames using g(5) by blast
  ultimately show ?thesis using wf(4,5) n(1) align_down_frame [OF wf(5), of n] g(2) by simp
qed

lemma memory_map_given:
  assumes "memory_given a p m w"
  shows "\<exists>r m' w'. ask (with_memory B) (MemoryMsg (MapPage p va a prot)) m w = (r, m', w') \<and>
      map_page m p va a \<lparr>present = True, page_writable = writable prot, user_accessible = True\<rparr> = Inr m'"
proof -
  obtain ms v where w: "w = (Some ms, v)" using assms by (cases w) (auto simp: memory_given_def)
  obtain m' where m': "map_page m p va a \<lparr>present = True, page_writable = writable prot, user_accessible = True\<rparr> = Inr m'"
    by (simp add: map_page_def Let_def)
  then show ?thesis
    by (auto simp: with_memory_def w serve_memory_def handle_envelope_def handle_memory_request_with_response_def
        handle_map_page_with_response_def)
qed

interpretation mem: memory_peer "with_memory B" memory_usable memory_given for B :: "'v Peers"
  by unfold_locales (rule memory_alloc memory_given_frame memory_map_given; assumption)+

text \<open>Creating a process is a fork and an exec; a new process has no page table yet.\<close>

definition started_cpu :: "MMU \<Rightarrow> pid \<Rightarrow> VirtualCPU" where
  "started_cpu m p = (set_sp (set_pc (VirtualCPU_new m [] p) 0) 0xFFFF)\<lparr>halted := False\<rparr>"

lemma create_process_loads:
  fixes B :: "'v Peers" and s :: "(MemoryService option \<times> 'v) ProcessService"
  assumes "program_code (with_memory B) exe [] s = Some code" "0 < length code" "length code \<le> 4096"
    and "memory_usable (ps_mmu s) (world s)" "page_tables (ps_mmu s) (next_pid s) = None"
  obtains s' where "create_process (with_memory B) exe [] s = Some (Inr (next_pid s), s')"
    "cpus s' (next_pid s) = Some (started_cpu (ps_mmu s) (next_pid s))" "state_of (next_pid s) s' = Some PReady"
    "\<And>j. j < length code \<Longrightarrow> mmu_read_u8 (ps_mmu s') (next_pid s) (of_nat j) = Inr (code ! j)"
    "\<And>q v. q \<noteq> next_pid s \<Longrightarrow> mmu_read_u8 (ps_mmu s') q v = mmu_read_u8 (ps_mmu s) q v"
    "mmu_wf (ps_mmu s')" "page_size (ps_mmu s') = 4096"
    "waiting (ps_scheduler s') = add_mset (next_pid s, 1) (waiting (ps_scheduler s))"
proof -
  let ?p = "next_pid s" and ?pcb = "PCB_new (ps_now (with_memory B) s) (next_pid s) ''init'' None"
  let ?s1 = "(s\<lparr>next_pid := ?p + 1\<rparr>)\<lparr>cpus := (cpus s)(?p \<mapsto> VirtualCPU_new (ps_mmu s) [] ?p),
                process_table := (process_table s)(?p \<mapsto> ?pcb)\<rparr>"
  have fork: "fork_impl (with_memory B) False 0 s = Some (Inr ?p, ?s1)"
    by (simp add: fork_impl_def fork_fresh_def take_pid_def ps_now_def)
  have code: "program_code (with_memory B) exe [] ?s1 = Some code"
    using assms(1) by (simp add: program_code_def load_program_def)
  obtain s' where s': "exec_impl (with_memory B) False ?p exe [] ?s1 = Some (Inr (), s')"
    "\<And>j. j < length code \<Longrightarrow> mmu_read_u8 (ps_mmu s') ?p (of_nat j) = Inr (code ! j)"
    "\<And>q v. q \<noteq> ?p \<Longrightarrow> mmu_read_u8 (ps_mmu s') q v = mmu_read_u8 (ps_mmu ?s1) q v"
    "mmu_wf (ps_mmu s')" "page_size (ps_mmu s') = 4096"
    "process_table s' ?p = Some (?pcb\<lparr>pcb_name := exe, pcb_args := [], pcb_state := PReady\<rparr>)"
    "cpus s' ?p = Some ((set_sp (set_pc (VirtualCPU_new (ps_mmu s) [] ?p) 0) 0xFFFF)\<lparr>halted := False\<rparr>)"
    "waiting (ps_scheduler s') = add_mset (?p, 1) (waiting (ps_scheduler ?s1))"
    by (rule mem.exec_loads [of ?s1 ?p ?pcb "VirtualCPU_new (ps_mmu s) [] ?p" B exe code])
       (use assms(2-5) code in simp_all)
  have "create_process (with_memory B) exe [] s = Some (Inr ?p, s')" by (simp add: create_process_def fork s'(1))
  then show thesis using that s' by (simp add: started_cpu_def state_of_def)
qed

end
