(* ===== verification/Process_Sync.thy ===== *)
theory Process_Sync
  imports Process_Invariant
begin

text \<open>
  Synchronisation through the process service: what the semaphore system calls do to the semaphore and to the processes
  that wait for it, and which requests always return.
\<close>

section \<open>Semaphore system calls\<close>

definition sem_at :: "u64 \<Rightarrow> 'w ProcessService \<Rightarrow> Semaphore option" where
  "sem_at i s = Option.bind (get_semaphore i (sync_manager s)) (sem_objs (snd (sync_manager s)))"

lemma with_sem_at:
  assumes "sem_at i s = Some sem" "f sem = (r, sem')"
  obtains st where "with_sem i f (sync_manager s) = (Some r, st)"
    "\<And>t :: 'v ProcessService. sync_manager t = st \<Longrightarrow> sem_at i t = Some sem'"
proof -
  obtain a where a: "get_semaphore i (sync_manager s) = Some a" "sem_objs (snd (sync_manager s)) a = Some sem"
    using assms(1) by (auto simp: sem_at_def bind_eq_Some_conv)
  let ?st = "(fst (sync_manager s), (snd (sync_manager s))\<lparr>sem_objs := (sem_objs (snd (sync_manager s)))(a \<mapsto> sem')\<rparr>)"
  have w: "with_sem i f (sync_manager s) = (Some r, ?st)" using a assms(2) by (simp add: with_sem_def)
  have "sem_at i t = Some sem'" if "sync_manager t = ?st" for t :: "'v ProcessService"
    using that a(1) by (simp add: sem_at_def get_semaphore_def)
  then show thesis using that w by blast
qed

lemma sem_at_cong: "sync_manager t = sync_manager s \<Longrightarrow> sem_at i t = sem_at i s"
  by (simp add: sem_at_def)

lemma sem_at_sync_simps [simp]:
  "sync_manager (set_state p st s) = sync_manager s" "sync_manager (sched_op f s) = sync_manager s"
  by (simp_all add: set_state_def sched_op_def)

text \<open>What a wait does: it takes one unit, or it puts the caller to sleep and takes none.\<close>

lemma sem_wait_cases:
  fixes s :: "'w ProcessService"
  assumes "sem_at i s = Some sem" "sem_valid sem" "\<not> halted c"
  obtains (take) s' where "sem_value sem \<noteq> 0" "syscall_sem_wait c p i s = SysDone c s'"
      "sem_at i s' = Some (sem\<lparr>sem_value := sem_value sem - 1\<rparr>)" "process_table s' = process_table s"
    | (sleep) s' where "sem_value sem = 0" "syscall_sem_wait c p i s = SysDone (cpu_halt c) s'"
      "sem_at i s' = Some (sem\<lparr>sem_wait_count := sem_wait_count sem + 1\<rparr>)"
      "state_of p s' = map_option (\<lambda>_. PBlocked (WaitingForLock i)) (state_of p s)"
      "\<And>q. q \<noteq> p \<Longrightarrow> state_of q s' = state_of q s"
proof (cases "sem_value sem = 0")
  case True
  then have w: "sem_wait sem = (SemWouldBlock, sem\<lparr>sem_wait_count := sem_wait_count sem + 1\<rparr>)"
    using assms(2) by (simp add: sem_wait_def)
  obtain st where st: "with_sem i sem_wait (sync_manager s) = (Some SemWouldBlock, st)"
    "\<And>t :: 'w ProcessService. sync_manager t = st \<Longrightarrow> sem_at i t = Some (sem\<lparr>sem_wait_count := sem_wait_count sem + 1\<rparr>)"
    using with_sem_at [of i s sem sem_wait, OF assms(1) w] by blast
  let ?s' = "sched_op (\<lambda>sc. snd (sched_block p 1 sc)) (set_state p (PBlocked (WaitingForLock i)) (s\<lparr>sync_manager := st\<rparr>))"
  have "syscall_sem_wait c p i s = SysDone (cpu_halt c) ?s'" by (simp add: syscall_sem_wait_def st(1) block_caller_def)
  moreover have "state_of p ?s' = map_option (\<lambda>_. PBlocked (WaitingForLock i)) (state_of p s)"
    by (cases "process_table s p") (simp_all add: state_of_def set_state_def sched_op_def pcb_set_state_def)
  moreover have "state_of q ?s' = state_of q s" if "q \<noteq> p" for q
    using that by (simp add: state_of_def set_state_def sched_op_def split: option.split)
  ultimately show thesis using sleep [OF True] st(2) [of ?s'] by simp
next
  case False
  then have w: "sem_wait sem = (SemAcquired, sem\<lparr>sem_value := sem_value sem - 1\<rparr>)" using assms(2) by (simp add: sem_wait_def)
  obtain st where st: "with_sem i sem_wait (sync_manager s) = (Some SemAcquired, st)"
    "\<And>t :: 'w ProcessService. sync_manager t = st \<Longrightarrow> sem_at i t = Some (sem\<lparr>sem_value := sem_value sem - 1\<rparr>)"
    using with_sem_at [of i s sem sem_wait, OF assms(1) w] by blast
  have "syscall_sem_wait c p i s = SysDone c (s\<lparr>sync_manager := st\<rparr>)" by (simp add: syscall_sem_wait_def st(1))
  then show thesis using take [OF False] st(2) [of "s\<lparr>sync_manager := st\<rparr>"] by simp
qed

text \<open>What a signal does: it wakes a sleeper and keeps the count, or, without a sleeper, gives one unit back.\<close>

lemma sem_signal_cases:
  fixes s :: "'w ProcessService"
  assumes "sem_at i s = Some sem" "sem_valid sem" "max_value sem = - 1" "sem_value sem \<noteq> - 1"
  obtains (hand_over) w where "find_waiter P i s = Some w" "syscall_sem_signal P c i s = SysDone c (wake P w s)"
      "sem_at i (wake P w s) = Some sem"
    | (give_back) s' sem' where "find_waiter P i s = None" "syscall_sem_signal P c i s = SysDone c s'"
      "sem_at i s' = Some sem'" "sem_value sem' = sem_value sem + 1" "process_table s' = process_table s"
proof (cases "find_waiter P i s")
  case (Some w)
  show thesis
    using assms(1) by (intro hand_over [OF Some]) (simp_all add: syscall_sem_signal_def Some wake_def sem_at_def)
next
  case None
  let ?sem' = "sem\<lparr>sem_value := sem_value sem + 1, sem_wait_count := sem_wait_count sem - 1\<rparr>"
  have top: "\<not> - 1 < (x :: u32)" for x using word_order.extremum [of x] by (simp add: not_less)
  have w: "sem_signal sem = (SemReleased, ?sem')"
    using assms(2-4) top by (simp add: sem_signal_def saturating_inc_def)
  obtain st where st: "with_sem i sem_signal (sync_manager s) = (Some SemReleased, st)"
    "\<And>t :: 'w ProcessService. sync_manager t = st \<Longrightarrow> sem_at i t = Some ?sem'"
    using with_sem_at [of i s sem sem_signal, OF assms(1) w] by blast
  have "syscall_sem_signal P c i s = SysDone c (s\<lparr>sync_manager := st\<rparr>)" by (simp add: syscall_sem_signal_def None st(1))
  then show thesis using give_back [OF None] st(2) [of "s\<lparr>sync_manager := st\<rparr>"] assms(2,3) by simp
qed

lemma state_of_simps [simp]:
  "state_of q (set_state p st s) = (if q = p then map_option (\<lambda>_. st) (state_of q s) else state_of q s)"
  "state_of q (sched_op f s) = state_of q s" "state_of q (s\<lparr>sync_manager := m\<rparr>) = state_of q s"
  by (auto simp: state_of_def set_state_def sched_op_def pcb_set_state_def option.map_comp o_def)

definition sem_waiter :: "'w Peers \<Rightarrow> u64 \<Rightarrow> 'w ProcessService \<Rightarrow> pid \<Rightarrow> bool" where
  "sem_waiter P i s w \<longleftrightarrow> w \<in> set (pid_keys P (world s)) \<and> state_of w s = Some (PBlocked (WaitingForLock i))"

lemma find_waiter_iff:
  "find_waiter P i s = Some w \<Longrightarrow> sem_waiter P i s w" "find_waiter P i s = None \<longleftrightarrow> (\<nexists>w. sem_waiter P i s w)"
proof -
  have "sem_waiter P i s p \<longleftrightarrow> p \<in> set (pid_keys P (world s)) \<and>
      (case process_table s p of None \<Rightarrow> False | Some pcb \<Rightarrow> waits_for i pcb)" for p
    by (auto simp: sem_waiter_def state_of_def waits_for_def split: option.split)
  then show "find_waiter P i s = Some w \<Longrightarrow> sem_waiter P i s w" "find_waiter P i s = None \<longleftrightarrow> (\<nexists>w. sem_waiter P i s w)"
    by (auto simp: find_waiter_def find_None_iff find_Some_iff)
qed



section \<open>Requests that always return\<close>

lemma fork_returns [simp]: "fork_impl P False p s \<noteq> None"
  by (simp add: fork_impl_def fork_fresh_def Let_def split: prod.split sum.split)

lemma exec_returns [simp]: "exec_impl P False p exe args s \<noteq> None"
  by (simp add: exec_impl_def Let_def split: prod.split sum.split option.split)

lemma create_returns [simp]: "create_process P exe args s \<noteq> None"
  using fork_returns [of P 0 s] exec_returns [of P] by (fastforce simp: create_process_def split: option.split sum.split)

lemma spawn_children_returns [simp]: "spawn_children P n nm s \<noteq> None"
proof (induction n arbitrary: s)
  case (Suc n)
  obtain r s1 where f: "fork_impl P False 0 s = Some (r, s1)" by (cases "fork_impl P False 0 s") auto
  show ?case
  proof (cases r)
    case (Inr c)
    obtain x s2 where "exec_impl P False c nm [] s1 = Some (x, s2)" by (cases "exec_impl P False c nm [] s1") auto
    then show ?thesis using f Inr Suc [of s2] by auto
  qed (use f Suc [of s1] in simp)
qed simp

lemma spawn_all_returns [simp]: "spawn_all P n nm s \<noteq> None"
proof (induction n arbitrary: s)
  case (Suc n)
  obtain r s1 where "create_process P nm [] s = Some (r, s1)" by (cases "create_process P nm [] s") auto
  then show ?case using Suc [of s1] by (cases r) auto
qed simp

lemma outcome_returns [simp]:
  "quiet s \<noteq> None" "quiet_result rs \<noteq> None" "and_respond ce env d s \<noteq> None"
  "o1 \<noteq> None \<Longrightarrow> then_respond ce env f o1 \<noteq> None" "o2 \<noteq> None \<Longrightarrow> drop_out o2 \<noteq> None"
  by (auto simp: quiet_def quiet_result_def and_respond_def then_respond_def drop_out_def split: prod.split sum.split)

lemma bind_returns: "o1 \<noteq> None \<Longrightarrow> (\<And>x. f x \<noteq> None) \<Longrightarrow> Option.bind o1 f \<noteq> None"
  by (cases o1) auto

lemma spawn_returns [simp]: "spawn_plain P program s \<noteq> None" "handle_spawn P ce env program s \<noteq> None"
  by (simp_all add: spawn_plain_def handle_spawn_def split: prod.split del: not_None_eq)

lemma request_returns: "handle_process_request P req s \<noteq> None"
  by (cases req) (simp_all only: handle_process_request_def ProcessRequest.case outcome_returns bind_returns spawn_returns
      fork_returns exec_returns create_returns not_False_eq_True)

lemma response_returns:
  assumes "req \<noteq> ListProcesses"
  shows "handle_process_request_with_response P ce env req s \<noteq> None"
  using assms request_returns [of P req s]
  by (cases req) (simp_all add: handle_process_request_with_response_def split: prod.split)

lemma syscall_returns: "handle_syscall P c s \<noteq> None" "handle_syscall_with_response P ce env c s \<noteq> None"
proof -
  show r: "handle_syscall P c s \<noteq> None"
    by (cases c) (simp_all add: handle_syscall_def bind_returns del: not_None_eq)
  then show "handle_syscall_with_response P ce env c s \<noteq> None"
    by (cases c) (simp_all add: handle_syscall_with_response_def)
qed

text \<open>
  C15. Requests are served. Every system call message and every process request but a wait and a listing returns,
  whatever the peers do, in every state of the service, and its requester is answered on its channel with its number.
\<close>

theorem process_request_served:
  assumes "ps_owes (ReqEvent env)" "message env \<noteq> ProcessMsg ListProcesses" "asks ce env c i"
  shows "\<exists>out s' resp. ps_handle_envelope P ce env s = Some (out, s') \<and> (c, resp) \<in> set out \<and> response_request_id resp = i"
proof -
  have e: "expects_response env" using assms(3) by (rule asks_expects)
  have "ps_dispatch P ce env s \<noteq> None"
    using assms(1,2) e response_returns [of _ P ce env s] syscall_returns(2) [of P ce env _ s]
    by (auto simp: ps_dispatch_def ps_owes_def split: KernelMsg.splits)
  then obtain out s' where r: "ps_handle_envelope P ce env s = Some (out, s')"
    by (auto simp: ps_handle_envelope_def)
  from handle_envelope_answered [OF r assms(1) e] assms(3) r show ?thesis by (auto simp: answered_def)
qed

theorem process_request_served_witness:
  "\<exists>out s' resp. ps_handle_envelope silent_peers open_channels (request_envelope (ProcessMsg (ForkProcess 0)) 4 2) (ProcessService_new demo_mmu ()) =
     Some (out, s') \<and> (2, resp) \<in> set out \<and> response_request_id resp = 4"
  by (rule process_request_served) (simp_all add: ps_owes_def request_envelope_def asks_def open_channels_def)

end
