(* ===== verification/Shell_Parser.thy ===== *)
theory Shell_Parser
  imports Text_Format
begin

text \<open>
  The command parser of the shell (\<^verbatim>\<open>src/ui/shell/parser.rs\<close>) and its built-in commands with the environment
  (\<^verbatim>\<open>src/ui/shell/builtins.rs\<close>). What a user types for a list of words shows which argument lists can be typed.
\<close>

section \<open>Commands\<close>

record Command =
  cmd_name :: string
  cmd_args :: "string list"
  cmd_options :: "string list"

definition Command_new :: "string \<Rightarrow> Command" where
  "Command_new nm = \<lparr>cmd_name = nm, cmd_args = [], cmd_options = []\<rparr>"

definition with_args :: "string \<Rightarrow> string list \<Rightarrow> Command" where
  "with_args nm as = \<lparr>cmd_name = nm, cmd_args = as, cmd_options = []\<rparr>"

definition has_option :: "Command \<Rightarrow> string \<Rightarrow> bool" where
  "has_option c opt \<longleftrightarrow> opt \<in> set (cmd_options c)"

definition get_arg :: "Command \<Rightarrow> nat \<Rightarrow> string option" where
  "get_arg c i = (if i < length (cmd_args c) then Some (cmd_args c ! i) else None)"

section \<open>Tokens\<close>

record ShellParser =
  separator :: char

definition ShellParser_new :: ShellParser where
  "ShellParser_new = \<lparr>separator = CHR '' ''\<rparr>"

text \<open>The variables of the loop: the token read so far, the open quote if there is one, and whether the next character is escaped.\<close>

record Tokenizer =
  tk_tokens :: "string list"
  tk_current :: string
  tk_quote :: "char option"
  tk_escape :: bool

definition flush_token :: "Tokenizer \<Rightarrow> Tokenizer" where
  "flush_token t = (if tk_current t = [] then t else t\<lparr>tk_tokens := tk_tokens t @ [tk_current t], tk_current := []\<rparr>)"

definition push_char :: "char \<Rightarrow> Tokenizer \<Rightarrow> Tokenizer" where
  "push_char ch t = t\<lparr>tk_current := tk_current t @ [ch]\<rparr>"

definition tokenize_char :: "ShellParser \<Rightarrow> char \<Rightarrow> Tokenizer \<Rightarrow> Tokenizer" where
  "tokenize_char sp ch t =
     (if tk_escape t then (push_char ch t)\<lparr>tk_escape := False\<rparr>
      else if ch = CHR 0x5C then t\<lparr>tk_escape := True\<rparr>
      else if ch = CHR 0x22 \<or> ch = CHR 0x27 then
        (case tk_quote t of
           None \<Rightarrow> t\<lparr>tk_quote := Some ch\<rparr>
         | Some q \<Rightarrow> if ch = q then t\<lparr>tk_quote := None\<rparr> else push_char ch t)
      else if ch = separator sp \<and> tk_quote t = None then flush_token t
      else push_char ch t)"

definition tokenize :: "ShellParser \<Rightarrow> string \<Rightarrow> string list option" where
  "tokenize sp line =
     (let t = flush_token (fold (tokenize_char sp) line \<lparr>tk_tokens = [], tk_current = [], tk_quote = None, tk_escape = False\<rparr>) in
      if tk_tokens t = [] then None else Some (tk_tokens t))"

section \<open>Parsing\<close>

definition is_option :: "string \<Rightarrow> bool" where
  "is_option tok = starts_with ''-'' tok"

definition command_of :: "string list \<Rightarrow> Command option" where
  "command_of toks =
     (case toks of
        [] \<Rightarrow> None
      | nm # rest \<Rightarrow> Some \<lparr>cmd_name = nm, cmd_args = filter (\<lambda>t. \<not> is_option t) rest, cmd_options = filter is_option rest\<rparr>)"

definition parse :: "ShellParser \<Rightarrow> string \<Rightarrow> Command option" where
  "parse sp line =
     (let l = trim line in
      if l = [] then None else Option.bind (tokenize sp l) command_of)"

fun pipeline_parts :: "string \<Rightarrow> string \<Rightarrow> string list" where
  "pipeline_parts cur [] = [cur]"
| "pipeline_parts cur (ch # s) =
     (if ch = CHR '';'' \<or> ch = CHR ''|'' then cur # pipeline_parts [] s else pipeline_parts (cur @ [ch]) s)"

definition parse_pipeline :: "ShellParser \<Rightarrow> string \<Rightarrow> Command list" where
  "parse_pipeline sp line = List.map_filter (parse sp) (pipeline_parts [] line)"

section \<open>The environment and the built-in commands\<close>

type_synonym environment = "string \<rightharpoonup> string"

definition BuiltinCommand_new :: environment where
  "BuiltinCommand_new =
     [''PATH'' \<mapsto> ''/bin:/usr/bin'', ''HOME'' \<mapsto> ''/root'', ''USER'' \<mapsto> ''root'', ''SHELL'' \<mapsto> ''/bin/chao-sh'',
      ''TERM'' \<mapsto> ''xterm-256color'']"

text \<open>Assignments are carried out up to the first undefined variable.\<close>

fun cmd_export :: "string list \<Rightarrow> environment \<Rightarrow> (string, unit) result \<times> environment" where
  "cmd_export [] env = (Inr (), env)"
| "cmd_export (arg # as) env =
     (if CHR ''='' \<in> set arg
      then cmd_export as (env(takeWhile (\<lambda>c. c \<noteq> CHR ''='') arg \<mapsto> tl (dropWhile (\<lambda>c. c \<noteq> CHR ''='') arg)))
      else if env arg = None then (Inl (''export: '' @ arg @ '': undefined variable''), env)
      else cmd_export as env)"

fun cmd_unset :: "string list \<Rightarrow> environment \<Rightarrow> (string, unit) result \<times> environment" where
  "cmd_unset [] env = (Inr (), env)"
| "cmd_unset (arg # as) env =
     (if env arg = None then (Inl (''unset: '' @ arg @ '': undefined variable''), env) else cmd_unset as (env(arg := None)))"

text \<open>Commands that only print succeed; the terminal is assumed to accept the text.\<close>

definition builtin_execute :: "Command \<Rightarrow> environment \<Rightarrow> ((string, unit) result \<times> environment) option" where
  "builtin_execute c env =
     (if cmd_name c = ''export'' then Some (cmd_export (cmd_args c) env)
      else if cmd_name c = ''unset'' then Some (cmd_unset (cmd_args c) env)
      else if cmd_name c \<in> set [''echo'', ''env'', ''set'', ''clear'', ''history'', ''alias'', ''unalias'', ''true'', '':''] then Some (Inr (), env)
      else if cmd_name c = ''false'' then Some (Inl [], env)
      else None)"

definition get_env :: "string \<Rightarrow> environment \<Rightarrow> string option" where
  "get_env k env = env k"

definition set_env :: "string \<Rightarrow> string \<Rightarrow> environment \<Rightarrow> environment" where
  "set_env k v env = env(k \<mapsto> v)"

section \<open>Quoting\<close>

text \<open>
  A word is typed as it is, with a backslash before quotes and backslashes, or between two single or two double quotes, with a
  backslash before that quote and before backslashes; words are separated by blanks.
\<close>

datatype style = Bare | Single | Double

primrec quote_of :: "style \<Rightarrow> char option" where
  "quote_of Bare = None"
| "quote_of Single = Some (CHR 0x27)"
| "quote_of Double = Some (CHR 0x22)"

definition escaped :: "style \<Rightarrow> char \<Rightarrow> string" where
  "escaped st c =
     (if c = CHR 0x5C \<or> (case quote_of st of None \<Rightarrow> c = CHR 0x22 \<or> c = CHR 0x27 | Some q \<Rightarrow> c = q) then [CHR 0x5C, c] else [c])"

definition typed_word :: "style \<times> string \<Rightarrow> string" where
  "typed_word w =
     (case w of (st, tok) \<Rightarrow>
        let body = concat (map (escaped st) tok) in
        case quote_of st of None \<Rightarrow> body | Some q \<Rightarrow> q # body @ [q])"

fun typed_line :: "(style \<times> string) list \<Rightarrow> string" where
  "typed_line [] = []"
| "typed_line [w] = typed_word w"
| "typed_line (w # ws) = typed_word w @ CHR '' '' # typed_line ws"

text \<open>A word is not empty, and one without quotes has no white space in it.\<close>

definition word_ok :: "style \<times> string \<Rightarrow> bool" where
  "word_ok w \<longleftrightarrow> snd w \<noteq> [] \<and> (fst w = Bare \<longrightarrow> (\<forall>c \<in> set (snd w). \<not> ascii_ws c))"

lemma tokenize_body:
  assumes "separator sp = CHR '' ''" "st = Bare \<longrightarrow> (\<forall>c \<in> set tok. \<not> ascii_ws c)"
  shows "\<not> tk_escape t \<Longrightarrow> tk_quote t = quote_of st \<Longrightarrow>
    fold (tokenize_char sp) (concat (map (escaped st) tok)) t = t\<lparr>tk_current := tk_current t @ tok\<rparr>"
  using assms(2)
proof (induction tok arbitrary: t)
  case (Cons c tok)
  have "fold (tokenize_char sp) (escaped st c) t = t\<lparr>tk_current := tk_current t @ [c]\<rparr>"
    using Cons.prems assms(1)
    by (cases st) (auto simp: escaped_def tokenize_char_def push_char_def ascii_ws_def)
  then show ?case using Cons by simp
qed simp

lemma tokenize_word:
  assumes "separator sp = CHR '' ''" "word_ok w" "\<not> tk_escape t" "tk_quote t = None"
  shows "fold (tokenize_char sp) (typed_word w) t = t\<lparr>tk_current := tk_current t @ snd w\<rparr>"
proof -
  obtain st tok where w: "w = (st, tok)" by fastforce
  have body: "fold (tokenize_char sp) (concat (map (escaped st) tok)) (t\<lparr>tk_quote := quote_of st\<rparr>) =
      t\<lparr>tk_quote := quote_of st, tk_current := tk_current t @ tok\<rparr>"
    using tokenize_body [OF assms(1), of st tok "t\<lparr>tk_quote := quote_of st\<rparr>"] assms(2,3) by (simp add: w word_ok_def)
  show ?thesis
  proof (cases "quote_of st")
    case None
    moreover have "t\<lparr>tk_quote := None\<rparr> = t" using assms(4) by (cases t) simp
    ultimately show ?thesis using body by (simp add: w typed_word_def)
  next
    case (Some q)
    then have "q = CHR 0x22 \<or> q = CHR 0x27" by (cases st) auto
    then have "tokenize_char sp q t = t\<lparr>tk_quote := Some q\<rparr>"
      "tokenize_char sp q (t\<lparr>tk_quote := Some q, tk_current := tk_current t @ tok\<rparr>) = t\<lparr>tk_current := tk_current t @ tok\<rparr>"
      using assms(3,4) by (auto simp: tokenize_char_def)
    then show ?thesis using body Some by (simp add: w typed_word_def)
  qed
qed

lemma tokenize_line:
  assumes "\<forall>w \<in> set ws. word_ok w" "separator sp = CHR '' ''"
  shows "\<not> tk_escape t \<Longrightarrow> tk_quote t = None \<Longrightarrow> tk_current t = [] \<Longrightarrow>
    tk_tokens (flush_token (fold (tokenize_char sp) (typed_line ws) t)) = tk_tokens t @ map snd ws"
  using assms(1)
proof (induction ws arbitrary: t rule: typed_line.induct)
  case 1
  then show ?case by (simp add: flush_token_def)
next
  case (2 w)
  then show ?case using assms(2) by (simp add: tokenize_word flush_token_def word_ok_def)
next
  case (3 w w2 ws)
  let ?t1 = "t\<lparr>tk_tokens := tk_tokens t @ [snd w], tk_current := []\<rparr>"
  have "snd w \<noteq> []" using 3(5) by (simp add: word_ok_def)
  then have "fold (tokenize_char sp) (typed_line (w # w2 # ws)) t = fold (tokenize_char sp) (typed_line (w2 # ws)) ?t1"
    using 3 assms(2) by (simp add: tokenize_word tokenize_char_def flush_token_def)
  then show ?case using 3 by simp
qed

lemma escaped_ends: "escaped st c \<noteq> []" "hd (escaped st c) \<in> {CHR 0x5C, c}" "last (escaped st c) = c"
  by (auto simp: escaped_def)

lemma typed_word_ends:
  assumes "word_ok w"
  shows "typed_word w \<noteq> []" "\<not> ascii_ws (hd (typed_word w))" "\<not> ascii_ws (last (typed_word w))"
proof -
  obtain st tok where w: "w = (st, tok)" by fastforce
  obtain a as where a: "tok = a # as" using assms by (cases tok) (auto simp: w word_ok_def)
  have "tok \<noteq> []" by (simp add: a)
  then obtain bs b where b: "tok = bs @ [b]" by (metis rev_exhaust)
  have q: "\<not> ascii_ws q" if "quote_of st = Some q" for q using that by (cases st) (auto simp: ascii_ws_def)
  have plain: "c \<in> set tok \<Longrightarrow> \<not> ascii_ws c" if "quote_of st = None" for c
    using that assms by (cases st) (simp_all add: w word_ok_def)
  have mem: "a \<in> set tok" by (simp add: a)
  have "b \<in> set tok" by (simp add: b)
  with mem have bare: "\<not> ascii_ws a" "\<not> ascii_ws b" if "quote_of st = None" using plain [OF that] by blast+
  have esc: "\<not> ascii_ws (CHR 0x5C)" by (simp add: ascii_ws_def)
  show "typed_word w \<noteq> []" using escaped_ends(1) [of st a] by (simp add: w typed_word_def Let_def a split: option.split)
  show "\<not> ascii_ws (hd (typed_word w))"
    using q bare(1) esc escaped_ends(1,2) [of st a] by (auto simp: w typed_word_def Let_def a hd_append split: option.split)
  show "\<not> ascii_ws (last (typed_word w))"
    using q bare(2) escaped_ends(1,3) [of st b] by (auto simp: w typed_word_def Let_def b split: option.split)
qed

lemma typed_line_ends:
  assumes "ws \<noteq> []" "\<forall>w \<in> set ws. word_ok w"
  shows "typed_line ws \<noteq> [] \<and> \<not> ascii_ws (hd (typed_line ws)) \<and> \<not> ascii_ws (last (typed_line ws))"
  using assms by (induction ws rule: typed_line.induct) (simp_all add: typed_word_ends hd_append)

text \<open>
  C29. What can be typed. Every list of non-empty words can be typed as a line that the parser takes apart into
  exactly these words, the first as the name, the rest as arguments and options in order. Each word can be typed between double
  quotes or between single quotes, with a backslash before that quote and before backslashes and everything else as it is,
  blanks at its end, the other quote and separators included; a word without white space can also be typed without
  quotes, with a backslash before quotes and backslashes.
\<close>

theorem parse_quoted:
  assumes "\<forall>w \<in> set ((st, nm) # rest). word_ok w"
  shows "parse ShellParser_new (typed_line ((st, nm) # rest)) =
    Some \<lparr>cmd_name = nm, cmd_args = filter (\<lambda>t. \<not> is_option t) (map snd rest), cmd_options = filter is_option (map snd rest)\<rparr>"
proof -
  let ?l = "typed_line ((st, nm) # rest)"
  note ends = typed_line_ends [OF _ assms]
  then have "trim ?l = ?l" using trim_id by simp
  moreover have "tokenize ShellParser_new ?l = Some (nm # map snd rest)"
    using tokenize_line [OF assms, of ShellParser_new] by (simp add: tokenize_def ShellParser_new_def Let_def)
  ultimately show ?thesis using ends by (simp add: parse_def command_of_def)
qed

theorem parse_quoted_witness:
  "parse ShellParser_new (typed_line [(Bare, ''echo''), (Double, ''it'' @ CHR 0x27 # ''s ''), (Bare, ''-n''), (Single, [CHR 0x27])]) =
    Some \<lparr>cmd_name = ''echo'', cmd_args = [''it'' @ CHR 0x27 # ''s '', [CHR 0x27]], cmd_options = [''-n'']\<rparr>"
  using parse_quoted [of Bare "''echo''" "[(Double, ''it'' @ CHR 0x27 # ''s ''), (Bare, ''-n''), (Single, [CHR 0x27])]"]
  by (simp add: ascii_ws_def is_option_def starts_with_def strip_prefix_def word_ok_def)

text \<open>Separators of commands are found inside quotes too.\<close>

lemma pipeline_splits_quotes:
  "parse_pipeline ShellParser_new ([CHR 0x22] @ ''a;b'' @ [CHR 0x22]) = [Command_new ''a'', Command_new ''b'']"
  by code_simp

lemma empty_argument_lost:
  "parse ShellParser_new (''echo '' @ [CHR 0x22, CHR 0x22]) = Some (Command_new ''echo'')"
  by code_simp

end
