(* ===== verification/Monitor.thy ===== *)
theory Monitor
  imports Process_Service
begin

text \<open>
  The process monitor (\<^verbatim>\<open>src/ui/monitor.rs\<close>): the requests behind a snapshot, the loop over key presses, and what is
  computed for the screen. Layout and drawing belong to the library ratatui, keys to crossterm; percentages, which are
  only printed, are left out. What the user interface sees of the services is a record of functions, shared with the shell.
\<close>

section \<open>The services as the user interface sees them\<close>

text \<open>
  Asking with the three seconds the shell waits, asking with the tenth of a second the monitor waits, sending without an
  answer, the host files, and for the monitor what polling for keys and drawing yield in each round and the tick count.
\<close>

datatype PollOutcome = PollFailed | NoEvent | KeyChar char | KeyEsc | OtherEvent

record 'w ShellPeers =
  sh_ask :: "KernelMsg \<Rightarrow> 'w \<Rightarrow> BusReply \<times> 'w"
  sh_query :: "KernelMsg \<Rightarrow> 'w \<Rightarrow> BusReply \<times> 'w"
  sh_tell :: "KernelMsg \<Rightarrow> 'w \<Rightarrow> 'w"
  sh_file :: "string \<Rightarrow> (string, string) result"
  sh_rounds :: "'w \<Rightarrow> (PollOutcome \<times> bool) list"
  sh_ticks :: "'w \<Rightarrow> u64"
  bus_error_text :: string
  recv_error_text :: string

section \<open>Snapshots\<close>

record Snap =
  sn_processes :: "string list"
  sn_proc_count :: nat
  sn_total_frames :: u64
  sn_used_frames :: u64
  sn_free_frames :: u64
  sn_frame_map :: "(u64 \<times> u64) list"
  sn_mem_ranges :: "string list"
  sn_disk_total :: u64
  sn_disk_used :: u64
  sn_ticks :: u64

definition Snap_default :: Snap where
  "Snap_default =
     \<lparr>sn_processes = [], sn_proc_count = 0, sn_total_frames = 0, sn_used_frames = 0, sn_free_frames = 0, sn_frame_map = [],
      sn_mem_ranges = [], sn_disk_total = 0, sn_disk_used = 0, sn_ticks = 0\<rparr>"

definition query :: "'w ShellPeers \<Rightarrow> KernelMsg \<Rightarrow> 'w \<Rightarrow> Response option \<times> 'w" where
  "query P msg w = (case sh_query P msg w of (Reply r, w') \<Rightarrow> (Some r, w') | (_, w') \<Rightarrow> (None, w'))"

definition refresh :: "'w ShellPeers \<Rightarrow> KernelMsg \<Rightarrow> (ResponseData \<Rightarrow> Snap \<Rightarrow> Snap) \<Rightarrow> Snap \<times> 'w \<Rightarrow> Snap \<times> 'w" where
  "refresh P msg upd sw =
     (case query P msg (snd sw) of
        (Some r, w') \<Rightarrow> (case response_data r of Some d \<Rightarrow> upd d (fst sw) | None \<Rightarrow> fst sw, w')
      | (None, w') \<Rightarrow> (fst sw, w'))"

definition note_processes :: "ResponseData \<Rightarrow> Snap \<Rightarrow> Snap" where
  "note_processes d sn =
     (case d of StringList procs \<Rightarrow> sn\<lparr>sn_processes := procs, sn_proc_count := length procs\<rparr> | _ \<Rightarrow> sn)"

definition note_memory :: "ResponseData \<Rightarrow> Snap \<Rightarrow> Snap" where
  "note_memory d sn =
     (case d of MemoryStats t u f \<Rightarrow> sn\<lparr>sn_total_frames := t, sn_used_frames := u, sn_free_frames := f\<rparr> | _ \<Rightarrow> sn)"

definition note_frames :: "ResponseData \<Rightarrow> Snap \<Rightarrow> Snap" where
  "note_frames d sn = (case d of FrameMap m \<Rightarrow> sn\<lparr>sn_frame_map := m\<rparr> | _ \<Rightarrow> sn)"

definition note_ranges :: "ResponseData \<Rightarrow> Snap \<Rightarrow> Snap" where
  "note_ranges d sn = (case d of StringList rs \<Rightarrow> sn\<lparr>sn_mem_ranges := rs\<rparr> | _ \<Rightarrow> sn)"

definition note_disk :: "ResponseData \<Rightarrow> Snap \<Rightarrow> Snap" where
  "note_disk d sn = (case d of DiskStats t u _ \<Rightarrow> sn\<lparr>sn_disk_total := ucast t, sn_disk_used := of_nat u\<rparr> | _ \<Rightarrow> sn)"

definition collect_snapshot :: "'w ShellPeers \<Rightarrow> Snap \<Rightarrow> 'w \<Rightarrow> Snap \<times> 'w" where
  "collect_snapshot P sn w =
     (case refresh P (FileMsg DiskInfo) note_disk
             (refresh P (ProcessMsg GetMemoryMap) note_ranges
               (refresh P (MemoryMsg GetFrameMap) note_frames
                 (refresh P (MemoryMsg MemoryGetStats) note_memory
                   (refresh P (ProcessMsg ProcessGetStats) note_processes (sn, w))))) of
        (sn', w') \<Rightarrow> (sn'\<lparr>sn_ticks := sh_ticks P w'\<rparr>, w'))"

section \<open>The loop\<close>

text \<open>
  One round per poll. The result says whether the monitor ended without an error; with no more rounds it still runs,
  which is \<open>None\<close>.
\<close>

fun monitor_loop :: "'w ShellPeers \<Rightarrow> (PollOutcome \<times> bool) list \<Rightarrow> Snap \<Rightarrow> 'w \<Rightarrow> (bool \<times> Snap \<times> 'w) option" where
  "monitor_loop P [] sn w = None"
| "monitor_loop P ((ev, drawn) # rounds) sn w =
     (if ev = PollFailed then Some (False, sn, w)
      else if ev \<in> set [KeyChar (CHR ''q''), KeyChar (CHR ''Q''), KeyEsc] then Some (True, sn, w)
      else (case collect_snapshot P sn w of
              (sn', w') \<Rightarrow> if drawn then monitor_loop P rounds sn' w' else Some (False, sn', w')))"

definition run_monitor :: "'w ShellPeers \<Rightarrow> 'w \<Rightarrow> (bool \<times> Snap \<times> 'w) option" where
  "run_monitor P w = monitor_loop P (sh_rounds P w) Snap_default w"

section \<open>The screen\<close>

datatype Colour = Green | Cyan | Magenta | Blue | Red | Yellow | LightRed | White | DarkGray | Plain

definition pid_color :: "u64 \<Rightarrow> Colour" where
  "pid_color n = [Green, Cyan, Magenta, Blue, Red, Yellow, LightRed, White] ! unat (n mod 8)"

definition state_color :: "string \<Rightarrow> Colour" where
  "state_color st =
     (if st = ''Running'' then Green else if st = ''Blocked'' then Yellow else if st = ''Ready'' then Blue
      else if st = ''Zombie'' then Red else Plain)"

record MonitorRow =
  row_pid :: u64
  row_state :: string
  row_name :: string
  row_frames :: nat
  row_color :: Colour

definition frames_owned :: "(u64 \<times> u64) list \<Rightarrow> u64 \<Rightarrow> nat" where
  "frames_owned fm p = length (filter (\<lambda>(_, owner). owner = p) fm)"

definition monitor_row :: "(u64 \<times> u64) list \<Rightarrow> string \<Rightarrow> MonitorRow option" where
  "monitor_row fm line =
     (case split_whitespace line of
        p # st # nm # _ \<Rightarrow>
          (let n = (case from_str_radix 10 p of Some v \<Rightarrow> of_nat v | None \<Rightarrow> 0) in
           Some \<lparr>row_pid = n, row_state = st, row_name = nm, row_frames = frames_owned fm n, row_color = state_color st\<rparr>)
      | _ \<Rightarrow> None)"

definition monitor_rows :: "Snap \<Rightarrow> MonitorRow list" where
  "monitor_rows sn = List.map_filter (monitor_row (sn_frame_map sn)) (sn_processes sn)"

text \<open>
  A cell of the memory bar stands for \<open>step\<close> frames. It shows an owner when more than seven tenths of them are owned; the
  comparison of floating-point numbers agrees with this one on integers.
\<close>

definition bar_cell :: "(u64 \<times> u64) list \<Rightarrow> Colour" where
  "bar_cell part =
     (let owned = filter (\<lambda>(_, owner). 0 < owner) part in
      if 7 * length part < 10 * length owned then pid_color (case owned of (_, owner) # _ \<Rightarrow> owner | [] \<Rightarrow> 0) else DarkGray)"

function bar_cells :: "nat \<Rightarrow> (u64 \<times> u64) list \<Rightarrow> Colour list" where
  "bar_cells step fm = (if fm = [] \<or> step = 0 then [] else bar_cell (take step fm) # bar_cells step (drop step fm))"
  by pat_completeness auto
termination
  by (relation "measure (\<lambda>(_, fm). length fm)") auto

declare bar_cells.simps [simp del]

definition memory_bar :: "nat \<Rightarrow> Snap \<Rightarrow> Colour list" where
  "memory_bar width sn =
     (let fm = sn_frame_map sn; w = max (width - 2) 40; step = max (length fm div w) 1 in bar_cells step fm)"

definition memory_lines :: "Snap \<Rightarrow> string list" where
  "memory_lines sn =
     (''  Frames: '' @ dec64 (sn_used_frames sn) @ '' used / '' @ dec64 (sn_free_frames sn) @ '' free / '' @
       dec64 (sn_total_frames sn) @ '' total'') #
     (if sn_mem_ranges sn = [] then [''  (no frames allocated)''] else map (\<lambda>r. ''  '' @ r) (sn_mem_ranges sn))"

section \<open>Rows\<close>

lemma to_digit_dec: "d < 10 \<Longrightarrow> to_digit 10 (digit_char d) = Some d"
proof -
  assume d: "d < 10"
  have "d \<in> {0, 1, 2, 3, 4, 5, 6, 7, 8, 9}" using d by (simp only: insert_iff empty_iff) presburger
  then show ?thesis by (auto simp: to_digit_def digit_char_def)
qed

lemma radix_digits_show_dec: "n < 2 ^ 64 \<Longrightarrow> radix_digits 10 0 (show_dec n) = Some n"
proof (induction "10 :: nat" n rule: digits.induct)
  case (1 n)
  show ?case
  proof (cases "n < 10")
    case True
    then show ?thesis by (simp add: show_dec_def digits.simps [of 10 n] to_digit_dec)
  next
    case False
    then have "show_dec n = show_dec (n div 10) @ [digit_char (n mod 10)]" by (simp add: show_dec_def digits.simps [of 10 n])
    moreover have "radix_digits 10 0 (show_dec (n div 10)) = Some (n div 10)" using 1 False by simp
    moreover have "n div 10 * 10 + n mod 10 = n" by simp
    ultimately show ?thesis using "1.prems" by (simp add: radix_digits_append to_digit_dec)
  qed
qed

lemma show_dec_chars: "c \<in> set (show_dec n) \<Longrightarrow> \<not> ascii_ws c \<and> c \<noteq> CHR ''+''"
proof -
  assume "c \<in> set (show_dec n)"
  then obtain d where "d \<in> set (digits 10 n)" "c = digit_char d" by (auto simp: show_dec_def)
  moreover have "d < 16" using calculation(1) digits_bound [of 10 n] by auto
  ultimately show ?thesis using digit_char_plain [of d] by auto
qed

lemma dec64_word: "is_word (dec64 p)"
  using show_dec_chars by (auto simp: is_word_def dec64_def show_dec_def)

lemma from_str_radix_dec64: "from_str_radix 10 (dec64 p) = Some (unat p)"
proof -
  obtain c t where ct: "show_dec (unat p) = c # t" by (cases "show_dec (unat p)") (auto simp: show_dec_def)
  then have "c \<noteq> CHR ''+''" using show_dec_chars [of c "unat p"] by simp
  moreover have "unat p < 2 ^ LENGTH(64)" by (rule unsigned_less)
  ultimately show ?thesis using ct radix_digits_show_dec [of "unat p"] by (simp add: dec64_def from_str_radix_def)
qed

lemma split_whitespace_blanks: "split_whitespace (replicate n CHR '' '' @ s) = split_whitespace s"
  by (induction n) (simp_all add: split_whitespace_blank)

lemma split_whitespace_pads:
  assumes "is_word w"
  shows "split_whitespace (pad_left n w @ CHR '' '' # s) = w # split_whitespace s"
    "split_whitespace (pad_right n w @ CHR '' '' # s) = w # split_whitespace s"
proof -
  show "split_whitespace (pad_left n w @ CHR '' '' # s) = w # split_whitespace s"
    by (simp add: pad_left_def split_whitespace_blanks split_whitespace_Cons [OF assms])
  have "pad_right n w @ CHR '' '' # s = w @ CHR '' '' # replicate (n - char_count w) CHR '' '' @ s"
    by (simp add: pad_right_def replicate_app_Cons_same)
  then show "split_whitespace (pad_right n w @ CHR '' '' # s) = w # split_whitespace s"
    by (simp only: split_whitespace_blanks split_whitespace_Cons [OF assms])
qed

text \<open>Every line has at least three words: the number, the state and, at the end, the number of the parent or a dash.\<close>

lemma replace_visible:
  assumes "\<not> ascii_ws c" "starts_with a (c # t) \<Longrightarrow> b \<noteq> [] \<and> \<not> ascii_ws (hd b)"
  shows "\<exists>d u. str_replace a b (c # t) = d # u \<and> \<not> ascii_ws d"
  using assms by (cases b) (auto simp: str_replace_def)

lemma stats_state_visible: "\<exists>c \<in> set (stats_state st). \<not> ascii_ws c"
proof -
  obtain c t where c: "state_debug st = c # t" "c \<in> set ''CRBTZ''" by (cases st) auto
  then have "\<not> ascii_ws c" "\<not> starts_with ''ProcessState::'' (c # t)" by (auto simp: ascii_ws_def starts_with_def strip_prefix_def)
  from replace_visible [OF this(1), of "''ProcessState::''" t "[]"] this(2)
  obtain d u where 1: "str_replace ''ProcessState::'' [] (state_debug st) = d # u" "\<not> ascii_ws d" using c(1) by auto
  obtain e v where 2: "str_replace ''Zombie { exit_code: '' ''Zombie('' (d # u) = e # v" "\<not> ascii_ws e"
    using replace_visible [OF 1(2), of "''Zombie { exit_code: ''" u "''Zombie(''"] by (auto simp: ascii_ws_def)
  obtain f w where 3: "str_replace '' }'' '')'' (e # v) = f # w" "\<not> ascii_ws f"
    using replace_visible [OF 2(2), of "'' }''" v "'')''"] by (auto simp: ascii_ws_def)
  obtain g x where "str_replace ''Blocked('' ''Blocked'' (f # w) = g # x" "\<not> ascii_ws g"
    using replace_visible [OF 3(2), of "''Blocked(''" w "''Blocked''"] by (auto simp: ascii_ws_def)
  then show ?thesis by (simp add: stats_state_def 1(1) 2(1) 3(1))
qed

lemma split_stats_line:
  "\<exists>x y rest. split_whitespace (stats_line p pcb) = dec64 p # x # y # rest \<and>
     (is_word (stats_state (pcb_state pcb)) \<longrightarrow> x = stats_state (pcb_state pcb)) \<and>
     (is_word (stats_state (pcb_state pcb)) \<and> is_word (pcb_name pcb) \<longrightarrow> y = pcb_name pcb)"
proof -
  let ?st = "stats_state (pcb_state pcb)" and ?nm = "pcb_name pcb"
  let ?par = "case parent_pid pcb of Some q \<Rightarrow> dec64 q | None \<Rightarrow> ''-''"
  have par: "is_word ?par" using dec64_word by (auto simp: is_word_def ascii_ws_def split: option.split)
  have words: "split_whitespace (pad_left n w) = split_whitespace w" for n w
    by (simp add: pad_left_def split_whitespace_blanks)
  have line: "split_whitespace (stats_line p pcb) =
      dec64 p # split_whitespace ?st @ split_whitespace (pad_right 20 ?nm) @ [?par]"
    using split_whitespace_word [OF dec64_word] split_whitespace_word [OF par]
    by (simp add: stats_line_def split_whitespace_append words del: option.case)
  obtain x xs where x: "split_whitespace ?st = x # xs"
    using stats_state_visible [of "pcb_state pcb"] split_whitespace_nonempty by (metis neq_Nil_conv)
  have nm: "split_whitespace (pad_right 20 ?nm @ CHR '' '' # []) = [?nm]" if "is_word ?nm"
    using split_whitespace_pads(2) [OF that, of 20 "[]"] by simp
  have "xs = [] \<and> x = ?st" if "is_word ?st" using split_whitespace_word [OF that] x by simp
  moreover have "split_whitespace (pad_right 20 ?nm) = [?nm]" if "is_word ?nm"
    using nm [OF that] by (simp add: split_whitespace_append)
  ultimately show ?thesis
    by (cases "xs @ split_whitespace (pad_right 20 ?nm) @ [?par]") (auto simp: line x)
qed

text \<open>The row of a process shows its number and its frames, and its state and name where these are single words.\<close>

definition row_shows :: "(u64 \<times> u64) list \<Rightarrow> 'w ProcessService \<Rightarrow> pid \<Rightarrow> MonitorRow \<Rightarrow> bool" where
  "row_shows fm s p row \<longleftrightarrow> row_pid row = p \<and> row_frames row = frames_owned fm p \<and>
     (\<forall>pcb. process_table s p = Some pcb \<and> is_word (stats_state (pcb_state pcb)) \<longrightarrow>
        row_state row = stats_state (pcb_state pcb) \<and> (is_word (pcb_name pcb) \<longrightarrow> row_name row = pcb_name pcb))"

lemma monitor_row_of_line:
  assumes "process_table s p = Some pcb"
  shows "\<exists>row. monitor_row fm (stats_line p pcb) = Some row \<and> row_shows fm s p row"
proof -
  obtain x y rest where l: "split_whitespace (stats_line p pcb) = dec64 p # x # y # rest"
    "is_word (stats_state (pcb_state pcb)) \<longrightarrow> x = stats_state (pcb_state pcb)"
    "is_word (stats_state (pcb_state pcb)) \<and> is_word (pcb_name pcb) \<longrightarrow> y = pcb_name pcb"
    using split_stats_line by blast
  then show ?thesis using assms by (auto simp: monitor_row_def from_str_radix_dec64 row_shows_def)
qed

text \<open>The states in which no block reason is printed.\<close>

lemma stats_state_words:
  "is_word (stats_state PCreating)" "is_word (stats_state PReady)" "is_word (stats_state PRunning)"
  by code_simp+

text \<open>The state of a blocked process is printed with blanks, and the row shows a brace as its name.\<close>

lemma blocked_row_garbled:
  assumes "pcb_state pcb = PBlocked (WaitingForIo 0)"
  shows "monitor_row fm (stats_line p pcb) =
    Some \<lparr>row_pid = p, row_state = ''BlockedWaitingForIo'', row_name = ''{'', row_frames = frames_owned fm p, row_color = Plain\<rparr>"
proof -
  let ?rest = "''device_id: 0))'' @ '' '' @ pad_right 20 (pcb_name pcb) @ '' '' @ pad_left 4 (case parent_pid pcb of Some q \<Rightarrow> dec64 q | None \<Rightarrow> ''-'')"
  have "pad_left 12 (stats_state (PBlocked (WaitingForIo 0))) = ''BlockedWaitingForIo'' @ CHR '' '' # ''{'' @ CHR '' '' # ''device_id: 0))''"
    by code_simp
  then have line: "stats_line p pcb = pad_left 4 (dec64 p) @ CHR '' '' # ''BlockedWaitingForIo'' @ CHR '' '' # ''{'' @ CHR '' '' # ?rest"
    by (simp add: stats_line_def assms)
  have words: "is_word ''BlockedWaitingForIo''" "is_word ''{''" by code_simp+
  have "split_whitespace (stats_line p pcb) = dec64 p # ''BlockedWaitingForIo'' # ''{'' # split_whitespace ?rest"
    unfolding line by (simp only: split_whitespace_pads [OF dec64_word] split_whitespace_Cons [OF words(1)] split_whitespace_Cons [OF words(2)])
  then show ?thesis by (simp add: monitor_row_def from_str_radix_dec64 state_color_def)
qed

lemma refresh_frame:
  "sn_processes (fst (refresh U m note_memory sw)) = sn_processes (fst sw)"
  "sn_processes (fst (refresh U m note_frames sw)) = sn_processes (fst sw)"
  "sn_processes (fst (refresh U m note_ranges sw)) = sn_processes (fst sw)"
  "sn_processes (fst (refresh U m note_disk sw)) = sn_processes (fst sw)"
  by (auto simp: refresh_def note_memory_def note_frames_def note_ranges_def note_disk_def
      split: prod.splits option.splits ResponseData.splits)

lemma collect_processes:
  assumes "sh_query U (ProcessMsg ProcessGetStats) w = (Reply r, w1)" "response_data r = Some (StringList ls)"
  shows "sn_processes (fst (collect_snapshot U sn w)) = ls"
proof -
  have "sn_processes (fst (refresh U (ProcessMsg ProcessGetStats) note_processes (sn, w))) = ls"
    using assms by (simp add: refresh_def query_def note_processes_def)
  then show ?thesis by (simp add: collect_snapshot_def case_prod_beta refresh_frame)
qed

lemma map_filter_total: "(\<forall>x \<in> set xs. f x = Some (g x)) \<Longrightarrow> List.map_filter f xs = map g xs"
  by (induction xs) (auto simp: List.map_filter_simps)

lemma map_filter_rows:
  "\<forall>p \<in> set ps. \<exists>row. f (g p) = Some row \<and> Q p row \<Longrightarrow> list_all2 Q ps (List.map_filter f (map g ps))"
  by (induction ps) (auto simp: List.map_filter_simps)


definition one_process :: "unit ProcessService" where
  "one_process = (ProcessService_new demo_mmu ())\<lparr>process_table := [1 \<mapsto> PCB_new 0 1 ''init'' None]\<rparr>"

definition answering_peers :: "string list \<Rightarrow> unit ShellPeers" where
  "answering_peers ls =
     \<lparr>sh_ask = (\<lambda>_ w. (NoReply, w)), sh_query = (\<lambda>_ w. (Reply (ResponseSuccess 0 (StringList ls)), w)), sh_tell = (\<lambda>_ w. w),
      sh_file = (\<lambda>_. Inl ''not found''), sh_rounds = (\<lambda>_. [(NoEvent, True), (KeyEsc, True)]), sh_ticks = (\<lambda>_. 0),
      bus_error_text = [], recv_error_text = ''timed out waiting on channel''\<rparr>"


section \<open>The memory bar\<close>

text \<open>The bar has one cell per \<open>step\<close> frames; rounding \<open>step\<close> down can make it almost twice as wide as the space for it.\<close>

lemma ceil_div_step:
  assumes "0 < n" "0 < (k :: nat)"
  shows "Suc ((n - k + k - 1) div k) = (n + k - 1) div k"
proof (cases "n < k")
  case True
  have "(n - 1 + k) div k = Suc ((n - 1) div k)" using assms(2) div_add_self2 [of k "n - 1"] by simp
  moreover have "n - 1 + k = n + k - 1" using assms by linarith
  moreover have "(n - 1) div k = 0" "(n - k + k - 1) div k = 0" using True assms by (auto intro!: div_less)
  ultimately show ?thesis by (simp only:)
next
  case False
  have "(n - k + k - 1 + k) div k = Suc ((n - k + k - 1) div k)" using assms(2) div_add_self2 [of k "n - k + k - 1"] by simp
  moreover have "n - k + k - 1 + k = n + k - 1" using False assms by linarith
  ultimately show ?thesis by (simp only:)
qed

lemma bar_cells_length: "0 < step \<Longrightarrow> length (bar_cells step fm) = (length fm + step - 1) div step"
proof (induction step fm rule: bar_cells.induct)
  case (1 step fm)
  show ?case
  proof (cases "fm = []")
    case False
    then have "length (bar_cells step fm) = Suc ((length (drop step fm) + step - 1) div step)"
      using 1(1) 1(2) by (subst bar_cells.simps) auto
    moreover have "0 < length fm" using False by simp
    ultimately show ?thesis using ceil_div_step [OF _ 1(2), of "length fm"] by (simp only: length_drop)
  next
    case True
    then show ?thesis using 1(2) by (simp add: bar_cells.simps [of step "[]"])
  qed
qed

lemma bar_too_wide: "length (sn_frame_map sn) = 119 \<Longrightarrow> length (memory_bar 62 sn) = 119"
  by (simp add: memory_bar_def Let_def bar_cells_length)

section \<open>Leaving the monitor\<close>

definition ends_round :: "PollOutcome \<times> bool \<Rightarrow> bool" where
  "ends_round r \<longleftrightarrow> \<not> snd r \<or> fst r \<in> set [PollFailed, KeyChar (CHR ''q''), KeyChar (CHR ''Q''), KeyEsc]"

lemma monitor_loop_returns: "list_ex ends_round rounds \<Longrightarrow> \<exists>b sn' w'. monitor_loop P rounds sn w = Some (b, sn', w')"
proof (induction rounds arbitrary: sn w)
  case (Cons r rounds)
  obtain ev drawn where r: "r = (ev, drawn)" by (cases r)
  obtain sn1 w1 where c: "collect_snapshot P sn w = (sn1, w1)" by (cases "collect_snapshot P sn w")
  show ?case using Cons c by (auto simp: r ends_round_def)
qed simp

end
