(* ===== verification/Shell.thy ===== *)
theory Shell
  imports Shell_Parser File_Service Monitor Program_Run
begin

text \<open>
  The shell (\<^verbatim>\<open>src/ui/shell/mod.rs\<close>): resolving paths against the working directory, the commands and the
  requests they send, the debugger, and the interactive loop. What the services answer is the parameter that the monitor
  has too; the input is the list of the lines that are typed. Console output is left out, and with it the
  commands that only print. A command that panics or never ends is \<open>None\<close>.
\<close>

section \<open>State\<close>

record ShellConfig =
  prompt :: string
  sc_current_pid :: pid
  echo :: bool
  show_welcome :: bool

definition ShellConfig_default :: ShellConfig where
  "ShellConfig_default = \<lparr>prompt = ''genshin-os> '', sc_current_pid = 1, echo = False, show_welcome = True\<rparr>"

record Shell =
  sh_config :: ShellConfig
  sh_parser :: ShellParser
  builtins :: environment
  cwd :: string
  sh_running :: bool
  sh_verbose :: bool
  sh_input :: "string list"

definition Shell_with_config :: "ShellConfig \<Rightarrow> string list \<Rightarrow> Shell" where
  "Shell_with_config conf input =
     \<lparr>sh_config = conf, sh_parser = ShellParser_new, builtins = BuiltinCommand_new, cwd = ''/'', sh_running = False,
      sh_verbose = False, sh_input = input\<rparr>"

definition Shell_new :: "string list \<Rightarrow> Shell" where
  "Shell_new input = Shell_with_config ShellConfig_default input"

section \<open>Paths\<close>

text \<open>
  The parts of \<^verbatim>\<open>std::path\<close> that the shell uses, on absolute paths: the components of a path, removing the last one
  with the separators and dots around it, and appending one.
\<close>

definition path_parts :: "string \<Rightarrow> string list" where
  "path_parts p = filter (\<lambda>c. c \<noteq> [] \<and> c \<noteq> ''.'') (split_char (CHR ''/'') p)"

definition last_part :: "string \<Rightarrow> string" where
  "last_part b = rev (takeWhile (\<lambda>c. c \<noteq> CHR ''/'') (rev b))"

definition before_last :: "string \<Rightarrow> string" where
  "before_last b = rev (tl (dropWhile (\<lambda>c. c \<noteq> CHR ''/'') (rev b)))"

lemma before_last_length:
  assumes "b \<noteq> []"
  shows "length (before_last b) < length b"
proof -
  have "length (dropWhile (\<lambda>c. c \<noteq> CHR ''/'') (rev b)) \<le> length (rev b)" by (rule length_dropWhile_le)
  moreover have "0 < length b" using assms by simp
  ultimately show ?thesis unfolding before_last_def length_rev length_tl by linarith
qed

function trim_right :: "string \<Rightarrow> string" where
  "trim_right b = (if b \<noteq> [] \<and> (last_part b = [] \<or> last_part b = ''.'') then trim_right (before_last b) else b)"
  by pat_completeness auto
termination
  by (relation "measure length") (simp_all add: before_last_length)

declare trim_right.simps [simp del]

definition path_pop :: "string \<Rightarrow> string" where
  "path_pop base =
     (let b = trim_right (tl base) in if b = [] then base else CHR ''/'' # trim_right (before_last b))"

definition path_push :: "string \<Rightarrow> string \<Rightarrow> string" where
  "path_push c base = base @ (if last base = CHR ''/'' then [] else ''/'') @ c"

definition resolve_path :: "string \<Rightarrow> Shell \<Rightarrow> string" where
  "resolve_path p s =
     (if starts_with ''/'' p then p
      else fold (\<lambda>c base. if c = ''..'' then path_pop base else path_push c base) (path_parts p) (cwd s))"

section \<open>Requests\<close>

definition send_and_wait :: "'w ShellPeers \<Rightarrow> KernelMsg \<Rightarrow> 'w \<Rightarrow> (string, Response) result \<times> 'w" where
  "send_and_wait P msg w =
     (case sh_ask P msg w of
        (NotSent, w') \<Rightarrow> (Inl (''Bus error: '' @ bus_error_text P), w')
      | (NoReply, w') \<Rightarrow> (Inl (''No response from service: '' @ recv_error_text P), w')
      | (Reply r, w') \<Rightarrow> (Inr r, w'))"

definition fork_exec_detach :: "'w ShellPeers \<Rightarrow> string \<Rightarrow> string list \<Rightarrow> 'w \<Rightarrow> (string, u64) result \<times> 'w" where
  "fork_exec_detach P prog args w =
     (case send_and_wait P (ProcessMsg (ForkProcess 1)) w of
        (Inl e, w1) \<Rightarrow> (Inl e, w1)
      | (Inr r, w1) \<Rightarrow>
          (case response_data r of
             Some (RPid p) \<Rightarrow>
               (case send_and_wait P (ProcessMsg (ExecProcess p prog args None)) w1 of
                  (Inl e, w2) \<Rightarrow> (Inl e, w2)
                | (Inr _, w2) \<Rightarrow> (Inr p, w2))
           | _ \<Rightarrow> (Inl ''fork failed'', w1)))"

definition fork_exec_wait :: "'w ShellPeers \<Rightarrow> string \<Rightarrow> string list \<Rightarrow> 'w \<Rightarrow> (string, unit) result \<times> 'w" where
  "fork_exec_wait P prog args w =
     (case fork_exec_detach P prog args w of
        (Inl e, w1) \<Rightarrow> (Inl e, w1)
      | (Inr p, w1) \<Rightarrow>
          (case send_and_wait P (ProcessMsg (WaitChild 1 (Some p))) w1 of
             (Inl e, w2) \<Rightarrow> (Inl e, w2)
           | (Inr _, w2) \<Rightarrow> (Inr (), w2)))"

definition parse_u64 :: "string \<Rightarrow> u64 option" where
  "parse_u64 s = map_option of_nat (from_str_radix 10 s)"

definition parse_u32 :: "string \<Rightarrow> u32 option" where
  "parse_u32 s = (case from_str_radix 10 s of Some n \<Rightarrow> if n < 2 ^ 32 then Some (of_nat n) else None | None \<Rightarrow> None)"

definition command_to_message :: "Command \<Rightarrow> KernelMsg option" where
  "command_to_message c =
     (if cmd_name c = ''run'' then map_option (\<lambda>e. SyscallMsg (CreateProcess e (tl (cmd_args c)))) (get_arg c 0)
      else if cmd_name c = ''ps'' then Some (ProcessMsg ListProcesses)
      else if cmd_name c = ''kill'' then
        map_option (\<lambda>p. ProcessMsg (Signal p
            (case get_arg c 1 of
               None \<Rightarrow> Terminate
             | Some g \<Rightarrow> if g = ''kill'' \<or> g = ''sigkill'' then Kill else if g = ''stop'' \<or> g = ''sigstop'' then Stop else Terminate)))
          (Option.bind (get_arg c 0) parse_u64)
      else if cmd_name c = ''send'' then
        Option.bind (Option.bind (get_arg c 0) parse_u64) (\<lambda>from_pid.
        Option.bind (Option.bind (get_arg c 1) parse_u64) (\<lambda>to_pid.
        map_option (\<lambda>txt. ProcessMsg (SendMessage from_pid to_pid (IpcText txt))) (get_arg c 2)))
      else if cmd_name c = ''mount'' then
        Option.bind (get_arg c 0) (\<lambda>d.
        map_option (\<lambda>mp. FileMsg (Mount (case parse_u32 d of Some n \<Rightarrow> n | None \<Rightarrow> 0) mp SimpleFS)) (get_arg c 1))
      else None)"

definition execute_kernel_command :: "'w ShellPeers \<Rightarrow> Command \<Rightarrow> 'w \<Rightarrow> (string, unit) result \<times> 'w" where
  "execute_kernel_command P c w =
     (case command_to_message c of
        None \<Rightarrow> (Inl (''Unknown command: '' @ cmd_name c), w)
      | Some msg \<Rightarrow> (Inr (), sh_tell P msg w))"

section \<open>The debugger\<close>

text \<open>
  The debugger has a processor and a memory of its own. It counts the executed instructions only to print them. The
  bytes of the instruction are taken from the program to print them; this panics when the program counter was past its end.
\<close>

partial_function (option) gdb_continue :: "VirtualCPU \<Rightarrow> VirtualCPU option" where
  "gdb_continue c =
     (if halted c then Some c
      else (case cpu_step c of
              (Inl _, c1) \<Rightarrow> Some (cpu_halt c1)
            | (Inr _, c1) \<Rightarrow> gdb_continue c1))"

fun gdb_loop :: "u8 list \<Rightarrow> string list \<Rightarrow> VirtualCPU \<Rightarrow> (VirtualCPU \<times> string list) option" where
  "gdb_loop code [] c = Some (c, [])"
| "gdb_loop code (l # ls) c =
     (let line = trim l in
      if line \<in> set [''s'', ''step'', []] then
        (if halted c then Some (c, ls)
         else (case cpu_step c of
                 (Inr _, c1) \<Rightarrow> if length code < unat (pc c) then None else gdb_loop code ls c1
               | (Inl _, c1) \<Rightarrow> gdb_loop code ls c1))
      else if line \<in> set [''c'', ''continue''] then Option.bind (gdb_continue c) (gdb_loop code ls)
      else if line \<in> set [''q'', ''quit'', ''exit''] then Some (c, ls)
      else gdb_loop code ls c)"

definition user_page :: PageFlags where
  "user_page = \<lparr>present = True, page_writable = True, user_accessible = True\<rparr>"

definition gdb_write :: "nat \<times> u8 \<Rightarrow> MMU \<Rightarrow> MMU" where
  "gdb_write ib m = (case mmu_write_u8 m 0 (of_nat (fst ib)) (snd ib) of Inl _ \<Rightarrow> m | Inr m' \<Rightarrow> m')"

definition gdb_cpu :: "u8 list \<Rightarrow> VirtualCPU option" where
  "gdb_cpu code =
     Option.bind (PhysicalMemory_new (64 * 1024)) (\<lambda>mem.
     Option.bind (MMU_new mem 4096) (\<lambda>m0.
     let m1 = (case map_page m0 0 0 0 user_page of Inl _ \<Rightarrow> m0 | Inr m \<Rightarrow> m);
         m2 = fold gdb_write (enumerate 0 code) m1 in
     Some (set_sp (set_pc (VirtualCPU_new m2 [] 0) 0) 0xFFFF)))"

definition gdb_path :: "string \<Rightarrow> string" where
  "gdb_path prog = ''programs/'' @ prog @ (if strip_suffix ''.asm'' prog = None then ''.asm'' else [])"

definition run_minigdb :: "'w ShellPeers \<Rightarrow> string \<Rightarrow> string list \<Rightarrow> ((string, unit) result \<times> string list) option" where
  "run_minigdb P prog input =
     (case sh_file P (gdb_path prog) of
        Inl e \<Rightarrow> Some (Inl (''Cannot read '' @ gdb_path prog @ '': '' @ e), input)
      | Inr asm_code \<Rightarrow>
          (case assemble asm_code of
             Inl e \<Rightarrow> Some (Inl (''Assemble error: '' @ e), input)
           | Inr code \<Rightarrow>
               Option.bind (gdb_cpu code) (\<lambda>c.
               map_option (\<lambda>(_, rest). (Inr (), rest)) (gdb_loop code input c))))"

section \<open>The processor demonstration\<close>

definition demo_program :: "u8 list" where
  "demo_program =
     [0x01, 0x00, 0x01, 0x00, 0x0A, 0x00, 0x00, 0x00,
      0x01, 0x01, 0x01, 0x00, 0x14, 0x00, 0x00, 0x00,
      0x02, 0x02, 0x00, 0x00, 0x00, 0x00, 0x00, 0x00,
      0x02, 0x02, 0x00, 0x00, 0x01, 0x00, 0x00, 0x00,
      0x03, 0x03, 0x00, 0x00, 0x02, 0x00, 0x00, 0x00,
      0xFF, 0x00, 0x00, 0x00, 0x00, 0x00, 0x00, 0x00]"

partial_function (option) demo_run :: "VirtualCPU \<Rightarrow> VirtualCPU option" where
  "demo_run c =
     (if halted c then Some c
      else (case cpu_step c of
              (Inl _, c1) \<Rightarrow> Some c1
            | (Inr _, c1) \<Rightarrow> demo_run c1))"

definition demo_setup :: "(string, VirtualCPU) result option" where
  "demo_setup =
     Option.bind (PhysicalMemory_new (64 * 1024)) (\<lambda>mem.
     Option.bind (MMU_new mem 4096) (\<lambda>m0.
     case map_page m0 0 0 0 user_page of
       Inl e \<Rightarrow> Some (Inl (''MMU: '' @ mmu_error_fmt e))
     | Inr m1 \<Rightarrow>
         (case mem_write_slice (memory m1) 0x100 demo_program of
            Inl e \<Rightarrow> Some (Inl (''Mem: '' @ memory_error_fmt e))
          | Inr mem' \<Rightarrow> Some (Inr (set_pc (VirtualCPU_new (m1\<lparr>memory := mem'\<rparr>) [] 0) 0x100)))))"

definition cpu_demo :: "(string, VirtualCPU) result option" where
  "cpu_demo =
     Option.bind demo_setup (\<lambda>r. case r of Inl e \<Rightarrow> Some (Inl e) | Inr c \<Rightarrow> map_option Inr (demo_run c))"

section \<open>Commands\<close>

text \<open>The commands on one path run the program of the same name with the resolved path.\<close>

definition path_command :: "'w ShellPeers \<Rightarrow> Command \<Rightarrow> Shell \<Rightarrow> 'w \<Rightarrow> (string, unit) result \<times> 'w" where
  "path_command P c s w =
     (case get_arg c 0 of
        None \<Rightarrow> (Inl (cmd_name c @ '': missing operand''), w)
      | Some arg \<Rightarrow> fork_exec_wait P (cmd_name c) [resolve_path arg s] w)"

definition dir_command :: "'w ShellPeers \<Rightarrow> Command \<Rightarrow> Shell \<Rightarrow> 'w \<Rightarrow> (string, unit) result \<times> 'w" where
  "dir_command P c s w =
     fork_exec_wait P (cmd_name c) [case get_arg c 0 of Some arg \<Rightarrow> resolve_path arg s | None \<Rightarrow> cwd s] w"

definition write_command :: "'w ShellPeers \<Rightarrow> Command \<Rightarrow> Shell \<Rightarrow> 'w \<Rightarrow> (string, unit) result \<times> 'w" where
  "write_command P c s w =
     (case get_arg c 0 of
        None \<Rightarrow> (Inl ''write: missing operand'', w)
      | Some arg \<Rightarrow> fork_exec_wait P ''write'' [resolve_path arg s, join_with '' '' (tl (cmd_args c))] w)"

definition cd_command :: "'w ShellPeers \<Rightarrow> Command \<Rightarrow> Shell \<Rightarrow> 'w \<Rightarrow> (string, unit) result \<times> Shell \<times> 'w" where
  "cd_command P c s w =
     (let p = (case get_arg c 0 of Some arg \<Rightarrow> arg | None \<Rightarrow> ''/''); target = resolve_path p s in
      case send_and_wait P (FileMsg (Stat target)) w of
        (Inr resp, w') \<Rightarrow>
          if response_is_success resp then (Inr (), s\<lparr>cwd := target\<rparr>, w')
          else (Inl (''cd: '' @ p @ '': Not a directory''), s, w')
      | (Inl _, w') \<Rightarrow> (Inl (''cd: '' @ p @ '': No such file or directory''), s, w'))"

definition dual_command :: "'w ShellPeers \<Rightarrow> Command \<Rightarrow> 'w \<Rightarrow> (string, unit) result \<times> 'w" where
  "dual_command P c w =
     (let prog = (case get_arg c 0 of Some a \<Rightarrow> a | None \<Rightarrow> ''busy'') in
      case fork_exec_detach P prog [] w of
        (Inl e, w1) \<Rightarrow> (Inl e, w1)
      | (Inr _, w1) \<Rightarrow>
          (case fork_exec_detach P prog [] w1 of
             (Inl e, w2) \<Rightarrow> (Inl e, w2)
           | (Inr _, w2) \<Rightarrow> (Inr (), w2)))"

text \<open>A request whose answer is only printed: a failure to answer is an error of the command, or is printed as well.\<close>

definition request_command :: "'w ShellPeers \<Rightarrow> KernelMsg \<Rightarrow> string \<Rightarrow> 'w \<Rightarrow> (string, unit) result \<times> 'w" where
  "request_command P msg prefix w =
     (case send_and_wait P msg w of (Inl e, w') \<Rightarrow> (Inl (prefix @ e), w') | (Inr _, w') \<Rightarrow> (Inr (), w'))"

definition print_command :: "'w ShellPeers \<Rightarrow> KernelMsg \<Rightarrow> 'w \<Rightarrow> (string, unit) result \<times> 'w" where
  "print_command P msg w = (Inr (), snd (send_and_wait P msg w))"

definition pid_arg :: "Command \<Rightarrow> u64" where
  "pid_arg c = (case Option.bind (get_arg c 0) parse_u64 of Some p \<Rightarrow> p | None \<Rightarrow> 1)"

definition exec_command :: "'w ShellPeers \<Rightarrow> Command \<Rightarrow> 'w \<Rightarrow> (string, unit) result \<times> 'w" where
  "exec_command P c w =
     (case cmd_args c of
        [] \<Rightarrow> (Inl ''exec: missing program'', w)
      | [prog] \<Rightarrow> request_command P (ProcessMsg (ExecProcess 1 prog [] None)) [] w
      | _ # prog # args \<Rightarrow> request_command P (ProcessMsg (ExecProcess (pid_arg c) prog args None)) [] w)"

definition run_command :: "'w ShellPeers \<Rightarrow> Command \<Rightarrow> 'w \<Rightarrow> (string, unit) result \<times> 'w" where
  "run_command P c w =
     (case cmd_args c of
        [] \<Rightarrow> (Inl ''run: missing program name'', w)
      | prog # args \<Rightarrow>
          (case fork_exec_detach P prog args w of (Inl e, w') \<Rightarrow> (Inl e, w') | (Inr _, w') \<Rightarrow> (Inr (), w')))"

text \<open>The commands that leave the shell as it is, grouped by what they do.\<close>

definition system_command :: "'w ShellPeers \<Rightarrow> Command \<Rightarrow> Shell \<Rightarrow> 'w \<Rightarrow> ((string, unit) result \<times> 'w) option" where
  "system_command P c s w =
     (if cmd_name c \<in> set [''help'', ''uptime'', ''pwd''] then Some (Inr (), w)
      else if cmd_name c \<in> set [''ls'', ''tree''] then Some (dir_command P c s w)
      else if cmd_name c \<in> set [''mkdir'', ''touch'', ''cat'', ''rm'', ''stat''] then Some (path_command P c s w)
      else if cmd_name c = ''write'' then Some (write_command P c s w)
      else if cmd_name c = ''dual'' then Some (dual_command P c w)
      else if cmd_name c = ''fork'' then Some (request_command P (ProcessMsg (ExecProcess (pid_arg c) ''fork'' [] None)) [] w)
      else if cmd_name c = ''fork2'' then Some (print_command P (ProcessMsg (ForkProcess (pid_arg c))) w)
      else if cmd_name c = ''exec'' then Some (exec_command P c w)
      else if cmd_name c = ''copy'' then
        Some (Inr (), sh_tell P (DeviceMsg (ClipboardSet (map of_char (join_with '' '' (cmd_args c))))) w)
      else if cmd_name c = ''paste'' then Some (print_command P (DeviceMsg (ClipboardGet 4096)) w)
      else if cmd_name c = ''disk'' then Some (request_command P (FileMsg DiskInfo) ''disk: '' w)
      else if cmd_name c = ''run'' then Some (run_command P c w)
      else if cmd_name c \<in> set [''ps'', ''pstree''] then Some (print_command P (ProcessMsg ListProcesses) w)
      else None)"

definition execute_command ::
    "'w ShellPeers \<Rightarrow> Command \<Rightarrow> Shell \<Rightarrow> 'w \<Rightarrow> ((string, unit) result \<times> Shell \<times> 'w) option" where
  "execute_command P c s w =
     (if cmd_name c \<in> set [''exit'', ''quit''] then Some (Inr (), s\<lparr>sh_running := False\<rparr>, w)
      else if cmd_name c = ''verbose'' then
        Some (Inr (), s\<lparr>sh_verbose := (case get_arg c 0 of Some on \<Rightarrow> on = ''on'' | None \<Rightarrow> True)\<rparr>, w)
      else if cmd_name c = ''cd'' then Some (cd_command P c s w)
      else if cmd_name c \<in> set [''pmon'', ''htop''] then map_option (\<lambda>(_, _, w'). (Inr (), s, w')) (run_monitor P w)
      else if cmd_name c = ''cpu'' then
        map_option (\<lambda>r. (case r of Inl e \<Rightarrow> Inl e | Inr _ \<Rightarrow> Inr (), s, w)) cpu_demo
      else if cmd_name c = ''minigdb'' then
        (case get_arg c 0 of
           None \<Rightarrow> Some (Inl ''minigdb: missing program'', s, w)
         | Some prog \<Rightarrow> map_option (\<lambda>(r, rest). (r, s\<lparr>sh_input := rest\<rparr>, w)) (run_minigdb P prog (sh_input s)))
      else (case system_command P c s w of
              Some (r, w') \<Rightarrow> Some (r, s, w')
            | None \<Rightarrow>
                (case builtin_execute c (builtins s) of
                   Some (r, env) \<Rightarrow> Some (r, s\<lparr>builtins := env\<rparr>, w)
                 | None \<Rightarrow> (case execute_kernel_command P c w of (r, w') \<Rightarrow> Some (r, s, w')))))"

section \<open>The interactive loop\<close>

definition execute_line ::
    "'w ShellPeers \<Rightarrow> string \<Rightarrow> Shell \<Rightarrow> 'w \<Rightarrow> ((string, unit) result \<times> Shell \<times> 'w) option" where
  "execute_line P line s w =
     (case parse (sh_parser s) line of
        None \<Rightarrow> Some (Inl (''Failed to parse command: '' @ line), s, w)
      | Some c \<Rightarrow> execute_command P c s w)"

definition read_line :: "Shell \<Rightarrow> string \<times> Shell" where
  "read_line s =
     (case sh_input s of [] \<Rightarrow> ([], s) | l # ls \<Rightarrow> (trim_end_pred ascii_ws l, s\<lparr>sh_input := ls\<rparr>))"

lemma gdb_loop_input: "gdb_loop code ls c = Some (c', rest) \<Longrightarrow> length rest \<le> length ls"
proof (induction ls arbitrary: c)
  case (Cons l ls)
  have IH: "gdb_loop code ls c2 = Some (c', rest) \<Longrightarrow> length rest \<le> Suc (length ls)" for c2
    using Cons.IH by fastforce
  show ?case using Cons.prems
    by (auto simp: Let_def bind_eq_Some_conv intro: IH split: if_splits prod.splits sum.splits)
qed simp

lemma run_minigdb_input: "run_minigdb P prog ls = Some (r, rest) \<Longrightarrow> length rest \<le> length ls"
  by (auto simp: run_minigdb_def bind_eq_Some_conv dest: gdb_loop_input split: sum.splits)

lemma cd_command_frame:
  assumes "cd_command P c s w = (r, s', w')"
  shows "s' = s \<or> s' = s\<lparr>cwd := resolve_path (case get_arg c 0 of Some arg \<Rightarrow> arg | None \<Rightarrow> ''/'') s\<rparr>"
  using assms by (auto simp: cd_command_def Let_def split: prod.splits sum.splits if_splits)

text \<open>What a command may do to the shell: only \<^verbatim>\<open>cd\<close> moves, and input is only consumed.\<close>

lemma execute_command_frame:
  assumes "execute_command P c s w = Some (r, s', w')"
  shows "length (sh_input s') \<le> length (sh_input s)" "sh_config s' = sh_config s" "sh_parser s' = sh_parser s"
    "cwd s' = cwd s \<or> cwd s' = resolve_path (case get_arg c 0 of Some arg \<Rightarrow> arg | None \<Rightarrow> ''/'') s \<and> cmd_name c = ''cd''"
  using assms run_minigdb_input [of P _ "sh_input s"]
  by (auto simp: execute_command_def dest!: cd_command_frame split: if_splits option.splits prod.splits)

function run_loop :: "'w ShellPeers \<Rightarrow> Shell \<Rightarrow> 'w \<Rightarrow> (Shell \<times> 'w) option" where
  "run_loop P s w =
     (if sh_running s then
        (case read_line s of
           (input, s1) \<Rightarrow>
             if input = [] then Some (s1, w)
             else if trim input = [] then run_loop P s1 w
             else (case execute_line P input s1 w of
                     None \<Rightarrow> None
                   | Some (_, s2, w2) \<Rightarrow> run_loop P s2 w2))
      else Some (s, w))"
  by pat_completeness auto

lemma read_line_input: "(input, s1) = read_line s \<Longrightarrow> input \<noteq> [] \<Longrightarrow> length (sh_input s1) < length (sh_input s)"
  by (auto simp: read_line_def split: list.splits)

lemma execute_line_input: "execute_line P line s w = Some (r, s', w') \<Longrightarrow> length (sh_input s') \<le> length (sh_input s)"
  by (auto simp: execute_line_def dest: execute_command_frame(1) split: option.splits)

termination run_loop
  by (relation "measure (\<lambda>(P, s, w). length (sh_input s))")
     (auto dest: read_line_input execute_line_input intro: le_less_trans [OF execute_line_input read_line_input])

declare run_loop.simps [simp del]

definition run_interactive :: "'w ShellPeers \<Rightarrow> Shell \<Rightarrow> 'w \<Rightarrow> (Shell \<times> 'w) option" where
  "run_interactive P s w = run_loop P (s\<lparr>sh_running := True\<rparr>) w"

section \<open>Resolved paths\<close>

text \<open>The specification works on the list of the components.\<close>

definition follow :: "string list \<Rightarrow> string \<Rightarrow> string list" where
  "follow ps c = (if c = ''..'' then butlast ps else ps @ [c])"

lemma split_char_append: "split_char x (a @ x # b) = split_char x a @ split_char x b"
proof (induction a)
  case (Cons c a)
  then show ?case by (cases "split_char x a") (simp_all split: list.splits)
qed simp

lemma path_parts_append [simp]: "path_parts (a @ CHR ''/'' # b) = path_parts a @ path_parts b"
  by (simp add: path_parts_def split_char_append)

lemma path_parts_Nil [simp]: "path_parts [] = []"
  by (simp add: path_parts_def)

lemma path_parts_slash [simp]: "path_parts (CHR ''/'' # b) = path_parts b"
  using path_parts_append [of "[]" b] by simp

lemma path_parts_one: "CHR ''/'' \<notin> set c \<Longrightarrow> path_parts c = (if c = [] \<or> c = ''.'' then [] else [c])"
  by (simp add: path_parts_def split_char_plain)

lemma path_parts_members: "c \<in> set (path_parts p) \<Longrightarrow> CHR ''/'' \<notin> set c \<and> c \<noteq> [] \<and> c \<noteq> ''.''"
  by (auto simp: path_parts_def dest: split_char_words)

lemma last_part_plain [simp]: "CHR ''/'' \<notin> set (last_part b)"
  by (auto simp: last_part_def dest: set_takeWhileD)

lemma path_parts_last: "path_parts b = path_parts (before_last b) @ path_parts (last_part b)"
proof (cases "CHR ''/'' \<in> set b")
  case True
  let ?d = "dropWhile (\<lambda>c. c \<noteq> CHR ''/'') (rev b)"
  have "?d \<noteq> []" using True by (simp add: dropWhile_eq_Nil_conv)
  then have "?d = CHR ''/'' # tl ?d" using hd_dropWhile [of "\<lambda>c. c \<noteq> CHR ''/''" "rev b"] by (cases ?d) auto
  then have "rev b = takeWhile (\<lambda>c. c \<noteq> CHR ''/'') (rev b) @ CHR ''/'' # tl ?d"
    using takeWhile_dropWhile_id [of "\<lambda>c. c \<noteq> CHR ''/''" "rev b"] by simp
  then have "b = before_last b @ CHR ''/'' # last_part b"
    unfolding before_last_def last_part_def by (metis append.assoc append_Cons append_Nil rev.simps(2) rev_append rev_rev_ident)
  then show ?thesis using path_parts_append by metis
next
  case False
  then have "\<forall>c \<in> set (rev b). c \<noteq> CHR ''/''" by auto
  then have "dropWhile (\<lambda>c. c \<noteq> CHR ''/'') (rev b) = []" "takeWhile (\<lambda>c. c \<noteq> CHR ''/'') (rev b) = rev b"
    unfolding dropWhile_eq_Nil_conv takeWhile_eq_all_conv by blast+
  then have "before_last b = []" "last_part b = b" unfolding before_last_def last_part_def by (simp_all only: list.sel rev.simps rev_rev_ident)
  then show ?thesis by simp
qed

lemma path_parts_trim: "path_parts (trim_right b) = path_parts b"
proof (induction b rule: trim_right.induct)
  case (1 b)
  show ?case
  proof (cases "b \<noteq> [] \<and> (last_part b = [] \<or> last_part b = ''.'')")
    case True
    then have "path_parts b = path_parts (before_last b)" using path_parts_last [of b] path_parts_one [of "last_part b"] by auto
    then show ?thesis using True 1 by (simp add: trim_right.simps [of b])
  next
    case False
    then show ?thesis by (subst trim_right.simps) auto
  qed
qed

lemma trim_right_last: "trim_right b \<noteq> [] \<Longrightarrow> last_part (trim_right b) \<noteq> [] \<and> last_part (trim_right b) \<noteq> ''.''"
proof (induction b rule: trim_right.induct)
  case (1 b)
  then show ?case
    by (cases "b \<noteq> [] \<and> (last_part b = [] \<or> last_part b = ''.'')") (auto simp: trim_right.simps [of b])
qed

lemma path_parts_pop: "path_parts (path_pop (CHR ''/'' # b)) = butlast (path_parts b)"
proof (cases "trim_right b = []")
  case True
  then have "path_parts b = []" using path_parts_trim [of b] by simp
  then show ?thesis using True by (simp add: path_pop_def)
next
  case False
  let ?t = "trim_right b"
  have "path_parts b = path_parts (before_last ?t) @ [last_part ?t]"
    using path_parts_trim [of b] path_parts_last [of ?t] path_parts_one [of "last_part ?t"] trim_right_last [OF False] by simp
  then show ?thesis using False by (simp add: path_pop_def Let_def path_parts_trim)
qed

lemma path_parts_push:
  assumes "CHR ''/'' \<notin> set c" "c \<noteq> []" "c \<noteq> ''.''"
  shows "path_parts (path_push c (CHR ''/'' # b)) = path_parts b @ [c]"
proof (cases "last (CHR ''/'' # b) = CHR ''/''")
  case True
  then obtain b' where "CHR ''/'' # b = b' @ [CHR ''/'']" by (metis append_butlast_last_id list.distinct(1))
  then have "path_push c (CHR ''/'' # b) = b' @ CHR ''/'' # c" "path_parts b = path_parts b'"
    using True path_parts_slash [of b] path_parts_append [of b' "[]"] by (auto simp: path_push_def)
  then show ?thesis using assms by (simp add: path_parts_one)
next
  case False
  then have "path_push c (CHR ''/'' # b) = (CHR ''/'' # b) @ CHR ''/'' # c" by (simp add: path_push_def)
  then show ?thesis using assms path_parts_append [of "CHR ''/'' # b" c] by (simp add: path_parts_one)
qed

lemma absolute_Cons: "starts_with ''/'' p \<longleftrightarrow> (\<exists>b. p = CHR ''/'' # b)"
  by (cases p) (auto simp: starts_with_def strip_prefix_def)

lemma path_step:
  assumes "starts_with ''/'' base" "c \<in> set (path_parts p)"
  shows "starts_with ''/'' (if c = ''..'' then path_pop base else path_push c base)"
    "path_parts (if c = ''..'' then path_pop base else path_push c base) = follow (path_parts base) c"
proof -
  obtain b where b: "base = CHR ''/'' # b" using assms(1) by (auto simp: absolute_Cons)
  show "starts_with ''/'' (if c = ''..'' then path_pop base else path_push c base)"
    by (simp add: b absolute_Cons path_pop_def path_push_def Let_def)
  show "path_parts (if c = ''..'' then path_pop base else path_push c base) = follow (path_parts base) c"
    using path_parts_members [OF assms(2)] by (simp add: b follow_def path_parts_pop path_parts_push)
qed

lemma path_steps:
  assumes "set cs \<subseteq> set (path_parts p)" "starts_with ''/'' base"
  shows "starts_with ''/'' (fold (\<lambda>c base. if c = ''..'' then path_pop base else path_push c base) cs base)
    \<and> path_parts (fold (\<lambda>c base. if c = ''..'' then path_pop base else path_push c base) cs base)
        = foldl follow (path_parts base) cs"
  using assms
proof (induction cs arbitrary: base)
  case (Cons c cs)
  have "c \<in> set (path_parts p)" "set cs \<subseteq> set (path_parts p)" using Cons.prems(1) by auto
  then show ?case using Cons.IH path_step [OF Cons.prems(2)] by simp
qed simp

lemma resolve_path_absolute: "starts_with ''/'' (cwd s) \<Longrightarrow> starts_with ''/'' (resolve_path p s)"
  using path_steps [of "path_parts p" p "cwd s"] by (simp add: resolve_path_def)

text \<open>
  C28. Paths. The shell resolves a path by editing a string as the standard library does; on the level of
  components this is the walk one expects: an absolute path is kept, a relative one is followed from the working directory,
  with \<^verbatim>\<open>..\<close> going up one component and staying at the root, \<^verbatim>\<open>.\<close> and repeated separators skipped. The
  result is absolute.
\<close>

theorem resolve_path_refines:
  assumes "starts_with ''/'' (cwd s)"
  shows "starts_with ''/'' (resolve_path p s) \<and>
    (if starts_with ''/'' p then resolve_path p s = p
     else path_parts (resolve_path p s) = foldl follow (path_parts (cwd s)) (path_parts p))"
  using path_steps [of "path_parts p" p "cwd s"] assms by (simp add: resolve_path_def)

theorem resolve_path_refines_witness:
  "path_parts (resolve_path ''../c//./d'' ((Shell_new [])\<lparr>cwd := ''/a/b/''\<rparr>)) = [''a'', ''c'', ''d'']"
  using resolve_path_refines [of "(Shell_new [])\<lparr>cwd := ''/a/b/''\<rparr>" "''../c//./d''"]
  by (simp add: starts_with_def strip_prefix_def path_parts_def follow_def)

text \<open>The prompt never leaves an absolute directory, whatever is typed.\<close>

lemma execute_line_cwd:
  "execute_line P line s w = Some (r, s', w') \<Longrightarrow> starts_with ''/'' (cwd s) \<Longrightarrow> starts_with ''/'' (cwd s')"
  by (auto simp: execute_line_def split: option.splits dest!: execute_command_frame(4) intro: resolve_path_absolute)

lemma run_loop_cwd:
  "starts_with ''/'' (cwd s) \<Longrightarrow> run_loop P s w = Some (s', w') \<Longrightarrow> starts_with ''/'' (cwd s')"
proof (induction P s w rule: run_loop.induct)
  case (1 P s w)
  obtain input s1 where r: "read_line s = (input, s1)" by (cases "read_line s")
  then have c: "cwd s1 = cwd s" by (auto simp: read_line_def split: list.splits)
  show ?case
    using 1 r c execute_line_cwd [of P input s1 w]
    by (fastforce simp: run_loop.simps [of P s w] split: if_splits option.splits)
qed

end
