(* ===== verification/Shell_Debug.thy ===== *)
theory Shell_Debug
  imports Shell
begin

text \<open>
  The programs that the shell runs on a processor of its own: the debugger runs a listing to the state that its meaning
  gives, and never returns from a page fault; the demonstration halts; and so every session without the debugger ends.
\<close>

section \<open>The memory of the debugger\<close>

definition own_mmu :: "u8 list \<Rightarrow> MMU" where
  "own_mmu d =
     \<lparr>page_tables = [0 \<mapsto> [0 \<mapsto> \<lparr>frame = 0, flags = user_page\<rparr>]],
      memory = \<lparr>mem_data = d, mem_size = 65536\<rparr>, page_size = 4096\<rparr>"

lemma own_mmu_wf: "length d = 65536 \<Longrightarrow> mmu_wf (own_mmu d)"
  by (auto simp: mmu_wf_def own_mmu_def mem_wf_def is_power_of_two_iff align_down_def user_page_def split: if_splits
      intro!: exI [of _ 12])

lemma own_mmu_start:
  "PhysicalMemory_new 65536 = Some \<lparr>mem_data = replicate 65536 0, mem_size = 65536\<rparr>"
  "MMU_new mem 4096 = Some \<lparr>page_tables = (\<lambda>_. None), memory = mem, page_size = 4096\<rparr>"
  "map_page \<lparr>page_tables = (\<lambda>_. None), memory = \<lparr>mem_data = d, mem_size = 65536\<rparr>, page_size = 4096\<rparr> 0 0 0 user_page
     = Inr (own_mmu d)"
proof -
  have "is_power_of_two 4096" unfolding is_power_of_two_iff by (intro exI [of _ 12]) simp
  then show "MMU_new mem 4096 = Some \<lparr>page_tables = (\<lambda>_. None), memory = mem, page_size = 4096\<rparr>"
    by (simp add: MMU_new_def)
qed (simp_all add: PhysicalMemory_new_def map_page_def own_mmu_def align_down_def)

lemma own_mmu_translate:
  assumes "i < 4096"
  shows "translate (own_mmu d) 0 (of_nat i) a = Inr (of_nat i)"
proof -
  have "align_down (own_mmu d) (of_nat i) = of_nat i AND NOT (mask 12)"
    by (rule align_down_mask) (simp add: own_mmu_def)
  then have "unat (align_down (own_mmu d) (of_nat i)) = unat (of_nat i :: u64) div 2 ^ 12 * 2 ^ 12"
    by (simp only: and_not_mask_div)
  then have "unat (align_down (own_mmu d) (of_nat i)) = 0" using assms by (simp add: unat_of_nat)
  then have "align_down (own_mmu d) (of_nat i) = 0" by (simp only: unat_eq_0)
  then show ?thesis by (cases a) (simp_all add: translate_def own_mmu_def user_page_def Let_def)
qed

lemma own_mmu_read:
  assumes "i < 4096" "length d = 65536"
  shows "mmu_read_u8 (own_mmu d) 0 (of_nat i) = Inr (d ! i)"
  using own_mmu_translate [OF assms(1), of d Read] assms
  by (simp add: mmu_read_u8_def own_mmu_def mem_read_u8_in mem_wf_def unat_of_nat)

lemma own_mmu_write:
  assumes "i < 4096" "length d = 65536"
  shows "gdb_write (i, b) (own_mmu d) = own_mmu (d[i := b])"
proof -
  have "check_bounds \<lparr>mem_data = d, mem_size = 65536\<rparr> i 1 = Inr ()"
    using assms by (simp add: check_bounds_def checked_add_usize_def)
  then show ?thesis
    using own_mmu_translate [OF assms(1), of d Write] assms
    by (simp add: gdb_write_def mmu_write_u8_def own_mmu_def mem_write_u8_def unat_of_nat)
qed

lemma own_mmu_load:
  assumes "k + length code \<le> 4096" "length d = 65536"
  shows "\<exists>d'. fold gdb_write (enumerate k code) (own_mmu d) = own_mmu d' \<and> length d' = 65536 \<and>
    (\<forall>j < 65536. d' ! j = (if k \<le> j \<and> j < k + length code then code ! (j - k) else d ! j))"
  using assms
proof (induction code arbitrary: k d)
  case (Cons b code)
  from Cons.IH [of "Suc k" "d[k := b]"] Cons.prems obtain d' where
    d': "fold gdb_write (enumerate (Suc k) code) (own_mmu (d[k := b])) = own_mmu d'" "length d' = 65536"
    "\<forall>j < 65536. d' ! j = (if Suc k \<le> j \<and> j < Suc k + length code then code ! (j - Suc k) else d[k := b] ! j)"
    by auto
  have "\<forall>j < 65536. d' ! j = (if k \<le> j \<and> j < k + length (b # code) then (b # code) ! (j - k) else d ! j)"
    using d'(3) Cons.prems by (auto simp: nth_Cons' nth_list_update)
  then show ?case using d'(1,2) Cons.prems own_mmu_write [of k d b] by auto
qed auto

section \<open>Running to the end\<close>

lemma gdb_continue_run:
  assumes "run_cpu n c = (Inr (), c')" "halted c'"
  shows "gdb_continue c = Some c'"
  using assms
proof (induction n arbitrary: c)
  case 0
  then show ?case by (simp add: gdb_continue.simps)
next
  case (Suc n)
  then show ?case
    by (subst gdb_continue.simps) (auto simp: cpu_step_def [of c] split: prod.splits sum.splits)
qed

lemma demo_run_run:
  assumes "run_cpu n c = (Inr (), c')" "halted c'"
  shows "demo_run c = Some c'"
  using assms
proof (induction n arbitrary: c)
  case 0
  then show ?case by (simp add: demo_run.simps)
next
  case (Suc n)
  then show ?case
    by (subst demo_run.simps) (auto simp: cpu_step_def [of c] split: prod.splits sum.splits)
qed

text \<open>A page fault is never served in the debugger, so that continuing never returns.\<close>

lemma gdb_continue_fault: "gdb_continue c = Some c' \<Longrightarrow> halted c \<or> \<not> pagefault_pending c"
proof (rule gdb_continue.raw_induct [of "\<lambda>c c'. halted c \<or> \<not> pagefault_pending c"])
  fix f c c'
  assume IH: "\<And>c c'. f c = Some c' \<Longrightarrow> halted c \<or> \<not> pagefault_pending c"
    and ret: "(if halted c then Some c else case cpu_step c of (Inl _, c1) \<Rightarrow> Some (cpu_halt c1) | (Inr _, c1) \<Rightarrow> f c1) = Some c'"
  show "halted c \<or> \<not> pagefault_pending c"
  proof (rule ccontr)
    assume stuck: "\<not> (halted c \<or> \<not> pagefault_pending c)"
    then have "cpu_step c = (Inr (), c)" by (simp add: cpu_step_def)
    with ret stuck have "f c = Some c'" by simp
    with IH stuck show False by blast
  qed
qed

lemma gdb_continue_hangs: "\<not> halted c \<Longrightarrow> pagefault_pending c \<Longrightarrow> gdb_continue c = None"
  using gdb_continue_fault by (cases "gdb_continue c") auto

text \<open>A step past the end of the program panics when its bytes are printed.\<close>

lemma gdb_step_past_end:
  "\<not> halted c \<Longrightarrow> pagefault_pending c \<Longrightarrow> length code < unat (pc c) \<Longrightarrow> gdb_loop code (''s'' # ls) c = None"
  by (simp add: cpu_step_def trim_def trim_start_pred_def trim_end_pred_def ascii_ws_def)

section \<open>Listings in the debugger\<close>

lemma gdb_cpu_loaded:
  assumes "length code \<le> 4096" "gdb_cpu code = Some c"
  shows "loaded c 0 code" "cpu_wf c" "page_size (mmu c) = 4096" "mmu_wf (mmu c)"
proof -
  obtain d where d: "fold gdb_write (enumerate 0 code) (own_mmu (replicate 65536 0)) = own_mmu d" "length d = 65536"
    "\<forall>j < 65536. d ! j = (if j < length code then code ! j else replicate 65536 0 ! j)"
    using own_mmu_load [of 0 code "replicate 65536 0"] assms(1) by auto
  have c: "c = set_sp (set_pc (VirtualCPU_new (own_mmu d) [] 0) 0) 0xFFFF"
    using assms(2) d(1) by (simp add: gdb_cpu_def own_mmu_start)
  have "mmu_read_u8 (own_mmu d) 0 (of_nat j) = Inr (code ! j)" if "j < length code" for j
    using own_mmu_read [of j d] d(2,3) that assms(1) by simp
  then show "loaded c 0 code" by (simp add: c loaded_def set_sp_def set_pc_def VirtualCPU_new_def)
  show "mmu_wf (mmu c)" using own_mmu_wf [OF d(2)] by (simp add: c set_sp_def set_pc_def VirtualCPU_new_def)
  then show "cpu_wf c" by (simp add: c cpu_wf_def reg_count_def set_sp_def set_pc_def VirtualCPU_new_def)
  show "page_size (mmu c) = 4096" by (simp add: c own_mmu_def set_sp_def set_pc_def VirtualCPU_new_def)
qed

text \<open>
  C25. The debugger runs what was written. For a program of at most one page without stores, the command \<^verbatim>\<open>c\<close>
  leaves the debugger's processor, after assembling, loading byte by byte, fetching and decoding, in exactly the state in
  which the listing itself ends, and the session goes on with the rest of the input.
\<close>

theorem gdb_runs_listing:
  assumes "assemble (listing is) = Inr code" "length is \<le> 512" "list_all (\<lambda>i. \<not> is_store i) is"
    and "gdb_cpu code = Some c" "run_listing 0 is n c = Some c'" "halted c'"
  shows "gdb_loop code (''c'' # ls) c = gdb_loop code ls c'"
proof -
  have "is \<noteq> []" using assms(1) by (auto simp: listing_def assemble_def str_lines_def)
  then have "length code \<le> 4096" using assms(1,2) assemble_listing_eq isa.length_program [of "is"] by simp
  note mem = gdb_cpu_loaded [OF this assms(4)]
  have "run_cpu n c = (Inr (), c')" by (rule listing_runs [OF assms(1) mem(1) assms(3) mem(2) _ _ assms(5)]) (simp_all add: mem)
  then have "gdb_continue c = Some c'" by (rule gdb_continue_run) (rule assms(6))
  then show ?thesis by (simp add: trim_def trim_start_pred_def trim_end_pred_def ascii_ws_def)
qed

lemma gdb_cpu_start: "\<exists>m. gdb_cpu code = Some (set_sp (set_pc (VirtualCPU_new m [] 0) 0) 0xFFFF)"
  by (simp add: gdb_cpu_def own_mmu_start) blast

definition short_listing :: "Instruction list" where
  "short_listing = [Mov R0 (Imm 5), Add R0 (Reg R0), Halt]"

lemma short_listing_runs:
  "\<exists>c'. run_listing 0 short_listing 3 (set_sp (set_pc (VirtualCPU_new m [] 0) 0) 0xFFFF) = Some c' \<and> halted c'
     \<and> read_register c' R0 = 10"
  by (simp add: short_listing_def numeral_3_eq_3 line_at_def Let_def set_sp_def set_pc_def VirtualCPU_new_def trunc_operand_def
      trunc32_def cpu_defs read_operand_def read_register_def reg_idx_def dvd_def)

theorem gdb_runs_listing_witness:
  "\<exists>code c c'. assemble (listing short_listing) = Inr code \<and> gdb_cpu code = Some c \<and>
     gdb_loop code [''c''] c = Some (c', []) \<and> read_register c' R0 = 10"
proof -
  have s: "length short_listing \<le> 512" "list_all (\<lambda>i. \<not> is_store i) short_listing" "short_listing \<noteq> []"
    by (simp_all add: short_listing_def is_store_def)
  define code where "code = concat (map encode_instr short_listing)"
  have a: "assemble (listing short_listing) = Inr code" using assemble_listing_eq s(3) code_def by simp
  obtain m where m: "gdb_cpu code = Some (set_sp (set_pc (VirtualCPU_new m [] 0) 0) 0xFFFF)" using gdb_cpu_start by blast
  obtain c' where c': "run_listing 0 short_listing 3 (set_sp (set_pc (VirtualCPU_new m [] 0) 0) 0xFFFF) = Some c'" "halted c'"
    "read_register c' R0 = 10"
    using short_listing_runs [of m] by auto
  show ?thesis using gdb_runs_listing [OF a s(1,2) m c'(1,2), of "[]"] a m c'(3) by auto
qed

section \<open>The demonstration halts\<close>

definition demo_listing :: "Instruction list" where
  "demo_listing = [Mov R0 (Imm 10), Mov R1 (Imm 20), Add R2 (Reg R0), Add R2 (Reg R1), Sub R3 (Reg R2), Halt]"

lemma demo_encoded: "concat (map encode_instr demo_listing) = demo_program"
  by code_simp

lemma four_registers: "replicate 4 (0 :: u64) = [0, 0, 0, 0]"
  by code_simp

lemma demo_listing_runs:
  "\<exists>c'. run_listing 0x100 demo_listing (Suc (Suc (Suc (Suc (Suc (Suc 0)))))) (set_pc (VirtualCPU_new m [] 0) 0x100) = Some c' \<and> halted c'
     \<and> registers c' = [10, 20, 30, - 30] \<and> instruction_count c' = 6"
  by (simp add: demo_listing_def four_registers line_at_def Let_def set_pc_def VirtualCPU_new_def trunc_operand_def
      trunc32_def cpu_defs read_operand_def read_register_def reg_idx_def)

lemma demo_cpu_loaded:
  "\<exists>d. length d = 65536 \<and> (\<forall>j < length demo_program. d ! (256 + j) = demo_program ! j) \<and>
     demo_setup = Some (Inr (set_pc (VirtualCPU_new (own_mmu d) [] 0) 0x100))"
proof -
  let ?d = "overwrite 256 demo_program (replicate 65536 (0 :: u8))"
  have len: "256 + length demo_program \<le> length (replicate 65536 (0 :: u8))" by (simp add: demo_program_def)
  have "check_bounds \<lparr>mem_data = replicate 65536 0, mem_size = 65536\<rparr> 256 (length demo_program) = Inr ()"
    by (simp add: check_bounds_def checked_add_usize_def demo_program_def)
  then have "demo_setup = Some (Inr (set_pc (VirtualCPU_new (own_mmu ?d) [] 0) 0x100))"
    by (simp add: demo_setup_def own_mmu_start mem_write_slice_def) (simp add: own_mmu_def)
  moreover have "?d ! (256 + j) = demo_program ! j" if "j < length demo_program" for j
    using nth_overwrite [OF len, of "256 + j"] that len by simp
  ultimately show ?thesis using length_overwrite [OF len] by (intro exI [of _ ?d]) (simp add: len)
qed

lemma cpu_demo_halts:
  "\<exists>c. cpu_demo = Some (Inr c) \<and> halted c \<and> registers c = [10, 20, 30, - 30] \<and> instruction_count c = 6"
proof -
  obtain d where d: "length d = 65536" "\<forall>j < length demo_program. d ! (256 + j) = demo_program ! j"
    "demo_setup = Some (Inr (set_pc (VirtualCPU_new (own_mmu d) [] 0) 0x100))"
    using demo_cpu_loaded by blast
  let ?c = "set_pc (VirtualCPU_new (own_mmu d) [] 0) 0x100"
  have "mmu_read_u8 (own_mmu d) 0 (0x100 + of_nat j) = Inr (demo_program ! j)" if "j < length demo_program" for j
  proof -
    have "256 + j < 4096" using that by (simp add: demo_program_def)
    from own_mmu_read [OF this d(1)] d(2) that show ?thesis by simp
  qed
  then have "loaded ?c 0x100 (concat (map encode_instr demo_listing))"
    by (simp add: loaded_def demo_encoded set_pc_def VirtualCPU_new_def)
  moreover have "cpu_wf ?c" "page_size (mmu ?c) = 4096"
    using own_mmu_wf [OF d(1)] by (simp_all add: cpu_wf_def reg_count_def set_pc_def VirtualCPU_new_def own_mmu_def)
  moreover obtain c' where c': "run_listing 0x100 demo_listing (Suc (Suc (Suc (Suc (Suc (Suc 0)))))) ?c = Some c'" "halted c'"
    "registers c' = [10, 20, 30, - 30]" "instruction_count c' = 6"
    using demo_listing_runs [of "own_mmu d"] by blast
  moreover have "list_all (\<lambda>i. \<not> is_store i) demo_listing" by (simp add: demo_listing_def is_store_def)
  ultimately have "run_cpu (Suc (Suc (Suc (Suc (Suc (Suc 0)))))) ?c = (Inr (), c')"
    by (intro encoded_runs [of ?c "0x100" demo_listing]) simp_all
  then have "demo_run ?c = Some c'" by (rule demo_run_run) (rule c'(2))
  then have "cpu_demo = Some (Inr c')" by (simp add: cpu_demo_def d(3))
  then show ?thesis using c'(2-4) by blast
qed

section \<open>Sessions\<close>

definition no_debugger :: "Shell \<Rightarrow> bool" where
  "no_debugger s \<longleftrightarrow>
     list_all (\<lambda>l. case parse (sh_parser s) (trim_end_pred ascii_ws l) of None \<Rightarrow> True | Some c \<Rightarrow> cmd_name c \<noteq> ''minigdb'') (sh_input s)"

definition monitor_left :: "'w ShellPeers \<Rightarrow> bool" where
  "monitor_left P \<longleftrightarrow> (\<forall>w. list_ex ends_round (sh_rounds P w))"

text \<open>The lines at which a session ends: blank ones, and the commands exit and quit.\<close>

definition last_line :: "ShellParser \<Rightarrow> string \<Rightarrow> bool" where
  "last_line pa l \<longleftrightarrow>
     (let i = trim_end_pred ascii_ws l in
      i = [] \<or> (case parse pa i of None \<Rightarrow> False | Some c \<Rightarrow> cmd_name c \<in> set [''exit'', ''quit'']))"

definition left_over :: "ShellParser \<Rightarrow> string list \<Rightarrow> string list" where
  "left_over pa ls = drop 1 (dropWhile (\<lambda>l. \<not> last_line pa l) ls)"

lemma execute_command_returns:
  assumes "cmd_name c \<noteq> ''minigdb''" "monitor_left P"
  shows "\<exists>r s' w'. execute_command P c s w = Some (r, s', w') \<and> sh_input s' = sh_input s \<and>
    (sh_running s' \<longleftrightarrow> sh_running s \<and> cmd_name c \<notin> set [''exit'', ''quit''])"
proof -
  obtain d where d: "cpu_demo = Some d" using cpu_demo_halts by blast
  obtain b sn w2 where m: "run_monitor P w = Some (b, sn, w2)"
    using monitor_loop_returns [of "sh_rounds P w" P Snap_default w] assms(2) by (auto simp: run_monitor_def monitor_left_def)
  obtain r s' w' where cd: "cd_command P c s w = (r, s', w')" by (cases "cd_command P c s w")
  have "sh_input s' = sh_input s" "sh_running s' = sh_running s" using cd_command_frame [OF cd] by auto
  then show ?thesis using assms(1) cd m by (auto simp: execute_command_def d split: option.splits prod.splits)
qed

lemma execute_line_returns:
  assumes "case parse (sh_parser s) line of None \<Rightarrow> True | Some c \<Rightarrow> cmd_name c \<noteq> ''minigdb''" "monitor_left P"
  shows "\<exists>r s' w'. execute_line P line s w = Some (r, s', w') \<and> sh_input s' = sh_input s \<and> sh_parser s' = sh_parser s \<and>
    (sh_running s' \<longleftrightarrow> sh_running s \<and> (case parse (sh_parser s) line of None \<Rightarrow> True | Some c \<Rightarrow> cmd_name c \<notin> set [''exit'', ''quit'']))"
proof (cases "parse (sh_parser s) line")
  case (Some c)
  then obtain r s' w' where e: "execute_command P c s w = Some (r, s', w')" "sh_input s' = sh_input s"
    "sh_running s' \<longleftrightarrow> sh_running s \<and> cmd_name c \<notin> set [''exit'', ''quit'']"
    using execute_command_returns [of c P s w] assms by auto
  then show ?thesis using Some execute_command_frame(3) [OF e(1)] by (simp add: execute_line_def)
qed (simp add: execute_line_def)

lemma parse_blank: "trim l = [] \<Longrightarrow> parse pa l = None"
  by (simp add: parse_def)

lemma stopped_loop: "\<not> sh_running s \<Longrightarrow> run_loop P s w = Some (s, w)"
  by (subst run_loop.simps) simp

text \<open>One round of the loop.\<close>

lemma run_loop_round:
  assumes "monitor_left P" "no_debugger s" "sh_running s" "sh_input s = l # ls" "trim_end_pred ascii_ws l \<noteq> []"
  obtains s2 w2 where "run_loop P s w = run_loop P s2 w2" "sh_input s2 = ls" "sh_parser s2 = sh_parser s" "no_debugger s2"
    "sh_running s2 \<longleftrightarrow> \<not> last_line (sh_parser s) l"
proof -
  let ?i = "trim_end_pred ascii_ws l" and ?s1 = "s\<lparr>sh_input := ls\<rparr>"
  have r: "read_line s = (?i, ?s1)" using assms(4) by (simp add: read_line_def)
  have n: "no_debugger ?s1" "case parse (sh_parser ?s1) ?i of None \<Rightarrow> True | Some c \<Rightarrow> cmd_name c \<noteq> ''minigdb''"
    using assms(2,4) by (simp_all add: no_debugger_def)
  obtain a s2 w2 where e: "execute_line P ?i ?s1 w = Some (a, s2, w2)" "sh_input s2 = ls" "sh_parser s2 = sh_parser s"
    "sh_running s2 \<longleftrightarrow> (case parse (sh_parser s) ?i of None \<Rightarrow> True | Some c \<Rightarrow> cmd_name c \<notin> set [''exit'', ''quit''])"
    using execute_line_returns [OF n(2) assms(1), of w] assms(3) by auto
  have last: "last_line (sh_parser s) l \<longleftrightarrow> (case parse (sh_parser s) ?i of None \<Rightarrow> False | Some c \<Rightarrow> cmd_name c \<in> set [''exit'', ''quit''])"
    using assms(5) by (simp add: last_line_def)
  show thesis
  proof (cases "trim ?i = []")
    case True
    then have "run_loop P s w = run_loop P ?s1 w" using assms(3,5) r by (subst run_loop.simps) simp
    then show thesis using that [of ?s1 w] n(1) last assms(3) parse_blank [OF True] by simp
  next
    case False
    then have "run_loop P s w = run_loop P s2 w2" using assms(3,5) r e(1) by (subst run_loop.simps) simp
    moreover have "no_debugger s2" using n(1) e by (simp add: no_debugger_def)
    ultimately show thesis using that [of s2 w2] e last by (auto split: option.splits)
  qed
qed

lemma run_loop_returns:
  assumes "monitor_left P"
  shows "no_debugger s \<Longrightarrow> sh_running s \<Longrightarrow>
    \<exists>s' w'. run_loop P s w = Some (s', w') \<and> sh_input s' = left_over (sh_parser s) (sh_input s)"
proof (induction "sh_input s" arbitrary: s w)
  case Nil
  then show ?case by (subst run_loop.simps) (simp add: read_line_def left_over_def)
next
  case (Cons l ls)
  note input = Cons.hyps(2) [symmetric]
  show ?case
  proof (cases "trim_end_pred ascii_ws l = []")
    case True
    then have "last_line (sh_parser s) l" by (simp add: last_line_def)
    then show ?thesis using True Cons.prems(2) input by (subst run_loop.simps) (simp add: read_line_def left_over_def)
  next
    case False
    from assms Cons.prems input False obtain s2 w2 where s2: "run_loop P s w = run_loop P s2 w2" "sh_input s2 = ls"
      "sh_parser s2 = sh_parser s" "no_debugger s2" "sh_running s2 \<longleftrightarrow> \<not> last_line (sh_parser s) l"
      by (rule run_loop_round)
    show ?thesis
    proof (cases "last_line (sh_parser s) l")
      case True
      then show ?thesis using s2 stopped_loop [of s2 P w2] input by (simp add: left_over_def)
    next
      case False
      then show ?thesis using Cons.hyps(1) [OF s2(2) [symmetric] s2(4), of w2] s2 input by (simp add: left_over_def)
    qed
  qed
qed

text \<open>
  C26. Every session ends, and where. As long as no line starts the debugger and the monitor is left by a key whenever
  it is started, and whatever the services answer or fail to answer, the shell returns; it has read the lines up to
  the first blank one or the first command exit or quit, that line included, or all of them if there is none, and leaves the
  rest unread; and the working directory it ends in is an absolute path again. That a blank line ends the session
  is how the code tells the end of the input.
\<close>

theorem shell_session_ends:
  assumes "monitor_left P" "no_debugger s" "starts_with ''/'' (cwd s)"
  shows "\<exists>s' w'. run_interactive P s w = Some (s', w') \<and> sh_input s' = left_over (sh_parser s) (sh_input s) \<and>
    starts_with ''/'' (cwd s')"
proof -
  let ?s = "s\<lparr>sh_running := True\<rparr>"
  have "no_debugger ?s" using assms(2) by (simp add: no_debugger_def)
  from run_loop_returns [OF assms(1) this, of w] obtain s' w' where "run_interactive P s w = Some (s', w')"
    "sh_input s' = left_over (sh_parser s) (sh_input s)" by (auto simp: run_interactive_def)
  moreover have "starts_with ''/'' (cwd ?s)" using assms(3) by simp
  ultimately show ?thesis using run_loop_cwd [of ?s P w s' w'] by (auto simp: run_interactive_def)
qed

theorem shell_session_ends_witness:
  "\<exists>s' w'. run_interactive (answering_peers []) (Shell_new [''cpu'', ''cd ..'', ''htop'', ''exit'', ''ps'']) () = Some (s', w') \<and>
     sh_input s' = [''ps'']"
proof -
  let ?s = "Shell_new [''cpu'', ''cd ..'', ''htop'', ''exit'', ''ps'']"
  have "no_debugger ?s" by code_simp
  moreover have "starts_with ''/'' (cwd ?s)" by code_simp
  moreover have "left_over (sh_parser ?s) (sh_input ?s) = [''ps'']" by code_simp
  moreover have "monitor_left (answering_peers [])"
    by (simp add: monitor_left_def answering_peers_def ends_round_def)
  ultimately show ?thesis using shell_session_ends [of "answering_peers []" ?s "()"] by auto
qed

end
