(* ===== verification/Startup.thy ===== *)
theory Startup
  imports Shell_Debug Process_Invariant Memory_Service Device_Service Hw_Timer
begin

text \<open>
  Start-up (\<^verbatim>\<open>src/main.rs\<close>): the hardware, the bus, the kernel, the timer, the services and the shell are created and
  connected. \<open>boot\<close> is the state in which the kernel, the timer, the process, memory and file service and the shell have
  been created; the device service is created by a thread of its own, \<open>device_start\<close>, at any time after that. The host's files and
  what the process service sees of its peers are arguments.
\<close>

text \<open>A service that is handed a receiver keeps it: the channel it reads from is a field beside the service.\<close>

record 'w System =
  sys_mmu :: MMU
  sys_bus :: LockedBus
  sys_kernel :: Kernel
  sys_timer :: HwTimer
  sys_process :: "'w ProcessService"
  sys_process_rx :: chan
  sys_intr_rx :: chan
  sys_memory :: MemoryService
  sys_memory_rx :: chan
  sys_file :: FileService
  sys_file_rx :: chan
  sys_device :: "(DeviceService \<times> chan) option"
  sys_shell :: Shell

text \<open>The channels that are created are numbered: the kernel's subscription 0, the four that the kernel makes 1 to 4, the subscription of the device service 5.\<close>

definition boot ::
    "('json \<Rightarrow> SavedNode list option) \<Rightarrow> 'json option \<Rightarrow> u8 list \<Rightarrow> u8 list \<Rightarrow> string list \<Rightarrow> 'w \<Rightarrow> 'w System option" where
  "boot de txt disk_img swap_img input w =
     Option.bind (PhysicalMemory_new (4 * 1024 * 1024)) (\<lambda>hw_memory.
     Option.bind (MMU_new hw_memory 4096) (\<lambda>m.
     case Kernel_new LockedBus_new 0 1 2 3 4 of
       ((kern, prx, irx, mrx, frx), bus) \<Rightarrow>
         (let timer = Timer_new \<lparr>tick_interval_ms = 10, auto_start = True\<rparr>; process = ProcessService_new m w in
          Option.bind (MemoryService_new hw_memory m swap_img) (\<lambda>memory.
          Option.bind (FileService_new de txt 256 (1024 * 1024) disk_img) (\<lambda>file.
          Some \<lparr>sys_mmu = m, sys_bus = bus, sys_kernel = kern, sys_timer = timer,
                sys_process = process, sys_process_rx = prx, sys_intr_rx = irx,
                sys_memory = memory, sys_memory_rx = mrx, sys_file = file, sys_file_rx = frx,
                sys_device = None, sys_shell = Shell_new input\<rparr>)))))"

definition device_start :: "('w, 'a) System_scheme \<Rightarrow> ('w, 'a) System_scheme" where
  "device_start sys =
     (case bus_subscribe (sys_bus sys) 5 of
        (bus, rx) \<Rightarrow> sys\<lparr>sys_bus := bus, sys_device := Some (DeviceService_new, rx)\<rparr>)"

section \<open>Deliveries\<close>

text \<open>A request on the bus goes to all subscribers; the kernel passes its copy on.\<close>

definition delivered :: "'w System \<Rightarrow> KernelMsg \<Rightarrow> u64 \<Rightarrow> chan \<Rightarrow> (chan \<times> Envelope) list" where
  "delivered sys msg next_id tx =
     (let sent = snd (fst (bus_send_request (sys_bus sys) msg next_id tx)); rx = kernel_rx (sys_kernel sys) in
      kernel_run (sys_kernel sys) (sent_to rx sent) @ filter (\<lambda>(c, _). c \<noteq> rx) sent)"

text \<open>The channel that the service for a kind of message reads from, if there is one already.\<close>

definition service_receiver :: "'w System \<Rightarrow> KernelMsg \<Rightarrow> chan option" where
  "service_receiver sys msg =
     (case msg of
        ProcessMsg _ \<Rightarrow> Some (sys_process_rx sys)
      | SyscallMsg _ \<Rightarrow> Some (sys_process_rx sys)
      | InterruptMsg _ \<Rightarrow> Some (sys_intr_rx sys)
      | MemoryMsg _ \<Rightarrow> Some (sys_memory_rx sys)
      | FileMsg _ \<Rightarrow> Some (sys_file_rx sys)
      | DeviceMsg _ \<Rightarrow> map_option snd (sys_device sys))"

section \<open>The system is ready\<close>

lemma boot_memory_service:
  assumes "PhysicalMemory_new (4 * 1024 * 1024) = Some mem" "MMU_new mem 4096 = Some m"
  shows "\<exists>ms. MemoryService_new mem m img = Some ms \<and> ms_wf ms \<and> hw_mmu ms = m"
proof -
  have mem: "mem_size mem = 4194304" "mem_wf mem" "page_tables m = (\<lambda>_. None)" "page_size m = 4096"
    using assms by (auto simp: PhysicalMemory_new_def MMU_new_def mem_wf_def split: if_splits)
  have wf: "mmu_wf m" using MMU_new_wf [OF mem(2) assms(2)] .
  obtain fa where fa: "FrameAllocator_new 4194304 4096 = Some fa" "frame_size fa = 4096" "total_frames fa = 1024"
    by (simp add: FrameAllocator_new_def Let_def)
  obtain d where d: "VirtualDisk_new 256 img = Some d" by (simp add: VirtualDisk_new_def Let_def)
  obtain sw where sw: "SwapManager_new SwapConfig_default d = Some sw"
    by (simp add: SwapManager_new_def SwapConfig_default_def Let_def)
  have "exclusive fa m" using mem(3) by (simp add: exclusive_def entry_at_def)
  then have "frames_wf fa m" using FrameAllocator_new_wf [OF fa(1)] fa wf mem(4) by (simp add: frames_wf_def)
  then show ?thesis using d sw mem(1) fa(1)
    by (simp add: MemoryService_new_def PhysicalMemoryManager_new_def ms_wf_def)
qed

lemma boot_file_service: "\<exists>fs. FileService_new de txt 256 (1024 * 1024) img = Some fs"
  by (simp add: FileService_new_def VirtualDisk_new_def Let_def)

lemma ps_inv_start: "ps_inv 1 (ProcessService_new m w)"
  by (simp add: ps_inv_def ProcessService_new_def sched_wf_def Scheduler_new_def)

definition boot_kernel :: Kernel where
  "boot_kernel = \<lparr>kernel_rx = 0, process_tx = 1, intr_tx = 2, memory_tx = 3, file_tx = 4\<rparr>"

text \<open>How a system is wired, apart from the device service.\<close>

definition wired :: "('w, 'a) System_scheme \<Rightarrow> bool" where
  "wired sys \<longleftrightarrow> sys_kernel sys = boot_kernel \<and> sys_process_rx sys = 1 \<and> sys_intr_rx sys = 2 \<and> sys_memory_rx sys = 3 \<and> sys_file_rx sys = 4"

lemma boot_parts:
  obtains sys where "boot de txt disk_img swap_img input w = Some sys" "subscribers (sys_bus sys) = [0]" "wired sys"
    "sys_device sys = None" "ms_wf (sys_memory sys)" "hw_mmu (sys_memory sys) = sys_mmu sys"
    "sys_process sys = ProcessService_new (sys_mmu sys) w"
    "load_from_file de txt = None \<longrightarrow> fs_vfs (sys_file sys) = VirtualFileSystem_new"
proof -
  obtain mem where mem: "PhysicalMemory_new (4 * 1024 * 1024) = Some mem" by (simp add: PhysicalMemory_new_def)
  obtain m where m: "MMU_new mem 4096 = Some m" by (simp add: own_mmu_start)
  obtain ms where ms: "MemoryService_new mem m swap_img = Some ms" "ms_wf ms" "hw_mmu ms = m"
    using boot_memory_service [OF mem m] by blast
  obtain fs where fs: "FileService_new de txt 256 (1024 * 1024) disk_img = Some fs" using boot_file_service by blast
  have vfs: "load_from_file de txt = None \<longrightarrow> fs_vfs fs = VirtualFileSystem_new" using fs by (auto simp: FileService_new_def)
  let ?sys = "\<lparr>sys_mmu = m, sys_bus = \<lparr>subscribers = [0]\<rparr>, sys_kernel = boot_kernel,
      sys_timer = Timer_new \<lparr>tick_interval_ms = 10, auto_start = True\<rparr>,
      sys_process = ProcessService_new m w, sys_process_rx = 1, sys_intr_rx = 2, sys_memory = ms, sys_memory_rx = 3,
      sys_file = fs, sys_file_rx = 4, sys_device = None, sys_shell = Shell_new input\<rparr>"
  have "boot de txt disk_img swap_img input w = Some ?sys"
    using mem m ms fs by (simp add: boot_def Kernel_new_def LockedBus_new_def bus_subscribe_def boot_kernel_def)
  then show thesis by (rule that) (simp_all add: ms wired_def vfs)
qed

lemma device_start_parts:
  "subscribers (sys_bus (device_start sys)) = subscribers (sys_bus sys) @ [5]"
  "sys_device (device_start sys) = Some (DeviceService_new, 5)" "wired (device_start sys) = wired sys"
  by (simp_all add: device_start_def bus_subscribe_def wired_def)

lemma delivered_once:
  fixes sys :: "'w System"
  assumes "wired sys" "subscribers (sys_bus sys) = 0 # subs" "sys_device sys = None \<and> subs = [] \<or> (\<exists>ds. sys_device sys = Some (ds, 5) \<and> subs = [5])"
  shows "sent_to k (delivered sys msg i tx) =
    (if service_receiver sys msg = Some k \<or> map_option snd (sys_device sys) = Some k
     then [\<lparr>message = msg, request_id = Some i, response_channel = Some tx\<rparr>] else [])"
  using assms
  by (cases msg) (auto simp: delivered_def bus_send_request_def with_response_def generate_request_id_def Let_def
      route_def boot_kernel_def service_receiver_def wired_def)

text \<open>
  C30. The system starts and is connected. Whatever the host's files contain, the constructors of the kernel, the
  services and the shell succeed; the memory service and the process service start with their invariants and on the same MMU, the file
  service, when there is no image it can read, with a tree that its operations can work with. The kernel's receiver and the
  receivers it hands out differ, and a request of any kind but a device request, put on the bus, arrives exactly once,
  with its number and its channel, at the receiver that main.rs gives to the service for its kind, and at no other. A device request arrives
  nowhere until the thread of the device service has subscribed; from then on, with an empty device manager, its receiver
  gets device requests and a copy of all others, and everything else is as before.
\<close>

theorem boot_connects:
  "\<exists>sys. boot de txt disk_img swap_img input w = Some sys \<and>
     ms_wf (sys_memory sys) \<and> ps_inv 1 (sys_process sys) \<and> hw_mmu (sys_memory sys) = ps_mmu (sys_process sys) \<and>
     (load_from_file de txt = None \<longrightarrow> tree_ok (fs_vfs (sys_file sys))) \<and>
     distinct [kernel_rx (sys_kernel sys), sys_process_rx sys, sys_intr_rx sys, sys_memory_rx sys, sys_file_rx sys] \<and>
     (\<forall>k msg i tx. sent_to k (delivered sys msg i tx) =
        (if service_receiver sys msg = Some k then [\<lparr>message = msg, request_id = Some i, response_channel = Some tx\<rparr>] else [])) \<and>
     (\<exists>ds rx. sys_device sys = None \<and> sys_device (device_start sys) = Some (ds, rx) \<and> mgr_reach (ds_manager ds) \<and>
        rx \<notin> {kernel_rx (sys_kernel sys), sys_process_rx sys, sys_intr_rx sys, sys_memory_rx sys, sys_file_rx sys} \<and>
        (\<forall>k msg i tx. sent_to k (delivered (device_start sys) msg i tx) =
           (if k = rx \<or> service_receiver sys msg = Some k
            then [\<lparr>message = msg, request_id = Some i, response_channel = Some tx\<rparr>] else [])))"
proof -
  obtain sys where sys: "boot de txt disk_img swap_img input w = Some sys" "subscribers (sys_bus sys) = [0]" "wired sys"
    "sys_device sys = None" "ms_wf (sys_memory sys)" "hw_mmu (sys_memory sys) = sys_mmu sys"
    "sys_process sys = ProcessService_new (sys_mmu sys) w"
    "load_from_file de txt = None \<longrightarrow> fs_vfs (sys_file sys) = VirtualFileSystem_new"
    by (rule boot_parts)
  let ?e = "\<lambda>msg i tx. \<lparr>message = msg, request_id = Some i, response_channel = Some tx\<rparr>"
  have inv: "ps_inv 1 (sys_process sys)" "hw_mmu (sys_memory sys) = ps_mmu (sys_process sys)"
    unfolding sys(6,7) by (rule ps_inv_start) (simp add: ProcessService_new_def)
  have tree: "tree_ok (fs_vfs (sys_file sys))" if "load_from_file de txt = None"
    using vfs_reach_ok [OF new_reach] sys(8) that by simp
  have rx: "distinct [kernel_rx (sys_kernel sys), sys_process_rx sys, sys_intr_rx sys, sys_memory_rx sys, sys_file_rx sys]"
    "5 \<notin> {kernel_rx (sys_kernel sys), sys_process_rx sys, sys_intr_rx sys, sys_memory_rx sys, sys_file_rx sys}"
    using sys(3) by (simp_all add: wired_def boot_kernel_def)
  have before: "sent_to k (delivered sys msg i tx) = (if service_receiver sys msg = Some k then [?e msg i tx] else [])" for k msg i tx
    using delivered_once [OF sys(3), of "[]" k msg i tx] sys(2,4) by simp
  have "service_receiver (device_start sys) msg = Some k \<or> 5 = k \<longleftrightarrow> k = 5 \<or> service_receiver sys msg = Some k" for k msg
    using sys(4) by (cases msg) (auto simp: service_receiver_def device_start_def bus_subscribe_def)
  then have after: "sent_to k (delivered (device_start sys) msg i tx) = (if k = 5 \<or> service_receiver sys msg = Some k then [?e msg i tx] else [])"
    for k msg i tx
    using delivered_once [of "device_start sys" "[5]" k msg i tx] sys(2,3) by (simp add: device_start_parts)
  have mgr: "mgr_reach (ds_manager DeviceService_new)" by (simp add: DeviceService_new_def mgr_reach.init)
  show ?thesis
    by (intro exI conjI allI impI, rule sys(1), rule sys(5), rule inv(1), rule inv(2), erule tree, rule rx(1), rule before,
        rule sys(4), rule device_start_parts(2), rule mgr, rule rx(2), rule after)
qed

text \<open>Without an image on the host.\<close>

theorem boot_connects_witness:
  "\<exists>sys. boot (\<lambda>_ :: unit. None) None [] [] [] () = Some sys \<and> tree_ok (fs_vfs (sys_file sys))"
  using boot_connects [of "\<lambda>_ :: unit. None" None "[]" "[]" "[]" "()"] by (auto simp: load_from_file_def)

end
