(* ===== verification/System_Run.thy ===== *)
theory System_Run
  imports Startup Process_Sync
begin

text \<open>
  The running system: the threads of the kernel and of the four services, which take envelopes from their queues in any
  order, while clients, the timer among them, put messages on the bus. A step is one envelope taken by one thread. The process
  service is one thread with two queues: in every round it takes up to ten interrupts and then one request. A thread whose
  handler does not return stops: it hangs and keeps its receivers, or it panics and drops them with all that is queued. The
  device service subscribes to the bus when its thread gets to it. Requests that the process service itself sends while it
  handles an envelope are answered inside that step by its peers, the parameter of \<^verbatim>\<open>Process_Core\<close>.
\<close>

section \<open>State\<close>

text \<open>
  The queues and the responses sent, by channel number; the request counter; the number of interrupts taken in this round; the
  envelope at which the reader of a channel stopped, if it did, and the channels whose receivers were dropped. For the
  statements only, all envelopes that were put on the bus, and those of which the device service got a copy.
\<close>

record 'w Running = "'w System" +
  net_queue :: "chan \<Rightarrow> Envelope list"
  net_log :: "chan \<Rightarrow> responses"
  net_next :: u64
  net_turn :: nat
  net_stop :: "chan \<Rightarrow> Envelope option"
  net_gone :: "chan set"
  net_issued :: "Envelope list"
  net_heard :: "Envelope list"

text \<open>What the threads do before their loops: the file service imports the host's programs, the process service forks the first process.\<close>

definition launch :: "'w Peers \<Rightarrow> (string \<times> u8 list option) list \<Rightarrow> 'w System \<Rightarrow> 'w Running option" where
  "launch P hfs sys =
     Option.bind (import_host_files ''/programs'' hfs (sys_file sys)) (\<lambda>fs.
     Option.bind (fork_impl P False 0 (sys_process sys)) (\<lambda>(_, ps).
     Some (System.extend (sys\<lparr>sys_file := fs, sys_process := ps\<rparr>)
             (Running.fields (\<lambda>_. []) (\<lambda>_. []) 1 0 (\<lambda>_. None) {} [] []))))"

text \<open>Sending to a channel whose receiver is gone fails, and the kernel and the bus ignore that.\<close>

definition post :: "(chan \<times> Envelope) list \<Rightarrow> 'w Running \<Rightarrow> 'w Running" where
  "post evs s = s\<lparr>net_queue := (\<lambda>k. net_queue s k @ (if k \<in> net_gone s then [] else sent_to k evs))\<rparr>"

definition took :: "chan \<Rightarrow> Envelope list \<Rightarrow> responses \<Rightarrow> 'w Running \<Rightarrow> 'w Running" where
  "took k q out s = s\<lparr>net_queue := (net_queue s)(k := q), net_log := (net_log s)(k := net_log s k @ out)\<rparr>"

definition halts :: "chan set \<Rightarrow> bool \<Rightarrow> Envelope \<Rightarrow> 'w Running \<Rightarrow> 'w Running" where
  "halts ks dropped e s =
     s\<lparr>net_stop := (\<lambda>k. if k \<in> ks then Some e else net_stop s k),
       net_gone := (if dropped then net_gone s \<union> ks else net_gone s),
       net_queue := (\<lambda>k. if dropped \<and> k \<in> ks then [] else net_queue s k)\<rparr>"

text \<open>The process service and the memory service work on one MMU. One that stops leaves it in an unknown state.\<close>

definition set_process :: "'w ProcessService \<Rightarrow> 'w Running \<Rightarrow> 'w Running" where
  "set_process ps s =
     s\<lparr>sys_process := ps, sys_mmu := ps_mmu ps, sys_memory := (sys_memory s)\<lparr>hw_mmu := ps_mmu ps\<rparr>\<rparr>"

definition set_memory :: "MemoryService \<Rightarrow> 'w Running \<Rightarrow> 'w Running" where
  "set_memory ms s =
     s\<lparr>sys_memory := ms, sys_mmu := hw_mmu ms, sys_process := (sys_process s)\<lparr>ps_mmu := hw_mmu ms\<rparr>\<rparr>"

definition set_mmu :: "MMU \<Rightarrow> 'w Running \<Rightarrow> 'w Running" where
  "set_mmu m s =
     s\<lparr>sys_mmu := m, sys_memory := (sys_memory s)\<lparr>hw_mmu := m\<rparr>, sys_process := (sys_process s)\<lparr>ps_mmu := m\<rparr>\<rparr>"

section \<open>Steps\<close>

definition issue :: "(chan \<times> Envelope) list \<Rightarrow> 'w Running \<Rightarrow> 'w Running" where
  "issue sent s =
     post sent (s\<lparr>net_issued := net_issued s @ sent_to (kernel_rx (sys_kernel s)) sent,
                  net_heard := net_heard s @ (case sys_device s of None \<Rightarrow> [] | Some (_, rx) \<Rightarrow> sent_to rx sent)\<rparr>)"

inductive client_step :: "'w Running \<Rightarrow> 'w Running \<Rightarrow> bool" where
  request: "bus_send_request (sys_bus s) msg (net_next s) tx = ((r, sent), nx) \<Longrightarrow>
    client_step s (issue sent (s\<lparr>net_next := nx\<rparr>))"
| notify: "bus_send (sys_bus s) msg = (r, sent) \<Longrightarrow> client_step s (issue sent s)"

inductive core_step :: "'w Peers \<Rightarrow> ChanEnv \<Rightarrow> FsEnv \<Rightarrow> 'w Running \<Rightarrow> 'w Running \<Rightarrow> bool" for P ce fe where
  kernel_routes: "k = kernel_rx (sys_kernel s) \<Longrightarrow> net_queue s k = e # q \<Longrightarrow>
    core_step P ce fe s (post (route (sys_kernel s) e) (s\<lparr>net_queue := (net_queue s)(k := q)\<rparr>))"
| process_ticks: "k = sys_intr_rx s \<Longrightarrow> net_stop s k = None \<Longrightarrow> net_turn s < 10 \<Longrightarrow> net_queue s k = e # q \<Longrightarrow>
    ps_event P ce (IntrEvent e) (sys_process s) = Some (out, ps) \<Longrightarrow>
    core_step P ce fe s (took k q out (set_process ps (s\<lparr>net_turn := net_turn s + 1\<rparr>)))"
| process_tick_stops: "k = sys_intr_rx s \<Longrightarrow> net_stop s k = None \<Longrightarrow> net_turn s < 10 \<Longrightarrow> net_queue s k = e # q \<Longrightarrow>
    ps_event P ce (IntrEvent e) (sys_process s) = None \<Longrightarrow>
    core_step P ce fe s (halts {sys_process_rx s, sys_intr_rx s} dropped e (took k q [] (set_mmu m s)))"
| process_serves: "k = sys_process_rx s \<Longrightarrow> net_stop s k = None \<Longrightarrow> net_queue s k = e # q \<Longrightarrow>
    ps_event P ce (ReqEvent e) (sys_process s) = Some (out, ps) \<Longrightarrow>
    core_step P ce fe s (took k q out (set_process ps (s\<lparr>net_turn := 0\<rparr>)))"
| process_stops: "k = sys_process_rx s \<Longrightarrow> net_stop s k = None \<Longrightarrow> net_queue s k = e # q \<Longrightarrow>
    ps_event P ce (ReqEvent e) (sys_process s) = None \<Longrightarrow>
    core_step P ce fe s (halts {sys_process_rx s, sys_intr_rx s} dropped e (took k q [] (set_mmu m s)))"
| process_polls: "net_stop s (sys_process_rx s) = None \<Longrightarrow> 0 < net_turn s \<Longrightarrow> net_queue s (sys_process_rx s) = [] \<Longrightarrow>
    core_step P ce fe s (s\<lparr>net_turn := 0\<rparr>)"
| memory_serves: "k = sys_memory_rx s \<Longrightarrow> net_stop s k = None \<Longrightarrow> net_queue s k = e # q \<Longrightarrow>
    ms_handle ce (e, pages) (sys_memory s) = Some (out, ms) \<Longrightarrow>
    core_step P ce fe s (took k q out (set_memory ms s))"
| memory_stops: "k = sys_memory_rx s \<Longrightarrow> net_stop s k = None \<Longrightarrow> net_queue s k = e # q \<Longrightarrow>
    ms_handle ce (e, pages) (sys_memory s) = None \<Longrightarrow>
    core_step P ce fe s (halts {sys_memory_rx s} dropped e (took k q [] (set_mmu m s)))"
| file_serves: "k = sys_file_rx s \<Longrightarrow> net_stop s k = None \<Longrightarrow> net_queue s k = e # q \<Longrightarrow>
    fs_handle ce fe e (sys_file s) = Some (out, fs) \<Longrightarrow>
    core_step P ce fe s (took k q out (s\<lparr>sys_file := fs\<rparr>))"
| file_stops: "k = sys_file_rx s \<Longrightarrow> net_stop s k = None \<Longrightarrow> net_queue s k = e # q \<Longrightarrow>
    fs_handle ce fe e (sys_file s) = None \<Longrightarrow>
    core_step P ce fe s (halts {sys_file_rx s} dropped e (took k q [] s))"
| device_subscribes: "sys_device s = None \<Longrightarrow> core_step P ce fe s (device_start s)"
| device_serves: "sys_device s = Some (d, k) \<Longrightarrow> net_queue s k = e # q \<Longrightarrow>
    ds_handle ce (e, order) d = Some (out, ds) \<Longrightarrow>
    core_step P ce fe s (took k q out (s\<lparr>sys_device := Some (ds, k)\<rparr>))"

inductive sys_reach :: "'w Peers \<Rightarrow> ChanEnv \<Rightarrow> FsEnv \<Rightarrow> 'w Running \<Rightarrow> 'w Running \<Rightarrow> bool" for P ce fe s0 where
  start: "sys_reach P ce fe s0 s0"
| client: "sys_reach P ce fe s0 s \<Longrightarrow> client_step s t \<Longrightarrow> sys_reach P ce fe s0 t"
| core: "sys_reach P ce fe s0 s \<Longrightarrow> core_step P ce fe s t \<Longrightarrow> sys_reach P ce fe s0 t"

inductive_cases client_step_cases: "client_step s t"
inductive_cases core_step_cases: "core_step P ce fe s t"

lemmas net_defs = post_def took_def halts_def set_process_def set_memory_def set_mmu_def

section \<open>What is owed\<close>

text \<open>The channel of the service for a message, and the requests that are owed an answer: waits are not, and device requests only when the device service got a copy.\<close>

definition svc :: "Envelope \<Rightarrow> chan" where
  "svc e =
     (case message e of ProcessMsg _ \<Rightarrow> 1 | SyscallMsg _ \<Rightarrow> 1 | InterruptMsg _ \<Rightarrow> 2 | MemoryMsg _ \<Rightarrow> 3 | FileMsg _ \<Rightarrow> 4 | DeviceMsg _ \<Rightarrow> 5)"

definition owed :: "'w Running \<Rightarrow> Envelope \<Rightarrow> bool" where
  "owed s e \<longleftrightarrow> svc e \<in> {3, 4} \<or> svc e = 5 \<and> e \<in> set (net_heard s) \<or> svc e = 1 \<and> ps_owes (ReqEvent e)"

text \<open>
  A request waits at the kernel, waits at its service, has been answered, is the one at which the thread of its service stopped, or
  was sent to a service that panicked.
\<close>

definition in_hand :: "ChanEnv \<Rightarrow> 'w Running \<Rightarrow> Envelope \<Rightarrow> bool" where
  "in_hand ce s e \<longleftrightarrow>
     (svc e \<noteq> 5 \<and> e \<in> set (net_queue s 0)) \<or> e \<in> set (net_queue s (svc e)) \<or> answered ce e (net_log s (svc e)) \<or>
     net_stop s (svc e) = Some e \<or> svc e \<in> net_gone s"

definition net_wf :: "'w Running \<Rightarrow> bool" where
  "net_wf s \<longleftrightarrow> wired s \<and>
     (sys_device s = None \<and> subscribers (sys_bus s) = [0] \<and> net_queue s 5 = [] \<or>
      (\<exists>d. sys_device s = Some (d, 5)) \<and> subscribers (sys_bus s) = [0, 5]) \<and>
     (\<forall>k. net_stop s k = None \<longrightarrow> k \<notin> net_gone s) \<and> net_stop s 2 = net_stop s 1 \<and>
     (\<forall>k e. net_stop s k = Some e \<longrightarrow> k \<in> {1, 2, 3, 4} \<and> (k \<in> {1, 2} \<longrightarrow> svc e = 2 \<or> message e = ProcessMsg ListProcesses))"

definition net_inv :: "ChanEnv \<Rightarrow> 'w Running \<Rightarrow> bool" where
  "net_inv ce s \<longleftrightarrow> net_wf s \<and> (\<forall>e \<in> set (net_issued s). owed s e \<longrightarrow> in_hand ce s e) \<and>
     set (net_heard s) \<subseteq> set (net_issued s) \<and>
     (\<forall>k. \<forall>e \<in> set (net_queue s k). e \<in> set (net_issued s) \<and> (k \<in> {1, 2, 3, 4} \<longrightarrow> svc e = k)) \<and>
     (\<forall>k \<in> {3, 4, 5}. \<forall>(c, resp) \<in> set (net_log s k).
        \<exists>e \<in> set (net_issued s). svc e = k \<and> asks ce e c (response_request_id resp))"

section \<open>The invariant\<close>

lemma net_invI:
  assumes "net_wf s" "\<And>e. e \<in> set (net_issued s) \<Longrightarrow> owed s e \<Longrightarrow> in_hand ce s e" "set (net_heard s) \<subseteq> set (net_issued s)"
    and "\<And>k e. e \<in> set (net_queue s k) \<Longrightarrow> e \<in> set (net_issued s) \<and> (k \<in> {1, 2, 3, 4} \<longrightarrow> svc e = k)"
    and "\<And>k c resp. k \<in> {3, 4, 5} \<Longrightarrow> (c, resp) \<in> set (net_log s k) \<Longrightarrow>
      \<exists>e \<in> set (net_issued s). svc e = k \<and> asks ce e c (response_request_id resp)"
  shows "net_inv ce s"
  using assms unfolding net_inv_def by blast

lemma net_invD:
  assumes "net_inv ce s"
  shows "net_wf s" "e \<in> set (net_issued s) \<Longrightarrow> owed s e \<Longrightarrow> in_hand ce s e" "set (net_heard s) \<subseteq> set (net_issued s)"
    "e \<in> set (net_queue s k) \<Longrightarrow> e \<in> set (net_issued s) \<and> (k \<in> {1, 2, 3, 4} \<longrightarrow> svc e = k)"
    "k \<in> {3, 4, 5} \<Longrightarrow> (c, resp) \<in> set (net_log s k) \<Longrightarrow>
      \<exists>e \<in> set (net_issued s). svc e = k \<and> asks ce e c (response_request_id resp)"
proof -
  show "net_wf s" "e \<in> set (net_issued s) \<Longrightarrow> owed s e \<Longrightarrow> in_hand ce s e" "set (net_heard s) \<subseteq> set (net_issued s)"
    "e \<in> set (net_queue s k) \<Longrightarrow> e \<in> set (net_issued s) \<and> (k \<in> {1, 2, 3, 4} \<longrightarrow> svc e = k)"
    using assms by (simp_all add: net_inv_def)
  have "\<forall>k \<in> {3, 4, 5}. \<forall>(c, resp) \<in> set (net_log s k).
      \<exists>e \<in> set (net_issued s). svc e = k \<and> asks ce e c (response_request_id resp)"
    using assms unfolding net_inv_def by (elim conjE)
  then show "k \<in> {3, 4, 5} \<Longrightarrow> (c, resp) \<in> set (net_log s k) \<Longrightarrow>
      \<exists>e \<in> set (net_issued s). svc e = k \<and> asks ce e c (response_request_id resp)" by blast
qed

lemma svc_kinds:
  "is_memory (message e) \<longleftrightarrow> svc e = 3" "is_file_msg (message e) \<longleftrightarrow> svc e = 4" "is_device_msg (message e) \<longleftrightarrow> svc e = 5"
  by (cases "message e"; simp add: svc_def is_memory_def is_file_msg_def is_device_msg_def)+

lemma svc_range: "svc e \<in> {1, 2, 3, 4, 5}"
  by (cases "message e") (simp_all add: svc_def)

lemma net_wf_cong:
  assumes "net_wf s" "sys_kernel t = sys_kernel s" "sys_process_rx t = sys_process_rx s" "sys_intr_rx t = sys_intr_rx s"
    "sys_memory_rx t = sys_memory_rx s" "sys_file_rx t = sys_file_rx s" "sys_device t = sys_device s" "sys_bus t = sys_bus s"
    "net_stop t = net_stop s" "net_gone t = net_gone s" "sys_device s = None \<Longrightarrow> net_queue t 5 = []"
  shows "net_wf t"
  using assms unfolding net_wf_def wired_def by auto

lemma net_wfD:
  assumes "net_wf s"
  shows "kernel_rx (sys_kernel s) = 0" "sys_process_rx s = 1" "sys_intr_rx s = 2" "sys_memory_rx s = 3" "sys_file_rx s = 4"
    "sys_kernel s = boot_kernel" "sys_device s = Some (d, k) \<Longrightarrow> k = 5" "sys_device s = None \<Longrightarrow> net_queue s 5 = []"
    "net_stop s 0 = None" "net_stop s 5 = None" "net_stop s k = None \<Longrightarrow> k \<notin> net_gone s" "net_stop s 2 = net_stop s 1"
proof -
  have "net_stop s k \<noteq> None \<Longrightarrow> k \<in> {1, 2, 3, 4}" for k using assms by (auto simp: net_wf_def)
  from this [of 0] this [of 5] show "net_stop s 0 = None" "net_stop s 5 = None"
    by (cases "net_stop s 0"; cases "net_stop s 5"; auto)+
qed (use assms in \<open>auto simp: net_wf_def wired_def boot_kernel_def\<close>)

text \<open>A client adds one envelope to the kernel's queue and, once it has subscribed, to that of the device service.\<close>

definition added :: "Envelope \<Rightarrow> u64 \<Rightarrow> 'w Running \<Rightarrow> 'w Running" where
  "added e nx s =
     (let dev = sys_device s \<noteq> None in
      s\<lparr>net_queue := (\<lambda>k. net_queue s k @ (if k = 0 \<or> k = 5 \<and> dev then [e] else [])), net_next := nx,
        net_issued := net_issued s @ [e], net_heard := net_heard s @ (if dev then [e] else [])\<rparr>)"

lemma issue_added:
  fixes s :: "'w Running"
  assumes "net_wf s" "sent = map (\<lambda>k. (k, e)) (subscribers (sys_bus s))"
  shows "issue sent (s\<lparr>net_next := nx\<rparr>) = added e nx s"
proof -
  note g = net_wfD(9,10) [OF assms(1)] net_wfD(11) [OF assms(1), of 0] net_wfD(11) [OF assms(1), of 5]
  have "sys_device s = None \<and> subscribers (sys_bus s) = [0] \<or> (\<exists>d. sys_device s = Some (d, 5)) \<and> subscribers (sys_bus s) = [0, 5]"
    using assms(1) by (auto simp: net_wf_def)
  then show ?thesis
    using g net_wfD(1) [OF assms(1)] by (auto simp: assms(2) issue_def post_def added_def fun_eq_iff intro!: Running.equality)
qed

lemma client_step_adds:
  assumes "client_step s t" "net_wf s"
  obtains e nx where "t = added e nx s"
  using assms(1)
proof cases
  case (request msg tx r sent nx)
  have ne: "subscribers (sys_bus s) \<noteq> []" using assms(2) by (auto simp: net_wf_def)
  show thesis
    using request(2) ne that issue_added [OF assms(2)] unfolding request(1)
    by (auto simp: bus_send_request_def with_response_def generate_request_id_def)
next
  case (notify msg r sent)
  have "subscribers (sys_bus s) \<noteq> []" using assms(2) by (auto simp: net_wf_def)
  then have "issue sent (s\<lparr>net_next := net_next s\<rparr>) = added (fire_and_forget msg) (net_next s) s"
    using notify(2) by (intro issue_added [OF assms(2)]) (auto simp: bus_send_def)
  then show thesis using that notify(1) by simp
qed

lemma client_step_inv:
  assumes "client_step s t" "net_inv ce s"
  shows "net_inv ce t"
proof -
  have wf: "net_wf s" using assms(2) by (simp add: net_inv_def)
  with assms(1) obtain e nx where t: "t = added e nx s" by (rule client_step_adds)
  have q: "net_queue t k = net_queue s k @ (if k = 0 \<or> k = 5 \<and> sys_device s \<noteq> None then [e] else [])" for k
    by (simp add: t added_def Let_def)
  have keep: "net_log t = net_log s" "net_stop t = net_stop s" "net_gone t = net_gone s" "net_issued t = net_issued s @ [e]"
    "net_heard t = net_heard s @ (if sys_device s \<noteq> None then [e] else [])" "sys_device t = sys_device s"
    by (simp_all add: t added_def Let_def)
  have "net_wf t" using wf by (rule net_wf_cong) (simp_all add: t added_def Let_def net_wfD(8) [OF wf])
  moreover have "in_hand ce t f" if "f \<in> set (net_issued t)" "owed t f" for f
  proof (cases "f \<in> set (net_issued s) \<and> owed s f")
    case True
    then have "in_hand ce s f" using assms(2) by (simp add: net_inv_def)
    then show ?thesis by (auto simp: in_hand_def q keep)
  next
    case False
    then have "f = e" "svc f = 5 \<longrightarrow> sys_device s \<noteq> None"
      using that assms(2) by (auto simp: keep owed_def net_inv_def split: if_splits)
    then show ?thesis by (auto simp: in_hand_def q)
  qed
  moreover have "f \<in> set (net_issued t) \<and> (k \<in> {1, 2, 3, 4} \<longrightarrow> svc f = k)" if "f \<in> set (net_queue t k)" for k f
    using that assms(2) by (auto simp: q keep net_inv_def split: if_splits)
  ultimately show ?thesis using assms(2) unfolding net_inv_def keep by fastforce
qed

lemma route_sent: "sent_to k (route boot_kernel e) = (if k = svc e \<and> k \<noteq> 5 then [e] else [])"
  by (cases "message e") (auto simp: route_def boot_kernel_def svc_def)

lemma kernel_step_inv:
  assumes "net_queue s 0 = e # q" "net_inv ce s"
    and "t = post (route (sys_kernel s) e) (s\<lparr>net_queue := (net_queue s)(0 := q)\<rparr>)"
  shows "net_inv ce t"
proof -
  have wf: "net_wf s" using assms(2) by (simp add: net_inv_def)
  have t: "net_queue t k = ((net_queue s)(0 := q)) k @ (if k = svc e \<and> k \<noteq> 5 \<and> k \<notin> net_gone s then [e] else [])" for k
    by (auto simp: assms(3) net_wfD(6) [OF wf] post_def route_sent)
  have keep: "net_log t = net_log s" "net_stop t = net_stop s" "net_gone t = net_gone s" "net_issued t = net_issued s" "net_heard t = net_heard s"
    by (simp_all add: assms(3) post_def)
  have pos: "svc f \<noteq> 0" for f using svc_range [of f] by auto
  have "in_hand ce t f" if "in_hand ce s f" for f
    using that assms(1) pos [of f] unfolding in_hand_def keep t by auto
  moreover have "f \<in> set (net_issued s) \<and> (k \<in> {1, 2, 3, 4} \<longrightarrow> svc f = k)" if "f \<in> set (net_queue t k)" for k f
  proof -
    have "f \<in> set (net_queue s 0) \<and> (k \<noteq> 0 \<longrightarrow> k = svc f) \<or> f \<in> set (net_queue s k)" using that assms(1) by (auto simp: t split: if_splits)
    then show ?thesis using assms(2) by (auto simp: net_inv_def)
  qed
  moreover have "net_wf t" using wf by (rule net_wf_cong) (simp_all add: assms(3) post_def net_wfD(6) [OF wf] route_sent net_wfD(8) [OF wf])
  ultimately show ?thesis using assms(2) unfolding net_inv_def keep owed_def by auto
qed

text \<open>What a service does with an envelope, as far as its requesters can tell.\<close>

definition serves :: "ChanEnv \<Rightarrow> chan \<Rightarrow> Envelope \<Rightarrow> responses \<Rightarrow> bool" where
  "serves ce k e out \<longleftrightarrow>
     (svc e = k \<and> (svc e \<in> {3, 4, 5} \<or> svc e = 1 \<and> ps_owes (ReqEvent e)) \<longrightarrow> answered ce e out) \<and>
     (k \<in> {3, 4, 5} \<longrightarrow> (\<forall>(c, resp) \<in> set out. svc e = k \<and> asks ce e c (response_request_id resp)))"

lemma services_serve:
  "ps_event P ce (ReqEvent e) ps = Some (out, ps') \<Longrightarrow> serves ce 1 e out"
  "ps_event P ce (IntrEvent e) ps = Some (out, ps') \<Longrightarrow> serves ce 2 e out"
  "ms_handle ce (e, pages) ms = Some (out, ms') \<Longrightarrow> serves ce 3 e out"
  "fs_handle ce fe e fs = Some (out, fs') \<Longrightarrow> serves ce 4 e out"
  "ds_handle ce (e, order) ds = Some (out, ds') \<Longrightarrow> serves ce 5 e out"
  using proc.handler_answers [of P ce "ReqEvent e"] memory_loop.handler_answers [of ce "(e, pages)"]
    memory_loop.handler_addressed [of ce "(e, pages)"] file_loop.handler_answers [of ce fe e]
    file_loop.handler_addressed [of ce fe e] device_loop.handler_answers [of ce "(e, order)"]
    device_loop.handler_addressed [of ce "(e, order)"]
  by (fastforce simp: serves_def answered_def svc_kinds)+

text \<open>A request stops the process service only if it asks for a listing.\<close>

lemma process_stops_at:
  assumes "ps_event P ce (ReqEvent e) ps = None" "svc e = 1"
  shows "message e = ProcessMsg ListProcesses"
proof (rule ccontr)
  assume ne: "message e \<noteq> ProcessMsg ListProcesses"
  have "ps_dispatch P ce e ps \<noteq> None"
    using ne assms(2) response_returns [of _ P ce e ps] request_returns [of P _ ps] syscall_returns(1) [of P _ ps] syscall_returns(2) [of P ce e _ ps]
    by (auto simp: ps_dispatch_def svc_def split: KernelMsg.splits)
  then show False using assms(1) by (auto simp: ps_event_def ps_handle_envelope_def)
qed

lemma answered_either: "answered ce e xs \<or> answered ce e ys \<Longrightarrow> answered ce e (xs @ ys)"
  by (fastforce simp: answered_def)

lemma service_step_in_hand:
  assumes "net_queue s k = e # q" "serves ce k e out" "k \<noteq> 0" "in_hand ce s f" "owed s f"
    and "net_queue t = (net_queue s)(k := q)" "net_log t = (net_log s)(k := net_log s k @ out)"
    and "net_stop t = net_stop s" "net_gone t = net_gone s"
  shows "in_hand ce t f"
proof (cases "svc f = k")
  case True
  have "f = e \<Longrightarrow> answered ce f out" using assms(2,5) True by (auto simp: serves_def owed_def)
  then show ?thesis using assms(1,3,4,6-9) True answered_either [of ce f] unfolding in_hand_def by auto
next
  case False
  then show ?thesis using assms(3,4,6-9) unfolding in_hand_def by auto
qed

lemma service_step_inv:
  assumes "net_queue s k = e # q" "serves ce k e out" "k \<noteq> 0" "net_inv ce s" "net_wf t"
    and "net_issued t = net_issued s" "net_heard t = net_heard s" "net_stop t = net_stop s" "net_gone t = net_gone s"
    and "net_queue t = (net_queue s)(k := q)" "net_log t = (net_log s)(k := net_log s k @ out)"
  shows "net_inv ce t"
proof (rule net_invI)
  note sub = net_invD(4) [OF assms(4)]
  show "\<exists>f \<in> set (net_issued t). svc f = j \<and> asks ce f c (response_request_id resp)"
    if "j \<in> {3, 4, 5}" "(c, resp) \<in> set (net_log t j)" for j c resp
  proof (cases "j = k \<and> (c, resp) \<in> set out")
    case True
    then have "svc e = j" "asks ce e c (response_request_id resp)" using assms(2) that(1) by (auto simp: serves_def)
    moreover have "e \<in> set (net_issued t)" using sub [of e k] assms(1,6) by simp
    ultimately show ?thesis by blast
  next
    case False
    then have "(c, resp) \<in> set (net_log s j)" using that(2) assms(11) by (auto split: if_splits)
    then show ?thesis using net_invD(5) [OF assms(4) that(1)] assms(6) by simp
  qed
  show "f \<in> set (net_issued t) \<and> (j \<in> {1, 2, 3, 4} \<longrightarrow> svc f = j)" if "f \<in> set (net_queue t j)" for j f
  proof -
    have "f \<in> set (net_queue s j)" using that assms(1) by (auto simp: assms(10) split: if_splits)
    then show ?thesis using sub assms(6) by simp
  qed
  show "in_hand ce t f" if "f \<in> set (net_issued t)" "owed t f" for f
  proof -
    have f: "f \<in> set (net_issued s)" "owed s f" using that assms(6,7) by (simp_all add: owed_def)
    show ?thesis by (rule service_step_in_hand [OF assms(1-3) net_invD(2) [OF assms(4) f] f(2) assms(10,11,8,9)])
  qed
qed (use assms(4-7) net_invD(3) [OF assms(4)] in simp_all)

text \<open>A thread that stops loses the envelope it was at and, if it panics, its queues.\<close>

lemma halt_step_inv:
  assumes q: "net_queue s k = e # q" "k \<in> ks" and ks: "ks \<in> {{1, 2}, {3}, {4}}" "\<forall>j \<in> ks. net_stop s j = None"
    and inv: "net_inv ce s" "k \<in> {1, 2} \<Longrightarrow> svc e = 2 \<or> message e = ProcessMsg ListProcesses"
    and t: "net_queue u = (net_queue s)(k := q)" "net_log u = net_log s" "net_stop u = net_stop s" "net_gone u = net_gone s"
      "net_issued u = net_issued s" "net_heard u = net_heard s" "net_wf u"
  shows "net_inv ce (halts ks dropped e u)"
proof -
  let ?t = "halts ks dropped e u"
  have k: "k \<in> {1, 2, 3, 4}" "\<And>j. j \<in> ks \<Longrightarrow> j \<in> {1, 2, 3, 4}" "\<And>j. j \<in> {1, 2} \<Longrightarrow> j \<in> ks \<Longrightarrow> k \<in> {1, 2}" "1 \<in> ks \<longleftrightarrow> 2 \<in> ks"
    using q(2) ks(1) by auto
  have sub: "f \<in> set (net_issued s) \<and> (j \<in> {1, 2, 3, 4} \<longrightarrow> svc f = j)" if "f \<in> set (net_queue s j)" for f j
    using inv(1) that by (simp add: net_inv_def)
  have e: "svc e = k" using sub [of e k] q(1) k(1) by auto
  have tq: "net_queue ?t j = (if dropped \<and> j \<in> ks then [] else ((net_queue s)(k := q)) j)"
    "net_stop ?t j = (if j \<in> ks then Some e else net_stop s j)" "net_gone ?t = (if dropped then net_gone s \<union> ks else net_gone s)"
    "net_log ?t = net_log s" "net_issued ?t = net_issued s" "net_heard ?t = net_heard s" for j
    by (simp_all add: halts_def t)
  have stops: "svc e = 2 \<or> message e = ProcessMsg ListProcesses" if "j \<in> {1, 2}" "j \<in> ks" for j using inv(2) k(3) [OF that] .
  have "0 \<notin> ks" "5 \<notin> ks" using ks(1) by auto
  then have wf: "net_wf ?t"
    using t(7) k(2,4) stops unfolding net_wf_def wired_def
    by (auto simp: halts_def split: if_splits)
  have hand: "in_hand ce ?t f" if "in_hand ce s f" for f
    using that q(1) ks(2) e svc_range [of f] \<open>0 \<notin> ks\<close> q(2) unfolding in_hand_def tq by auto
  have queue: "f \<in> set (net_queue s j)" if "f \<in> set (net_queue ?t j)" for f j
    using that q(1) by (auto simp: tq split: if_splits)
  show ?thesis
    using wf
  proof (rule net_invI)
    show "in_hand ce ?t f" if "f \<in> set (net_issued ?t)" "owed ?t f" for f
    proof -
      have "f \<in> set (net_issued s)" "owed s f" using that by (simp_all add: tq owed_def)
      then show ?thesis by (rule hand [OF net_invD(2) [OF inv(1)]])
    qed
    show "f \<in> set (net_issued ?t) \<and> (j \<in> {1, 2, 3, 4} \<longrightarrow> svc f = j)" if "f \<in> set (net_queue ?t j)" for f j
      using sub [OF queue [OF that]] by (simp add: tq)
    show "\<exists>e \<in> set (net_issued ?t). svc e = j \<and> asks ce e c (response_request_id resp)"
      if "j \<in> {3, 4, 5}" "(c, resp) \<in> set (net_log ?t j)" for j c resp
      using net_invD(5) [OF inv(1) that(1)] that(2) by (simp add: tq)
  qed (use net_invD(3) [OF inv(1)] in \<open>simp add: tq\<close>)
qed

text \<open>The steps in terms of channel numbers.\<close>

lemma process_step_inv:
  assumes "net_inv ce s" "net_queue s k = e # q" "serves ce k e out" "k \<noteq> 0"
  shows "net_inv ce (took k q out (set_process ps (s\<lparr>net_turn := n\<rparr>)))"
    "net_inv ce (took k q out (set_memory ms s))" "net_inv ce (took k q out (s\<lparr>sys_file := fs\<rparr>))"
    "sys_device s = Some (d, k) \<Longrightarrow> net_inv ce (took k q out (s\<lparr>sys_device := Some (ds, k)\<rparr>))"
proof -
  note wf = net_invD(1) [OF assms(1)]
  note step = service_step_inv [OF assms(2,3,4,1)]
  have five: "sys_device s = None \<Longrightarrow> ((net_queue s)(k := q)) 5 = []" using net_wfD(8) [OF wf] assms(2) by auto
  note keeps = net_wf_cong [OF wf]
  have "net_wf (took k q out (set_process ps (s\<lparr>net_turn := n\<rparr>)))" "net_wf (took k q out (set_memory ms s))"
    "net_wf (took k q out (s\<lparr>sys_file := fs\<rparr>))"
    using five by (auto intro!: keeps simp: net_defs)
  then show "net_inv ce (took k q out (set_process ps (s\<lparr>net_turn := n\<rparr>)))"
    "net_inv ce (took k q out (set_memory ms s))" "net_inv ce (took k q out (s\<lparr>sys_file := fs\<rparr>))"
    by (auto intro!: step simp: net_defs)
  show "net_inv ce (took k q out (s\<lparr>sys_device := Some (ds, k)\<rparr>))" if d: "sys_device s = Some (d, k)"
  proof -
    have "net_wf (took k q out (s\<lparr>sys_device := Some (ds, k)\<rparr>))"
      using wf d net_wfD(7) [OF wf d] by (auto simp: net_wf_def wired_def took_def)
    then show ?thesis by (rule step) (simp_all add: took_def)
  qed
qed

lemma stop_step_inv:
  assumes "net_inv ce s" "net_queue s k = e # q" "net_stop s k = None"
  shows "k \<in> {1, 2} \<Longrightarrow> svc e = 2 \<or> message e = ProcessMsg ListProcesses \<Longrightarrow> net_inv ce (halts {1, 2} dropped e (took k q [] (set_mmu m s)))"
    "k = 3 \<Longrightarrow> net_inv ce (halts {3} dropped e (took k q [] (set_mmu m s)))"
    "k = 4 \<Longrightarrow> net_inv ce (halts {4} dropped e (took k q [] s))"
proof -
  note wf = net_invD(1) [OF assms(1)]
  have five: "sys_device s = None \<Longrightarrow> ((net_queue s)(k := q)) 5 = []" using net_wfD(8) [OF wf] assms(2) by auto
  have u: "net_wf (took k q [] (set_mmu m s))" "net_wf (took k q [] s)"
    using five by (auto intro!: net_wf_cong [OF wf] simp: net_defs)
  show "net_inv ce (halts {1, 2} dropped e (took k q [] (set_mmu m s)))" if "k \<in> {1, 2}" "svc e = 2 \<or> message e = ProcessMsg ListProcesses"
    using that net_wfD(12) [OF wf] assms(3) by (intro halt_step_inv [OF assms(2) _ _ _ assms(1) _ _ _ _ _ _ _ u(1)]) (auto simp: net_defs)
  show "net_inv ce (halts {3} dropped e (took k q [] (set_mmu m s)))" if "k = 3"
    using that assms(3) by (intro halt_step_inv [OF assms(2) _ _ _ assms(1) _ _ _ _ _ _ _ u(1)]) (auto simp: net_defs)
  show "net_inv ce (halts {4} dropped e (took k q [] s))" if "k = 4"
    using that assms(3) by (intro halt_step_inv [OF assms(2) _ _ _ assms(1) _ _ _ _ _ _ _ u(2)]) (auto simp: net_defs)
qed

lemma start_step_inv:
  assumes "net_inv ce s" "sys_device s = None"
  shows "net_inv ce (device_start s)"
proof (rule net_invI)
  note wf = net_invD(1) [OF assms(1)]
  have keep: "net_queue (device_start s) = net_queue s" "net_log (device_start s) = net_log s" "net_stop (device_start s) = net_stop s"
    "net_gone (device_start s) = net_gone s" "net_issued (device_start s) = net_issued s" "net_heard (device_start s) = net_heard s"
    by (simp_all add: device_start_def split: prod.split)
  show "net_wf (device_start s)"
    using wf assms(2) unfolding net_wf_def keep by (auto simp: device_start_parts)
  show "in_hand ce (device_start s) e" if "e \<in> set (net_issued (device_start s))" "owed (device_start s) e" for e
    using net_invD(2) [OF assms(1), of e] that by (simp add: keep in_hand_def owed_def)
  show "\<exists>e \<in> set (net_issued (device_start s)). svc e = k \<and> asks ce e c (response_request_id resp)"
    if "k \<in> {3, 4, 5}" "(c, resp) \<in> set (net_log (device_start s) k)" for k c resp
    using net_invD(5) [OF assms(1) that(1)] that(2) by (simp add: keep)
  show "e \<in> set (net_issued (device_start s)) \<and> (k \<in> {1, 2, 3, 4} \<longrightarrow> svc e = k)" if "e \<in> set (net_queue (device_start s) k)" for k e
    using net_invD(4) [OF assms(1), of e k] that unfolding keep by blast
qed (use net_invD(3) [OF assms(1)] in \<open>simp add: device_start_def split: prod.split\<close>)

lemma core_step_inv:
  assumes "core_step P ce fe s t" "net_inv ce s"
  shows "net_inv ce t"
proof -
  note rx = net_wfD(1-5) [OF net_invD(1) [OF assms(2)]]
  note own = net_invD(4) [OF assms(2)]
  show ?thesis
    using assms(1)
  proof cases
    case (kernel_routes k e q)
    then show ?thesis using kernel_step_inv [OF _ assms(2)] rx(1) by simp
  next
    case (process_ticks k e q out ps)
    then show ?thesis using process_step_inv(1) [OF assms(2) process_ticks(5) _, of out ps] services_serve(2) [OF process_ticks(6)] rx(3) by simp
  next
    case (process_tick_stops k e q dropped m)
    have "svc e = 2" using own [of e k] process_tick_stops(2,5) rx(3) by simp
    then show ?thesis using process_tick_stops stop_step_inv(1) [OF assms(2) process_tick_stops(5,3)] rx(2,3) by simp
  next
    case (process_serves k e q out ps)
    then show ?thesis using process_step_inv(1) [OF assms(2) process_serves(4) _, of out ps] services_serve(1) [OF process_serves(5)] rx(2) by simp
  next
    case (process_stops k e q dropped m)
    have "svc e = 1" using own [of e k] process_stops(2,4) rx(2) by simp
    then have "message e = ProcessMsg ListProcesses" using process_stops_at [OF process_stops(5)] by simp
    then show ?thesis using process_stops stop_step_inv(1) [OF assms(2) process_stops(4,3)] rx(2,3) by simp
  next
    case process_polls
    have "net_wf t" using net_invD(1) [OF assms(2)] by (rule net_wf_cong) (simp_all add: process_polls net_wfD(8) [OF net_invD(1) [OF assms(2)]])
    then show ?thesis using assms(2) unfolding process_polls(1) net_inv_def in_hand_def owed_def by simp
  next
    case (memory_serves k e q pages out ms)
    then show ?thesis using process_step_inv(2) [OF assms(2) memory_serves(4) _, of out ms] services_serve(3) [OF memory_serves(5)] rx(4) by simp
  next
    case (memory_stops k e q pages dropped m)
    then show ?thesis using stop_step_inv(2) [OF assms(2) memory_stops(4,3)] rx(4) by simp
  next
    case (file_serves k e q out fs)
    then show ?thesis using process_step_inv(3) [OF assms(2) file_serves(4) _, of out fs] services_serve(4) [OF file_serves(5)] rx(5) by simp
  next
    case (file_stops k e q dropped)
    then show ?thesis using stop_step_inv(3) [OF assms(2) file_stops(4,3)] rx(5) by simp
  next
    case device_subscribes
    then show ?thesis using start_step_inv [OF assms(2)] by simp
  next
    case (device_serves d k e q order out ds)
    have k: "k = 5" using net_wfD(7) [OF net_invD(1) [OF assms(2)] device_serves(2)] .
    then show ?thesis
      using process_step_inv(4) [OF assms(2) device_serves(3) _ _ device_serves(2), of out ds] services_serve(5) [OF device_serves(4)] device_serves(1) by simp
  qed
qed

lemma launch_inv:
  assumes "boot de txt disk_img swap_img input w = Some sys" "launch P hfs sys = Some s0"
  shows "net_inv ce s0"
proof -
  have "subscribers (sys_bus sys) = [0] \<and> wired sys \<and> sys_device sys = None"
    using boot_parts [of de "txt" disk_img swap_img input w] assms(1) by (metis option.inject)
  then show ?thesis
    using assms(2) by (auto simp: launch_def bind_eq_Some_conv net_inv_def net_wf_def wired_def System.defs Running.defs)
qed

lemma sys_reach_inv: "sys_reach P ce fe s0 s \<Longrightarrow> net_inv ce s0 \<Longrightarrow> net_inv ce s"
  by (induction rule: sys_reach.induct) (auto intro: client_step_inv core_step_inv)

text \<open>
  C4. No request is lost while its service runs, and no answer of three services goes astray. After start-up, once the services
  have reached their loops, and however the threads of the kernel and the four services and the clients are interleaved:
  every request to the memory or the file service, every request to the process service but a wait, and every request
  to the device service sent after it subscribed is, at every moment, still in the kernel's queue, in the queue of
  its service, answered on its own channel with its own number, or it is the very request at which the thread of its service
  stopped, or its service has panicked and dropped its receiver. Everything the memory, file and device
  services send answers a request of their own kind that was put on the bus. The kernel and the device service never stop, and the
  process service stops only at an interrupt or at a request for a listing. Not covered are waits, device requests sent
  before the subscription, whether the process service sends more than the answers, and requests that the process service sends.
\<close>

theorem system_requests_kept:
  assumes "boot de txt disk_img swap_img input w = Some sys" "launch P hfs sys = Some s0" "sys_reach P ce fe s0 s"
  shows "(\<forall>e \<in> set (net_issued s). owed s e \<longrightarrow> in_hand ce s e) \<and>
    (\<forall>k \<in> {3, 4, 5}. \<forall>(c, resp) \<in> set (net_log s k).
       \<exists>e \<in> set (net_issued s). svc e = k \<and> asks ce e c (response_request_id resp)) \<and>
    (\<forall>k e. net_stop s k = Some e \<longrightarrow>
       k \<in> {1, 2, 3, 4} \<and> (k \<in> {1, 2} \<longrightarrow> svc e = 2 \<or> message e = ProcessMsg ListProcesses)) \<and>
    (\<forall>k \<in> net_gone s. net_stop s k \<noteq> None)"
proof -
  have inv: "net_inv ce s" using sys_reach_inv [OF assms(3) launch_inv [OF assms(1,2)]] .
  then have "net_wf s" by (rule net_invD(1))
  then have "\<forall>k e. net_stop s k = Some e \<longrightarrow>
       k \<in> {1, 2, 3, 4} \<and> (k \<in> {1, 2} \<longrightarrow> svc e = 2 \<or> message e = ProcessMsg ListProcesses)"
    "\<forall>k \<in> net_gone s. net_stop s k \<noteq> None" unfolding net_wf_def by blast+
  moreover have "\<forall>e \<in> set (net_issued s). owed s e \<longrightarrow> in_hand ce s e" using net_invD(2) [OF inv] by blast
  ultimately show ?thesis using net_invD(5) [OF inv] by blast
qed

definition no_orders :: FsEnv where
  "no_orders = \<lparr>fd_order = (\<lambda>_. []), name_order = (\<lambda>_. [])\<rparr>"

text \<open>A run: a client asks for the state of the memory, the kernel passes the request on, and the memory service answers it.\<close>

lemma demo_launch:
  assumes "boot (\<lambda>_ :: unit. None) None [] [] [] () = Some sys"
  obtains s0 where "launch silent_peers [] sys = Some s0" "net_wf s0" "net_next s0 = 1" "net_queue s0 = (\<lambda>_. [])"
    "sys_device s0 = None" "net_turn s0 = 0" "net_stop s0 = (\<lambda>_. None)"
proof -
  have sys: "subscribers (sys_bus sys) = [0]" "wired sys" "sys_device sys = None" "sys_process sys = ProcessService_new (sys_mmu sys) ()"
    using boot_parts [of "\<lambda>_ :: unit. None" None "[]" "[]" "[]" "()"] assms by (metis option.inject)+
  obtain r ps where f: "fork_impl silent_peers False 0 (sys_process sys) = Some (r, ps)"
    by (simp add: sys(4) fork_impl_def fork_fresh_def take_pid_def ProcessService_new_def ps_now_def silent_peers_def)
  show thesis
    by (rule that [of "System.extend (sys\<lparr>sys_file := sys_file sys, sys_process := ps\<rparr>)
          (Running.fields (\<lambda>_. []) (\<lambda>_. []) 1 0 (\<lambda>_. None) {} [] [])"])
       (use sys in \<open>simp_all add: launch_def f [unfolded sys(4)] net_wf_def wired_def System.defs Running.defs\<close>)
qed

definition stats_request :: Envelope where
  "stats_request = \<lparr>message = MemoryMsg MemoryGetStats, request_id = Some 1, response_channel = Some 9\<rparr>"

lemma stats_request_svc: "svc stats_request = 3" "owed s stats_request"
  by (simp_all add: owed_def svc_def stats_request_def)

lemma demo_request:
  assumes "net_wf s0" "net_next s0 = 1"
  shows "client_step s0 (added stats_request 2 s0)"
proof -
  have "subscribers (sys_bus s0) \<noteq> []" using assms(1) by (auto simp: net_wf_def)
  then have "bus_send_request (sys_bus s0) (MemoryMsg MemoryGetStats) (net_next s0) 9 =
      ((Inr 9, map (\<lambda>k. (k, stats_request)) (subscribers (sys_bus s0))), 2)"
    by (simp add: assms(2) bus_send_request_def with_response_def generate_request_id_def stats_request_def)
  from client_step.request [OF this] show ?thesis by (simp add: issue_added [OF assms(1) refl])
qed

theorem system_requests_kept_witness:
  "\<exists>sys s0 s. boot (\<lambda>_ :: unit. None) None [] [] [] () = Some sys \<and> launch silent_peers [] sys = Some s0 \<and>
     sys_reach silent_peers open_channels no_orders s0 s \<and> stats_request \<in> set (net_issued s) \<and> in_hand open_channels s stats_request"
proof -
  obtain sys where sys: "boot (\<lambda>_ :: unit. None) None [] [] [] () = Some sys" by (rule boot_parts)
  obtain s0 where s0: "launch silent_peers [] sys = Some s0" "net_wf s0" "net_next s0 = 1"
    using demo_launch [OF sys] by blast
  let ?s = "added stats_request 2 s0"
  have r: "sys_reach silent_peers open_channels no_orders s0 ?s"
    using demo_request [OF s0(2,3)] by (rule sys_reach.client [OF sys_reach.start])
  have i: "stats_request \<in> set (net_issued ?s)" by (simp add: added_def Let_def)
  have "in_hand open_channels ?s stats_request"
    using system_requests_kept [OF sys s0(1) r, THEN conjunct1] i stats_request_svc(2) by blast
  then show ?thesis using sys s0(1) r i by blast
qed

section \<open>Quiescence\<close>

text \<open>The work that is left: three for an envelope at the kernel, two for an interrupt, one for any other.\<close>

definition pending :: "'w Running \<Rightarrow> nat" where
  "pending s = 3 * length (net_queue s 0) + length (net_queue s 1) + 2 * length (net_queue s 2) + length (net_queue s 3) +
     length (net_queue s 4) + length (net_queue s 5) + net_turn s + (if sys_device s = None then 1 else 0)"

lemma core_step_pending:
  assumes "core_step P ce fe s t" "net_wf s"
  shows "pending t < pending s"
proof -
  note rx = net_wfD(1-7) [OF assms(2)]
  show ?thesis
    using assms(1)
  proof cases
    case (kernel_routes k e q)
    then show ?thesis using rx(1,6) svc_range [of e] by (auto simp: pending_def post_def route_sent)
  next
    case (device_serves d k e q order out ds)
    then show ?thesis using rx(7) by (simp add: pending_def took_def)
  next
    case device_subscribes
    then show ?thesis by (simp add: pending_def device_start_def split: prod.split)
  qed (simp_all add: pending_def net_defs rx(1-5))
qed

lemma core_steps_bounded:
  "(core_step P ce fe ^^ n) s t \<Longrightarrow> net_inv ce s \<Longrightarrow> n + pending t \<le> pending s \<and> net_inv ce t"
proof (induction n arbitrary: t)
  case (Suc n)
  then obtain u where u: "(core_step P ce fe ^^ n) s u" "core_step P ce fe u t" by auto
  have inv: "n + pending u \<le> pending s" "net_inv ce u" using Suc.IH [OF u(1) Suc.prems(2)] by auto
  show ?case using core_step_pending [OF u(2) net_invD(1) [OF inv(2)]] core_step_inv [OF u(2) inv(2)] inv(1) by simp
qed simp

text \<open>When no step is possible, the kernel and the device service have nothing left, nor has any thread that did not stop.\<close>

lemma idle_queues:
  assumes "net_wf t" "\<nexists>u. core_step P ce fe t u"
  shows "net_queue t 0 = []" "net_queue t 5 = []" "k \<in> {1, 3, 4} \<Longrightarrow> net_stop t k = None \<Longrightarrow> net_queue t k = []"
proof -
  note rx = net_wfD [OF assms(1)]
  show "net_queue t 0 = []"
  proof (cases "net_queue t 0")
    case (Cons e q)
    from core_step.kernel_routes [OF rx(1) [symmetric] this] assms(2) show ?thesis by blast
  qed
  show "net_queue t 5 = []"
  proof (cases "sys_device t")
    case None
    then show ?thesis using core_step.device_subscribes assms(2) by blast
  next
    case (Some a)
    then obtain d where d: "sys_device t = Some (d, 5)" using rx(7) by (cases a) auto
    show ?thesis
    proof (cases "net_queue t 5")
      case (Cons e q)
      obtain out ds where "ds_handle ce (e, []) d = Some (out, ds)"
        by (cases "ds_handle_envelope ce [] e d") (simp add: ds_handle_def)
      from core_step.device_serves [OF d Cons this] assms(2) show ?thesis by blast
    qed
  qed
  assume k: "k \<in> {1, 3, 4}" "net_stop t k = None"
  show "net_queue t k = []"
  proof (rule ccontr)
    assume "net_queue t k \<noteq> []"
    then obtain e q where q: "net_queue t k = e # q" by (cases "net_queue t k") auto
    consider "k = sys_process_rx t" | "k = sys_memory_rx t" | "k = sys_file_rx t" using k(1) rx(2,4,5) by auto
    then show False
    proof cases
      case 1
      then show False using assms(2) core_step.process_serves [OF 1 k(2) q] core_step.process_stops [OF 1 k(2) q] by (metis option.exhaust surj_pair)
    next
      case 2
      then show False using assms(2) core_step.memory_serves [OF 2 k(2) q] core_step.memory_stops [OF 2 k(2) q] by (metis option.exhaust surj_pair)
    next
      case 3
      then show False using assms(2) core_step.file_serves [OF 3 k(2) q] core_step.file_stops [OF 3 k(2) q] by (metis option.exhaust surj_pair)
    qed
  qed
qed


lemma stats_request_served: "\<exists>out ms. ms_handle ce (stats_request, []) m = Some (out, ms)"
  by (simp add: ms_handle_def handle_envelope_def stats_request_def expects_response_def handle_memory_request_with_response_def Let_def)

lemma empty_idle:
  assumes "net_queue t = (\<lambda>_. [])" "sys_device t \<noteq> None" "net_turn t = 0"
  shows "\<nexists>u. core_step P ce fe t u"
  using assms by (auto elim!: core_step_cases)

text \<open>The kernel routes, the memory service answers, and the device service subscribes.\<close>

lemma demo_steps:
  fixes s :: "'w Running"
  assumes "net_wf s" "net_queue s = (\<lambda>k. if k = 0 then [stats_request] else [])" "sys_device s = None" "net_turn s = 0"
    and "net_stop s = (\<lambda>_. None)"
  shows "\<exists>t. (core_step P ce fe ^^ 3) s t \<and> (\<nexists>u. core_step P ce fe t u) \<and> net_issued t = net_issued s \<and> net_stop t = (\<lambda>_. None)"
proof -
  note rx = net_wfD [OF assms(1)]
  let ?s1 = "post (route (sys_kernel s) stats_request) (s\<lparr>net_queue := (net_queue s)(0 := [])\<rparr>)"
  have 1: "core_step P ce fe s ?s1" by (rule core_step.kernel_routes) (simp_all add: assms(2) rx(1))
  have gone: "3 \<notin> net_gone s" by (rule rx(11)) (simp add: assms(5))
  have q1: "net_queue ?s1 = (\<lambda>j. if j = 3 then [stats_request] else [])"
    using gone stats_request_svc(1) by (auto simp: post_def rx(6) route_sent assms(2) fun_eq_iff)
  obtain out ms where ms: "ms_handle ce (stats_request, []) (sys_memory ?s1) = Some (out, ms)"
    using stats_request_served by blast
  let ?s2 = "took 3 [] out (set_memory ms ?s1)"
  have 2: "core_step P ce fe ?s1 ?s2"
    by (rule core_step.memory_serves [OF _ _ _ ms]) (simp_all add: q1 [simplified] rx(4) assms(5) post_def rx(6) route_sent gone stats_request_svc(1) assms(2))
  have q2: "net_queue ?s2 = (\<lambda>_. [])" using q1 by (auto simp: took_def set_memory_def fun_eq_iff)
  have dev: "sys_device ?s2 = None" by (simp add: net_defs assms(3))
  have 3: "core_step P ce fe ?s2 (device_start ?s2)" by (rule core_step.device_subscribes [OF dev])
  have "\<nexists>u. core_step P ce fe (device_start ?s2) u"
    by (rule empty_idle) (use q2 in \<open>simp_all add: device_start_def bus_subscribe_def net_defs assms(4)\<close>)
  moreover have "net_issued (device_start ?s2) = net_issued s" "net_stop (device_start ?s2) = (\<lambda>_. None)"
    by (simp_all add: device_start_def bus_subscribe_def net_defs assms(5))
  moreover have "(core_step P ce fe ^^ 3) s (device_start ?s2)" using 1 2 3 by (auto simp: numeral_3_eq_3)
  ultimately show ?thesis by blast
qed


end
