(* ===== verification/Spec2Isabelle.thy ===== *)
theory Spec2Isabelle
  imports Program_Run IVT File_Service Hw_Timer Hw_Device Block_Device Device_Service Process_Tree Process_Exec Process_Sync
    System_Run
begin

text \<open>
  Verification of Genshin-OS, a microkernel operating system simulated in Rust (\<^verbatim>\<open>src/src\<close>).

  \<^bold>\<open>The program.\<close> Simulated hardware (memory, MMU, CPU, disk, timer, devices) sits below four services that talk
  over a message bus. A message is wrapped in an envelope, with a number and a channel when it expects an answer;
  the kernel reads the bus and passes each envelope to the queue of its service. Programs are assembled from text,
  loaded into page frames and executed by the CPU, whose page faults the memory service resolves by giving out
  frames or by evicting pages to swap sectors of the disk. The file service keeps a tree of nodes and stores file
  contents in runs of disk sectors. The process service owns process blocks, scheduler, semaphores, locks, message
  queues and shared memory, runs programs at each timer tick and serves their system calls. The shell turns typed lines
  into requests.

  \<^bold>\<open>Theories and sources.\<close>
  \<^item> \<^verbatim>\<open>OS_Prelude\<close>: integer types, results, vectors and byte order of the Rust standard library, shared lemmas.
    \<^verbatim>\<open>Text_Format\<close>: string functions and number formats. \<^verbatim>\<open>Utf8\<close>: lossy decoding of text.
  \<^item> \<^verbatim>\<open>Messages\<close>, \<^verbatim>\<open>Error_Format\<close>: the vocabulary of \<^verbatim>\<open>messaging/msg.rs\<close>, \<^verbatim>\<open>messaging/response.rs\<close>, \<^verbatim>\<open>error.rs\<close>.
    \<^verbatim>\<open>Bus_Kernel\<close>: \<^verbatim>\<open>messaging/bus.rs\<close> and \<^verbatim>\<open>services/kernel.rs\<close>. \<^verbatim>\<open>Service_Loop\<close>: the loop that the services share,
    with the locales \<open>responding_service\<close> and \<open>answering_service\<close>.
  \<^item> Hardware: \<^verbatim>\<open>Physical_Memory\<close> (\<^verbatim>\<open>hardware/memory.rs\<close>), \<^verbatim>\<open>MMU\<close>, \<^verbatim>\<open>CPU\<close>, \<^verbatim>\<open>IVT\<close>, \<^verbatim>\<open>Virtual_Disk\<close> (\<^verbatim>\<open>hardware/disk.rs\<close>),
    \<^verbatim>\<open>Block_Device\<close> (\<^verbatim>\<open>hardware/block.rs\<close>), \<^verbatim>\<open>Hw_Timer\<close> (\<^verbatim>\<open>hardware/timer.rs\<close>), \<^verbatim>\<open>Hw_Device\<close> (\<^verbatim>\<open>hardware/device.rs\<close>).
  \<^item> Memory service: \<^verbatim>\<open>Slot_Pool\<close> (the contract that frames and swap slots share), \<^verbatim>\<open>Frame_Allocator\<close> (\<^verbatim>\<open>alloc.rs\<close>),
    \<^verbatim>\<open>Swap\<close> (\<^verbatim>\<open>swap.rs\<close>), \<^verbatim>\<open>Paging\<close> (\<^verbatim>\<open>paging.rs\<close>), \<^verbatim>\<open>Memory_Service\<close> (\<^verbatim>\<open>service.rs\<close> of \<^verbatim>\<open>services/memory\<close>).
  \<^item> File service: \<^verbatim>\<open>VFS\<close> (\<^verbatim>\<open>vfs.rs\<close>), \<^verbatim>\<open>File_Data\<close> (\<^verbatim>\<open>file.rs\<close>), \<^verbatim>\<open>Descriptor\<close> (\<^verbatim>\<open>descriptor.rs\<close>),
    \<^verbatim>\<open>File_Service\<close> (\<^verbatim>\<open>service.rs\<close> of \<^verbatim>\<open>services/file\<close>).
  \<^item> Device service: \<^verbatim>\<open>Device_Manager\<close> (\<^verbatim>\<open>device.rs\<close>, \<^verbatim>\<open>driver.rs\<close>, \<^verbatim>\<open>manager.rs\<close>), \<^verbatim>\<open>Device_Service\<close> (\<^verbatim>\<open>service.rs\<close> of
    \<^verbatim>\<open>services/device\<close>).
  \<^item> Processes: \<^verbatim>\<open>Assembler\<close>, \<^verbatim>\<open>Scheduler\<close>, \<^verbatim>\<open>Sync\<close>, \<^verbatim>\<open>PCB\<close>, \<^verbatim>\<open>IPC\<close> (the files of that name in \<^verbatim>\<open>services/process\<close>).
    \<^verbatim>\<open>Program_Run\<close>: the meaning of listings and runs of the processor.
  \<^item> Process service (\<^verbatim>\<open>services/process/service.rs\<close>): \<^verbatim>\<open>Process_Core\<close> (state, creating, forking, loading, reaping),
    \<^verbatim>\<open>Process_Syscalls\<close> (system calls), \<^verbatim>\<open>Process_Service\<close> (timer tick, reports, requests, main loop); proofs in
    \<^verbatim>\<open>Process_Invariant\<close> (the state), \<^verbatim>\<open>Process_Tree\<close> (the listing), \<^verbatim>\<open>Process_Exec\<close> (loading with the memory service),
    \<^verbatim>\<open>Process_Sync\<close> (semaphore system calls, served requests).
  \<^item> User interface: \<^verbatim>\<open>Monitor\<close> (\<^verbatim>\<open>ui/monitor.rs\<close>); for the shell (\<^verbatim>\<open>ui/shell\<close>) \<^verbatim>\<open>Shell_Parser\<close> (\<^verbatim>\<open>parser.rs\<close>, \<^verbatim>\<open>builtins.rs\<close>), \<^verbatim>\<open>Shell\<close> (\<^verbatim>\<open>mod.rs\<close>), \<^verbatim>\<open>Shell_Debug\<close> (proofs on
    the debugger and on sessions).
  \<^item> The whole: \<^verbatim>\<open>Startup\<close> (\<^verbatim>\<open>main.rs\<close>) and \<^verbatim>\<open>System_Run\<close>, the kernel, the services and clients running in any order
    over the queues that start-up connects.

  \<^bold>\<open>How the model corresponds to the code.\<close> A struct is a record with the fields of the source (prefixed where two
  structs share a field name), an enum is a datatype, a method is a definition on the record that returns the
  result together with the updated record. Errors are values; an operation of a service that can panic or block
  for ever returns an option or a datatype with a constructor for it. Maps whose iteration order the code depends
  on take that order as an argument. Shared objects (open files, registered devices, disks) live in a store or are
  passed through. Code that runs concurrently without a common lock (semaphores, mutexes, timer threads) is modelled
  as interleaved atomic steps. Channels belong to the library crossbeam and serialisation to serde: they are
  arguments, with the properties that the proofs need as hypotheses. The process service and the shell see the services
  they ask as a record of functions on a state, which is instantiated by the memory service where both are composed.

  \<^bold>\<open>Interfaces.\<close> The locales \<open>byte_store\<close>, \<open>sector_store\<close>, \<open>block_store\<close> with \<open>partitioned\<close>, \<open>slot_pool\<close>,
  \<open>instruction_codec\<close>, \<open>path_store\<close>, \<open>fifo_port\<close>, \<open>memory_peer\<close>, \<open>responding_service\<close> and \<open>answering_service\<close> state what one part promises another, and
  are interpreted on the definitions of the model.

  \<^bold>\<open>What is shown.\<close>
  \<^item> Execution: assembled programs run like their listings, and so do processes created
    from source files through the process and memory services (this theory) and programs in the debugger; printed programs reassemble; steps of the
    CPU have precise exceptions; processes with disjoint frames cannot disturb each other.
  \<^item> Memory: frames and swap slots are handed out exclusively and all-or-nothing; serving page faults keeps
    ownership and disjointness of frames and saves the contents of evicted pages.
  \<^item> Storage: allocation of sector runs is sound and complete; the bitmap survives reopening; saved files are read
    back and do not disturb each other; partitions are isolated.
  \<^item> Files: the node table implements a map of paths, is a tree, and survives saving and loading; descriptors
    are isolated between processes.
  \<^item> Processes: round robin is exact and the scheduler loses nothing, processors never share a process; semaphores conserve
    their count under every interleaving, while two callers can both be told that they took a mutex; message queues
    are FIFO; shared memory in use is not removed. The process service keeps its tables consistent in every run; its
    listing shows every process once; the semaphore system calls take, block, wake and give back as they should.
  \<^item> Devices: exclusive use is exclusive; the clipboard round trip; a stopped timer falls silent.
  \<^item> Services: requests are answered on their own channel with their own number; the requests of the process service, but
    a listing, always return.
  \<^item> Shell: every list of non-empty words can be typed, in either kind of quotes; relative paths follow components; sessions
    without the debugger end, at the first blank line, exit or quit. The monitor has a row with the right number and frames for every
    process, and shows its state and name where these are single words.
  \<^item> The whole system: start-up succeeds and connects every service to the receiver for its requests, the device service once its
    thread has subscribed; under every interleaving a request other than a wait stays queued until it is answered, unless the thread of its
    service stops; when clients stop, the system settles with every such request answered whose service did not stop.

  \<^bold>\<open>Bounds and fuel.\<close> Recursion follows the data everywhere; the dequeuing loop of the scheduler takes the queue length
  as its bound, as the source does, and searches of the allocators run over index ranges. Service loops are
  functions of the finite list of envelopes received. The process listing takes the stack depth as an argument and is shown
  to finish when it exceeds the depth of the tree; the loop of the debugger is a partial function whose value is \<open>None\<close>
  when it runs for ever; the interactive loop recurses on the remaining input. Hypotheses such as fewer than \<open>2 ^ 32\<close> allocations or file
  sizes up to \<open>2 ^ 40\<close> exclude the wrap-around of counters and are stated where they are needed.

  \<^bold>\<open>Not modelled.\<close> The drawing of the monitor by the library ratatui; the method \<^verbatim>\<open>print_tree_recursive\<close> of the shell,
  which nothing calls; module declarations and the logging macro; poisoned mutexes, wall-clock times that no code reads, and
  console output. In the running system, requests that the process service itself sends are answered within its step instead
  of passing through the queues; a request may be taken while an interrupt is queued, as when the interrupt came after the thread
  had looked for one; whether a thread that stops hangs or panics is left open; and services whose start before the loop does not return are excluded by hypothesis. Strings are sequences of single-byte characters except where UTF-8 is decoded.
\<close>

section \<open>From source text to execution\<close>

text \<open>
  C1. The toolchain is correct. When the assembled bytes of a listing without stores lie at an aligned
  address the process can read, the processor executes the program the listing denotes: \<open>n\<close> instructions
  run from the listing, jumps, comparisons, loads and interrupts included, are \<open>n\<close> error-free steps of
  the processor with the same registers, flags, memory, messages and instruction count.
\<close>

theorem program_runs:
  assumes "assemble (listing is) = Inr code" "loaded c base code" "list_all (\<lambda>i. \<not> is_store i) is"
    and "cpu_wf c" "4 dvd page_size (mmu c)" "4 dvd unat base" "run_listing base is n c = Some c'"
  shows "run_cpu n c = (Inr (), c')"
  by (rule listing_runs [OF assms])

theorem program_runs_witness:
  "\<exists>c'. run_cpu 1 halt_cpu = (Inr (), c') \<and> halted c'"
proof -
  have code: "assemble (listing [Halt]) = Inr [0xFF, 0, 0, 0, 0, 0, 0, 0]"
    using assemble_listing_eq [of "[Halt]"] by (simp add: encode_def OP_HALT_def to_le_def)
  have ld: "loaded halt_cpu 0 [0xFF, 0, 0, 0, 0, 0, 0, 0]"
    using halt_cpu_code by (simp add: loaded_def code_at_def halt_cpu_def VirtualCPU_new_def)
  obtain c' where c': "run_listing 0 [Halt] 1 halt_cpu = Some c'" "halted c'"
    by (simp add: line_at_def halt_cpu_def VirtualCPU_new_def cpu_halt_def)
  have "run_cpu 1 halt_cpu = (Inr (), c')"
    by (rule program_runs [OF code ld _ halt_cpu_wf _ _ c'(1)])
       (simp_all add: is_store_def halt_cpu_def VirtualCPU_new_def demo_mmu_def)
  with c'(2) show ?thesis by blast
qed

text \<open>
  C2. From source file to running process, across the process service, the memory service, the MMU, the assembler and the
  processor. When a listing without stores of at most 512 instructions is stored as a program file and a frame is free,
  creating a process of that name succeeds, under the next process number; the process is ready and waits for a
  processor; its processor, started on the memory the services have set up, executes the program the listing
  denotes, error-free and for every number of instructions the listing defines; and no byte that any other process can
  read has changed.
\<close>

theorem created_process_runs:
  assumes "asm_source B (snd (world s)) (''programs/'' @ exe @ ''.asm'') = Some (listing is)"
    and "is \<noteq> []" "length is \<le> 512" "list_all (\<lambda>i. \<not> is_store i) is" "assemble (listing is) = Inr code"
    and "memory_usable (ps_mmu s) (world s)" "page_tables (ps_mmu s) (next_pid s) = None"
  shows "\<exists>s' c. create_process (with_memory B) exe [] s = Some (Inr (next_pid s), s') \<and>
     state_of (next_pid s) s' = Some PReady \<and>
     waiting (ps_scheduler s') = add_mset (next_pid s, 1) (waiting (ps_scheduler s)) \<and>
     cpus s' (next_pid s) = Some c \<and> pc c = 0 \<and>
     (\<forall>n c'. run_listing 0 is n (c\<lparr>mmu := ps_mmu s'\<rparr>) = Some c' \<longrightarrow> run_cpu n (c\<lparr>mmu := ps_mmu s'\<rparr>) = (Inr (), c')) \<and>
     (\<forall>q v. q \<noteq> next_pid s \<longrightarrow> mmu_read_u8 (ps_mmu s') q v = mmu_read_u8 (ps_mmu s) q v)"
proof -
  let ?p = "next_pid s"
  have "code = concat (map encode_instr is)" using assms(2,5) assemble_listing_eq by simp
  then have len: "length code = 8 * length is" using isa.length_program [of "is"] by simp
  have pcode: "program_code (with_memory B) exe [] s = Some code"
    using assms(1,5) by (simp add: program_code_def load_program_def with_memory_def)
  obtain s' where s': "create_process (with_memory B) exe [] s = Some (Inr ?p, s')"
    "cpus s' ?p = Some (started_cpu (ps_mmu s) ?p)" "state_of ?p s' = Some PReady"
    "\<And>j. j < length code \<Longrightarrow> mmu_read_u8 (ps_mmu s') ?p (of_nat j) = Inr (code ! j)"
    "\<And>q v. q \<noteq> ?p \<Longrightarrow> mmu_read_u8 (ps_mmu s') q v = mmu_read_u8 (ps_mmu s) q v"
    "mmu_wf (ps_mmu s')" "page_size (ps_mmu s') = 4096"
    "waiting (ps_scheduler s') = add_mset (?p, 1) (waiting (ps_scheduler s))"
    by (rule create_process_loads [OF pcode _ _ assms(6,7)]) (use len assms(2,3) in auto)
  let ?c = "(started_cpu (ps_mmu s) ?p)\<lparr>mmu := ps_mmu s'\<rparr>"
  have cpu: "pc (started_cpu (ps_mmu s) ?p) = 0" "current_pid ?c = ?p" "length (registers ?c) = 4"
    by (simp_all add: started_cpu_def set_pc_def set_sp_def VirtualCPU_new_def)
  have "loaded ?c 0 code" "cpu_wf ?c" "4 dvd page_size (mmu ?c)"
    using s'(4,6,7) cpu by (simp_all add: loaded_def cpu_wf_def reg_count_def)
  then have "run_cpu n ?c = (Inr (), c')" if "run_listing 0 is n ?c = Some c'" for n c'
    using listing_runs [OF assms(5) _ assms(4) _ _ _ that] by simp
  then show ?thesis using s' cpu(1) by blast
qed

text \<open>A machine with two free frames and a program that halts.\<close>

definition halt_peers :: "unit Peers" where
  "halt_peers = silent_peers\<lparr>asm_source := (\<lambda>_ f. if f = ''programs/stop.asm'' then Some (listing [Halt]) else None)\<rparr>"

definition halt_service :: "(MemoryService option \<times> unit) ProcessService" where
  "halt_service = ProcessService_new (hw_mmu demo_ms) (Some demo_ms, ())"

theorem created_process_runs_witness:
  "\<exists>s' c c'. create_process (with_memory halt_peers) ''stop'' [] halt_service = Some (Inr 1, s') \<and> cpus s' 1 = Some c \<and>
     run_cpu 1 (c\<lparr>mmu := ps_mmu s'\<rparr>) = (Inr (), c') \<and> halted c'"
proof -
  have code: "assemble (listing [Halt]) = Inr [0xFF, 0, 0, 0, 0, 0, 0, 0]"
    using assemble_listing_eq [of "[Halt]"] by (simp add: encode_def OP_HALT_def to_le_def)
  have us: "memory_usable (ps_mmu halt_service) (world halt_service)"
    using demo_ms_wf(1) demo_ms_allocator demo_ms_new(3)
    by (auto simp: memory_usable_def halt_service_def ProcessService_new_def ms_wf_def)
  have "next_pid halt_service = 1" "page_tables (ps_mmu halt_service) 1 = None"
    by (simp_all add: halt_service_def ProcessService_new_def demo_ms_wf(2))
  with created_process_runs [of halt_peers halt_service "''stop''" "[Halt]", OF _ _ _ _ code us] obtain s' c where
    s': "create_process (with_memory halt_peers) ''stop'' [] halt_service = Some (Inr 1, s')" "cpus s' 1 = Some c" "pc c = 0"
    "\<And>n c'. run_listing 0 [Halt] n (c\<lparr>mmu := ps_mmu s'\<rparr>) = Some c' \<Longrightarrow> run_cpu n (c\<lparr>mmu := ps_mmu s'\<rparr>) = (Inr (), c')"
    by (auto simp: halt_peers_def is_store_def)
  have c: "c = started_cpu (hw_mmu demo_ms) 1"
  proof -
    have "program_code (with_memory halt_peers) ''stop'' [] halt_service = Some [0xFF, 0, 0, 0, 0, 0, 0, 0]"
      using code by (simp add: program_code_def load_program_def with_memory_def halt_peers_def)
    from create_process_loads [OF this _ _ us] s'(1,2) \<open>next_pid halt_service = 1\<close> \<open>page_tables (ps_mmu halt_service) 1 = None\<close>
    show ?thesis by (fastforce simp: halt_service_def ProcessService_new_def)
  qed
  obtain c' where "run_listing 0 [Halt] 1 (c\<lparr>mmu := ps_mmu s'\<rparr>) = Some c'" "halted c'"
    by (simp add: c line_at_def started_cpu_def set_pc_def set_sp_def VirtualCPU_new_def cpu_halt_def)
  with s'(1,2) s'(4) show ?thesis by blast
qed

end
